(* ===== verification/Prelude.thy ===== *)
theory Prelude
  imports Main "HOL-Library.Word" "HOL-Library.State_Monad"
begin

text \<open>
  Shared vocabulary of the development: the machine integer types of the C firmware and of the
  hardware description, the collections of facts that the component proofs draw on, and the
  generic lemmas on words and lists that several components use.
\<close>

unbundle bit_operations_syntax

type_synonym u8 = "8 word"
type_synonym u32 = "32 word"
type_synonym u64 = "64 word"

named_theorems acct_intros "syntax-directed rules of the error-accounting judgement"
named_theorems acct_sub_intros "rules for a callee that counts its own errors from zero"
named_theorems weight_simps "which external calls report an error count"

section \<open>Index lists\<close>

text \<open>The values a counter \<open>uint32_t i\<close> takes in \<open>for (i = 0; i < n; i++)\<close>.\<close>

definition idx :: "nat \<Rightarrow> u32 list" where
  "idx n = map word_of_nat [0..<n]"

lemma idx_0 [simp]: "idx 0 = []"
  by (simp add: idx_def)

lemma idx_Suc: "idx (Suc n) = idx n @ [word_of_nat n]"
  by (simp add: idx_def)

lemma length_idx [simp]: "length (idx n) = n"
  by (simp add: idx_def)

lemma nth_idx [simp]: "i < n \<Longrightarrow> idx n ! i = word_of_nat i"
  by (simp add: idx_def)

section \<open>Bit facts on words\<close>

lemma and_mask_le: "unat (x AND m) \<le> unat (m :: 'a::len word)"
  using word_and_le1 [of x m] by (simp add: word_le_nat_alt)

lemma and_zero_bitD:
  fixes a c :: "'a::len word"
  assumes "a AND c = 0" and "bit a n"
  shows "\<not> bit c n"
proof -
  have "\<not> bit (a AND c) n" by (simp add: assms(1))
  with assms(2) show ?thesis by (simp add: bit_and_iff)
qed

text \<open>Setting bits and then clearing others leaves the set bits that are not cleared.\<close>

lemma set_then_clear_keeps:
  fixes a s c :: "'a::len word"
  assumes "s AND c = 0"
  shows "((a OR s) AND NOT c) AND s = s"
  by (rule bit_word_eqI) (auto simp: bit_simps dest: and_zero_bitD [OF assms])

lemma clear_then_none:
  fixes a c :: "'a::len word"
  shows "(a AND NOT c) AND c = 0"
  by (rule bit_word_eqI) (auto simp: bit_simps)

lemma clear_keeps:
  fixes x s e :: "'a::len word"
  assumes "x AND e = e" and "s AND e = 0"
  shows "(x AND NOT s) AND e = e"
proof -
  have "bit x n" if "bit e n" for n
    using that arg_cong [OF assms(1), of "\<lambda>w. bit w n"] by (simp add: bit_and_iff)
  with and_zero_bitD [OF assms(2)] show ?thesis by (intro bit_word_eqI) (auto simp: bit_simps)
qed

lemma clear_keeps_none:
  fixes x s c :: "'a::len word"
  assumes "x AND c = 0"
  shows "(x AND NOT s) AND c = 0"
  by (rule bit_word_eqI) (auto simp: bit_simps dest: and_zero_bitD [OF assms])

lemma set_keeps:
  fixes x c e :: "'a::len word"
  assumes "x AND e = e"
  shows "(x OR c) AND e = e"
proof -
  have "bit x n" if "bit e n" for n
    using that arg_cong [OF assms, of "\<lambda>w. bit w n"] by (simp add: bit_and_iff)
  then show ?thesis by (intro bit_word_eqI) (auto simp: bit_simps)
qed

lemma set_then_all:
  fixes x c :: "'a::len word"
  shows "(x OR c) AND c = c"
  by (rule bit_word_eqI) (auto simp: bit_simps)

lemma xor_zeroD: "v XOR w = 0 \<Longrightarrow> v = (w :: 'a::len word)"
  by (auto simp: bit_eq_iff bit_simps)

text \<open>Counting up from zero; \<open>upt_rec_numeral\<close> continues.\<close>

lemma upt_from_0: "2 < (numeral n :: nat) \<Longrightarrow> [0..<numeral n] = 0 # 1 # [2..<numeral n]"
  using upt_rec [of 0 "numeral n"] upt_rec [of 1 "numeral n"] by (auto simp: numeral_2_eq_2)

section \<open>Parity of a list of bits\<close>

text \<open>The reduction operator \<open>^\<close> of the hardware description.\<close>

primrec red_xor :: "bool list \<Rightarrow> bool" where
  "red_xor [] = False"
| "red_xor (b # bs) = (b \<noteq> red_xor bs)"

lemma red_xor_flip: "i < length bs \<Longrightarrow> red_xor (bs[i := \<not> bs ! i]) = (\<not> red_xor bs)"
  by (induction bs arbitrary: i) (auto split: nat.splits)

lemma red_xor_append [simp]: "red_xor (bs @ cs) = (red_xor bs \<noteq> red_xor cs)"
  by (induction bs) auto

text \<open>Parity is linear: the parity of a sum is the sum of the parities.\<close>

lemma red_xor_sum:
  "red_xor (map (\<lambda>i. f i \<noteq> g i) is) = (red_xor (map f is) \<noteq> red_xor (map g is))"
  by (induction "is") auto

text \<open>The positions that occur in one of two ascending lists but not in both.\<close>

fun symdiff :: "'a::linorder list \<Rightarrow> 'a list \<Rightarrow> 'a list" where
  "symdiff [] ys = ys"
| "symdiff (x # xs) [] = x # xs"
| "symdiff (x # xs) (y # ys) =
    (if x < y then x # symdiff xs (y # ys)
     else if y < x then y # symdiff (x # xs) ys else symdiff xs ys)"

lemma red_xor_symdiff:
  "red_xor (map f (symdiff xs ys)) = (red_xor (map f xs) \<noteq> red_xor (map f ys))"
  by (induction xs ys rule: symdiff.induct) auto

section \<open>Concatenation of bits\<close>

text \<open>
  A concatenation of the hardware description, least significant bit first, and the part \<open>[lo +: n]\<close>
  of a vector.
\<close>

definition cat_bits :: "bool list \<Rightarrow> 'a::len word" where
  "cat_bits bs = horner_sum of_bool 2 bs"

definition part :: "nat \<Rightarrow> nat \<Rightarrow> 'a::len word \<Rightarrow> bool list" where
  "part lo n w = map (bit w) [lo..<lo + n]"

lemma bit_cat_bits [bit_simps]:
  "bit (cat_bits bs :: 'a::len word) n \<longleftrightarrow> n < LENGTH('a) \<and> n < length bs \<and> bs ! n"
  by (auto simp: cat_bits_def bit_horner_sum_bit_word_iff)

lemma length_part [simp]: "length (part lo n w) = n"
  by (simp add: part_def)

lemma nth_part [simp]: "i < n \<Longrightarrow> part lo n w ! i = bit w (lo + i)"
  by (simp add: part_def)

lemma cat_part [simp]: "cat_bits (part 0 LENGTH('a) w) = (w :: 'a::len word)"
  by (rule bit_word_eqI) (simp add: bit_simps)

lemma cat_xor:
  "cat_bits (map f xs) XOR cat_bits (map g xs) = cat_bits (map (\<lambda>x. f x \<noteq> g x) xs)"
  by (rule bit_word_eqI) (auto simp: bit_simps)

lemma part_xor: "part lo n (v XOR w) = map (\<lambda>i. bit v i \<noteq> bit w i) [lo..<lo + n]"
  by (simp add: part_def bit_xor_iff)

section \<open>Codes under upsets\<close>

definition flipped :: "'a :: len word \<Rightarrow> nat" where
  "flipped m = length (filter (bit m) [0..<LENGTH('a)])"

text \<open>An upset of fewer bits than the distance of the code words leaves the code.\<close>

lemma xor_leaves:
  assumes "list_all (\<lambda>a. list_all (\<lambda>b. a = b \<or> k \<le> flipped (a XOR b)) cs) cs"
    and "c \<in> set cs" and "m \<noteq> 0" and "flipped m < k"
  shows "c XOR m \<notin> set cs"
proof
  assume "c XOR m \<in> set cs"
  moreover have "\<forall>a \<in> set cs. \<forall>b \<in> set cs. a = b \<or> k \<le> flipped (a XOR b)"
    using assms(1) by (simp add: list_all_iff)
  ultimately have "c = c XOR m \<or> k \<le> flipped (c XOR (c XOR m))" using assms(2) by blast
  moreover have "c XOR (c XOR m) = m" by (simp add: xor.assoc [symmetric])
  ultimately have "c = c XOR m" using assms(4) by simp
  then show False using \<open>c XOR (c XOR m) = m\<close> assms(3) by simp
qed

end
