(* ===== verification/Platform.thy ===== *)
theory Platform
  imports Prelude
begin

text \<open>
  The environment of the C test firmware (\<open>src/verif/l3\<close>). The firmware calls a board support
  library (\<open>bifrost.h\<close>) and driver classes (\<open>SINC_DRIVER\<close>, \<open>DMB_DRIVER\<close>, \<open>CCS_DRIVER\<close>, ...)
  whose sources are not part of the repository. Every such call is a constructor of the type
  \<open>call\<close>, with the arguments the callee sees; what the call does and returns is a parameter of
  the model, the \<open>platform\<close>. The values of the preprocessor constants of the missing headers are
  a second parameter, a valuation of the type \<open>macro\<close>.

  A program is a computation of the state monad over the machine state \<open>mach\<close>: the platform's
  own state, the log of the external calls made so far (newest first, each with its reply) and
  the execution status. Leaving \<open>RUN_TEST\<close> by \<open>return\<close>, the endless loop \<open>while(1);\<close> in which
  a test waits for the reset it requested, undefined behaviour of C and running out of the fuel
  of a polling loop are values of the status; once the status is not \<open>Running\<close> no further call
  is made.
\<close>

section \<open>Constants of the headers that are not in the repository\<close>

text \<open>The register accessors of \<open>SINC_DRIVER\<close>, named by the register they read or write.\<close>

datatype (plugins only: code) sinc_reg =
    R_cmd | R_status | R_block_encr_num | R_num_of_blocks | R_block_encr_addr | R_block_encr_key
  | R_aes_iv_nonce_0 | R_aes_iv_nonce_1 | R_aes_iv_nonce_2
  | R_ext_block_base_addr | R_ext_auth_tag_base_addr
  | R_hit_cntr_lower | R_hit_cntr_upper | R_miss_cntr_lower | R_miss_cntr_upper
  | R_lat_cntr_lower | R_lat_cntr_upper | R_perf_cntr_ctrl
  | R_aes_test_data_in_0 | R_aes_test_data_in_1 | R_aes_test_data_in_2 | R_aes_test_data_in_3
  | R_aes_test_data_out_0 | R_aes_test_data_out_1 | R_aes_test_data_out_2 | R_aes_test_data_out_3
  | R_aes_test_ctrl | R_aes_test_status | R_encr_block_status

datatype (plugins only: code) macro =
    SSY_HSP_SHAREDRAM_BASE_ADDR | SSY_HSP_SHAREDRAM_MAX_ADDR
  | SSY_CPU0_MEMORY_DEF_HSP_CIRAM_ADDRESS | SSY_CPU0_MEMORY_DEF_HSP_CIRAM_DEPTH
  | SSY_CPU0_MEMORY_DEF_HSP_CIRAM_WIDTH
  | SSY_CPU0_MEMORY_DEF_HSP_IRAM_ADDRESS | SSY_CPU0_MEMORY_DEF_HSP_IRAM_DEPTH
  | SSY_CPU0_MEMORY_DEF_HSP_IRAM_WIDTH
  | SSY_HSP_HW_MEM_EXT_MEM_SIZE | SSY_HSP_KSU_NUM_KEYS
  | SSY_HSP_MPU_SPCIRAM_PRIVILEGE_ATTRIB_0 | SSY_HSP_MPU_SPCIRAM_USER_ATTRIB_0
  | SYS_SRAM4_BASE_ADDR | SYS_SRAM2_BASE_ADDR
  | KSU_ATTR_IS_DEVICE_SECRET | KSU_ATTR_AES_ENCRYPT_ALLOWED | KSU_ATTR_AES_DECRYPT_ALLOWED
  | KSU_ATTR_KEY_SIZE_384 | KSU_ATTR_SAVE_KEY_ALLOWED | KSU_ATTR_IS_EPHEMERAL_KEY
  | SINC_STATE_DISABLED | SINC_STATE_INITIALIZED | SINC_STATE_CACHE_ACTIVE
  | SINC_STATE_CACHE_FAILED
  | SINC_STATUS_NO_ERROR | SINC_STATUS_INVALID_CMD_ERR | SINC_STATUS_RNG_SEED_R_ERR
  | SINC_STATUS_KEY_FETCH_ERR | SINC_STATUS_CACHE_BLOCK_R_ERR
  | SINC_STATUS_CACHE_BLOCK_W_ERR_ENCR_BLOCK | SINC_STATUS_AUTH_TAG_R_ERR
  | SINC_STATUS_AUTH_TAG_CHK_ERR | SINC_STATUS_AUTH_TAG_W_ERR | SINC_STATUS_AES_ERR
  | SINC_STATUS_SINC_HW_FAULT | SINC_STATUS_SINC_RESET_DISABLED
  | SINC_STATUS_SINC_REINIT_DISABLED
  | SINC_CMD_DISABLE_RESET | SINC_CMD_DISABLE_REINIT | SINC_CMD_AES_TEST_EN
  | SINC_AES_TEST_CTRL_DATA_OUT_ACK
  | SINC_PERF_HIT_CNTR_EN | SINC_PERF_MISS_CNTR_EN | SINC_PERF_LAT_CNTR_EN
  | SINC_BIT | MEM_SPCIRAM | MPU_SPCIRAM | PCU_HSP_OFFSET
  | HSP_SP_BUS_ERR_IRQ | HSP_MPU_IRQ | HSP_DBT_IRQ | HSP_DMB_IRQ | HSP_AXI_WDT_IRQ
  | HSP_CRYPTO_ERR_IRQ | HSP_CRYPTO_DONE_IRQ
  | INT_CRYPTO_ERR_INTSTS | INT_CRYPTO_DONE_INTSTS
  | AEB_KSU_ATTRCHK_BYPASS | AEB_SINC_AUTHEN_DISABLE
  | CMD_CCS_SAVE_KEY | CMD_CCS_LOAD_KEY | SIZEOF_AES_CMD
    \<comment> \<open>the address of a register in \<open>Sinc_regs\<close>, and its \<open>SINC_REGS_..._WRITE_MASK\<close>\<close>
  | Sinc_regs_ptr sinc_reg | SINC_REGS_WRITE_MASK sinc_reg

text \<open>
  The build configuration: the constants' values (the system addresses are 64 bits wide),
  whether the preprocessor symbol \<open>PLAT__L3\<close> is defined, and the number of iterations granted to
  a loop that polls.
\<close>

record config =
  K :: "macro \<Rightarrow> u32"
  K64 :: "macro \<Rightarrow> u64"
  PLAT__L3 :: bool
  fuel :: nat

section \<open>External calls\<close>

datatype verdict = HW_TEST_PASS | HW_TEST_FAIL

text \<open>A buffer argument: an array of the test program, by its contents, or an address.\<close>

datatype buf = Local "u32 list" | At u32

text \<open>The two leaf functions some tests copy into memory and execute.\<close>

datatype leaf = Function1 | Function2

text \<open>The pointers of \<open>sinc_aes_struct_t\<close>.\<close>

record aes_struct =
  init_vector :: u32
  key :: u32
  plaintext :: u32
  ciphertext :: u32

text \<open>
  Methods of \<open>SINC_DRIVER\<close>. An expected status that the caller leaves out (a C++ default
  argument) is \<open>None\<close>; \<open>Gen_random_aes_data\<close> ends in the list of the optional pointers passed.
\<close>

datatype (plugins only: code) sinc_call =
    New_SINC_DRIVER
  | Read_reg sinc_reg
  | Write_reg sinc_reg u32
  | Write_all_aes_iv_nonce buf
  | Transition_to_initialized "u32 option"
  | Transition_to_cache_active "u32 option"
  | Call_encrypt_block "u32 option"
  | Call_sinc_reset "u32 option"
  | Call_sinc_reinit "u32 option"
  | Call_aes_test_en "u32 option"
  | Check_sinc_state u32
  | Check_known_data u32 u32 u32
  | Check_known_data_cleared u32 u32 u32
  | Check_ciphertext u32 u32 u32 u32 u32
  | Check_perf_counters u32 u32
  | Check_all_aes_iv_nonce_cleared
  | Check_cmd_result_status_failure u32 u32
  | Check_cmd_result_status_success u32
  | Check_status_for_err_bits u32 u32
  | Read_status_check_bits u32
  | Read_status_check_bits_not_set u32
  | Setup_known_data u32 u32 u32
  | Setup_known_data_offset u32 u32 u32 u32
  | Copy_func u32 leaf leaf
  | Compare_func u32 leaf
  | Test_ram_rw u32 u32
  | Test_ram_func u32 u32 leaf leaf
  | Read_all_regs
  | Wait_for_no_cmd_in_progress
  | Wait_for_no_cmd_in_progress_no_timeout
  | Wait_for_cfg_key_iv_rdy
  | Wait_for_data_in_rdy
  | Wait_for_data_out_vld
  | Wait_for_data_out_vld_and_tag_out
  | Set_aes_test_ctrl_mode_params u32 u32 u32
  | Set_aes_test_ctrl_data_params u32
  | Write_all_aes_test_data_in u32
  | Compare_test_data_out u32
  | Gen_random_aes_data u32 aes_struct u32 u32 "u32 list"
  | Setup_key u32 u32 "u32 option"

datatype isr =
    sp_bus_err_interrupt_handler | mpu_interrupt_handler | mpu_dabort_handler
  | crypto_err_interrupt_handler | crypto_done_interrupt_handler

datatype mem_err_reg = MEM_ERASE_DONE_STS | MEM_ERASE_EN | MEM_ERASE_ERR_INTSTS

datatype (plugins only: code) call =
    Sinc sinc_call
    \<comment> \<open>\<open>bifrost.h\<close>: reporting, memory access, random numbers, reset\<close>
  | Hw_status "u32 list" | Hw_errmsg "u32 list" | Hw_done verdict
  | Hw_write32 u32 u32 | Hw_read32 u32 | Store8 u32 u8 | Load8 u32 | Store32 u32 u32 | Load32 u32
  | Hw_sleep u32 | Flush_uart | Rand | Random_fill buf nat
  | Hsp_rng_enable u32 | Hsp_rng_wait_done | Hsp_rng_disable
  | Hsp_reset_rpc | Hsp_reset_count_rpc | Enable_external_interrupts
  | Wordcpy buf buf u32 | Wordcmp buf buf u32
    \<comment> \<open>\<open>ALLOC_MEM\<close> and \<open>CCS_DRIVER\<close>\<close>
  | New_ALLOC_MEM u32 u32 | Alloc_init | Alloc u32
  | New_CCS_DRIVER u32 u32 u32 u32 | Gen_random_key_fixed_attr u32 u32
  | Do_fixed_command u32 u32 u32 u32 u32 u32 | Set_data_out u32
    \<comment> \<open>\<open>DMB_DRIVER\<close>\<close>
  | New_DMB_DRIVER | Dmb_acquire u64 u32 u32 u32
  | Set_crypto_perm_data u32 u32 | Set_priv_perm_data u32 u32 | Set_user_perm_data u32 u32
    \<comment> \<open>\<open>INT_DRIVER\<close>: the interrupt bookkeeping read by the tests is written by its handlers\<close>
  | Int_get_instance | Enable_interrupt u32 isr | Disable_interrupt u32
  | Int_trig_count u32 | Int_message u32 u32
    \<comment> \<open>\<open>PCU_DRIVER\<close>, \<open>MISC_DRIVER\<close>, \<open>CRYPTO_DRIVER\<close>, \<open>AEB_DRIVER\<close>, \<open>AES_DRIVER\<close>\<close>
  | New_PCU_DRIVER u32 bool | Pcu_enable_interrupts | Pcu_clkgate_checks u32
  | Pcu_pwrgate_checks u32 u32 u32
  | New_MISC_DRIVER | Set_scratch0 u32
  | New_CRYPTO_DRIVER | Set_crypto_err_int_en_bit u32 | Set_crypto_done_intsts u32
  | Set_crypto_done_int_en_bit u32
  | New_AEB_DRIVER | Aeb_enable u32 | New_AES_DRIVER
    \<comment> \<open>memory-mapped register structures\<close>
  | Mpu_inten_write u32 | Mem_err_read mem_err_reg | Mem_err_write mem_err_reg u32

section \<open>The machine\<close>

datatype status = Running | Returned | Reset_wait | Undefined | Out_of_fuel

type_synonym event = "call \<times> u32"

record 's mach =
  dev :: 's
  log :: "event list"
  status :: status

type_synonym ('s, 'a) prog = "('s mach, 'a) state"

text \<open>
  \<open>reply\<close> is the behaviour of a call: its 32-bit result (0 for a \<open>void\<close> function) and the
  platform state after it. \<open>fill\<close> gives the words that \<open>random_fill\<close> writes into a buffer.
\<close>

record 's platform =
  reply :: "call \<Rightarrow> 's \<Rightarrow> u32 \<times> 's"
  fill :: "'s \<Rightarrow> nat \<Rightarrow> u32"

definition ext :: "'s platform \<Rightarrow> call \<Rightarrow> ('s, u32) prog" where
  "ext P c = State (\<lambda>m.
     if status m = Running
     then (case reply P c (dev m) of (r, d) \<Rightarrow> (r, m\<lparr>dev := d, log := (c, r) # log m\<rparr>))
     else (0, m))"

definition halt :: "status \<Rightarrow> ('s, unit) prog" where
  "halt st = State (\<lambda>m. ((), if status m = Running then m\<lparr>status := st\<rparr> else m))"

definition random_fill :: "'s platform \<Rightarrow> buf \<Rightarrow> nat \<Rightarrow> ('s, u32 list) prog" where
  "random_fill P b n = do {
     d \<leftarrow> State (\<lambda>m. (map (fill P (dev m)) [0..<n], m));
     ext P (Random_fill b n);
     State_Monad.return d
   }"

definition exec :: "('s, 'a) prog \<Rightarrow> 's \<Rightarrow> 's mach" where
  "exec p d = snd (run_state p \<lparr>dev = d, log = [], status = Running\<rparr>)"

text \<open>The calls of a run in the order in which they are made.\<close>

definition calls :: "'s mach \<Rightarrow> call list" where
  "calls m = rev (map fst (log m))"

subsection \<open>Statements shared by the tests\<close>

abbreviation sinc :: "'s platform \<Rightarrow> sinc_call \<Rightarrow> ('s, u32) prog" where
  "sinc P c \<equiv> ext P (Sinc c)"

abbreviation hw_status :: "'s platform \<Rightarrow> u32 list \<Rightarrow> ('s, u32) prog" where
  "hw_status P args \<equiv> ext P (Hw_status args)"

definition hw_errmsg :: "'s platform \<Rightarrow> u32 list \<Rightarrow> ('s, u32) prog" where
  "hw_errmsg P args = ext P (Hw_errmsg args)"

definition hw_done :: "'s platform \<Rightarrow> verdict \<Rightarrow> ('s, u32) prog" where
  "hw_done P v = ext P (Hw_done v)"

text \<open>\<open>errors += call(...)\<close>\<close>

definition tally :: "'s platform \<Rightarrow> u32 \<Rightarrow> call \<Rightarrow> ('s, u32) prog" where
  "tally P errors c = do { r \<leftarrow> ext P c; State_Monad.return (errors + r) }"

abbreviation tally_sinc :: "'s platform \<Rightarrow> u32 \<Rightarrow> sinc_call \<Rightarrow> ('s, u32) prog" where
  "tally_sinc P errors c \<equiv> tally P errors (Sinc c)"

text \<open>\<open>if (errors) hw_done(HW_TEST_FAIL); else hw_done(HW_TEST_PASS);\<close>\<close>

definition report :: "'s platform \<Rightarrow> u32 \<Rightarrow> ('s, unit) prog" where
  "report P errors = do {
     (if errors \<noteq> 0 then hw_done P HW_TEST_FAIL else hw_done P HW_TEST_PASS);
     State_Monad.return ()
   }"

text \<open>\<open>if (errors) { hw_done(HW_TEST_FAIL); return; }\<close>\<close>

definition fail_fast :: "'s platform \<Rightarrow> u32 \<Rightarrow> ('s, unit) prog" where
  "fail_fast P errors =
     (if errors \<noteq> 0 then do { hw_done P HW_TEST_FAIL; halt Returned } else State_Monad.return ())"

text \<open>\<open>hw_errmsg(...); hw_done(HW_TEST_FAIL); return;\<close>\<close>

definition give_up :: "'s platform \<Rightarrow> u32 list \<Rightarrow> ('s, unit) prog" where
  "give_up P args = do { hw_errmsg P args; hw_done P HW_TEST_FAIL; halt Returned }"

text \<open>\<open>if (errors) { hw_done(HW_TEST_FAIL); return; } hsp_reset_rpc(); while(1);\<close>\<close>

definition fail_or_reset :: "'s platform \<Rightarrow> u32 \<Rightarrow> ('s, unit) prog" where
  "fail_or_reset P errors = do { fail_fast P errors; ext P Hsp_reset_rpc; halt Reset_wait }"

subsection \<open>Loops\<close>

primrec for_each :: "'i list \<Rightarrow> ('i \<Rightarrow> 'x \<Rightarrow> ('s, 'x) prog) \<Rightarrow> 'x \<Rightarrow> ('s, 'x) prog" where
  "for_each [] f x = State_Monad.return x"
| "for_each (i # is) f x = do { y \<leftarrow> f i x; for_each is f y }"

text \<open>\<open>for (addr = a; addr < e; addr += 4)\<close>, with the addition on 32 bits.\<close>

primrec for_addr :: "nat \<Rightarrow> u32 \<Rightarrow> u32 \<Rightarrow> (u32 \<Rightarrow> 'x \<Rightarrow> ('s, 'x) prog) \<Rightarrow> 'x \<Rightarrow> ('s, 'x) prog" where
  "for_addr 0 a e f x =
     (if a < e then do { halt Out_of_fuel; State_Monad.return x } else State_Monad.return x)"
| "for_addr (Suc n) a e f x =
     (if a < e then do { y \<leftarrow> f a x; for_addr n (a + 4) e f y } else State_Monad.return x)"

text \<open>\<open>do { x = body; } while (again(x));\<close>\<close>

primrec do_while :: "nat \<Rightarrow> ('s, 'a) prog \<Rightarrow> ('a \<Rightarrow> bool) \<Rightarrow> ('s, 'a) prog" where
  "do_while 0 body again = do {
     x \<leftarrow> body;
     (if again x then halt Out_of_fuel else State_Monad.return ());
     State_Monad.return x
   }"
| "do_while (Suc n) body again = do {
     x \<leftarrow> body;
     (if again x then do_while n body again else State_Monad.return x)
   }"

end
