(* ===== verification/Verdict.thy ===== *)
theory Verdict
  imports Platform
begin

text \<open>
  What a test promises about its verdict. A run of a test is observed through its log of external
  calls. A call reports failures in two ways: \<open>hw_errmsg\<close> announces one mismatch, and the checking
  methods of the drivers return the number of errors they found. An honest test reports
  \<open>HW_TEST_FAIL\<close> only when something failed, and \<open>HW_TEST_PASS\<close> only when the number of failures
  is zero, as far as the 32-bit counter \<open>errors\<close> can tell (it wraps at \<open>2 ^ 32\<close>).

  The judgement \<open>acct\<close> says that a program fragment keeps the counter equal to the number of
  failures logged; it has one rule per statement form, so that a whole test is covered by
  applying the rules of the collection \<open>acct_intros\<close>.
\<close>

section \<open>Failures and honest verdicts\<close>

type_synonym weight = "event \<Rightarrow> nat"

definition failures :: "weight \<Rightarrow> event list \<Rightarrow> nat" where
  "failures w tr = sum_list (map w tr)"

fun verdicts :: "event list \<Rightarrow> verdict list" where
  "verdicts [] = []"
| "verdicts ((Hw_done v, r) # tr) = v # verdicts tr"
| "verdicts (_ # tr) = verdicts tr"

definition justified :: "nat \<Rightarrow> verdict \<Rightarrow> bool" where
  "justified n v = (case v of HW_TEST_PASS \<Rightarrow> n mod 2 ^ 32 = 0 | HW_TEST_FAIL \<Rightarrow> n \<noteq> 0)"

text \<open>Every verdict of a log (newest first) is justified by what was logged before it.\<close>

fun honest :: "weight \<Rightarrow> nat \<Rightarrow> event list \<Rightarrow> bool" where
  "honest w e [] = True"
| "honest w e ((Hw_done v, r) # tr) = (justified (e + failures w tr) v \<and> honest w e tr)"
| "honest w e (_ # tr) = honest w e tr"

text \<open>
  A complete test. From any platform state, what it logs is honest; when it ends by itself it has
  given a verdict; when it waits for the reset it asked for, its failure counter is zero.
\<close>

definition run_ok :: "weight \<Rightarrow> 's mach \<Rightarrow> bool" where
  "run_ok w m \<longleftrightarrow> honest w 0 (log m) \<and>
     (status m \<in> {Running, Returned} \<longrightarrow> verdicts (log m) \<noteq> []) \<and>
     (status m = Reset_wait \<longrightarrow> failures w (log m) mod 2 ^ 32 = 0)"

definition test_ok :: "weight \<Rightarrow> ('s, 'a) prog \<Rightarrow> bool" where
  "test_ok w p \<longleftrightarrow> (\<forall>d. run_ok w (exec p d))"

section \<open>The accounting judgement\<close>

text \<open>
  \<open>outcome w e R m (v, m')\<close>: a fragment started in \<open>m\<close> after \<open>e\<close> failures ended in \<open>m'\<close> with
  result \<open>v\<close>; it extended the log honestly, and if it is still running then \<open>R\<close> holds of the result,
  of the total number of failures and of the part of the log it added.
\<close>

definition outcome ::
  "weight \<Rightarrow> nat \<Rightarrow> ('a \<Rightarrow> nat \<Rightarrow> event list \<Rightarrow> bool) \<Rightarrow> 's mach \<Rightarrow> 'a \<times> 's mach \<Rightarrow> bool" where
  "outcome w e R m r = (case r of (v, m') \<Rightarrow>
     \<exists>tr. log m' = tr @ log m \<and> honest w e tr \<and>
       (status m' = Running \<longrightarrow> R v (e + failures w tr) tr) \<and>
       (status m' = Returned \<longrightarrow> verdicts tr \<noteq> []) \<and>
       (status m' = Reset_wait \<longrightarrow> (e + failures w tr) mod 2 ^ 32 = 0))"

text \<open>A machine that has stopped is left alone.\<close>

definition frozen :: "('s, 'a) prog \<Rightarrow> bool" where
  "frozen p \<longleftrightarrow> (\<forall>m. status m \<noteq> Running \<longrightarrow> snd (run_state p m) = m)"

definition acctR ::
  "weight \<Rightarrow> u32 \<Rightarrow> ('s, 'a) prog \<Rightarrow> ('a \<Rightarrow> nat \<Rightarrow> event list \<Rightarrow> bool) \<Rightarrow> bool" where
  "acctR w x p R \<longleftrightarrow> frozen p \<and>
     (\<forall>m e. status m = Running \<longrightarrow> word_of_nat e = x \<longrightarrow> outcome w e R m (run_state p m))"

text \<open>Started with counter \<open>x\<close>, the fragment returns a result \<open>v\<close> from which \<open>f\<close> reads the counter.\<close>

definition acct :: "weight \<Rightarrow> u32 \<Rightarrow> ('s, 'a) prog \<Rightarrow> ('a \<Rightarrow> u32) \<Rightarrow> bool" where
  "acct w x p f = acctR w x p (\<lambda>v n tr. f v = word_of_nat n)"

text \<open>Started with counter \<open>x\<close>, the fragment gives a verdict before it ends.\<close>

definition acct_done :: "weight \<Rightarrow> u32 \<Rightarrow> ('s, 'a) prog \<Rightarrow> bool" where
  "acct_done w x p = acctR w x p (\<lambda>v n tr. verdicts tr \<noteq> [])"

lemma failures_Nil [simp]: "failures w [] = 0"
  by (simp add: failures_def)

lemma failures_Cons [simp]: "failures w (ev # tr) = w ev + failures w tr"
  by (simp add: failures_def)

lemma failures_append [simp]: "failures w (tr @ tr') = failures w tr + failures w tr'"
  by (simp add: failures_def)

lemma verdicts_append [simp]: "verdicts (tr @ tr') = verdicts tr @ verdicts tr'"
  by (induction tr rule: verdicts.induct) auto

lemma verdicts_Cons_other: "\<forall>v. c \<noteq> Hw_done v \<Longrightarrow> verdicts ((c, r) # tr) = verdicts tr"
  by (cases c) auto

lemma honest_append: "honest w e (tr @ tr') \<longleftrightarrow> honest w (e + failures w tr') tr \<and> honest w e tr'"
proof (induction tr rule: verdicts.induct)
  case (2 v r tr)
  then show ?case by (auto simp: ac_simps)
qed auto

lemma honest_Cons_other: "\<forall>v. c \<noteq> Hw_done v \<Longrightarrow> honest w e ((c, r) # tr) = honest w e tr"
  by (cases c) auto

lemma word_of_nat_eq_0_iff32: "(word_of_nat n = (0 :: u32)) = (n mod 2 ^ 32 = 0)"
  by (simp add: word_of_nat_eq_0_iff dvd_eq_mod_eq_0)

lemma frozen_ext: "frozen (ext P c)"
  by (simp add: frozen_def ext_def)

lemma run_state_ext: "status m = Running \<Longrightarrow> run_state (ext P c) m =
    (fst (reply P c (dev m)), m\<lparr>dev := snd (reply P c (dev m)), log := (c, fst (reply P c (dev m))) # log m\<rparr>)"
  by (simp add: ext_def split_beta)

lemma frozen_bind: "frozen p \<Longrightarrow> (\<And>v. frozen (q v)) \<Longrightarrow> frozen (State_Monad.bind p q)"
  by (simp add: frozen_def split_beta)

lemma outcome_stopped:
  "status m' \<noteq> Running \<Longrightarrow> outcome w e R m (v, m') \<Longrightarrow> outcome w e S m (u, m')"
  unfolding outcome_def by auto

lemma outcome_trans:
  assumes "outcome w e (\<lambda>v n tr. f v = word_of_nat n) m (u, m')" and "status m' = Running"
    and cont: "\<And>n. word_of_nat n = f u \<Longrightarrow> outcome w n R m' (v, m'')"
    and mono: "\<And>n tr tr'. R v n tr' \<Longrightarrow> R v n (tr' @ tr)"
  shows "outcome w e R m (v, m'')"
proof -
  from assms(1,2) obtain tr where tr: "log m' = tr @ log m" "honest w e tr"
    "f u = word_of_nat (e + failures w tr)"
    unfolding outcome_def by auto
  from cont [OF tr(3) [symmetric]] obtain tr' where tr': "log m'' = tr' @ log m'"
    "honest w (e + failures w tr) tr'"
    "status m'' = Running \<longrightarrow> R v (e + failures w tr + failures w tr') tr'"
    "status m'' = Returned \<longrightarrow> verdicts tr' \<noteq> []"
    "status m'' = Reset_wait \<longrightarrow> (e + failures w tr + failures w tr') mod 2 ^ 32 = 0"
    unfolding outcome_def by auto
  have sum: "e + failures w (tr' @ tr) = e + failures w tr + failures w tr'" by simp
  show ?thesis
    unfolding outcome_def prod.case
    by (rule exI [of _ "tr' @ tr"], unfold sum) (use tr tr' mono in \<open>simp add: honest_append\<close>)
qed

lemma acctR_bind:
  assumes p: "acct w x p f" and q: "\<And>v. acctR w (f v) (q v) R"
    and mono: "\<And>v n tr tr'. R v n tr' \<Longrightarrow> R v n (tr' @ tr)"
  shows "acctR w x (State_Monad.bind p q) R"
  unfolding acctR_def
proof (intro conjI allI impI)
  from p q show "frozen (State_Monad.bind p q)"
    by (auto simp: acct_def acctR_def intro: frozen_bind)
next
  fix m :: "'a mach" and e
  assume run: "status m = Running" and e: "word_of_nat e = x"
  obtain u m' where pm: "run_state p m = (u, m')" by (cases "run_state p m")
  obtain v m'' where qm: "run_state (q u) m' = (v, m'')" by (cases "run_state (q u) m'")
  have r: "run_state (State_Monad.bind p q) m = (v, m'')" by (simp add: pm qm)
  from p run e have o: "outcome w e (\<lambda>v n tr. f v = word_of_nat n) m (u, m')"
    unfolding acct_def acctR_def pm [symmetric] by blast
  show "outcome w e R m (run_state (State_Monad.bind p q) m)"
  proof (cases "status m' = Running")
    case True
    have k: "outcome w n R m' (v, m'')" if "word_of_nat n = f u" for n
      using q [of u] True that unfolding acctR_def qm [symmetric] by blast
    show ?thesis
      unfolding r by (rule outcome_trans [where f = f, OF o True k]) (simp_all add: mono)
  next
    case False
    with q [of u] qm have "m'' = m'" by (auto simp: acctR_def frozen_def)
    with outcome_stopped [OF False o] show ?thesis unfolding r by simp
  qed
qed

lemma acct_bind [acct_intros]:
  "acct w x p f \<Longrightarrow> (\<And>v. acct w (f v) (q v) g) \<Longrightarrow> acct w x (State_Monad.bind p q) g"
  unfolding acct_def [of w _ _ g] by (rule acctR_bind) (auto simp: acct_def)

lemma acct_done_bind [acct_intros]:
  "acct w x p f \<Longrightarrow> (\<And>v. acct_done w (f v) (q v)) \<Longrightarrow> acct_done w x (State_Monad.bind p q)"
  unfolding acct_done_def by (rule acctR_bind) auto

lemma acct_done_test_ok:
  assumes "acct_done w 0 p"
  shows "test_ok w p"
  unfolding test_ok_def run_ok_def exec_def
proof
  fix d :: 'a
  let ?m = "\<lparr>dev = d, log = [], status = Running\<rparr>"
  have "outcome w 0 (\<lambda>v n tr. verdicts tr \<noteq> []) ?m (run_state p ?m)"
    using assms unfolding acct_done_def acctR_def by simp
  then show "honest w 0 (log (snd (run_state p ?m))) \<and>
     (status (snd (run_state p ?m)) \<in> {Running, Returned} \<longrightarrow> verdicts (log (snd (run_state p ?m))) \<noteq> []) \<and>
     (status (snd (run_state p ?m)) = Reset_wait \<longrightarrow> failures w (log (snd (run_state p ?m))) mod 2 ^ 32 = 0)"
    by (auto simp: outcome_def split: prod.splits)
qed

lemma acct_return: "f y = x \<Longrightarrow> acct w x (State_Monad.return y) f"
  by (auto simp: acct_def acctR_def frozen_def outcome_def)

lemma acct_return_id [acct_intros]: "acct w x (State_Monad.return x) (\<lambda>v. v)"
  by (simp add: acct_return)

lemma acct_return_unit [acct_intros, acct_sub_intros]:
  "acct w x (State_Monad.return ()) (\<lambda>_. x)"
  by (simp add: acct_return)

lemma acct_if [acct_intros, acct_sub_intros]:
  "(b \<Longrightarrow> acct w x p f) \<Longrightarrow> (\<not> b \<Longrightarrow> acct w x q f) \<Longrightarrow> acct w x (if b then p else q) f"
  by simp

lemma acct_done_if [acct_intros]:
  "(b \<Longrightarrow> acct_done w x p) \<Longrightarrow> (\<not> b \<Longrightarrow> acct_done w x q) \<Longrightarrow> acct_done w x (if b then p else q)"
  by simp

lemma acct_let [acct_intros, acct_sub_intros]:
  "acct w x (p y) f \<Longrightarrow> acct w x (Let y p) f"
  by simp

lemma acct_done_let [acct_intros]: "acct_done w x (p y) \<Longrightarrow> acct_done w x (Let y p)"
  by simp

lemma acct_for_each:
  assumes "\<And>i y. acct w (f y) (body i y) f"
  shows "acct w (f y) (for_each is body y) f"
proof (induction "is" arbitrary: y)
  case Nil
  show ?case by (simp add: acct_return)
next
  case (Cons i "is")
  show ?case by (simp, rule acct_bind [OF assms Cons.IH])
qed

lemma acct_for_each_id [acct_intros]:
  "(\<And>i y. acct w y (body i y) (\<lambda>v. v)) \<Longrightarrow> acct w y (for_each is body y) (\<lambda>v. v)"
  by (rule acct_for_each [where f = "\<lambda>v. v"])

lemma acct_for_each_unit [acct_intros, acct_sub_intros]:
  "(\<And>i. acct w x (body i ()) (\<lambda>_. x)) \<Longrightarrow> acct w x (for_each is body ()) (\<lambda>_. x)"
  by (rule acct_for_each [where f = "\<lambda>_. x"]) simp

lemma acct_for_each_sub [acct_sub_intros]:
  "(\<And>i y. acct w (x + y) (body i y) (\<lambda>v. x + v)) \<Longrightarrow>
   acct w (x + y) (for_each is body y) (\<lambda>v. x + v)"
  by (rule acct_for_each [where f = "\<lambda>v. x + v"])

lemma acct_halt_Out_of_fuel: "acct w x (halt Out_of_fuel) f"
  by (auto simp: acct_def acctR_def frozen_def outcome_def halt_def)

lemma acct_halt_Undefined [acct_intros, acct_sub_intros]: "acct w x (halt Undefined) f"
  by (auto simp: acct_def acctR_def frozen_def outcome_def halt_def)

lemma acct_for_addr:
  assumes "\<And>a y. acct w (f y) (body a y) f"
  shows "acct w (f y) (for_addr n a e body y) f"
proof (induction n arbitrary: a y)
  case 0
  show ?case
    by (auto intro!: acct_bind [OF acct_halt_Out_of_fuel [where f = "\<lambda>_. f y"]] acct_return)
next
  case (Suc n)
  show ?case by (auto intro!: acct_bind [OF assms Suc.IH] acct_return)
qed

lemma acct_for_addr_unit [acct_intros]:
  "(\<And>a. acct w x (body a ()) (\<lambda>_. x)) \<Longrightarrow> acct w x (for_addr n a e body ()) (\<lambda>_. x)"
  by (rule acct_for_addr [where f = "\<lambda>_. x"]) simp

lemma acct_do_while [acct_intros, acct_sub_intros]:
  assumes "acct w x body (\<lambda>_. x)"
  shows "acct w x (do_while n body again) (\<lambda>_. x)"
proof (induction n)
  case 0
  show ?case
    by (auto intro!: acct_bind [OF assms] acct_bind [OF acct_halt_Out_of_fuel [where f = "\<lambda>_. x"]]
        acct_return)
next
  case (Suc n)
  show ?case by (auto intro!: acct_bind [OF assms] acct_return Suc.IH)
qed

declare acct_bind [acct_sub_intros]

text \<open>A callee that returns the number of errors it found, counted from zero in a local variable.\<close>

lemma acct_sub_return [acct_sub_intros]: "acct w (x + y) (State_Monad.return y) (\<lambda>v. x + v)"
  by (simp add: acct_return)

lemma acct_sub_start: "acct w (x + 0) p f \<Longrightarrow> acct w x p f"
  by simp

lemma acct_sub_return_0: "acct w x (State_Monad.return 0) (\<lambda>v. x + v)"
  by (simp add: acct_return)

subsection \<open>External calls under an error weight\<close>

text \<open>
  An error weight says how many failures an external call reports. A verdict reports none.
\<close>

locale error_weight =
  fixes w :: weight
  assumes weight_done: "w (Hw_done v, r) = 0"
begin

lemma acct_ext:
  assumes "\<forall>v. c \<noteq> Hw_done v"
    and "\<And>r. f r = x + word_of_nat (w (c, r))"
  shows "acct w x (ext P c) f"
  using assms
  by (auto simp: acct_def acctR_def frozen_ext outcome_def run_state_ext honest_Cons_other add.commute
      intro!: exI [of _ "[(c, _)]"])

lemma acct_ext_neutral:
  assumes "\<forall>v. c \<noteq> Hw_done v" and "\<And>r. w (c, r) = 0"
  shows "acct w x (ext P c) (\<lambda>_. x)"
  by (rule acct_ext) (simp_all add: assms)

lemma acct_errmsg_weight:
  assumes "\<And>r. w (Hw_errmsg args, r) = n"
  shows "acct w x (hw_errmsg P args) (\<lambda>_. x + word_of_nat n)"
  unfolding hw_errmsg_def by (rule acct_ext) (simp_all add: assms)

lemma acct_tally:
  assumes "\<forall>v. c \<noteq> Hw_done v" and "\<And>r. w (c, r) = unat r"
  shows "acct w (x + y) (tally P y c) (\<lambda>v. x + v)"
  unfolding tally_def
  by (rule acct_bind [OF acct_ext [where f = "\<lambda>r. x + y + r"]])
    (simp_all add: assms acct_return add.assoc)

lemma acct_hw_done:
  assumes "\<And>e. word_of_nat e = x \<Longrightarrow> justified e v"
  shows "acct w x (hw_done P v) (\<lambda>_. x)"
  using assms
  by (auto simp: acct_def acctR_def hw_done_def frozen_ext outcome_def run_state_ext weight_done
      intro!: exI [of _ "[(Hw_done v, _)]"])

lemma acct_done_hw_done:
  assumes "\<And>e. word_of_nat e = x \<Longrightarrow> justified e v"
  shows "acct_done w x (hw_done P v)"
  using assms
  by (auto simp: acct_done_def acctR_def hw_done_def frozen_ext outcome_def run_state_ext weight_done
      intro!: exI [of _ "[(Hw_done v, _)]"])

lemma justified_word:
  "word_of_nat e = (x :: u32) \<Longrightarrow> justified e (if x \<noteq> 0 then HW_TEST_FAIL else HW_TEST_PASS)"
  by (auto simp: justified_def word_of_nat_eq_0_iff32 intro: gr0I)

lemma acct_report [acct_intros]: "acct w x (report P x) (\<lambda>_. x)"
  unfolding report_def if_distrib [of "hw_done P", symmetric]
  by (rule acct_bind [OF acct_hw_done acct_return_unit]) (rule justified_word)

lemma acct_done_report [acct_intros]: "acct_done w x (report P x)"
proof -
  have "acct_done w x (hw_done P (if x \<noteq> 0 then HW_TEST_FAIL else HW_TEST_PASS))"
    by (rule acct_done_hw_done) (rule justified_word)
  then show ?thesis
    unfolding report_def if_distrib [of "hw_done P", symmetric]
    by (auto simp: acct_done_def acctR_def frozen_def outcome_def split_beta)
qed

lemma acct_exit:
  assumes "\<And>e. word_of_nat e = x \<Longrightarrow> justified e v"
  shows "acct w x (State_Monad.bind (hw_done P v) (\<lambda>_. halt Returned)) f"
  using assms
  by (auto simp: acct_def acctR_def frozen_def outcome_def halt_def run_state_ext weight_done ext_def
      hw_done_def split: prod.splits intro!: exI [of _ "[(Hw_done v, _)]"])

lemma acct_fail_fast [acct_intros]: "acct w x (fail_fast P x) (\<lambda>_. x)"
  unfolding fail_fast_def
  by (intro acct_if acct_exit acct_return_unit) (auto simp: justified_def intro: gr0I)

lemma acct_fail_fast_0: "acct w x (fail_fast P x) (\<lambda>_. 0)"
  unfolding fail_fast_def
  by (intro acct_if acct_exit) (auto simp: justified_def acct_return intro: gr0I)

lemma acct_give_up_weight:
  assumes "\<And>r. w (Hw_errmsg args, r) = 1"
  shows "acct w x (give_up P args) f"
  unfolding give_up_def
  by (auto simp: acct_def acctR_def frozen_def outcome_def halt_def run_state_ext weight_done
      assms ext_def hw_done_def hw_errmsg_def justified_def split: prod.splits
      intro!: exI [of _ "[(Hw_done HW_TEST_FAIL, _), (Hw_errmsg args, _)]"])

lemma acct_halt_Reset_wait: "acct w 0 (halt Reset_wait) f"
  by (auto simp: acct_def acctR_def frozen_def outcome_def halt_def word_of_nat_eq_0_iff32)

lemma acct_fail_or_reset:
  assumes "\<And>r. w (Hsp_reset_rpc, r) = 0"
  shows "acct w x (fail_or_reset P x) f"
  unfolding fail_or_reset_def
  by (rule acct_bind [OF acct_fail_fast_0 acct_bind [OF acct_ext_neutral acct_halt_Reset_wait]])
    (simp_all add: assms)

end

subsection \<open>The failure count of the tests\<close>

text \<open>
  The driver calls whose result is a number of errors. \<open>counting ign\<close> weighs a log by them and by
  the messages of \<open>hw_errmsg\<close>, leaving out the calls that the predicate \<open>ign\<close> names: those that the
  test under consideration does not add to its counter.
\<close>

definition sinc_reports_errors :: "sinc_call \<Rightarrow> bool" where
  "sinc_reports_errors c = (case c of
      Transition_to_initialized _ \<Rightarrow> True | Transition_to_cache_active _ \<Rightarrow> True
    | Call_encrypt_block _ \<Rightarrow> True | Call_sinc_reset _ \<Rightarrow> True | Call_sinc_reinit _ \<Rightarrow> True
    | Call_aes_test_en _ \<Rightarrow> True | Check_sinc_state _ \<Rightarrow> True
    | Check_known_data _ _ _ \<Rightarrow> True | Check_known_data_cleared _ _ _ \<Rightarrow> True
    | Check_ciphertext _ _ _ _ _ \<Rightarrow> True | Check_perf_counters _ _ \<Rightarrow> True
    | Check_all_aes_iv_nonce_cleared \<Rightarrow> True | Check_cmd_result_status_failure _ _ \<Rightarrow> True
    | Check_cmd_result_status_success _ \<Rightarrow> True | Check_status_for_err_bits _ _ \<Rightarrow> True
    | Read_status_check_bits _ \<Rightarrow> True | Read_status_check_bits_not_set _ \<Rightarrow> True
    | Compare_func _ _ \<Rightarrow> True | Test_ram_rw _ _ \<Rightarrow> True | Test_ram_func _ _ _ _ \<Rightarrow> True
    | Compare_test_data_out _ \<Rightarrow> True | Setup_key _ _ _ \<Rightarrow> True
    | _ \<Rightarrow> False)"

definition reports_errors :: "call \<Rightarrow> bool" where
  "reports_errors c = (case c of
      Sinc s \<Rightarrow> sinc_reports_errors s
    | Gen_random_key_fixed_attr _ _ \<Rightarrow> True | Do_fixed_command _ _ _ _ _ _ \<Rightarrow> True
    | Pcu_clkgate_checks _ \<Rightarrow> True | Pcu_pwrgate_checks _ _ _ \<Rightarrow> True
    | _ \<Rightarrow> False)"

definition silent :: "call \<Rightarrow> bool" where
  "silent c = (case c of Hw_done _ \<Rightarrow> False | Hw_errmsg _ \<Rightarrow> False | _ \<Rightarrow> True)"

definition counting :: "(call \<Rightarrow> bool) \<Rightarrow> weight" where
  "counting ign ev = (case ev of (c, r) \<Rightarrow>
     (case c of Hw_errmsg _ \<Rightarrow> if ign c then 0 else 1
      | _ \<Rightarrow> if reports_errors c \<and> \<not> ign c then unat r else 0))"

abbreviation nothing_ignored :: "call \<Rightarrow> bool" where
  "nothing_ignored \<equiv> \<lambda>_. False"

interpretation counting: error_weight "counting ign" for ign
  by unfold_locales (simp_all add: counting_def reports_errors_def)

lemma silentD: "silent c \<Longrightarrow> (\<forall>v. c \<noteq> Hw_done v) \<and> (\<forall>a. c \<noteq> Hw_errmsg a)"
  by (auto simp: silent_def)

lemma counting_silent:
  "silent c \<Longrightarrow> counting ign (c, r) = (if reports_errors c \<and> \<not> ign c then unat r else 0)"
  by (cases c) (simp_all add: silent_def counting_def)

lemma acct_ext_silent [acct_intros, acct_sub_intros]:
  "silent c \<and> (reports_errors c \<longrightarrow> ign c) \<Longrightarrow> acct (counting ign) x (ext P c) (\<lambda>_. x)"
  by (rule counting.acct_ext_neutral) (auto simp: counting_silent dest: silentD)

lemma acct_errmsg [acct_intros]:
  "\<not> ign (Hw_errmsg args) \<Longrightarrow> acct (counting ign) x (hw_errmsg P args) (\<lambda>_. x + 1)"
  using counting.acct_errmsg_weight [where ign = ign and args = args and n = 1 and x = x and P = P] by (simp add: counting_def)

lemma acct_sub_errmsg [acct_sub_intros]:
  "\<not> ign (Hw_errmsg args) \<Longrightarrow>
   acct (counting ign) (x + y) (hw_errmsg P args) (\<lambda>_. x + (y + 1))"
  using acct_errmsg [of ign args "x + y" P] by (simp add: add.assoc)

lemma acct_errmsg_ignored:
  "ign (Hw_errmsg args) \<Longrightarrow> acct (counting ign) x (hw_errmsg P args) (\<lambda>_. x)"
  using counting.acct_errmsg_weight [where ign = ign and args = args and n = 0 and x = x and P = P] by (simp add: counting_def)

lemma acct_give_up [acct_intros, acct_sub_intros]:
  "\<not> ign (Hw_errmsg args) \<Longrightarrow> acct (counting ign) x (give_up P args) f"
  by (rule counting.acct_give_up_weight) (simp add: counting_def)

lemma acct_tally_sub [acct_sub_intros]:
  "silent c \<and> reports_errors c \<and> \<not> ign c \<Longrightarrow> acct (counting ign) (x + y) (tally P y c) (\<lambda>v. x + v)"
  by (rule counting.acct_tally) (auto simp: counting_silent dest: silentD)

lemma acct_tally_id [acct_intros]:
  "silent c \<and> reports_errors c \<and> \<not> ign c \<Longrightarrow> acct (counting ign) x (tally P x c) (\<lambda>v. v)"
  using acct_tally_sub [of c ign 0 x P] by simp

lemma acct_peek: "acct w x (State (\<lambda>m. (g m, m))) (\<lambda>_. x)"
  by (auto simp: acct_def acctR_def frozen_def outcome_def)

lemma acct_random_fill [acct_intros, acct_sub_intros]:
  "acct (counting ign) x (random_fill P b n) (\<lambda>_. x)"
  unfolding random_fill_def
  by (rule acct_bind [OF acct_peek acct_bind [OF acct_ext_silent acct_return]])
    (simp_all add: silent_def reports_errors_def)

lemma acct_reset [acct_intros]: "acct (counting ign) x (fail_or_reset P x) f"
  by (rule counting.acct_fail_or_reset) (simp add: counting_def reports_errors_def)

text \<open>The side conditions of the rules are decided by the simplifier.\<close>

declare silent_def [simp] reports_errors_def [simp] sinc_reports_errors_def [simp]
text \<open>What the judgement says of a finished test.\<close>

lemma test_okD:
  assumes "test_ok w p" and "exec p d = m"
  shows "honest w 0 (log m)"
    and "status m \<in> {Running, Returned} \<Longrightarrow> verdicts (log m) \<noteq> []"
  using assms by (auto simp: test_ok_def run_ok_def)

section \<open>Triples\<close>

text \<open>
  Pre- and postconditions for program fragments on a given platform, used where a test is run
  against a contract of the hardware.
\<close>

definition triple ::
  "('s mach \<Rightarrow> bool) \<Rightarrow> ('s, 'a) prog \<Rightarrow> ('a \<Rightarrow> 's mach \<Rightarrow> bool) \<Rightarrow> bool" where
  "triple A p B \<longleftrightarrow> (\<forall>m. A m \<longrightarrow> (case run_state p m of (v, m') \<Rightarrow> B v m'))"

lemma triple_bind:
  "triple A p B \<Longrightarrow> (\<And>v. triple (B v) (q v) C) \<Longrightarrow> triple A (State_Monad.bind p q) C"
  by (fastforce simp: triple_def split: prod.splits)

lemma triple_bind_value:
  "triple A p (\<lambda>v m. v = c \<and> B m) \<Longrightarrow> triple B (q c) C \<Longrightarrow> triple A (State_Monad.bind p q) C"
  by (fastforce simp: triple_def split: prod.splits)

lemma triple_pure: "(Q \<Longrightarrow> triple A p B) \<Longrightarrow> triple (\<lambda>m. Q \<and> A m) p B"
  by (auto simp: triple_def)

lemma triple_ex: "(\<And>x. triple (A x) p B) \<Longrightarrow> triple (\<lambda>m. \<exists>x. A x m) p B"
  unfolding triple_def by (intro allI impI, elim exE) simp

lemma triple_return: "(\<And>m. A m \<Longrightarrow> B v m) \<Longrightarrow> triple A (State_Monad.return v) B"
  by (simp add: triple_def)

lemma triple_ext:
  assumes "\<And>m. A m \<Longrightarrow> status m = Running"
    and "\<And>m. A m \<Longrightarrow> B (fst (reply P c (dev m))) (m\<lparr>dev := snd (reply P c (dev m)),
           log := (c, fst (reply P c (dev m))) # log m\<rparr>)"
  shows "triple A (ext P c) B"
  using assms by (simp add: triple_def run_state_ext)

lemma triple_conseq:
  "triple A p B \<Longrightarrow> (\<And>m. A' m \<Longrightarrow> A m) \<Longrightarrow> (\<And>v m. B v m \<Longrightarrow> B' v m) \<Longrightarrow> triple A' p B'"
  by (fastforce simp: triple_def split: prod.splits)

lemma triple_for_each:
  assumes "\<And>k y. k < length is \<Longrightarrow> triple (J k y) (body (is ! k) y) (J (Suc k))"
  shows "triple (J 0 x) (for_each is body x) (J (length is))"
  using assms
proof (induction "is" arbitrary: x J)
  case Nil
  show ?case by (simp add: triple_return)
next
  case (Cons i "is")
  have "triple (J 0 x) (body i x) (J (Suc 0))" using Cons.prems [of 0] by simp
  moreover have "triple (J (Suc 0) y) (for_each is body y) (J (length (i # is)))" for y
    using Cons.IH [of "\<lambda>k. J (Suc k)" y] Cons.prems by fastforce
  ultimately show ?case by (simp add: triple_bind)
qed

lemma triple_exec: "triple A p B \<Longrightarrow> A \<lparr>dev = d, log = [], status = Running\<rparr> \<Longrightarrow> \<exists>v. B v (exec p d)"
  by (auto simp: triple_def exec_def split_beta)

lemma for_each_append: "for_each (xs @ ys) f x = do { y \<leftarrow> for_each xs f x; for_each ys f y }"
  by (induction xs arbitrary: x) simp_all

text \<open>The machine is running and has given the verdicts \<open>V\<close>; nothing else is known.\<close>

definition judged :: "verdict list \<Rightarrow> 's mach \<Rightarrow> bool" where
  "judged V m \<longleftrightarrow> status m = Running \<and> verdicts (log m) = V"

lemma judged_ext:
  "silent c \<or> (\<exists>a. c = Hw_errmsg a) \<Longrightarrow> triple (judged V) (ext P c) (\<lambda>_. judged V)"
  by (rule triple_ext)
    (auto simp: judged_def verdicts_Cons_other dest: silentD simp del: silent_def)

lemma judged_hw_done: "triple (judged V) (hw_done P v) (\<lambda>_. judged (v # V))"
  unfolding hw_done_def by (rule triple_ext) (auto simp: judged_def)

lemma judged_report:
  "triple (judged V) (report P e) (\<lambda>_. judged ((if e \<noteq> 0 then HW_TEST_FAIL else HW_TEST_PASS) # V))"
  unfolding report_def
  by (rule triple_bind [where B = "\<lambda>_. judged ((if e \<noteq> 0 then HW_TEST_FAIL else HW_TEST_PASS) # V)"])
    (auto intro: judged_hw_done triple_return)

lemma triple_if: "(b \<Longrightarrow> triple A p B) \<Longrightarrow> (\<not> b \<Longrightarrow> triple A q B) \<Longrightarrow> triple A (if b then p else q) B"
  by simp

lemma judged_for_each:
  assumes "\<And>i y. triple (judged V) (body i y) (\<lambda>_. judged V)"
  shows "triple (judged V) (for_each is body x) (\<lambda>_. judged V)"
  by (rule triple_for_each [where J = "\<lambda>_ _. judged V"]) (rule assms)

lemmas judged_intros = triple_bind [where B = "\<lambda>_. judged _"] judged_ext judged_report judged_for_each
  triple_if

section \<open>Runs that may stop\<close>

text \<open>
  A fragment that is started in a running machine with \<open>A\<close> either is still running at its end, with \<open>B\<close> of
  its result, or has stopped with \<open>S\<close>: a contract with one postcondition for each kind of end.
\<close>

definition runs ::
  "('s mach \<Rightarrow> bool) \<Rightarrow> ('s mach \<Rightarrow> bool) \<Rightarrow> ('s, 'a) prog \<Rightarrow> ('a \<Rightarrow> 's mach \<Rightarrow> bool) \<Rightarrow> bool" where
  "runs S A p B \<longleftrightarrow> frozen p \<and> (\<forall>m. status m = Running \<longrightarrow> A m \<longrightarrow>
     (case run_state p m of (v, m') \<Rightarrow> if status m' = Running then B v m' else S m'))"

lemma acct_frozen: "acct w x p f \<Longrightarrow> frozen p"
  by (simp add: acct_def acctR_def)

lemma frozen_report: "frozen (report P x)"
  by (rule acct_frozen [OF counting.acct_report])

lemma frozen_return: "frozen (State_Monad.return x)"
  by (simp add: frozen_def)

lemma frozen_peek: "frozen (State (\<lambda>m. (g m, m)))"
  by (simp add: frozen_def)

lemma frozen_halt: "frozen (halt s)"
  by (simp add: frozen_def halt_def)

lemma frozen_if: "(b \<Longrightarrow> frozen p) \<Longrightarrow> (\<not> b \<Longrightarrow> frozen q) \<Longrightarrow> frozen (if b then p else q)"
  by simp

lemma frozen_let: "frozen (p y) \<Longrightarrow> frozen (Let y p)"
  by simp

lemma frozen_for_each: "(\<And>i y. frozen (body i y)) \<Longrightarrow> frozen (for_each is body x)"
  by (induction "is" arbitrary: x) (simp_all add: frozen_return frozen_bind)

lemmas frozen_intros = frozen_bind frozen_if frozen_let frozen_for_each frozen_return frozen_ext frozen_peek
  frozen_halt frozen_report

lemma runsD:
  assumes "runs S A p B" and "status m = Running" and "A m" and "run_state p m = (v, m')"
  shows "status m' = Running \<Longrightarrow> B v m'" and "status m' \<noteq> Running \<Longrightarrow> S m'"
proof -
  have "case run_state p m of (v, m') \<Rightarrow> if status m' = Running then B v m' else S m'"
    using assms(1-3) by (simp only: runs_def)
  then show "status m' = Running \<Longrightarrow> B v m'" "status m' \<noteq> Running \<Longrightarrow> S m'" by (simp_all add: assms(4))
qed

lemma runs_bind:
  assumes p: "runs S A p B" and q: "\<And>v. runs S (B v) (q v) C"
  shows "runs S A (State_Monad.bind p q) C"
  unfolding runs_def
proof (intro conjI allI impI)
  show "frozen (State_Monad.bind p q)" using p q by (auto simp: runs_def intro: frozen_bind)
next
  fix m :: "'a mach"
  assume m: "status m = Running" "A m"
  obtain v m' where pm: "run_state p m = (v, m')" by (cases "run_state p m")
  obtain w m'' where qm: "run_state (q v) m' = (w, m'')" by (cases "run_state (q v) m'")
  note P = runsD [OF p m pm]
  have "if status m'' = Running then C w m'' else S m''"
  proof (cases "status m' = Running")
    case True
    then show ?thesis using runsD [OF q True P(1) [OF True] qm] by simp
  next
    case False
    with q [of v] qm have "m'' = m'" by (auto simp: runs_def frozen_def)
    with False P(2) show ?thesis by simp
  qed
  then show "case run_state (State_Monad.bind p q) m of (v, m') \<Rightarrow> if status m' = Running then C v m' else S m'"
    by (simp add: pm qm)
qed

lemma runs_frozen: "runs S A p B \<Longrightarrow> frozen p"
  by (simp add: runs_def)

lemma runs_return: "(\<And>m. A m \<Longrightarrow> B v m) \<Longrightarrow> runs S A (State_Monad.return v) B"
  by (simp add: runs_def frozen_def)

lemma runs_peek: "(\<And>m. A m \<Longrightarrow> B (g m) m) \<Longrightarrow> runs S A (State (\<lambda>m. (g m, m))) B"
  by (simp add: runs_def frozen_def)

lemma runs_ext:
  assumes "\<And>m. A m \<Longrightarrow> B (fst (reply P c (dev m))) (m\<lparr>dev := snd (reply P c (dev m)),
    log := (c, fst (reply P c (dev m))) # log m\<rparr>)"
  shows "runs S A (ext P c) B"
  using assms by (simp add: runs_def frozen_ext run_state_ext)

lemma runs_halt:
  "s \<noteq> Running \<Longrightarrow> (\<And>m. A m \<Longrightarrow> S (m\<lparr>status := s\<rparr>)) \<Longrightarrow> runs S A (halt s) B"
  by (simp add: runs_def frozen_def halt_def)

lemma runs_if: "(b \<Longrightarrow> runs S A p B) \<Longrightarrow> (\<not> b \<Longrightarrow> runs S A q B) \<Longrightarrow> runs S A (if b then p else q) B"
  by simp

lemma runs_let: "runs S A (p y) B \<Longrightarrow> runs S A (Let y p) B"
  by simp

lemma runs_conseq:
  assumes "runs S A p B" and "\<And>m. A' m \<Longrightarrow> A m" and "\<And>v m. B v m \<Longrightarrow> B' v m"
  shows "runs S A' p B'"
  using assms unfolding runs_def by (fastforce split: prod.splits if_splits)

lemma runs_pure: "(Q \<Longrightarrow> runs S A p B) \<Longrightarrow> frozen p \<Longrightarrow> runs S (\<lambda>m. Q \<and> A m) p B"
  by (auto simp: runs_def)

lemma runs_ex: "(\<And>x. runs S (A x) p B) \<Longrightarrow> runs S (\<lambda>m. \<exists>x. A x m) p B"
  unfolding runs_def by (intro conjI allI impI; (elim exE)?; simp)

lemma runs_for_each:
  assumes "\<And>k y. k < length is \<Longrightarrow> runs S (J k y) (body (is ! k) y) (J (Suc k))"
  shows "runs S (J 0 x) (for_each is body x) (J (length is))"
  using assms
proof (induction "is" arbitrary: x J)
  case Nil
  show ?case by (simp add: runs_return)
next
  case (Cons i "is")
  have "runs S (J 0 x) (body i x) (J (Suc 0))" using Cons.prems [of 0] by simp
  moreover have "runs S (J (Suc 0) y) (for_each is body y) (J (length (i # is)))" for y
    using Cons.IH [of "\<lambda>k. J (Suc k)" y] Cons.prems by fastforce
  ultimately show ?case by (simp add: runs_bind)
qed

lemma runs_for_each_const:
  "(\<And>i y. runs S A (body i y) (\<lambda>_. A)) \<Longrightarrow> runs S A (for_each is body x) (\<lambda>_. A)"
  by (rule runs_for_each [where J = "\<lambda>_ _. A"])

text \<open>A loop that stops when its fuel is used up. Its body has to restore \<open>A\<close> where it is repeated.\<close>

lemma runs_do_while:
  assumes body: "runs S A body B" and again: "\<And>v m. again v \<Longrightarrow> B v m \<Longrightarrow> A m"
    and out: "\<And>v m. again v \<Longrightarrow> B v m \<Longrightarrow> S (m\<lparr>status := Out_of_fuel\<rparr>)"
  shows "runs S A (do_while n body again) (\<lambda>v m. \<not> again v \<and> B v m)"
proof (induction n)
  case 0
  have "runs S (B v) (do { (if again v then halt Out_of_fuel else State_Monad.return ()); State_Monad.return v })
      (\<lambda>v m. \<not> again v \<and> B v m)" for v
    by (rule runs_bind [where B = "\<lambda>_ m. \<not> again v \<and> B v m"]) (auto intro!: runs_halt runs_return out)
  then show ?case by (simp add: runs_bind [OF body])
next
  case (Suc n)
  have "runs S (B v) (if again v then do_while n body again else State_Monad.return v)
      (\<lambda>v m. \<not> again v \<and> B v m)" for v
    by (auto intro: runs_conseq [OF Suc.IH] again runs_return)
  then show ?case by (simp add: runs_bind [OF body])
qed

section \<open>Absence of undefined behaviour\<close>

text \<open>The fragment does not run into undefined behaviour, and its result has the property \<open>Q\<close>.\<close>

definition safe :: "('s, 'a) prog \<Rightarrow> ('a \<Rightarrow> bool) \<Rightarrow> bool" where
  "safe p Q = triple (\<lambda>m. status m \<noteq> Undefined) p (\<lambda>v m. Q v \<and> status m \<noteq> Undefined)"

lemma safe_bind: "safe p Q \<Longrightarrow> (\<And>v. Q v \<Longrightarrow> safe (q v) R) \<Longrightarrow> safe (State_Monad.bind p q) R"
  by (fastforce simp: safe_def triple_def split: prod.splits)

lemma safe_return: "Q v \<Longrightarrow> safe (State_Monad.return v) Q"
  by (simp add: safe_def triple_def)

lemma safe_weaken: "safe p Q \<Longrightarrow> (\<And>v. Q v \<Longrightarrow> R v) \<Longrightarrow> safe p R"
  by (fastforce simp: safe_def triple_def split: prod.splits)

lemma safe_ext: "safe (ext P c) (\<lambda>_. True)"
  by (auto simp: safe_def triple_def ext_def split: prod.splits)

lemma safe_halt: "s \<noteq> Undefined \<Longrightarrow> safe (halt s) (\<lambda>_. True)"
  by (auto simp: safe_def triple_def halt_def)

lemma safe_peek: "safe (State (\<lambda>m. (g m, m))) (\<lambda>_. True)"
  by (simp add: safe_def triple_def)

lemma safe_if: "(b \<Longrightarrow> safe p Q) \<Longrightarrow> (\<not> b \<Longrightarrow> safe q Q) \<Longrightarrow> safe (if b then p else q) Q"
  by simp

lemma safe_let: "safe (p y) Q \<Longrightarrow> safe (Let y p) Q"
  by simp

lemma safe_for_each:
  assumes "\<And>k y. k < length is \<Longrightarrow> Q k y \<Longrightarrow> safe (body (is ! k) y) (Q (Suc k))" and "Q 0 x"
  shows "safe (for_each is body x) (Q (length is))"
  using assms
proof (induction "is" arbitrary: x Q)
  case (Cons i "is")
  have first: "safe (body i x) (Q 1)" using Cons.prems(1) [of 0 x] Cons.prems(2) by simp
  have "safe (for_each is body y) (Q (Suc (length is)))" if "Q 1 y" for y
    using Cons.IH [of "\<lambda>k. Q (Suc k)" y] Cons.prems(1) that by fastforce
  with first show ?case by (auto intro: safe_bind)
qed (simp add: safe_return)

lemma safe_for_each_any:
  "(\<And>i y. safe (body i y) (\<lambda>_. True)) \<Longrightarrow> safe (for_each is body x) (\<lambda>_. True)"
  using safe_for_each [of "is" "\<lambda>_ _. True" body x] by simp

lemma safe_do_while: "safe body (\<lambda>_. True) \<Longrightarrow> safe (do_while n body again) (\<lambda>_. True)"
proof (induction n)
  case 0
  show ?case
    by (auto intro!: safe_bind [OF 0] safe_bind [OF safe_halt] safe_return)
next
  case (Suc n)
  show ?case by (auto intro!: safe_bind [OF Suc.prems] Suc.IH safe_return Suc.prems)
qed

lemmas safe_intros = safe_bind [where Q = "\<lambda>_. True"] safe_ext safe_halt safe_peek safe_if safe_let
  safe_for_each_any safe_do_while safe_return

section \<open>Address sweeps\<close>

text \<open>The addresses a loop \<open>for (addr = a; addr < e; addr += 4)\<close> visits.\<close>

definition sweep_length :: "u32 \<Rightarrow> u32 \<Rightarrow> nat" where
  "sweep_length a e = (unat e - unat a + 3) div 4"

definition sweep :: "u32 \<Rightarrow> u32 \<Rightarrow> u32 list" where
  "sweep a e = map (\<lambda>i. a + word_of_nat (4 * i)) [0..<sweep_length a e]"

lemma sweep_Nil: "\<not> a < e \<Longrightarrow> sweep a e = []"
  by (simp add: sweep_def sweep_length_def word_less_nat_alt)

lemma unat_add_4: "a < e \<Longrightarrow> unat e + 3 < 2 ^ 32 \<Longrightarrow> unat (a + 4 :: u32) = unat a + 4"
  by (simp add: word_less_nat_alt unat_word_ariths)

lemma round_up_step:
  fixes x y :: nat
  assumes "x < y"
  shows "(y - x + 3) div 4 = Suc ((y - (x + 4) + 3) div 4)"
proof (cases "y - x \<le> 4")
  case True
  with assms have "y - x \<in> {1, 2, 3, 4}" by auto
  with True show ?thesis by auto
next
  case False
  then have "y - x + 3 = (y - (x + 4) + 3) + 4" by simp
  then show ?thesis by (simp only: )
qed

lemma sweep_length_step:
  "a < e \<Longrightarrow> unat e + 3 < 2 ^ 32 \<Longrightarrow> sweep_length a e = Suc (sweep_length (a + 4) e)"
  by (simp only: sweep_length_def unat_add_4 round_up_step word_less_nat_alt)

lemma sweep_Cons:
  assumes "a < e" and "unat e + 3 < 2 ^ 32"
  shows "sweep a e = a # sweep (a + 4) e"
  unfolding sweep_def sweep_length_step [OF assms] upt_conv_Cons [OF zero_less_Suc] map_Suc_upt [symmetric]
  by (simp add: add.assoc)

text \<open>
  With enough fuel the loop visits exactly these addresses and ends, provided its bound leaves room
  for the last increment; without that room the address wraps and the loop never ends.
\<close>

lemma for_addr_sweep:
  assumes "unat e + 3 < 2 ^ 32" and "sweep_length a e \<le> n"
  shows "for_addr n a e body x = for_each (sweep a e) body x"
  using assms(2)
proof (induction n arbitrary: a x)
  case 0
  then have "\<not> a < e" by (auto simp: sweep_length_def word_less_nat_alt)
  then show ?case by (simp add: sweep_Nil)
next
  case (Suc n)
  show ?case
  proof (cases "a < e")
    case True
    with Suc.prems have "sweep_length (a + 4) e \<le> n"
      by (simp add: sweep_length_step [OF _ assms(1)])
    then have "for_addr n (a + 4) e body = for_each (sweep (a + 4) e) body"
      by (intro ext Suc.IH)
    with True show ?thesis by (simp add: sweep_Cons [OF _ assms(1)])
  qed (simp add: sweep_Nil)
qed

end
