(* ===== verification/TestCommon.thy ===== *)
theory TestCommon
  imports Verdict
begin

text \<open>
  Code that is repeated, word for word, in most of the tests under \<open>src/verif/l3\<close>: starting the
  random number generator, allocating the command buffer, making a key attribute that the
  hardware accepts, programming the SInC registers, and the two leaf functions. Each block is one
  definition here; the tests call it where their source contains the block.
\<close>

section \<open>Prologue blocks\<close>

text \<open>\<open>INIT_TEST\<close> and \<open>CLEANUP_TEST\<close> of the tests without power management only print a message.\<close>

definition INIT_TEST :: "'s platform \<Rightarrow> ('s, unit) prog" where
  "INIT_TEST P = do { hw_status P []; State_Monad.return () }"

definition CLEANUP_TEST :: "'s platform \<Rightarrow> ('s, unit) prog" where
  "CLEANUP_TEST P = do { hw_status P []; State_Monad.return () }"

definition function1 :: "u32 \<Rightarrow> u32" where
  "function1 x = x - 5"

definition function2 :: "u32 \<Rightarrow> u32" where
  "function2 x = x + 5"

definition rng_start :: "config \<Rightarrow> 's platform \<Rightarrow> ('s, unit) prog" where
  "rng_start cfg P = do {
     ext P (Hsp_rng_enable (if PLAT__L3 cfg then 0x1 else 0xf));
     ext P Hsp_rng_wait_done;
     State_Monad.return ()
   }"

text \<open>\<open>new ALLOC_MEM\<close>, \<open>alloc_init\<close>, \<open>alloc(24)\<close>; a null buffer ends the test.\<close>

definition alloc_cmd_buf :: "config \<Rightarrow> 's platform \<Rightarrow> ('s, u32) prog" where
  "alloc_cmd_buf cfg P = do {
     ext P (New_ALLOC_MEM (K cfg SSY_HSP_SHAREDRAM_BASE_ADDR) 8);
     ext P Alloc_init;
     ccs_cmd_buf \<leftarrow> ext P (Alloc 24);
     (if ccs_cmd_buf = 0 then give_up P [] else State_Monad.return ());
     State_Monad.return ccs_cmd_buf
   }"

text \<open>A further buffer from the same allocator.\<close>

definition alloc_buf :: "'s platform \<Rightarrow> u32 \<Rightarrow> ('s, u32) prog" where
  "alloc_buf P n = do {
     b \<leftarrow> ext P (Alloc n);
     (if b = 0 then give_up P [] else State_Monad.return ());
     State_Monad.return b
   }"

text \<open>
  \<open>key_attr |= (IS_DEVICE_SECRET | AES_ENCRYPT_ALLOWED | AES_DECRYPT_ALLOWED);
  key_attr &= (~KEY_SIZE_384);\<close>
\<close>

definition valid_key_attr :: "config \<Rightarrow> u32 \<Rightarrow> u32" where
  "valid_key_attr cfg key_attr =
     (key_attr OR (K cfg KSU_ATTR_IS_DEVICE_SECRET OR K cfg KSU_ATTR_AES_ENCRYPT_ALLOWED
        OR K cfg KSU_ATTR_AES_DECRYPT_ALLOWED))
     AND NOT (K cfg KSU_ATTR_KEY_SIZE_384)"

text \<open>A random key with such an attribute, in slot \<open>slot\<close> of the key store.\<close>

definition gen_key :: "config \<Rightarrow> 's platform \<Rightarrow> u32 \<Rightarrow> u32 \<Rightarrow> ('s, u32) prog" where
  "gen_key cfg P errors slot = do {
     r \<leftarrow> ext P Rand;
     tally P errors (Gen_random_key_fixed_attr slot (valid_key_attr cfg r))
   }"

definition tag_offset :: u32 where
  "tag_offset = 0x1000000"

text \<open>The DMB window of the blocks, and the one of the tags, 16 MB above it.\<close>

definition acquire_sram :: "config \<Rightarrow> 's platform \<Rightarrow> ('s, u32) prog" where
  "acquire_sram cfg P = ext P (Dmb_acquire (K64 cfg SYS_SRAM4_BASE_ADDR) 0x0 0xA 0x0)"

definition acquire_tag_sram :: "config \<Rightarrow> 's platform \<Rightarrow> ('s, u32) prog" where
  "acquire_tag_sram cfg P =
     ext P (Dmb_acquire (K64 cfg SYS_SRAM4_BASE_ADDR + 0x1000000) 0x0 0xA 0x0)"

text \<open>The register writes that precede \<open>transition_to_initialized\<close>, with a zero nonce ...\<close>

definition write_settings_0 ::
  "config \<Rightarrow> 's platform \<Rightarrow> u32 \<Rightarrow> u32 \<Rightarrow> u32 \<Rightarrow> ('s, unit) prog" where
  "write_settings_0 cfg P block_num num_blocks sram_addr_ptr = do {
     sinc P (Write_reg R_block_encr_num block_num);
     sinc P (Write_reg R_num_of_blocks num_blocks);
     sinc P (Write_reg R_block_encr_addr (K cfg SSY_HSP_SHAREDRAM_BASE_ADDR));
     sinc P (Write_reg R_block_encr_key 0);
     sinc P (Write_reg R_aes_iv_nonce_0 0);
     sinc P (Write_reg R_aes_iv_nonce_1 0);
     sinc P (Write_reg R_aes_iv_nonce_2 0);
     sinc P (Write_reg R_ext_block_base_addr sram_addr_ptr);
     sinc P (Write_reg R_ext_auth_tag_base_addr (sram_addr_ptr + tag_offset));
     hw_status P [];
     State_Monad.return ()
   }"

text \<open>... and with a nonce held in an array.\<close>

definition write_settings ::
  "config \<Rightarrow> 's platform \<Rightarrow> u32 \<Rightarrow> u32 \<Rightarrow> u32 \<Rightarrow> buf \<Rightarrow> u32 \<Rightarrow> u32 \<Rightarrow> ('s, unit) prog" where
  "write_settings cfg P block_num num_blocks key_slot nonce block_addr_ptr tag_addr_ptr = do {
     sinc P (Write_reg R_block_encr_num block_num);
     sinc P (Write_reg R_num_of_blocks num_blocks);
     sinc P (Write_reg R_block_encr_addr (K cfg SSY_HSP_SHAREDRAM_BASE_ADDR));
     sinc P (Write_reg R_block_encr_key key_slot);
     sinc P (Write_all_aes_iv_nonce nonce);
     sinc P (Write_reg R_ext_block_base_addr block_addr_ptr);
     sinc P (Write_reg R_ext_auth_tag_base_addr tag_addr_ptr);
     State_Monad.return ()
   }"

text \<open>\<open>errors += f(...)\<close>, for a function \<open>f\<close> of the test itself.\<close>

definition add_errors :: "u32 \<Rightarrow> ('s, u32) prog \<Rightarrow> ('s, u32) prog" where
  "add_errors errors p = do { r \<leftarrow> p; State_Monad.return (errors + r) }"

text \<open>\<open>for (i = 0; i < 100; i++);\<close>: a delay with no effect on the state.\<close>

definition delay :: "nat \<Rightarrow> ('s, unit) prog" where
  "delay n = for_each (idx n) (\<lambda>i u. State_Monad.return u) ()"

lemma delay_return: "delay n = State_Monad.return ()"
proof -
  have "for_each xs (\<lambda>i u. State_Monad.return u) () = State_Monad.return ()" for xs :: "u32 list"
    by (induction xs) simp_all
  then show ?thesis by (simp add: delay_def)
qed

section \<open>Test parameters\<close>

text \<open>
  The class \<open>TestParams\<close> of \<open>params.h\<close>. \<open>hw_getTestParamsPtr\<close> hands the test an object that
  \<open>initParams\<close> has filled and that the run's configuration file may have overridden, so a test takes
  it as an argument.
\<close>

record test_params =
  disable_encryption :: u32
  num_blocks_to_encrypt :: u32
  PWRGATE :: u32
  CLKGATE :: u32
  DIS_PWR_SWTITCH :: u32

definition initParams :: test_params where
  "initParams = \<lparr>disable_encryption = 0, num_blocks_to_encrypt = 768, PWRGATE = 0, CLKGATE = 0,
     DIS_PWR_SWTITCH = 0\<rparr>"

text \<open>\<open>INIT_TEST\<close> of the tests that gate the clock or the power.\<close>

definition INIT_TEST_gate :: "config \<Rightarrow> 's platform \<Rightarrow> test_params \<Rightarrow> ('s, unit) prog" where
  "INIT_TEST_gate cfg P params = do {
     hw_status P [];
     (if CLKGATE params \<noteq> 0 \<or> PWRGATE params \<noteq> 0 then do {
        ext P (New_PCU_DRIVER (K cfg PCU_HSP_OFFSET) True);
        ext P Pcu_enable_interrupts;
        (if CLKGATE params \<noteq> 0
         then do { ext P Enable_external_interrupts; State_Monad.return () }
         else State_Monad.return ())
      } else State_Monad.return ())
   }"

section \<open>Tables of blocks\<close>

text \<open>\<open>repeat_val\<close>: does \<open>input\<close> occur among the first \<open>index\<close> entries of the array?\<close>

definition repeat_val :: "u32 \<Rightarrow> nat \<Rightarrow> u32 list \<Rightarrow> u32" where
  "repeat_val input index arr = (if list_ex (\<lambda>a. a = input) (take index arr) then 1 else 0)"

text \<open>
  \<open>do { x = f(rand()); } while (repeat_val(x, i, table)); table[i] = x;\<close> with the part of the table
  filled so far as a list.
\<close>

definition pick_fresh :: "config \<Rightarrow> 's platform \<Rightarrow> (u32 \<Rightarrow> u32) \<Rightarrow> u32 list \<Rightarrow> ('s, u32 list) prog" where
  "pick_fresh cfg P f table = do {
     x \<leftarrow> do_while (fuel cfg) (do { r \<leftarrow> ext P Rand; State_Monad.return (f r) })
       (\<lambda>x. repeat_val x (length table) table \<noteq> 0);
     State_Monad.return (table @ [x])
   }"

text \<open>Ten random unique blocks and ten random initial values.\<close>

definition pick_blocks :: "config \<Rightarrow> 's platform \<Rightarrow> ('s, u32 list \<times> u32 list) prog" where
  "pick_blocks cfg P =
     for_each (idx 10) (\<lambda>i tabs. do {
       block_table \<leftarrow> pick_fresh cfg P (\<lambda>r. r mod 32768) (fst tabs);
       v \<leftarrow> ext P Rand;
       State_Monad.return (block_table, snd tabs @ [v])
     }) ([], [])"

text \<open>Encrypt one block per pair of a block number and the seed of its contents, ...\<close>

definition encrypt_blocks :: "config \<Rightarrow> 's platform \<Rightarrow> (u32 \<times> u32) list \<Rightarrow> u32 \<Rightarrow> ('s, u32) prog" where
  "encrypt_blocks cfg P blocks errors =
     for_each blocks (\<lambda>b errors. do {
       sinc P (Setup_known_data (K cfg SSY_HSP_SHAREDRAM_BASE_ADDR) 128 (snd b));
       sinc P (Write_reg R_block_encr_num (fst b));
       tally_sinc P errors (Call_encrypt_block None)
     }) errors"

text \<open>... and compare the cached contents of each with what was encrypted.\<close>

definition check_block_data :: "config \<Rightarrow> 's platform \<Rightarrow> u32 \<Rightarrow> u32 \<Rightarrow> u32 \<Rightarrow> ('s, u32) prog" where
  "check_block_data cfg P block_num initial_value errors = do {
     hw_status P [1024 * 2, K cfg SSY_CPU0_MEMORY_DEF_HSP_CIRAM_ADDRESS + 512 * block_num];
     ext P Flush_uart;
     sinc P (Setup_known_data (K cfg SSY_HSP_SHAREDRAM_BASE_ADDR) 128 initial_value);
     differ \<leftarrow> ext P (Wordcmp (At (K cfg SSY_HSP_SHAREDRAM_BASE_ADDR))
       (At (K cfg SSY_CPU0_MEMORY_DEF_HSP_CIRAM_ADDRESS + 512 * block_num)) 128);
     errors \<leftarrow> (if differ \<noteq> 0 then do { hw_errmsg P []; State_Monad.return (errors + 1) }
       else State_Monad.return errors);
     hw_status P [];
     ext P Flush_uart;
     State_Monad.return errors
   }"

definition check_blocks :: "config \<Rightarrow> 's platform \<Rightarrow> (u32 \<times> u32) list \<Rightarrow> u32 \<Rightarrow> ('s, u32) prog" where
  "check_blocks cfg P blocks errors =
     for_each blocks (\<lambda>b errors. check_block_data cfg P (fst b) (snd b) errors) errors"

section \<open>Accounting of the blocks\<close>

lemma acct_delay [acct_intros, acct_sub_intros]: "acct w x (delay n) (\<lambda>_. x)"
  by (simp add: delay_return acct_return)

lemma acct_add_errors [acct_intros]:
  "acct w x p (\<lambda>r. x + r) \<Longrightarrow> acct w x (add_errors x p) (\<lambda>v. v)"
  unfolding add_errors_def by (erule acct_bind) (simp add: acct_return)

lemma acct_add_errors_sub [acct_sub_intros]:
  "acct w (x + y) p (\<lambda>r. (x + y) + r) \<Longrightarrow> acct w (x + y) (add_errors y p) (\<lambda>v. x + v)"
  unfolding add_errors_def by (erule acct_bind) (simp add: acct_return add.assoc)

lemma acct_rng_start [acct_intros]: "acct (counting ign) x (rng_start cfg P) (\<lambda>_. x)"
  unfolding rng_start_def by (rule acct_intros | simp)+

lemma acct_alloc_buf [acct_intros]:
  assumes "\<not> ign (Hw_errmsg [])"
  shows "acct (counting ign) x (alloc_buf P n) (\<lambda>_. x)"
proof -
  have check: "acct (counting ign) x (if b then give_up P [] else State_Monad.return ()) (\<lambda>_. x)" for b
    using assms by (intro acct_if acct_give_up acct_return_unit)
  show ?thesis
    unfolding alloc_buf_def
    by (rule acct_bind [OF acct_ext_silent acct_bind [OF check]]) (simp_all add: acct_return)
qed

lemma alloc_cmd_buf_alt: "alloc_cmd_buf cfg P = do {
    ext P (New_ALLOC_MEM (K cfg SSY_HSP_SHAREDRAM_BASE_ADDR) 8);
    ext P Alloc_init;
    alloc_buf P 24
  }"
  by (simp add: alloc_cmd_buf_def alloc_buf_def)

lemma acct_alloc_cmd_buf [acct_intros]:
  "\<not> ign (Hw_errmsg []) \<Longrightarrow> acct (counting ign) x (alloc_cmd_buf cfg P) (\<lambda>_. x)"
  unfolding alloc_cmd_buf_alt by (rule acct_intros | simp)+

lemma acct_acquire_sram [acct_intros]: "acct (counting ign) x (acquire_sram cfg P) (\<lambda>_. x)"
  unfolding acquire_sram_def by (rule acct_intros | simp)+

lemma acct_acquire_tag_sram [acct_intros]: "acct (counting ign) x (acquire_tag_sram cfg P) (\<lambda>_. x)"
  unfolding acquire_tag_sram_def by (rule acct_intros | simp)+

lemma acct_gen_key [acct_intros]:
  "(\<And>a. \<not> ign (Gen_random_key_fixed_attr slot a)) \<Longrightarrow>
   acct (counting ign) x (gen_key cfg P x slot) (\<lambda>v. v)"
  unfolding gen_key_def by (rule acct_intros | simp)+

lemma acct_write_settings_0 [acct_intros]:
  "acct (counting ign) x (write_settings_0 cfg P b n a) (\<lambda>_. x)"
  unfolding write_settings_0_def by (rule acct_intros | simp)+

lemma acct_write_settings [acct_intros]:
  "acct (counting ign) x (write_settings cfg P b n k nonce ba ta) (\<lambda>_. x)"
  unfolding write_settings_def by (rule acct_intros | simp)+

lemma acct_pick_fresh [acct_intros]: "acct (counting ign) x (pick_fresh cfg P f table) (\<lambda>_. x)"
  unfolding pick_fresh_def by (rule acct_intros acct_return | simp)+

lemma acct_pick_blocks [acct_intros]: "acct (counting ign) x (pick_blocks cfg P) (\<lambda>_. x)"
  unfolding pick_blocks_def
  by (rule acct_for_each [where f = "\<lambda>_. x"]) (rule acct_intros acct_return | simp)+

lemma acct_encrypt_blocks [acct_intros]:
  "\<not> ign (Sinc (Call_encrypt_block None)) \<Longrightarrow>
   acct (counting ign) x (encrypt_blocks cfg P bs x) (\<lambda>v. v)"
  unfolding encrypt_blocks_def by (rule acct_intros | simp)+

lemma acct_check_block_data [acct_intros]:
  "\<not> ign (Hw_errmsg []) \<Longrightarrow> acct (counting ign) x (check_block_data cfg P b v x) (\<lambda>v. v)"
  unfolding check_block_data_def by (rule acct_intros | simp)+

lemma acct_check_blocks [acct_intros]:
  "\<not> ign (Hw_errmsg []) \<Longrightarrow> acct (counting ign) x (check_blocks cfg P bs x) (\<lambda>v. v)"
  unfolding check_blocks_def by (rule acct_intros | simp)+

text \<open>None of the blocks is undefined.\<close>

lemma safe_blocks:
  "safe (rng_start cfg P) (\<lambda>_. True)" "safe (acquire_sram cfg P) (\<lambda>_. True)"
  "safe (alloc_cmd_buf cfg P) (\<lambda>_. True)"
  "safe (write_settings cfg P b n k nonce ba ta) (\<lambda>_. True)" "safe (random_fill P buf k') (\<lambda>_. True)"
  "safe (alloc_buf P n) (\<lambda>_. True)" "safe (hw_done P verdict) (\<lambda>_. True)"
  "safe (tally P e c) (\<lambda>_. True)" "safe (hw_errmsg P args) (\<lambda>_. True)" "safe (report P e) (\<lambda>_. True)"
  "safe (delay k') (\<lambda>_. True)"
  unfolding rng_start_def acquire_sram_def alloc_cmd_buf_def write_settings_def
    random_fill_def tally_def hw_errmsg_def report_def give_up_def hw_done_def delay_def
    alloc_buf_def
  by (rule safe_intros | simp)+

lemma safe_add_errors: "safe p (\<lambda>_. True) \<Longrightarrow> safe (add_errors e p) (\<lambda>_. True)"
  unfolding add_errors_def by (erule safe_bind) (simp add: safe_return)

section \<open>Key attributes\<close>

text \<open>
  The bits a SInC key needs and the bit it must not have; \<open>violations\<close> lists the requirements that an
  attribute word violates.
\<close>

definition violations :: "config \<Rightarrow> u32 \<Rightarrow> macro list" where
  "violations cfg a =
     filter (\<lambda>c. a AND K cfg c \<noteq> K cfg c)
       [KSU_ATTR_IS_DEVICE_SECRET, KSU_ATTR_AES_ENCRYPT_ALLOWED, KSU_ATTR_AES_DECRYPT_ALLOWED] @
     filter (\<lambda>c. a AND K cfg c \<noteq> 0) [KSU_ATTR_KEY_SIZE_384]"

text \<open>The attribute masks are single, distinct bits of the attribute word.\<close>

definition attr_masks_distinct :: "config \<Rightarrow> bool" where
  "attr_masks_distinct cfg \<longleftrightarrow>
     K cfg KSU_ATTR_IS_DEVICE_SECRET AND K cfg KSU_ATTR_KEY_SIZE_384 = 0 \<and>
     K cfg KSU_ATTR_AES_ENCRYPT_ALLOWED AND K cfg KSU_ATTR_KEY_SIZE_384 = 0 \<and>
     K cfg KSU_ATTR_AES_DECRYPT_ALLOWED AND K cfg KSU_ATTR_KEY_SIZE_384 = 0"

lemma or_and_absorb3:
  fixes a s t u c :: u32
  assumes "s AND c = 0"
  shows "((a OR (s OR t OR u)) AND NOT c) AND s = s"
    and "((a OR (t OR s OR u)) AND NOT c) AND s = s"
    and "((a OR (t OR u OR s)) AND NOT c) AND s = s"
  by (rule bit_word_eqI; use assms in \<open>auto simp: bit_simps dest: and_zero_bitD\<close>)+

lemma valid_key_attr_ok: "attr_masks_distinct cfg \<Longrightarrow> violations cfg (valid_key_attr cfg a) = []"
  by (simp add: violations_def attr_masks_distinct_def valid_key_attr_def or_and_absorb3 clear_then_none)

section \<open>Ending of the random choices\<close>

text \<open>The \<open>k\<close>-th of the draws of \<open>rand\<close> that follow the platform state \<open>d\<close>.\<close>

definition draw :: "'s platform \<Rightarrow> nat \<Rightarrow> 's \<Rightarrow> u32" where
  "draw P k d = fst (reply P Rand (((\<lambda>d. snd (reply P Rand d)) ^^ k) d))"

lemma draw_Suc: "draw P (Suc k) d = draw P k (snd (reply P Rand d))"
  by (simp add: draw_def funpow_Suc_right del: funpow.simps)

lemma draw_0: "draw P 0 d = fst (reply P Rand d)"
  by (simp add: draw_def)

lemma repeat_val_iff: "repeat_val x (length table) table \<noteq> 0 \<longleftrightarrow> x \<in> set table"
  by (auto simp: repeat_val_def list_ex_iff)

text \<open>The loop ends if one of the draws that its fuel allows is accepted, and it returns such a draw.\<close>

lemma draw_loop:
  assumes "status m = Running" and "k \<le> n" and "\<not> again (f (draw P k (dev m)))"
  shows "\<exists>j d tr. run_state (do_while n (do { r \<leftarrow> ext P Rand; State_Monad.return (f r) }) again) m =
      (f (draw P j (dev m)), m\<lparr>dev := d, log := tr @ log m\<rparr>) \<and> \<not> again (f (draw P j (dev m))) \<and>
      d = ((\<lambda>d. snd (reply P Rand d)) ^^ Suc j) (dev m) \<and> set tr \<subseteq> {Rand} \<times> UNIV"
  using assms
proof (induction n arbitrary: m k)
  case 0
  then show ?case
    by (intro exI [of _ 0] exI [of _ "snd (reply P Rand (dev m))"]
        exI [of _ "[(Rand, fst (reply P Rand (dev m)))]"]) (simp add: run_state_ext draw_0)
next
  case (Suc n)
  let ?x = "fst (reply P Rand (dev m))"
  let ?m = "m\<lparr>dev := snd (reply P Rand (dev m)), log := (Rand, ?x) # log m\<rparr>"
  show ?case
  proof (cases "again (f ?x)")
    case True
    with Suc.prems have "k \<noteq> 0" by (intro notI) (simp add: draw_0)
    then obtain i where i: "k = Suc i" by (cases k) auto
    with Suc.prems have "i \<le> n" "\<not> again (f (draw P i (dev ?m)))" by (simp_all add: draw_Suc)
    from Suc.IH [of ?m, OF _ this] Suc.prems(1) obtain j d tr where
      "run_state (do_while n (do { r \<leftarrow> ext P Rand; State_Monad.return (f r) }) again) ?m =
        (f (draw P j (dev ?m)), ?m\<lparr>dev := d, log := tr @ log ?m\<rparr>)"
      "\<not> again (f (draw P j (dev ?m)))" "d = ((\<lambda>d. snd (reply P Rand d)) ^^ Suc j) (dev ?m)"
      "set tr \<subseteq> {Rand} \<times> UNIV" by auto
    with True Suc.prems(1) show ?thesis
      by (intro exI [of _ "Suc j"] exI [of _ d] exI [of _ "tr @ [(Rand, ?x)]"])
        (simp add: run_state_ext draw_Suc funpow_Suc_right del: funpow.simps)
  next
    case False
    with Suc.prems(1) show ?thesis
      by (intro exI [of _ 0] exI [of _ "snd (reply P Rand (dev m))"] exI [of _ "[(Rand, ?x)]"])
        (simp add: run_state_ext draw_0)
  qed
qed

text \<open>Choosing one more entry of a table, for any property that the draws do not disturb.\<close>

lemma runs_pick_fresh:
  assumes draw: "\<And>m. A m \<Longrightarrow> A (m\<lparr>dev := snd (reply P Rand (dev m)), log := (Rand, fst (reply P Rand (dev m))) # log m\<rparr>)"
    and out: "\<And>m. A m \<Longrightarrow> S (m\<lparr>status := Out_of_fuel\<rparr>)"
  shows "runs S A (pick_fresh cfg P f table) (\<lambda>t m. (\<exists>r. t = table @ [f r] \<and> f r \<notin> set table) \<and> A m)"
proof -
  have body: "runs S A (do { r \<leftarrow> ext P Rand; State_Monad.return (f r) }) (\<lambda>x m. x \<in> range f \<and> A m)"
    by (rule runs_bind [where B = "\<lambda>_. A"]) (auto intro: runs_ext runs_return draw)
  show ?thesis
    unfolding pick_fresh_def
    by (rule runs_bind [OF runs_do_while [OF body]]) (auto simp: repeat_val_iff out intro!: runs_return)
qed

text \<open>The tables after \<open>k\<close> rounds, and the draws made for them.\<close>

definition tables_ok :: "nat \<Rightarrow> u32 list \<times> u32 list \<Rightarrow> bool" where
  "tables_ok k tabs \<longleftrightarrow> distinct (fst tabs) \<and> length (fst tabs) = k \<and> length (snd tabs) = k \<and>
     (\<forall>b \<in> set (fst tabs). b < 32768)"

lemma runs_pick_blocks:
  "runs (\<lambda>m. status m = Out_of_fuel) (\<lambda>_. True) (pick_blocks cfg P) (\<lambda>tabs _. tables_ok 10 tabs)"
proof -
  let ?S = "\<lambda>m. status m = Out_of_fuel" and ?f = "\<lambda>r :: u32. r mod 32768"
  have step: "runs ?S (\<lambda>_. tables_ok k tabs) (do {
      block_table \<leftarrow> pick_fresh cfg P ?f (fst tabs);
      v \<leftarrow> ext P Rand;
      State_Monad.return (block_table, snd tabs @ [v]) }) (\<lambda>tabs _. tables_ok (Suc k) tabs)" for k tabs
  proof (rule runs_bind)
    show "runs ?S (\<lambda>_. tables_ok k tabs) (pick_fresh cfg P ?f (fst tabs))
        (\<lambda>t m. (\<exists>r. t = fst tabs @ [?f r] \<and> ?f r \<notin> set (fst tabs)) \<and> tables_ok k tabs)"
      by (rule runs_pick_fresh) simp_all
    show "runs ?S (\<lambda>m. (\<exists>r. t = fst tabs @ [?f r] \<and> ?f r \<notin> set (fst tabs)) \<and> tables_ok k tabs)
        (do { v \<leftarrow> ext P Rand; State_Monad.return (t, snd tabs @ [v]) }) (\<lambda>tabs _. tables_ok (Suc k) tabs)" for t
      by (rule runs_bind [where B = "\<lambda>_ _. (\<exists>r. t = fst tabs @ [?f r] \<and> ?f r \<notin> set (fst tabs)) \<and> tables_ok k tabs"])
        (auto intro!: runs_ext runs_return simp: tables_ok_def word_mod_less_divisor)
  qed
  have "runs ?S (\<lambda>_. tables_ok 0 ([], [])) (pick_blocks cfg P) (\<lambda>tabs _. tables_ok (length (idx 10)) tabs)"
    unfolding pick_blocks_def by (rule runs_for_each [where J = "\<lambda>k tabs _. tables_ok k tabs"]) (rule step)
  then show ?thesis by (rule runs_conseq) (simp_all add: tables_ok_def)
qed

lemma draw_funpow: "draw P k (((\<lambda>d. snd (reply P Rand d)) ^^ i) d) = draw P (i + k) d"
  unfolding draw_def add.commute [of i k] funpow_add by simp

definition drawing :: "'s platform \<Rightarrow> 's \<Rightarrow> nat \<Rightarrow> u32 list \<times> u32 list \<Rightarrow> 's mach \<Rightarrow> bool" where
  "drawing P d k tabs m \<longleftrightarrow> status m = Running \<and> length (fst tabs) = k \<and>
     (\<exists>i. dev m = ((\<lambda>d. snd (reply P Rand d)) ^^ i) d)"

lemma pick_step:
  fixes P :: "'s platform"
  assumes "\<And>i table. length table < 10 \<Longrightarrow> \<exists>k \<le> fuel cfg. draw P (i + k) d mod 32768 \<notin> set table" and "k < 10"
  shows "triple (drawing P d k tabs) (do {
      block_table \<leftarrow> pick_fresh cfg P (\<lambda>r. r mod 32768) (fst tabs);
      v \<leftarrow> ext P Rand;
      State_Monad.return (block_table, snd tabs @ [v]) }) (drawing P d (Suc k))"
  unfolding triple_def
proof (intro allI impI)
  fix m :: "'s mach"
  let ?rand = "\<lambda>d. snd (reply P Rand d)" and ?again = "\<lambda>x. repeat_val x (length (fst tabs)) (fst tabs) \<noteq> 0"
  assume ok: "drawing P d k tabs m"
  then obtain i where i: "dev m = (?rand ^^ i) d" by (auto simp: drawing_def)
  from ok assms(1) [of "fst tabs" i] assms(2) obtain j
    where j: "j \<le> fuel cfg" "\<not> ?again (draw P j (dev m) mod 32768)"
    by (auto simp: drawing_def i draw_funpow repeat_val_iff)
  from ok have "status m = Running" by (simp add: drawing_def)
  from draw_loop [where again = ?again and f = "\<lambda>r. r mod 32768", OF this j] obtain x e tr l where
    run: "run_state (do_while (fuel cfg) (do { r \<leftarrow> ext P Rand; State_Monad.return (r mod 32768) }) ?again) m =
      (x, m\<lparr>dev := e, log := tr @ log m\<rparr>)" and e: "e = (?rand ^^ Suc l) (dev m)" by blast
  have "?rand e = (?rand ^^ (Suc (Suc l) + i)) d" by (simp add: e i funpow_add)
  then have "\<exists>i. ?rand e = (?rand ^^ i) d" by blast
  moreover have "run_state (do {
      block_table \<leftarrow> pick_fresh cfg P (\<lambda>r. r mod 32768) (fst tabs);
      v \<leftarrow> ext P Rand;
      State_Monad.return (block_table, snd tabs @ [v]) }) m =
    ((fst tabs @ [x], snd tabs @ [fst (reply P Rand e)]),
     m\<lparr>dev := ?rand e, log := (Rand, fst (reply P Rand e)) # tr @ log m\<rparr>)"
    using \<open>status m = Running\<close> by (simp add: pick_fresh_def run run_state_ext)
  ultimately show "case run_state (do {
      block_table \<leftarrow> pick_fresh cfg P (\<lambda>r. r mod 32768) (fst tabs);
      v \<leftarrow> ext P Rand;
      State_Monad.return (block_table, snd tabs @ [v]) }) m of (tabs, m) \<Rightarrow> drawing P d (Suc k) tabs m"
    using ok by (simp add: drawing_def)
qed

text \<open>A table of fewer than ten values does not contain ten different draws.\<close>

lemma fresh_draw:
  assumes "distinct (map (\<lambda>k. f (draw P k d)) [0..<10])" and "length table < 10"
  shows "\<exists>k \<le> 9. f (draw P k d) \<notin> set table"
proof (rule ccontr)
  assume "\<not> ?thesis"
  then have "set (map (\<lambda>k. f (draw P k d)) [0..<10]) \<subseteq> set table" by auto
  then have "card (set (map (\<lambda>k. f (draw P k d)) [0..<10])) \<le> card (set table)"
    by (rule card_mono [rotated]) simp
  also have "\<dots> \<le> length table" by (rule card_length)
  finally show False using assms distinct_card [OF assms(1)] by simp
qed

section \<open>A sample configuration\<close>

text \<open>Concrete constants, used where a theorem is applied to a concrete configuration.\<close>

definition sample_cfg :: config where
  "sample_cfg = \<lparr>
     K = (\<lambda>c. case c of
         SSY_CPU0_MEMORY_DEF_HSP_IRAM_ADDRESS \<Rightarrow> 0x10000
       | SSY_CPU0_MEMORY_DEF_HSP_IRAM_DEPTH \<Rightarrow> 2
       | SSY_CPU0_MEMORY_DEF_HSP_IRAM_WIDTH \<Rightarrow> 32
       | SSY_CPU0_MEMORY_DEF_HSP_CIRAM_ADDRESS \<Rightarrow> 0x1000000
       | SSY_CPU0_MEMORY_DEF_HSP_CIRAM_DEPTH \<Rightarrow> 0x4000
       | SSY_CPU0_MEMORY_DEF_HSP_CIRAM_WIDTH \<Rightarrow> 32
       | SSY_HSP_SHAREDRAM_BASE_ADDR \<Rightarrow> 0x20000
       | SSY_HSP_KSU_NUM_KEYS \<Rightarrow> 16
       | KSU_ATTR_IS_DEVICE_SECRET \<Rightarrow> 1
       | KSU_ATTR_AES_ENCRYPT_ALLOWED \<Rightarrow> 2
       | KSU_ATTR_AES_DECRYPT_ALLOWED \<Rightarrow> 4
       | KSU_ATTR_KEY_SIZE_384 \<Rightarrow> 8
       | SINC_STATE_INITIALIZED \<Rightarrow> 0x0F
       | SINC_STATE_CACHE_ACTIVE \<Rightarrow> 0xF0
       | SINC_STATE_CACHE_FAILED \<Rightarrow> 0xFF
       | SINC_REGS_WRITE_MASK _ \<Rightarrow> 0xFFFFFFFF
       | _ \<Rightarrow> 0),
     K64 = (\<lambda>c. 0x40000000), PLAT__L3 = True, fuel = 4\<rparr>"

text \<open>A platform on which \<open>rand\<close> counts.\<close>

definition counting_rand :: "u32 platform" where
  "counting_rand = \<lparr>reply = (\<lambda>c d. case c of Rand \<Rightarrow> (d, d + 1) | _ \<Rightarrow> (0, d)), fill = (\<lambda>d n. 0)\<rparr>"

section \<open>Properties\<close>

text \<open>C30: the blocks chosen for a test are ten different ones of the 32768 that the external memory has,
  whatever \<open>rand\<close> returns: the choice ends with such a table or runs out of fuel. It ends with one if, in the
  sequence of random numbers from the present state on, no nine blocks ever fill a stretch of \<open>fuel + 1\<close>
  numbers.\<close>

theorem pick_blocks_unique:
  assumes "status m = Running"
  shows "case run_state (pick_blocks cfg P) m of ((block_table, initial_value), m') \<Rightarrow>
    status m' \<in> {Running, Out_of_fuel} \<and>
    (status m' = Running \<longrightarrow> length block_table = 10 \<and> length initial_value = 10 \<and>
      distinct block_table \<and> (\<forall>b \<in> set block_table. b < 32768)) \<and>
    ((\<forall>i table. length table < 10 \<longrightarrow> (\<exists>k \<le> fuel cfg. draw P (i + k) (dev m) mod 32768 \<notin> set table)) \<longrightarrow>
      status m' = Running)"
proof -
  obtain tabs m' where r: "run_state (pick_blocks cfg P) m = (tabs, m')" by (cases "run_state (pick_blocks cfg P) m")
  note ends = runsD [OF runs_pick_blocks assms TrueI r]
  have "status m' = Running"
    if "\<forall>i table. length table < 10 \<longrightarrow> (\<exists>k \<le> fuel cfg. draw P (i + k) (dev m) mod 32768 \<notin> set table)"
  proof -
    have "triple (drawing P (dev m) 0 ([], [])) (pick_blocks cfg P) (drawing P (dev m) (length (idx 10)))"
      unfolding pick_blocks_def
      by (rule triple_for_each [where J = "drawing P (dev m)"]) (rule pick_step, use that in simp_all)
    moreover have "drawing P (dev m) 0 ([], []) m"
      using assms by (auto simp: drawing_def intro: exI [of _ 0])
    ultimately show ?thesis using r by (auto simp: triple_def drawing_def)
  qed
  with ends r show ?thesis by (cases tabs) (auto simp: tables_ok_def)
qed

lemma draw_counting_rand: "draw counting_rand k d = d + word_of_nat k"
proof (induction k arbitrary: d)
  case (Suc k)
  then show ?case by (simp add: draw_Suc counting_rand_def)
qed (simp add: draw_0 counting_rand_def)

lemma add_mod_cancel:
  fixes a i j n :: nat
  assumes "(a + i) mod n = (a + j) mod n" and "i \<le> j" and "j < n"
  shows "i = j"
proof -
  have "n dvd (a + j) - (a + i)"
    using assms by (subst mod_eq_dvd_iff_nat [symmetric]) simp_all
  then have "j - i = 0" using assms(3) nat_dvd_not_less [of "j - i" n] by fastforce
  with assms(2) show ?thesis by simp
qed

lemma unat_draw: "unat (draw counting_rand k d mod 32768) = (unat d + k) mod 32768" if "k < 10"
  using that by (simp add: draw_counting_rand unat_mod unat_word_ariths unat_of_nat mod_mod_cancel)

lemma counting_rand_distinct: "distinct (map (\<lambda>k. draw counting_rand k d mod 32768) [0..<10])"
  unfolding distinct_map
proof (intro conjI inj_onI)
  fix i j
  assume "i \<in> set [0..<10]" "j \<in> set [0..<10]"
    and eq: "draw counting_rand i d mod 32768 = draw counting_rand j d mod 32768"
  then have less: "i < 10" "j < 10" by simp_all
  have "(unat d + i) mod 32768 = (unat d + j) mod 32768"
    using arg_cong [OF eq, of unat] unat_draw less by simp
  with add_mod_cancel [of "unat d" i 32768 j] add_mod_cancel [of "unat d" j 32768 i] less
  show "i = j" by linarith
qed simp

theorem pick_blocks_unique_witness:
  "case run_state (pick_blocks (sample_cfg\<lparr>fuel := 9\<rparr>) counting_rand)
      \<lparr>dev = 0xfffffffb, log = [], status = Running\<rparr> of ((block_table, initial_value), m') \<Rightarrow>
    status m' = Running \<and> distinct block_table"
proof -
  have "\<exists>k \<le> 9. draw counting_rand (i + k) 0xfffffffb mod 32768 \<notin> set table" if "length table < 10" for i table
    using fresh_draw [where f = "\<lambda>r. r mod 32768", OF counting_rand_distinct that, of "0xfffffffb + word_of_nat i"]
    by (simp add: draw_counting_rand add.assoc)
  then show ?thesis
    using pick_blocks_unique [of "\<lparr>dev = 0xfffffffb, log = [], status = Running\<rparr>" "sample_cfg\<lparr>fuel := 9\<rparr>" counting_rand]
    by (auto split: prod.splits)
qed

end
