(* ===== verification/TestsMem.thy ===== *)
theory TestsMem
  imports TestCommon
begin

text \<open>
  The tests that access the instruction memories directly: \<open>iram_mem_access\<close>,
  \<open>partial_word_mem_access_iram\<close>, \<open>sinc_cache_disabled_mem_access\<close>,
  \<open>sinc_cache_disabled_mem_access_byte\<close> and \<open>sinc_cache_initialized_mem_access\<close>. Their verdicts are
  compared with the failures they log, and the sub-word tests are run against any byte-addressed
  little-endian memory.
\<close>

section \<open>iram_mem_access\<close>

definition iram_end :: "config \<Rightarrow> u32" where
  "iram_end cfg = K cfg SSY_CPU0_MEMORY_DEF_HSP_IRAM_ADDRESS +
     K cfg SSY_CPU0_MEMORY_DEF_HSP_IRAM_DEPTH * K cfg SSY_CPU0_MEMORY_DEF_HSP_IRAM_WIDTH div 8"

definition iram_fill_word :: "'s platform \<Rightarrow> u32 \<Rightarrow> unit \<Rightarrow> ('s, unit) prog" where
  "iram_fill_word P addr u = do { ext P (Hw_write32 addr (0x12345678 + addr)); State_Monad.return () }"

definition iram_check_word :: "'s platform \<Rightarrow> u32 \<Rightarrow> unit \<Rightarrow> ('s, unit) prog" where
  "iram_check_word P addr u = do {
     ext P (Hw_write32 0x8F000240 1);
     ext P (Hw_write32 0x8F000244 addr);
     rdata \<leftarrow> ext P (Hw_read32 addr);
     ext P (Hw_write32 0x8F000240 2);
     let exp_data = 0x12345678 + addr;
     ext P (Hw_write32 0x8F000240 3);
     (if rdata \<noteq> exp_data then do { hw_errmsg P [rdata, exp_data, addr]; State_Monad.return () }
      else State_Monad.return ());
     ext P (Hw_write32 0x8F000240 3);
     State_Monad.return ()
   }"

definition iram_mem_access_RUN_TEST :: "config \<Rightarrow> 's platform \<Rightarrow> ('s, unit) prog" where
  "iram_mem_access_RUN_TEST cfg P = do {
     let errors = 0;
     rng_start cfg P;
     hw_status P [K cfg SSY_CPU0_MEMORY_DEF_HSP_IRAM_ADDRESS];
     let start_addr = K cfg SSY_CPU0_MEMORY_DEF_HSP_IRAM_ADDRESS;
     let end_addr = iram_end cfg;
     for_addr (fuel cfg) start_addr end_addr (iram_fill_word P) ();
     hw_status P [K cfg SSY_CPU0_MEMORY_DEF_HSP_IRAM_ADDRESS];
     for_addr (fuel cfg) start_addr end_addr (iram_check_word P) ();
     report P errors
   }"

section \<open>The two sub-word tests\<close>

text \<open>
  \<open>partial_word_mem_access_iram\<close> and \<open>sinc_cache_disabled_mem_access_byte\<close> have the same body,
  once on the local and once on the cached instruction memory.
\<close>

definition check_byte :: "'s platform \<Rightarrow> u32 \<Rightarrow> u32 \<Rightarrow> u32 \<Rightarrow> u32 \<Rightarrow> ('s, u32) prog" where
  "check_byte P base i expected errors = do {
     rdata \<leftarrow> ext P (Load8 (base + i));
     (if rdata \<noteq> expected then do {
        hw_errmsg P [base, 0xabcdef87, rdata];
        State_Monad.return (errors + 1)
      } else State_Monad.return errors)
   }"

definition sub_word_access :: "'s platform \<Rightarrow> u32 \<Rightarrow> ('s, unit) prog" where
  "sub_word_access P data = do {
     let errors = 0;
     ext P (Store8 data 0x12);
     ext P (Store8 (data + 1) 0x34);
     ext P (Store8 (data + 2) 0x56);
     ext P (Store8 (data + 3) 0x78);
     rdata \<leftarrow> ext P (Load32 data);
     errors \<leftarrow> (if rdata \<noteq> 0x78563412 then do {
         hw_errmsg P [data, 0x78563412, rdata];
         State_Monad.return (errors + 1)
       } else State_Monad.return errors);
     ext P (Store32 data 0xabcdef87);
     errors \<leftarrow> check_byte P data 0 0x87 errors;
     errors \<leftarrow> check_byte P data 1 0xef errors;
     errors \<leftarrow> check_byte P data 2 0xcd errors;
     errors \<leftarrow> check_byte P data 3 0xab errors;
     report P errors
   }"

definition partial_word_mem_access_iram_RUN_TEST :: "config \<Rightarrow> 's platform \<Rightarrow> ('s, unit) prog" where
  "partial_word_mem_access_iram_RUN_TEST cfg P =
     sub_word_access P (K cfg SSY_CPU0_MEMORY_DEF_HSP_IRAM_ADDRESS)"

definition cache_disabled_mem_access_byte_RUN_TEST :: "config \<Rightarrow> 's platform \<Rightarrow> ('s, unit) prog" where
  "cache_disabled_mem_access_byte_RUN_TEST cfg P =
     sub_word_access P (K cfg SSY_CPU0_MEMORY_DEF_HSP_CIRAM_ADDRESS)"

section \<open>Cache disabled and cache initialized: access to the cached memory\<close>

definition ciram_end :: "config \<Rightarrow> u32" where
  "ciram_end cfg = K cfg SSY_CPU0_MEMORY_DEF_HSP_CIRAM_ADDRESS +
     K cfg SSY_CPU0_MEMORY_DEF_HSP_CIRAM_DEPTH * K cfg SSY_CPU0_MEMORY_DEF_HSP_CIRAM_WIDTH div 8"

definition enable_access_irqs :: "config \<Rightarrow> 's platform \<Rightarrow> ('s, unit) prog" where
  "enable_access_irqs cfg P = do {
     ext P Int_get_instance;
     ext P (Enable_interrupt (K cfg HSP_SP_BUS_ERR_IRQ) sp_bus_err_interrupt_handler);
     ext P (Enable_interrupt (K cfg HSP_MPU_IRQ) mpu_interrupt_handler);
     ext P (Enable_interrupt (K cfg HSP_DBT_IRQ) mpu_dabort_handler);
     State_Monad.return ()
   }"

text \<open>
  The block "read and write above cached iram": a mismatch is announced by \<open>hw_errmsg\<close>, and the
  counter \<open>errors\<close> is not touched.
\<close>

definition access_above_ciram :: "config \<Rightarrow> 's platform \<Rightarrow> ('s, unit) prog" where
  "access_above_ciram cfg P = do {
     let ciram_end_addr = ciram_end cfg;
     wdata \<leftarrow> do_while (fuel cfg) (ext P Rand) (\<lambda>wdata. wdata = 0);
     hw_status P [];
     ext P (Hw_write32 ciram_end_addr wdata);
     hw_status P [];
     rdata \<leftarrow> ext P (Hw_read32 ciram_end_addr);
     (if wdata = rdata then do { hw_errmsg P [rdata, wdata]; State_Monad.return () }
      else State_Monad.return ());
     delay 100;
     sp_bus_err_cnt \<leftarrow> ext P (Int_trig_count (K cfg HSP_SP_BUS_ERR_IRQ));
     (if sp_bus_err_cnt \<noteq> 2 then do { hw_errmsg P [sp_bus_err_cnt, 2]; State_Monad.return () }
      else State_Monad.return ())
   }"

definition cache_disabled_mem_access_RUN_TEST :: "config \<Rightarrow> 's platform \<Rightarrow> ('s, unit) prog" where
  "cache_disabled_mem_access_RUN_TEST cfg P = do {
     sinc P New_SINC_DRIVER;
     let errors = 0;
     enable_access_irqs cfg P;
     let ciram_start_addr = K cfg SSY_CPU0_MEMORY_DEF_HSP_CIRAM_ADDRESS;
     let ciram_end_addr = ciram_end cfg;
     sinc P Read_all_regs;
     errors \<leftarrow> tally_sinc P errors (Test_ram_rw ciram_start_addr ciram_end_addr);
     errors \<leftarrow> tally_sinc P errors (Test_ram_func ciram_start_addr ciram_end_addr Function1 Function2);
     errors \<leftarrow> tally_sinc P errors (Check_sinc_state (K cfg SINC_STATE_DISABLED));
     access_above_ciram cfg P;
     report P errors
   }"

definition cache_initialized_mem_access_RUN_TEST :: "config \<Rightarrow> 's platform \<Rightarrow> ('s, unit) prog" where
  "cache_initialized_mem_access_RUN_TEST cfg P = do {
     sinc P New_SINC_DRIVER;
     ext P New_DMB_DRIVER;
     let errors = 0;
     enable_access_irqs cfg P;
     rng_start cfg P;
     let ciram_start_addr = K cfg SSY_CPU0_MEMORY_DEF_HSP_CIRAM_ADDRESS;
     let ciram_end_addr = ciram_end cfg;
     sram_addr_ptr \<leftarrow> acquire_sram cfg P;
     ccs_cmd_buf \<leftarrow> alloc_cmd_buf cfg P;
     ext P (New_CCS_DRIVER ccs_cmd_buf 0 0 0);
     r \<leftarrow> ext P Rand;
     let key_attr = valid_key_attr cfg r;
     errors \<leftarrow> tally P errors (Gen_random_key_fixed_attr 0 key_attr);
     write_settings_0 cfg P 0 0 sram_addr_ptr;
     st \<leftarrow> sinc P (Read_reg R_status);
     hw_status P [st];
     initial_value \<leftarrow> ext P Rand;
     sinc P (Setup_known_data (K cfg SSY_CPU0_MEMORY_DEF_HSP_CIRAM_ADDRESS) 128 initial_value);
     errors \<leftarrow> tally_sinc P errors (Transition_to_initialized None);
     errors \<leftarrow> tally_sinc P errors
       (Check_known_data (K cfg SSY_CPU0_MEMORY_DEF_HSP_CIRAM_ADDRESS) 128 initial_value);
     errors \<leftarrow> tally_sinc P errors (Test_ram_rw ciram_start_addr ciram_end_addr);
     errors \<leftarrow> tally_sinc P errors (Test_ram_func ciram_start_addr ciram_end_addr Function1 Function2);
     access_above_ciram cfg P;
     report P errors;
     report P errors
   }"

section \<open>Verdicts\<close>

lemma acct_check_byte [acct_intros]:
  "acct (counting nothing_ignored) x (check_byte P b i y x) (\<lambda>v. v)"
  unfolding check_byte_def by (rule acct_intros | simp)+

lemma acct_sub_word_access: "acct_done (counting nothing_ignored) 0 (sub_word_access P a)"
  unfolding sub_word_access_def by (rule acct_intros | simp)+

text \<open>The messages of \<open>access_above_ciram\<close>, the only ones with two arguments in their tests.\<close>

definition above_ciram_message :: "call \<Rightarrow> bool" where
  "above_ciram_message c = (case c of Hw_errmsg args \<Rightarrow> length args = 2 | _ \<Rightarrow> False)"

lemma acct_access_above_ciram [acct_intros]:
  "acct (counting above_ciram_message) x (access_above_ciram cfg P) (\<lambda>_. x)"
  unfolding access_above_ciram_def
  by (rule acct_errmsg_ignored acct_intros | simp add: above_ciram_message_def)+

lemma acct_enable_access_irqs [acct_intros]:
  "acct (counting ign) x (enable_access_irqs cfg P) (\<lambda>_. x)"
  unfolding enable_access_irqs_def by (rule acct_intros | simp)+

lemma acct_cache_disabled_mem_access:
  "acct_done (counting above_ciram_message) 0 (cache_disabled_mem_access_RUN_TEST cfg P)"
  unfolding cache_disabled_mem_access_RUN_TEST_def
  by (rule acct_intros | simp add: above_ciram_message_def)+

lemma acct_cache_initialized_mem_access:
  "acct_done (counting above_ciram_message) 0 (cache_initialized_mem_access_RUN_TEST cfg P)"
  unfolding cache_initialized_mem_access_RUN_TEST_def
  by (rule acct_intros | simp add: above_ciram_message_def)+

section \<open>A byte-addressed memory\<close>

definition read_le :: "(u32 \<Rightarrow> u8) \<Rightarrow> u32 \<Rightarrow> u32" where
  "read_le m a = ucast (m a) OR push_bit 8 (ucast (m (a + 1))) OR
     push_bit 16 (ucast (m (a + 2))) OR push_bit 24 (ucast (m (a + 3)))"

definition write_le :: "(u32 \<Rightarrow> u8) \<Rightarrow> u32 \<Rightarrow> u32 \<Rightarrow> (u32 \<Rightarrow> u8)" where
  "write_le m a v = m(a := ucast v, a + 1 := ucast (drop_bit 8 v),
     a + 2 := ucast (drop_bit 16 v), a + 3 := ucast (drop_bit 24 v))"

lemma read_write_le: "read_le (write_le m a v) a = v"
proof (rule bit_word_eqI)
  fix n :: nat
  assume n: "n < LENGTH(32)"
  consider "n < 8" | "8 \<le> n" "n < 16" | "16 \<le> n" "n < 24" | "24 \<le> n" by linarith
  then show "bit (read_le (write_le m a v) a) n = bit v n"
    by cases (use n in \<open>auto simp: read_le_def write_le_def bit_simps\<close>)
qed

text \<open>Two words that do not overlap.\<close>

definition apart :: "u32 \<Rightarrow> u32 \<Rightarrow> bool" where
  "apart a b \<longleftrightarrow> unat a + 4 \<le> unat b \<and> unat b + 4 \<le> 2 ^ 32 \<or> unat b + 4 \<le> unat a \<and> unat a + 4 \<le> 2 ^ 32"

lemma apart_neq:
  assumes "apart a b" and "s < 4" and "t < 4"
  shows "a + word_of_nat s \<noteq> b + word_of_nat t"
proof
  assume "a + word_of_nat s = b + word_of_nat t"
  then have "unat (a + word_of_nat s) = unat (b + word_of_nat t)" by simp
  moreover have "unat (a + word_of_nat s) = unat a + s" "unat (b + word_of_nat t) = unat b + t"
    using assms by (auto simp: apart_def unat_word_ariths unat_of_nat)
  ultimately show False using assms by (auto simp: apart_def)
qed

lemma read_write_le_other:
  assumes "apart a b"
  shows "read_le (write_le M b v) a = read_le M a"
proof -
  have "write_le M b v (a + word_of_nat s) = M (a + word_of_nat s)" if "s < 4" for s
    using apart_neq [OF assms that, of 0] apart_neq [OF assms that, of 1]
      apart_neq [OF assms that, of 2] apart_neq [OF assms that, of 3]
    by (simp add: write_le_def)
  from this [of 0] this [of 1] this [of 2] this [of 3] show ?thesis by (simp add: read_le_def)
qed

lemma nth_sweep: "i < sweep_length a e \<Longrightarrow> sweep a e ! i = a + word_of_nat (4 * i)"
  by (simp add: sweep_def)

lemma length_sweep [simp]: "length (sweep a e) = sweep_length a e"
  by (simp add: sweep_def)

lemma unat_sweep:
  assumes "i < sweep_length a e" and "unat e + 3 < 2 ^ 32"
  shows "unat (sweep a e ! i) = unat a + 4 * i" and "unat a + 4 * i < unat e"
proof -
  from assms(1) show *: "unat a + 4 * i < unat e" by (simp add: sweep_length_def)
  from * assms show "unat (sweep a e ! i) = unat a + 4 * i"
    by (simp add: nth_sweep unat_word_ariths unat_of_nat)
qed

lemma apart_sweep:
  assumes "i < sweep_length a e" and "j < sweep_length a e" and "i \<noteq> j" and "unat e + 3 < 2 ^ 32"
  shows "apart (sweep a e ! i) (sweep a e ! j)"
  unfolding apart_def using assms unat_sweep [OF assms(1,4)] unat_sweep [OF assms(2,4)] by auto

lemma apart_above:
  assumes "i < sweep_length a e" and "unat e + 3 \<le> unat b" and "unat b + 4 \<le> 2 ^ 32"
  shows "apart (sweep a e ! i) b"
proof -
  have "unat e + 3 < 2 ^ 32" using assms(2,3) by simp
  from unat_sweep [OF assms(1) this] assms show ?thesis by (auto simp: apart_def)
qed

text \<open>The first \<open>k\<close> words of a sweep hold the test pattern.\<close>

definition filled :: "u32 \<Rightarrow> u32 \<Rightarrow> nat \<Rightarrow> (u32 \<Rightarrow> u8) \<Rightarrow> bool" where
  "filled a e k M \<longleftrightarrow> (\<forall>i. i < k \<longrightarrow> read_le M (sweep a e ! i) = 0x12345678 + sweep a e ! i)"

lemma filled_Suc:
  assumes "filled a e k M" and "k < sweep_length a e" and "unat e + 3 < 2 ^ 32"
  shows "filled a e (Suc k) (write_le M (sweep a e ! k) (0x12345678 + sweep a e ! k))"
  using assms
  by (auto simp: filled_def less_Suc_eq read_write_le read_write_le_other apart_sweep)

lemma filled_marker:
  assumes "filled a e (sweep_length a e) M" and "unat e + 3 \<le> 0x8F000240"
    and "b = 0x8F000240 \<or> b = 0x8F000244"
  shows "filled a e (sweep_length a e) (write_le M b v)"
proof -
  have "apart (sweep a e ! i) b" if "i < sweep_length a e" for i
    using that assms(2,3) by (intro apart_above) auto
  with assms(1) show ?thesis by (simp add: filled_def read_write_le_other)
qed

lemma filledD: "filled a e n M \<Longrightarrow> k < n \<Longrightarrow> read_le M (sweep a e ! k) = 0x12345678 + sweep a e ! k"
  by (simp add: filled_def)

text \<open>
  The memory contract of the platform: byte and word accesses act on a byte-addressed,
  little-endian memory and the other calls of the memory tests leave it alone.
\<close>

definition touches_memory :: "call \<Rightarrow> bool" where
  "touches_memory c = (case c of Store8 _ _ \<Rightarrow> True | Store32 _ _ \<Rightarrow> True | Hw_write32 _ _ \<Rightarrow> True
     | Wordcpy _ _ _ \<Rightarrow> True | Random_fill _ _ \<Rightarrow> True | Sinc _ \<Rightarrow> True | _ \<Rightarrow> False)"

locale ram =
  fixes P :: "'s platform" and bytes :: "'s \<Rightarrow> u32 \<Rightarrow> u8"
  assumes store8: "bytes (snd (reply P (Store8 a b) d)) = (bytes d)(a := b)"
    and store32: "bytes (snd (reply P (Store32 a v) d)) = write_le (bytes d) a v"
    and hw_write32: "bytes (snd (reply P (Hw_write32 a v) d)) = write_le (bytes d) a v"
    and load8: "fst (reply P (Load8 a) d) = ucast (bytes d a)"
    and load32: "fst (reply P (Load32 a) d) = read_le (bytes d) a"
    and hw_read32: "fst (reply P (Hw_read32 a) d) = read_le (bytes d) a"
    and frame: "\<not> touches_memory c \<Longrightarrow> bytes (snd (reply P c d)) = bytes d"
begin

text \<open>The machine is running, its memory is \<open>M\<close>, and nothing has failed so far.\<close>

definition holding :: "(u32 \<Rightarrow> u8) \<Rightarrow> verdict list \<Rightarrow> 's mach \<Rightarrow> bool" where
  "holding M V m \<longleftrightarrow> status m = Running \<and> bytes (dev m) = M \<and>
     failures (counting nothing_ignored) (log m) = 0 \<and> verdicts (log m) = V"

lemma holding_step:
  assumes "silent c" and "\<not> reports_errors c"
    and "\<And>d. bytes d = M \<Longrightarrow> bytes (snd (reply P c d)) = M'"
    and "\<And>d. bytes d = M \<Longrightarrow> R (fst (reply P c d))"
  shows "triple (holding M V) (ext P c) (\<lambda>v m. R v \<and> holding M' V m)"
  by (rule triple_ext)
    (use assms in \<open>auto simp: holding_def counting_silent verdicts_Cons_other dest: silentD
      simp del: silent_def reports_errors_def\<close>)

lemma after_store8:
  "(\<And>r. triple (holding (M(a := b)) V) (q r) B) \<Longrightarrow>
   triple (holding M V) (State_Monad.bind (ext P (Store8 a b)) q) B"
  by (rule triple_bind [OF holding_step [where R = "\<lambda>_. True"]]) (simp_all add: store8)

lemma after_store32:
  "(\<And>r. triple (holding (write_le M a v) V) (q r) B) \<Longrightarrow>
   triple (holding M V) (State_Monad.bind (ext P (Store32 a v)) q) B"
  by (rule triple_bind [OF holding_step [where R = "\<lambda>_. True"]]) (simp_all add: store32)

lemma after_hw_write32:
  "(\<And>r. triple (holding (write_le M a v) V) (q r) B) \<Longrightarrow>
   triple (holding M V) (State_Monad.bind (ext P (Hw_write32 a v)) q) B"
  by (rule triple_bind [OF holding_step [where R = "\<lambda>_. True"]]) (simp_all add: hw_write32)

lemma after_load8:
  "triple (holding M V) (q (ucast (M a))) B \<Longrightarrow>
   triple (holding M V) (State_Monad.bind (ext P (Load8 a)) q) B"
  by (rule triple_bind_value [OF holding_step]) (simp_all add: load8 frame touches_memory_def)

lemma after_load32:
  "triple (holding M V) (q (read_le M a)) B \<Longrightarrow>
   triple (holding M V) (State_Monad.bind (ext P (Load32 a)) q) B"
  by (rule triple_bind_value [OF holding_step]) (simp_all add: load32 frame touches_memory_def)

lemma after_hw_read32:
  "triple (holding M V) (q (read_le M a)) B \<Longrightarrow>
   triple (holding M V) (State_Monad.bind (ext P (Hw_read32 a)) q) B"
  by (rule triple_bind_value [OF holding_step]) (simp_all add: hw_read32 frame touches_memory_def)

lemma after_quiet:
  "silent c \<Longrightarrow> \<not> reports_errors c \<Longrightarrow> \<not> touches_memory c \<Longrightarrow>
   (\<And>r. triple (holding M V) (q r) B) \<Longrightarrow> triple (holding M V) (State_Monad.bind (ext P c) q) B"
  by (rule triple_bind [OF holding_step [where R = "\<lambda>_. True"]]) (simp_all add: frame)

lemma after_report_0:
  "triple (holding M V) (report P 0) (\<lambda>_. holding M (HW_TEST_PASS # V))"
proof -
  have "triple (holding M V) (ext P (Hw_done HW_TEST_PASS)) (\<lambda>_. holding M (HW_TEST_PASS # V))"
    by (rule triple_ext) (auto simp: holding_def counting.weight_done frame touches_memory_def)
  then show ?thesis
    unfolding report_def hw_done_def by (auto intro: triple_bind triple_return)
qed

text \<open>On such a memory the sub-word tests find nothing wrong and pass.\<close>

lemma sub_word_passes:
  "triple (holding M []) (sub_word_access P a) (\<lambda>_ m. \<exists>M'. holding M' [HW_TEST_PASS] m)"
proof -
  have "triple (holding M []) (sub_word_access P a)
     (\<lambda>_. holding (write_le (M(a := 0x12, a + 1 := 0x34, a + 2 := 0x56, a + 3 := 0x78)) a 0xabcdef87)
        [HW_TEST_PASS])"
    unfolding sub_word_access_def check_byte_def Let_def
    by (intro after_store8 after_load32, simp add: read_le_def)
      (intro after_store32 after_load8, simp add: write_le_def after_load8 after_report_0)
  then show ?thesis by (rule triple_conseq) auto
qed

text \<open>The sweep of \<open>iram_mem_access\<close>: every word written is read back unchanged.\<close>

definition patterned :: "u32 \<Rightarrow> u32 \<Rightarrow> nat \<Rightarrow> 's mach \<Rightarrow> bool" where
  "patterned a e k m \<longleftrightarrow> (\<exists>M. filled a e k M \<and> holding M [] m)"

lemma triple_patterned:
  "(\<And>M. filled a e k M \<Longrightarrow> triple (holding M []) p B) \<Longrightarrow> triple (patterned a e k) p B"
  unfolding triple_def patterned_def by (elim allE | intro allI impI | elim exE conjE | simp)+

lemma triple_return_patterned:
  "filled a e k M \<Longrightarrow> triple (holding M []) (State_Monad.return ()) (\<lambda>_. patterned a e k)"
  by (rule triple_return) (auto simp: patterned_def)

lemma iram_fill_step:
  assumes "k < sweep_length a e" and "unat e + 3 < 2 ^ 32"
  shows "triple (patterned a e k) (iram_fill_word P (sweep a e ! k) ()) (\<lambda>_. patterned a e (Suc k))"
  unfolding iram_fill_word_def
  by (intro triple_patterned after_hw_write32 triple_return_patterned filled_Suc assms)

lemma iram_check_step:
  assumes k: "k < sweep_length a e" and room: "unat e + 3 \<le> 0x8F000240"
  shows "triple (patterned a e (sweep_length a e)) (iram_check_word P (sweep a e ! k) ())
    (\<lambda>_. patterned a e (sweep_length a e))"
proof (rule triple_patterned)
  fix M
  assume M: "filled a e (sweep_length a e) M"
  note marker = filled_marker [OF _ room]
  show "triple (holding M []) (iram_check_word P (sweep a e ! k) ()) (\<lambda>_. patterned a e (sweep_length a e))"
    unfolding iram_check_word_def Let_def
    by (intro after_hw_write32 after_hw_read32, simp only: filledD [OF marker [OF marker [OF M]] k] simp_thms)
      (simp, intro after_hw_write32 triple_return_patterned marker M, simp_all)
qed

lemma iram_sweeps:
  assumes "unat e + 3 \<le> 0x8F000240" and "sweep_length a e \<le> n"
  shows "triple (holding M []) (for_addr n a e (iram_fill_word P) ()) (\<lambda>_. patterned a e (sweep_length a e))"
    and "triple (patterned a e (sweep_length a e)) (for_addr n a e (iram_check_word P) ())
           (\<lambda>_. patterned a e (sweep_length a e))"
proof -
  have room: "unat e + 3 < 2 ^ 32" using assms(1) by simp
  have "triple (patterned a e 0) (for_each (sweep a e) (iram_fill_word P) ())
      (\<lambda>_. patterned a e (length (sweep a e)))"
    by (rule triple_for_each [where J = "\<lambda>k u. patterned a e k"]) (use room in \<open>simp add: iram_fill_step\<close>)
  moreover have "holding M [] m \<Longrightarrow> patterned a e 0 m" for m by (auto simp: patterned_def filled_def)
  ultimately show "triple (holding M []) (for_addr n a e (iram_fill_word P) ())
      (\<lambda>_. patterned a e (sweep_length a e))"
    unfolding for_addr_sweep [OF room assms(2)] by (auto intro: triple_conseq)
  show "triple (patterned a e (sweep_length a e)) (for_addr n a e (iram_check_word P) ())
      (\<lambda>_. patterned a e (sweep_length a e))"
    unfolding for_addr_sweep [OF room assms(2)]
    by (rule triple_for_each [where J = "\<lambda>k u. patterned a e (sweep_length a e)"])
      (simp add: iram_check_step assms(1))
qed

end

subsection \<open>A platform with a memory\<close>

text \<open>A byte-addressed memory next to the platform \<open>Q\<close>, which answers every other call.\<close>

definition with_ram :: "'s platform \<Rightarrow> ('s \<times> (u32 \<Rightarrow> u8)) platform" where
  "with_ram Q = \<lparr>
     reply = (\<lambda>c (s, M). case c of
         Store8 a b \<Rightarrow> (0, s, M(a := b))
       | Store32 a v \<Rightarrow> (0, s, write_le M a v)
       | Hw_write32 a v \<Rightarrow> (0, s, write_le M a v)
       | Load8 a \<Rightarrow> (ucast (M a), s, M)
       | Load32 a \<Rightarrow> (read_le M a, s, M)
       | Hw_read32 a \<Rightarrow> (read_le M a, s, M)
       | _ \<Rightarrow> (fst (reply Q c s), snd (reply Q c s), M)),
     fill = (\<lambda>(s, M). fill Q s)\<rparr>"

interpretation byte_ram: ram "with_ram Q" snd for Q
proof
  fix c :: call and d :: "'a \<times> (u32 \<Rightarrow> u8)"
  assume "\<not> touches_memory c"
  then show "snd (snd (reply (with_ram Q) c d)) = snd d"
    by (cases c) (simp_all add: with_ram_def touches_memory_def split_beta)
qed (simp_all add: with_ram_def split_beta)

section \<open>Properties\<close>

text \<open>The two sub-word tests report honestly. Whatever the platform does, \<open>HW_TEST_FAIL\<close> is
  reported only after a mismatch, \<open>HW_TEST_PASS\<close> only when the counted mismatches are zero, and a
  verdict is always given.\<close>

lemma sub_word_tests_honest:
  "test_ok (counting nothing_ignored) (partial_word_mem_access_iram_RUN_TEST cfg P) \<and>
   test_ok (counting nothing_ignored) (cache_disabled_mem_access_byte_RUN_TEST cfg P)"
  unfolding partial_word_mem_access_iram_RUN_TEST_def cache_disabled_mem_access_byte_RUN_TEST_def
  by (intro conjI acct_done_test_ok acct_sub_word_access)

text \<open>C27: on every platform whose memory is byte-addressed and little-endian, both sub-word tests
  find no mismatch and report \<open>HW_TEST_PASS\<close>, exactly once.\<close>

theorem sub_word_tests_pass_on_ram:
  assumes "ram P bytes"
  shows "(let m = exec (partial_word_mem_access_iram_RUN_TEST cfg P) d in
            verdicts (log m) = [HW_TEST_PASS] \<and> failures (counting nothing_ignored) (log m) = 0) \<and>
         (let m = exec (cache_disabled_mem_access_byte_RUN_TEST cfg P) d in
            verdicts (log m) = [HW_TEST_PASS] \<and> failures (counting nothing_ignored) (log m) = 0)"
proof -
  have "verdicts (log (exec (sub_word_access P a) d)) = [HW_TEST_PASS] \<and>
      failures (counting nothing_ignored) (log (exec (sub_word_access P a) d)) = 0" for a
    using triple_exec [OF ram.sub_word_passes [OF assms], of "bytes d" d a]
    by (auto simp: ram.holding_def [OF assms])
  then show ?thesis
    by (simp add: partial_word_mem_access_iram_RUN_TEST_def
        cache_disabled_mem_access_byte_RUN_TEST_def Let_def)
qed

text \<open>A witness of the previous theorem on a memory that is initially zero.\<close>

theorem sub_word_tests_pass_on_ram_witness:
  "verdicts (log (exec (partial_word_mem_access_iram_RUN_TEST sample_cfg (with_ram counting_rand)) (0, \<lambda>_. 0))) = [HW_TEST_PASS]"
  using sub_word_tests_pass_on_ram [OF byte_ram.ram_axioms [of counting_rand]] by (simp add: Let_def)

text \<open>C29: the sweep of \<open>iram_mem_access\<close> terminates and, on every byte-addressed little-endian
  memory, reads back every word it wrote. The sweep must lie below the marker registers at
  \<open>0x8F000240\<close> to which the test writes its progress, and the loop fuel must cover it.\<close>

theorem iram_mem_access_on_ram:
  assumes "ram P bytes" and "unat (iram_end cfg) + 3 \<le> 0x8F000240"
    and "sweep_length (K cfg SSY_CPU0_MEMORY_DEF_HSP_IRAM_ADDRESS) (iram_end cfg) \<le> fuel cfg"
  shows "let m = exec (iram_mem_access_RUN_TEST cfg P) d in
    status m = Running \<and> verdicts (log m) = [HW_TEST_PASS] \<and>
    failures (counting nothing_ignored) (log m) = 0"
proof -
  let ?a = "K cfg SSY_CPU0_MEMORY_DEF_HSP_IRAM_ADDRESS" and ?e = "iram_end cfg"
  note sweeps = ram.iram_sweeps [OF assms]
  have last: "triple (ram.patterned bytes ?a ?e n) (report P 0)
      (\<lambda>_ m. \<exists>M. ram.holding bytes M [HW_TEST_PASS] m)" for n
    by (rule ram.triple_patterned [OF assms(1)], rule triple_conseq [OF ram.after_report_0 [OF assms(1)]])
      auto
  have mid: "triple (ram.patterned bytes ?a ?e n) (hw_status P [?a]) (\<lambda>_. ram.patterned bytes ?a ?e n)" for n
    by (rule ram.triple_patterned [OF assms(1)], rule triple_conseq [OF ram.holding_step [OF assms(1)]])
      (auto simp: ram.patterned_def [OF assms(1)] ram.frame [OF assms(1)] touches_memory_def)
  have "triple (ram.holding bytes (bytes d) []) (iram_mem_access_RUN_TEST cfg P)
      (\<lambda>_ m. \<exists>M. ram.holding bytes M [HW_TEST_PASS] m)"
    unfolding iram_mem_access_RUN_TEST_def Let_def rng_start_def State_Monad.bind_assoc
      State_Monad.bind_left_identity
    by (intro ram.after_quiet [OF assms(1)] triple_bind [OF sweeps(1)] triple_bind [OF mid]
        triple_bind [OF sweeps(2)] last) (simp_all add: touches_memory_def)
  from triple_exec [OF this, of d] show ?thesis
    by (auto simp: ram.holding_def [OF assms(1)])
qed

theorem iram_mem_access_on_ram_witness:
  "verdicts (log (exec (iram_mem_access_RUN_TEST sample_cfg (with_ram counting_rand)) (0, \<lambda>_. 0))) = [HW_TEST_PASS]"
  using iram_mem_access_on_ram [OF byte_ram.ram_axioms [of counting_rand], of sample_cfg "(0, \<lambda>_. 0)"]
  by (simp add: sample_cfg_def iram_end_def sweep_length_def Let_def)

text \<open>C34: \<open>iram_mem_access\<close> never counts a mismatch: on every platform, whatever the memory returns,
  the test ends with the single verdict \<open>HW_TEST_PASS\<close>.\<close>

theorem iram_mem_access_cannot_fail:
  assumes "unat (iram_end cfg) + 3 < 2 ^ 32"
    and "sweep_length (K cfg SSY_CPU0_MEMORY_DEF_HSP_IRAM_ADDRESS) (iram_end cfg) \<le> fuel cfg"
  shows "verdicts (log (exec (iram_mem_access_RUN_TEST cfg P) d)) = [HW_TEST_PASS]"
proof -
  have fill: "triple (judged V) (iram_fill_word P a u) (\<lambda>_. judged V)" for V a u
    unfolding iram_fill_word_def by (rule judged_intros triple_return | simp)+
  have check: "triple (judged V) (iram_check_word P a u) (\<lambda>_. judged V)" for V a u
    unfolding iram_check_word_def hw_errmsg_def Let_def
    by (rule judged_intros triple_return | simp)+
  have "triple (judged []) (iram_mem_access_RUN_TEST cfg P) (\<lambda>_. judged [HW_TEST_PASS])"
    unfolding iram_mem_access_RUN_TEST_def rng_start_def Let_def for_addr_sweep [OF assms]
      State_Monad.bind_assoc
    by (rule fill check judged_report [of _ _ 0, simplified] judged_intros triple_return | simp)+
  from triple_exec [OF this, of d] show ?thesis by (simp add: judged_def)
qed

theorem iram_mem_access_cannot_fail_witness:
  "verdicts (log (exec (iram_mem_access_RUN_TEST sample_cfg
     \<lparr>reply = (\<lambda>c d. (0xdead, d)), fill = (\<lambda>_ _. 0)\<rparr>) ())) = [HW_TEST_PASS]"
  by (rule iram_mem_access_cannot_fail) (simp_all add: sample_cfg_def iram_end_def sweep_length_def)

text \<open>\<open>sinc_cache_disabled_mem_access\<close> and \<open>sinc_cache_initialized_mem_access\<close> report honestly about
  everything except the two messages of the access above the cached memory.\<close>

lemma cache_mem_access_tests_honest:
  "test_ok (counting above_ciram_message) (cache_disabled_mem_access_RUN_TEST cfg P) \<and>
   test_ok (counting above_ciram_message) (cache_initialized_mem_access_RUN_TEST cfg P)"
  by (intro conjI acct_done_test_ok acct_cache_disabled_mem_access acct_cache_initialized_mem_access)

text \<open>A platform on which the access above the cached memory is not blocked: the word written there
  is read back, and no bus error is raised.\<close>

definition unblocked :: "unit platform" where
  "unblocked = \<lparr>reply = (\<lambda>c d. (case c of Rand \<Rightarrow> 5 | Hw_read32 _ \<Rightarrow> 5 | _ \<Rightarrow> 0, d)), fill = (\<lambda>_ _. 0)\<rparr>"

text \<open>The documented check that an access above the cached memory is blocked has no effect on
  the verdict: there is a platform on which it is not blocked, the test announces both mismatches,
  and reports \<open>HW_TEST_PASS\<close>.\<close>

lemma cache_disabled_mem_access_misses_unblocked_access:
  "let m = exec (cache_disabled_mem_access_RUN_TEST sample_cfg unblocked) () in
     verdicts (log m) = [HW_TEST_PASS] \<and> failures (counting nothing_ignored) (log m) = 2 \<and>
     Hw_errmsg [5, 5] \<in> set (calls m)"
  by code_simp

end
