(* ===== verification/TestsState.thy ===== *)
theory TestsState
  imports TestCommon
begin

text \<open>
  The tests of the command state machine and of its error reporting: \<open>sinc_axi_mgr_toggle\<close>,
  \<open>sinc_cache_failed_state_rng\<close>, \<open>sinc_cache_transition_initialized_runtime\<close>,
  \<open>sinc_cache_active_mem_access_short\<close>, \<open>sinc_command_err\<close>, \<open>sinc_bus_err\<close>, \<open>sinc_ksu_access\<close>,
  \<open>sinc_non_severe_err\<close> and \<open>sinc_reg_access_by_state\<close>.
\<close>

section \<open>sinc_axi_mgr_toggle\<close>

definition axi_mgr_toggle_RUN_TEST :: "config \<Rightarrow> 's platform \<Rightarrow> ('s, unit) prog" where
  "axi_mgr_toggle_RUN_TEST cfg P = do {
     sinc P New_SINC_DRIVER;
     ext P New_DMB_DRIVER;
     ext P Int_get_instance;
     let errors = 0;
     rng_start cfg P;
     ext P (Disable_interrupt (K cfg HSP_SP_BUS_ERR_IRQ));
     ext P (Disable_interrupt (K cfg HSP_AXI_WDT_IRQ));
     ext P (Disable_interrupt (K cfg HSP_DMB_IRQ));
     tag_addr_ptr \<leftarrow> acquire_tag_sram cfg P;
     ccs_cmd_buf \<leftarrow> alloc_cmd_buf cfg P;
     ext P (New_CCS_DRIVER ccs_cmd_buf 0 0 0);
     errors \<leftarrow> gen_key cfg P errors 0;
     nonce \<leftarrow> random_fill P (Local []) 3;
     write_settings cfg P 32767 1 0 (Local nonce) 0xFF000000 tag_addr_ptr;
     hw_status P [];
     errors \<leftarrow> tally_sinc P errors (Transition_to_initialized None);
     errors \<leftarrow> tally_sinc P errors
       (Call_encrypt_block (Some (K cfg SINC_STATUS_CACHE_BLOCK_W_ERR_ENCR_BLOCK)));
     errors \<leftarrow> tally_sinc P errors (Transition_to_cache_active None);
     ext P (Hw_read32 (K cfg SSY_CPU0_MEMORY_DEF_HSP_CIRAM_ADDRESS + 16*1024*1024 - 4));
     st \<leftarrow> sinc P Wait_for_no_cmd_in_progress;
     errors \<leftarrow> tally_sinc P errors
       (Check_cmd_result_status_failure st (K cfg SINC_STATUS_CACHE_BLOCK_R_ERR));
     errors \<leftarrow> tally_sinc P errors (Check_sinc_state (K cfg SINC_STATE_CACHE_FAILED));
     report P errors
   }"

section \<open>sinc_cache_failed_state_rng\<close>

definition failed_state_rng_setup :: "config \<Rightarrow> 's platform \<Rightarrow> ('s, u32) prog" where
  "failed_state_rng_setup cfg P = do {
     sinc P New_SINC_DRIVER;
     ext P New_DMB_DRIVER;
     ext P New_MISC_DRIVER;
     ext P Int_get_instance;
     let errors = 0;
     ext P (Hsp_rng_enable 0x1);
     ext P Hsp_rng_wait_done;
     ext P (Disable_interrupt (K cfg HSP_AXI_WDT_IRQ));
     ext P (Disable_interrupt (K cfg HSP_DMB_IRQ));
     block_addr_ptr \<leftarrow> acquire_sram cfg P;
     tag_addr_ptr \<leftarrow> acquire_tag_sram cfg P;
     ccs_cmd_buf \<leftarrow> alloc_cmd_buf cfg P;
     ext P (New_CCS_DRIVER ccs_cmd_buf 0 0 0);
     errors \<leftarrow> gen_key cfg P errors 0;
     nonce \<leftarrow> random_fill P (Local []) 3;
     ext P Hsp_rng_disable;
     write_settings cfg P 0 0 0 (Local nonce) block_addr_ptr tag_addr_ptr;
     hw_status P [];
     hw_status P [block_addr_ptr];
     hw_status P [tag_addr_ptr];
     st \<leftarrow> sinc P (Read_reg R_status);
     hw_status P [st];
     State_Monad.return errors
   }"

definition cache_failed_state_rng_RUN_TEST :: "config \<Rightarrow> 's platform \<Rightarrow> ('s, unit) prog" where
  "cache_failed_state_rng_RUN_TEST cfg P = do {
     errors \<leftarrow> failed_state_rng_setup cfg P;
     ext P Hsp_rng_disable;
     errors \<leftarrow> tally_sinc P errors
       (Transition_to_initialized (Some (K cfg SINC_STATUS_RNG_SEED_R_ERR)));
     errors \<leftarrow> tally_sinc P errors (Check_sinc_state (K cfg SINC_STATE_CACHE_FAILED));
     errors \<leftarrow> tally_sinc P errors (Call_sinc_reset None);
     errors \<leftarrow> tally_sinc P errors (Check_sinc_state (K cfg SINC_STATE_DISABLED));
     nonce \<leftarrow> random_fill P (Local []) 3;
     sinc P (Write_all_aes_iv_nonce (Local nonce));
     ext P (Hsp_rng_enable 0x1);
     ext P Hsp_rng_wait_done;
     errors \<leftarrow> tally_sinc P errors (Transition_to_initialized None);
     initial_value \<leftarrow> ext P Rand;
     sinc P (Write_reg R_num_of_blocks 1);
     sinc P (Setup_known_data (K cfg SSY_HSP_SHAREDRAM_BASE_ADDR) 128 initial_value);
     errors \<leftarrow> tally_sinc P errors (Call_encrypt_block None);
     errors \<leftarrow> tally_sinc P errors (Transition_to_cache_active None);
     errors \<leftarrow> tally_sinc P errors
       (Check_known_data (K cfg SSY_CPU0_MEMORY_DEF_HSP_CIRAM_ADDRESS) 128 initial_value);
     report P errors
   }"

section \<open>sinc_cache_transition_initialized_runtime\<close>

text \<open>The arithmetic performed before and after the transition.\<close>

definition dummy_math :: "u32 \<Rightarrow> u32 \<Rightarrow> u32" where
  "dummy_math initial_val1 initial_val2 =
     foldl (\<lambda>final_val i. (final_val + initial_val1) * initial_val2) 0 (idx 1000)"

definition cache_transition_initialized_runtime_RUN_TEST ::
  "config \<Rightarrow> 's platform \<Rightarrow> ('s, unit) prog" where
  "cache_transition_initialized_runtime_RUN_TEST cfg P = do {
     sinc P New_SINC_DRIVER;
     ext P New_DMB_DRIVER;
     let errors = 0;
     rng_start cfg P;
     sram_addr_ptr \<leftarrow> acquire_sram cfg P;
     ccs_cmd_buf \<leftarrow> alloc_cmd_buf cfg P;
     ext P (New_CCS_DRIVER ccs_cmd_buf 0 0 0);
     errors \<leftarrow> gen_key cfg P errors 0;
     write_settings_0 cfg P 0 0 sram_addr_ptr;
     st \<leftarrow> sinc P (Read_reg R_status);
     hw_status P [st];
     initial_val1 \<leftarrow> ext P Rand;
     initial_val2 \<leftarrow> ext P Rand;
     hw_status P [initial_val1];
     hw_status P [initial_val2];
     let final_val1 = dummy_math initial_val1 initial_val2;
     errors \<leftarrow> tally_sinc P errors (Transition_to_initialized None);
     let final_val2 = dummy_math initial_val1 initial_val2;
     errors \<leftarrow> (if final_val1 \<noteq> final_val2 then do {
         hw_errmsg P [final_val1, final_val2];
         State_Monad.return (errors + 1)
       } else do {
         hw_status P [final_val1, final_val2];
         State_Monad.return errors
       });
     report P errors
   }"

section \<open>sinc_cache_active_mem_access_short\<close>

definition compare_blocks :: "config \<Rightarrow> 's platform \<Rightarrow> u32 \<Rightarrow> u32 \<Rightarrow> u32 \<Rightarrow> u32 \<Rightarrow> ('s, u32) prog" where
  "compare_blocks cfg P cur_block_num words value errors = do {
     hw_status P [words, K cfg SSY_CPU0_MEMORY_DEF_HSP_CIRAM_ADDRESS + 512 * cur_block_num];
     ext P Flush_uart;
     sinc P (Setup_known_data (K cfg SSY_HSP_SHAREDRAM_BASE_ADDR) words value);
     differ \<leftarrow> ext P (Wordcmp (At (K cfg SSY_HSP_SHAREDRAM_BASE_ADDR))
       (At (K cfg SSY_CPU0_MEMORY_DEF_HSP_CIRAM_ADDRESS + 512 * cur_block_num)) words);
     errors \<leftarrow> (if differ \<noteq> 0 then do { hw_errmsg P []; State_Monad.return (errors + 1) }
       else State_Monad.return errors);
     hw_status P [];
     ext P Flush_uart;
     State_Monad.return errors
   }"

definition cache_active_mem_access_short_RUN_TEST :: "config \<Rightarrow> 's platform \<Rightarrow> ('s, unit) prog" where
  "cache_active_mem_access_short_RUN_TEST cfg P = do {
     sinc P New_SINC_DRIVER;
     ext P New_DMB_DRIVER;
     let errors = 0;
     rng_start cfg P;
     sram_addr_ptr \<leftarrow> acquire_sram cfg P;
     ccs_cmd_buf \<leftarrow> alloc_cmd_buf cfg P;
     ext P (New_CCS_DRIVER ccs_cmd_buf 0 0 0);
     errors \<leftarrow> gen_key cfg P errors 0;
     let next_block_num = (256 div 8) * 16;
     write_settings_0 cfg P next_block_num 16 sram_addr_ptr;
     st \<leftarrow> sinc P (Read_reg R_status);
     hw_status P [st];
     errors \<leftarrow> tally_sinc P errors (Transition_to_initialized None);
     initial_value \<leftarrow> ext P Rand;
     sinc P (Setup_known_data (K cfg SSY_HSP_SHAREDRAM_BASE_ADDR) (1024 * 2) initial_value);
     errors \<leftarrow> tally_sinc P errors (Call_encrypt_block None);
     sinc P (Write_reg R_block_encr_num (next_block_num + 16));
     errors \<leftarrow> tally_sinc P errors (Transition_to_cache_active None);
     errors \<leftarrow> compare_blocks cfg P ((256 div 8) * 16) (1024 * 2) initial_value errors;
     report P errors
   }"

section \<open>sinc_command_err\<close>

text \<open>The commands that are invalid while the cache is disabled, and while it is initialized; ...\<close>

definition command_err_before_active :: "config \<Rightarrow> 's platform \<Rightarrow> u32 \<Rightarrow> ('s, u32) prog" where
  "command_err_before_active cfg P errors = do {
     let inv = Some (K cfg SINC_STATUS_INVALID_CMD_ERR);
     hw_status P [];
     errors \<leftarrow> tally_sinc P errors (Check_sinc_state (K cfg SINC_STATE_DISABLED));
     errors \<leftarrow> tally_sinc P errors (Call_encrypt_block inv);
     errors \<leftarrow> tally_sinc P errors (Transition_to_cache_active inv);
     errors \<leftarrow> tally_sinc P errors (Check_sinc_state (K cfg SINC_STATE_DISABLED));
     errors \<leftarrow> tally_sinc P errors (Call_sinc_reset inv);
     errors \<leftarrow> tally_sinc P errors (Call_sinc_reinit inv);
     errors \<leftarrow> tally_sinc P errors (Transition_to_initialized None);
     errors \<leftarrow> tally_sinc P errors (Transition_to_initialized inv);
     errors \<leftarrow> tally_sinc P errors (Check_sinc_state (K cfg SINC_STATE_INITIALIZED));
     errors \<leftarrow> tally_sinc P errors (Call_aes_test_en inv);
     errors \<leftarrow> tally_sinc P errors (Call_sinc_reinit inv);
     State_Monad.return errors
   }"

text \<open>... those that are invalid while it is active, and after a failed block fetch.\<close>

definition command_err_from_active :: "config \<Rightarrow> 's platform \<Rightarrow> u32 \<Rightarrow> u32 \<Rightarrow> ('s, u32) prog" where
  "command_err_from_active cfg P sram_addr_ptr errors = do {
     let inv = Some (K cfg SINC_STATUS_INVALID_CMD_ERR);
     errors \<leftarrow> tally_sinc P errors (Transition_to_cache_active None);
     errors \<leftarrow> tally_sinc P errors (Transition_to_initialized inv);
     errors \<leftarrow> tally_sinc P errors (Check_sinc_state (K cfg SINC_STATE_CACHE_ACTIVE));
     errors \<leftarrow> tally_sinc P errors (Transition_to_cache_active inv);
     errors \<leftarrow> tally_sinc P errors (Check_sinc_state (K cfg SINC_STATE_CACHE_ACTIVE));
     errors \<leftarrow> tally_sinc P errors (Call_aes_test_en inv);
     errors \<leftarrow> tally_sinc P errors (Call_encrypt_block inv);
     ext P (Disable_interrupt (K cfg HSP_DMB_IRQ));
     ext P (Disable_interrupt (K cfg HSP_AXI_WDT_IRQ));
     ext P (Set_crypto_perm_data sram_addr_ptr 0x0);
     ext P (Hw_read32 (K cfg SSY_CPU0_MEMORY_DEF_HSP_CIRAM_ADDRESS));
     errors \<leftarrow> tally_sinc P errors (Check_sinc_state (K cfg SINC_STATE_CACHE_FAILED));
     errors \<leftarrow> tally_sinc P errors (Call_aes_test_en inv);
     errors \<leftarrow> tally_sinc P errors (Transition_to_initialized inv);
     errors \<leftarrow> tally_sinc P errors (Check_sinc_state (K cfg SINC_STATE_CACHE_FAILED));
     errors \<leftarrow> tally_sinc P errors (Call_encrypt_block inv);
     errors \<leftarrow> tally_sinc P errors (Transition_to_cache_active inv);
     errors \<leftarrow> tally_sinc P errors (Check_sinc_state (K cfg SINC_STATE_CACHE_FAILED));
     errors \<leftarrow> tally_sinc P errors (Call_sinc_reinit inv);
     errors \<leftarrow> tally_sinc P errors (Check_sinc_state (K cfg SINC_STATE_CACHE_FAILED));
     State_Monad.return errors
   }"

definition command_err_RUN_TEST :: "config \<Rightarrow> 's platform \<Rightarrow> ('s, unit) prog" where
  "command_err_RUN_TEST cfg P = do {
     sinc P New_SINC_DRIVER;
     ext P New_DMB_DRIVER;
     let errors = 0;
     ext P Int_get_instance;
     rng_start cfg P;
     sram_addr_ptr \<leftarrow> acquire_sram cfg P;
     ccs_cmd_buf \<leftarrow> alloc_cmd_buf cfg P;
     ext P (New_CCS_DRIVER ccs_cmd_buf 0 0 0);
     errors \<leftarrow> gen_key cfg P errors 0;
     write_settings_0 cfg P 0 0 sram_addr_ptr;
     st \<leftarrow> sinc P (Read_reg R_status);
     hw_status P [st];
     errors \<leftarrow> command_err_before_active cfg P errors;
     errors \<leftarrow> command_err_from_active cfg P sram_addr_ptr errors;
     report P errors
   }"

section \<open>sinc_bus_err\<close>

definition bus_err_checks :: "config \<Rightarrow> 's platform \<Rightarrow> u32 \<Rightarrow> ('s, u32) prog" where
  "bus_err_checks cfg P errors = do {
     int_count \<leftarrow> ext P (Int_trig_count (K cfg HSP_CRYPTO_ERR_IRQ));
     errors \<leftarrow> (if int_count \<noteq> 1 then do {
         hw_errmsg P [int_count];
         State_Monad.return (errors + 1)
       } else do { hw_status P [int_count]; State_Monad.return errors });
     crypto_err_intsts \<leftarrow> ext P (Int_message (K cfg HSP_CRYPTO_ERR_IRQ) (K cfg INT_CRYPTO_ERR_INTSTS));
     (if crypto_err_intsts AND push_bit (unat (K cfg SINC_BIT)) 1 = 0 then do {
         hw_errmsg P [crypto_err_intsts];
         State_Monad.return (errors + 1)
       } else do { hw_status P [crypto_err_intsts]; State_Monad.return errors })
   }"

definition bus_err_RUN_TEST :: "config \<Rightarrow> 's platform \<Rightarrow> ('s, unit) prog" where
  "bus_err_RUN_TEST cfg P = do {
     sinc P New_SINC_DRIVER;
     ext P New_DMB_DRIVER;
     let errors = 0;
     ext P Int_get_instance;
     ext P New_CRYPTO_DRIVER;
     rng_start cfg P;
     ext P (Disable_interrupt (K cfg HSP_DMB_IRQ));
     ext P (Enable_interrupt (K cfg HSP_CRYPTO_ERR_IRQ) crypto_err_interrupt_handler);
     ext P (Set_crypto_err_int_en_bit (K cfg SINC_BIT));
     sram_addr_ptr \<leftarrow> acquire_sram cfg P;
     ext P (Set_priv_perm_data sram_addr_ptr 0x0);
     ext P (Set_user_perm_data sram_addr_ptr 0x0);
     ext P (Set_crypto_perm_data sram_addr_ptr 0x0);
     ccs_cmd_buf \<leftarrow> alloc_cmd_buf cfg P;
     ext P (New_CCS_DRIVER ccs_cmd_buf 0 0 0);
     errors \<leftarrow> gen_key cfg P errors 0;
     write_settings_0 cfg P 0 2 sram_addr_ptr;
     errors \<leftarrow> tally_sinc P errors (Transition_to_initialized None);
     initial_value \<leftarrow> ext P Rand;
     sinc P (Setup_known_data (K cfg SSY_HSP_SHAREDRAM_BASE_ADDR) 128 initial_value);
     sinc P (Copy_func (K cfg SSY_HSP_SHAREDRAM_BASE_ADDR + 512) Function1 Function2);
     errors \<leftarrow> tally_sinc P errors
       (Call_encrypt_block (Some (K cfg SINC_STATUS_CACHE_BLOCK_W_ERR_ENCR_BLOCK)));
     errors \<leftarrow> bus_err_checks cfg P errors;
     report P errors
   }"

section \<open>sinc_ksu_access\<close>

definition EXP_NO_FETCH_ERROR :: u32 where
  "EXP_NO_FETCH_ERROR = 0"

definition EXP_FETCH_ERROR :: u32 where
  "EXP_FETCH_ERROR = 1"

definition check_key_fetch :: "config \<Rightarrow> 's platform \<Rightarrow> u32 \<Rightarrow> u32 \<Rightarrow> ('s, u32) prog" where
  "check_key_fetch cfg P key_attr exp_error = do {
     let errors = 0;
     errors \<leftarrow> tally P errors (Gen_random_key_fixed_attr 0 key_attr);
     errors \<leftarrow> (if exp_error = EXP_FETCH_ERROR then do {
         errors \<leftarrow> tally_sinc P errors (Transition_to_initialized (Some (K cfg SINC_STATUS_KEY_FETCH_ERR)));
         tally_sinc P errors (Check_sinc_state (K cfg SINC_STATE_CACHE_FAILED))
       } else tally_sinc P errors (Transition_to_initialized (Some (K cfg SINC_STATUS_NO_ERROR))));
     errors \<leftarrow> tally_sinc P errors (Call_sinc_reset None);
     tally_sinc P errors (Check_sinc_state (K cfg SINC_STATE_DISABLED))
   }"

text \<open>The valid attribute and the four attributes with one bit wrong, in the order of the test.\<close>

definition invalid_attrs :: "config \<Rightarrow> u32 \<Rightarrow> u32 list" where
  "invalid_attrs cfg vld_key_attr =
     [vld_key_attr AND NOT (K cfg KSU_ATTR_IS_DEVICE_SECRET),
      vld_key_attr AND NOT (K cfg KSU_ATTR_AES_ENCRYPT_ALLOWED),
      vld_key_attr AND NOT (K cfg KSU_ATTR_AES_DECRYPT_ALLOWED),
      vld_key_attr OR K cfg KSU_ATTR_KEY_SIZE_384]"

definition ksu_access_round :: "config \<Rightarrow> 's platform \<Rightarrow> u32 \<Rightarrow> u32 \<Rightarrow> u32 \<Rightarrow> ('s, u32) prog" where
  "ksu_access_round cfg P vld_key_attr exp_error errors = do {
     hw_status P [];
     errors \<leftarrow> add_errors errors (check_key_fetch cfg P vld_key_attr EXP_NO_FETCH_ERROR);
     for_each (invalid_attrs cfg vld_key_attr) (\<lambda>a errors. do {
       hw_status P [];
       add_errors errors (check_key_fetch cfg P a exp_error)
     }) errors
   }"

definition ksu_access_RUN_TEST :: "config \<Rightarrow> 's platform \<Rightarrow> ('s, unit) prog" where
  "ksu_access_RUN_TEST cfg P = do {
     sinc P New_SINC_DRIVER;
     ext P New_DMB_DRIVER;
     let errors = 0;
     ext P New_AEB_DRIVER;
     rng_start cfg P;
     sram_addr_ptr \<leftarrow> acquire_sram cfg P;
     ccs_cmd_buf \<leftarrow> alloc_cmd_buf cfg P;
     ext P (New_CCS_DRIVER ccs_cmd_buf 0 0 0);
     write_settings_0 cfg P 0 0 sram_addr_ptr;
     st \<leftarrow> sinc P (Read_reg R_status);
     hw_status P [st];
     r \<leftarrow> ext P Rand;
     let vld_key_attr = valid_key_attr cfg r;
     errors \<leftarrow> ksu_access_round cfg P vld_key_attr EXP_FETCH_ERROR errors;
     hw_status P [];
     ext P (Aeb_enable (K cfg AEB_KSU_ATTRCHK_BYPASS));
     errors \<leftarrow> ksu_access_round cfg P vld_key_attr EXP_NO_FETCH_ERROR errors;
     report P errors
   }"

section \<open>sinc_non_severe_err\<close>

definition check_sp_bus_and_mpu_err :: "config \<Rightarrow> 's platform \<Rightarrow> u32 \<Rightarrow> u32 \<Rightarrow> ('s, u32) prog" where
  "check_sp_bus_and_mpu_err cfg P exp_sp_bus_err_cnt exp_mpu_intr_cnt = do {
     let errors = 0;
     delay 100;
     sp_bus_err_cnt \<leftarrow> ext P (Int_trig_count (K cfg HSP_SP_BUS_ERR_IRQ));
     mpu_intr_cnt \<leftarrow> ext P (Int_trig_count (K cfg HSP_MPU_IRQ));
     errors \<leftarrow> (if sp_bus_err_cnt \<noteq> exp_sp_bus_err_cnt then do {
         hw_errmsg P [sp_bus_err_cnt, exp_sp_bus_err_cnt];
         State_Monad.return (errors + 1)
       } else State_Monad.return errors);
     (if mpu_intr_cnt \<noteq> exp_mpu_intr_cnt then do {
         hw_errmsg P [mpu_intr_cnt, exp_mpu_intr_cnt];
         State_Monad.return (errors + 1)
       } else State_Monad.return errors)
   }"

definition non_severe_err_setup :: "config \<Rightarrow> 's platform \<Rightarrow> ('s, u32 \<times> u32 \<times> u32) prog" where
  "non_severe_err_setup cfg P = do {
     sinc P New_SINC_DRIVER;
     ext P New_DMB_DRIVER;
     ext P Int_get_instance;
     let errors = 0;
     ext P (Enable_interrupt (K cfg HSP_SP_BUS_ERR_IRQ) sp_bus_err_interrupt_handler);
     ext P (Enable_interrupt (K cfg HSP_MPU_IRQ) mpu_interrupt_handler);
     ext P (Enable_interrupt (K cfg HSP_DBT_IRQ) mpu_dabort_handler);
     ext P (Mpu_inten_write (push_bit (unat (K cfg MPU_SPCIRAM)) 1));
     rng_start cfg P;
     ext P (Disable_interrupt (K cfg HSP_AXI_WDT_IRQ));
     ext P (Disable_interrupt (K cfg HSP_DMB_IRQ));
     block_addr_ptr \<leftarrow> acquire_sram cfg P;
     tag_addr_ptr \<leftarrow> acquire_tag_sram cfg P;
     ccs_cmd_buf \<leftarrow> alloc_cmd_buf cfg P;
     ext P (New_CCS_DRIVER ccs_cmd_buf 0 0 0);
     errors \<leftarrow> gen_key cfg P errors 0;
     nonce \<leftarrow> random_fill P (Local []) 3;
     write_settings cfg P 0 0 0 (Local nonce) block_addr_ptr tag_addr_ptr;
     hw_status P [];
     hw_status P [block_addr_ptr];
     hw_status P [tag_addr_ptr];
     st \<leftarrow> sinc P (Read_reg R_status);
     hw_status P [st];
     State_Monad.return (errors, block_addr_ptr, tag_addr_ptr)
   }"

definition non_severe_err_RUN_TEST :: "config \<Rightarrow> 's platform \<Rightarrow> ('s, unit) prog" where
  "non_severe_err_RUN_TEST cfg P = do {
     s \<leftarrow> non_severe_err_setup cfg P;
     let errors = fst s;
     let block_addr_ptr = fst (snd s);
     let tag_addr_ptr = snd (snd s);
     errors \<leftarrow> tally_sinc P errors (Transition_to_initialized None);
     ext P (Set_crypto_perm_data tag_addr_ptr 0x1);
     ext P (Set_crypto_perm_data block_addr_ptr 0x0);
     sinc P (Write_reg R_block_encr_addr (K cfg SSY_HSP_SHAREDRAM_BASE_ADDR));
     sinc P (Setup_known_data (K cfg SSY_HSP_SHAREDRAM_BASE_ADDR) 128 0);
     sinc P (Write_reg R_num_of_blocks 1);
     errors \<leftarrow> tally_sinc P errors
       (Call_encrypt_block (Some (K cfg SINC_STATUS_CACHE_BLOCK_W_ERR_ENCR_BLOCK)));
     errors \<leftarrow> tally_sinc P errors (Check_sinc_state (K cfg SINC_STATE_INITIALIZED));
     check_sp_bus_and_mpu_err cfg P 0 0;
     ext P (Set_crypto_perm_data tag_addr_ptr 0x1);
     ext P (Set_crypto_perm_data block_addr_ptr 0x1);
     errors \<leftarrow> tally_sinc P errors (Call_encrypt_block None);
     ext P (Set_crypto_perm_data tag_addr_ptr 0x0);
     ext P (Set_crypto_perm_data block_addr_ptr 0x1);
     errors \<leftarrow> tally_sinc P errors (Call_encrypt_block (Some (K cfg SINC_STATUS_AUTH_TAG_W_ERR)));
     errors \<leftarrow> tally_sinc P errors (Check_sinc_state (K cfg SINC_STATE_INITIALIZED));
     check_sp_bus_and_mpu_err cfg P 0 0;
     report P errors
   }"

section \<open>sinc_reg_access_by_state\<close>

text \<open>The loop draws random words until one differs from the register's value.\<close>

definition gen_different_wdata :: "config \<Rightarrow> 's platform \<Rightarrow> u32 \<Rightarrow> u32 \<Rightarrow> ('s, u32) prog" where
  "gen_different_wdata cfg P orig_data wmask =
     (if wmask = 0 then State_Monad.return 0
      else do_while (fuel cfg) (do { r \<leftarrow> ext P Rand; State_Monad.return (r AND wmask) })
        (\<lambda>data. data = orig_data))"

definition check_reg ::
  "config \<Rightarrow> 's platform \<Rightarrow> u32 \<Rightarrow> u32 \<Rightarrow> bool \<Rightarrow> u32 \<Rightarrow> ('s, u32) prog" where
  "check_reg cfg P addr wmask wallowed state = do {
     rdata1 \<leftarrow> ext P (Hw_read32 addr);
     wdata \<leftarrow> gen_different_wdata cfg P rdata1 wmask;
     ext P (Hw_write32 addr wdata);
     rdata2 \<leftarrow> ext P (Hw_read32 addr);
     (if wallowed
      then (if rdata2 \<noteq> wdata
            then do { hw_errmsg P [rdata2, addr, wdata, state]; State_Monad.return 1 }
            else do { hw_status P [rdata2, addr, state]; State_Monad.return 0 })
      else (if rdata2 \<noteq> rdata1
            then do { hw_errmsg P [rdata2, addr, rdata1, wdata, state]; State_Monad.return 1 }
            else do { hw_status P [rdata2, addr, state]; State_Monad.return 0 }))
   }"

text \<open>
  The registers in the order in which they are checked, each with the condition \<open>wallowed\<close> under
  which the test expects a write to take effect.
\<close>

definition wallowed :: "config \<Rightarrow> u32 \<Rightarrow> sinc_reg \<Rightarrow> bool" where
  "wallowed cfg state r = (case r of
      R_block_encr_key \<Rightarrow> state = K cfg SINC_STATE_DISABLED
    | R_aes_iv_nonce_0 \<Rightarrow> state = K cfg SINC_STATE_DISABLED
    | R_aes_iv_nonce_1 \<Rightarrow> state = K cfg SINC_STATE_DISABLED
    | R_aes_iv_nonce_2 \<Rightarrow> state = K cfg SINC_STATE_DISABLED
    | _ \<Rightarrow> state = K cfg SINC_STATE_DISABLED \<or> state = K cfg SINC_STATE_INITIALIZED)"

definition checked_regs :: "sinc_reg list" where
  "checked_regs = [R_block_encr_num, R_num_of_blocks, R_block_encr_addr, R_block_encr_key,
     R_aes_iv_nonce_0, R_aes_iv_nonce_1, R_aes_iv_nonce_2, R_ext_block_base_addr,
     R_ext_auth_tag_base_addr]"

definition write_read_all_regs :: "config \<Rightarrow> 's platform \<Rightarrow> u32 \<Rightarrow> ('s, u32) prog" where
  "write_read_all_regs cfg P state =
     for_each checked_regs (\<lambda>r errors.
       add_errors errors (check_reg cfg P (K cfg (Sinc_regs_ptr r)) (K cfg (SINC_REGS_WRITE_MASK r))
         (wallowed cfg state r) state)) 0"

definition reg_access_by_state_RUN_TEST :: "config \<Rightarrow> 's platform \<Rightarrow> ('s, unit) prog" where
  "reg_access_by_state_RUN_TEST cfg P = do {
     sinc P New_SINC_DRIVER;
     let errors = 0;
     ext P New_DMB_DRIVER;
     ext P Int_get_instance;
     block_addr_ptr \<leftarrow> acquire_sram cfg P;
     tag_addr_ptr \<leftarrow> acquire_tag_sram cfg P;
     rng_start cfg P;
     ccs_cmd_buf \<leftarrow> alloc_cmd_buf cfg P;
     ext P (New_CCS_DRIVER ccs_cmd_buf 0 0 0);
     errors \<leftarrow> gen_key cfg P errors 0;
     errors \<leftarrow> tally_sinc P errors (Check_sinc_state (K cfg SINC_STATE_DISABLED));
     write_read_all_regs cfg P (K cfg SINC_STATE_DISABLED);
     sinc P (Write_reg R_block_encr_key 0);
     sinc P (Write_reg R_ext_block_base_addr block_addr_ptr);
     sinc P (Write_reg R_ext_auth_tag_base_addr tag_addr_ptr);
     errors \<leftarrow> tally_sinc P errors (Transition_to_initialized None);
     errors \<leftarrow> tally_sinc P errors (Check_sinc_state (K cfg SINC_STATE_INITIALIZED));
     write_read_all_regs cfg P (K cfg SINC_STATE_INITIALIZED);
     errors \<leftarrow> tally_sinc P errors (Transition_to_cache_active None);
     errors \<leftarrow> tally_sinc P errors (Check_sinc_state (K cfg SINC_STATE_CACHE_ACTIVE));
     write_read_all_regs cfg P (K cfg SINC_STATE_CACHE_ACTIVE);
     ext P (Disable_interrupt (K cfg HSP_DMB_IRQ));
     ext P (Disable_interrupt (K cfg HSP_AXI_WDT_IRQ));
     ext P (Set_crypto_perm_data tag_addr_ptr 0x1);
     ext P (Set_crypto_perm_data block_addr_ptr 0x0);
     ext P (Hw_read32 (K cfg SSY_CPU0_MEMORY_DEF_HSP_CIRAM_ADDRESS));
     errors \<leftarrow> tally_sinc P errors (Check_sinc_state (K cfg SINC_STATE_CACHE_FAILED));
     write_read_all_regs cfg P (K cfg SINC_STATE_CACHE_FAILED);
     report P errors
   }"

section \<open>Verdicts\<close>

lemma acct_compare_blocks [acct_intros]:
  "acct (counting nothing_ignored) x (compare_blocks cfg P n w v x) (\<lambda>v. v)"
  unfolding compare_blocks_def by (rule acct_intros | simp)+

lemma acct_failed_state_rng_setup [acct_intros]:
  "acct (counting nothing_ignored) 0 (failed_state_rng_setup cfg P) (\<lambda>v. v)"
  unfolding failed_state_rng_setup_def by (rule acct_intros | simp)+

lemma acct_command_err_before_active [acct_intros]:
  "acct (counting nothing_ignored) x (command_err_before_active cfg P x) (\<lambda>v. v)"
  unfolding command_err_before_active_def by (rule acct_intros | simp)+

lemma acct_command_err_from_active [acct_intros]:
  "acct (counting nothing_ignored) x (command_err_from_active cfg P a x) (\<lambda>v. v)"
  unfolding command_err_from_active_def by (rule acct_intros | simp)+

lemma acct_bus_err_checks [acct_intros]:
  "acct (counting nothing_ignored) x (bus_err_checks cfg P x) (\<lambda>v. v)"
  unfolding bus_err_checks_def by (rule acct_intros | simp)+

lemma acct_check_key_fetch [acct_intros, acct_sub_intros]:
  "acct (counting nothing_ignored) x (check_key_fetch cfg P a e) (\<lambda>r. x + r)"
  unfolding check_key_fetch_def by (rule acct_sub_start) (rule acct_sub_intros | simp)+

lemma acct_ksu_access_round [acct_intros]:
  "acct (counting nothing_ignored) x (ksu_access_round cfg P a e x) (\<lambda>v. v)"
  unfolding ksu_access_round_def by (rule acct_intros | simp)+

text \<open>The messages of the two functions whose result the callers drop.\<close>

definition count_message :: "call \<Rightarrow> bool" where
  "count_message c = (case c of Hw_errmsg args \<Rightarrow> length args = 2 | _ \<Rightarrow> False)"

definition reg_message :: "call \<Rightarrow> bool" where
  "reg_message c = (case c of Hw_errmsg args \<Rightarrow> length args > 3 | _ \<Rightarrow> False)"

lemma acct_check_sp_bus_and_mpu_err [acct_intros]:
  "acct (counting count_message) x (check_sp_bus_and_mpu_err cfg P a b) (\<lambda>_. x)"
  unfolding check_sp_bus_and_mpu_err_def
  by (rule acct_errmsg_ignored acct_intros acct_return | simp add: count_message_def)+

lemma acct_non_severe_err_setup [acct_intros]:
  "acct (counting count_message) 0 (non_severe_err_setup cfg P) fst"
  unfolding non_severe_err_setup_def
  by (rule acct_intros acct_return | simp add: count_message_def)+

lemma acct_gen_different_wdata [acct_intros]:
  "acct (counting ign) x (gen_different_wdata cfg P d k) (\<lambda>_. x)"
  unfolding gen_different_wdata_def by (rule acct_intros acct_return | simp)+

lemma acct_check_reg [acct_intros]:
  "acct (counting reg_message) x (check_reg cfg P a k b s) (\<lambda>_. x)"
  unfolding check_reg_def
  by (rule acct_errmsg_ignored acct_intros acct_return | simp add: reg_message_def)+

lemma acct_write_read_all_regs [acct_intros]:
  "acct (counting reg_message) x (write_read_all_regs cfg P s) (\<lambda>_. x)"
  unfolding write_read_all_regs_def add_errors_def
  by (rule acct_for_each [where f = "\<lambda>_. x"]) (rule acct_intros acct_return | simp)+

section \<open>Register files\<close>

lemma tripleD: "triple A p B \<Longrightarrow> A m \<Longrightarrow> run_state p m = (v, m') \<Longrightarrow> B v m'"
  by (fastforce simp: triple_def)

text \<open>
  The contract that the register check relies on: the checked registers are mapped at their
  addresses, a read returns the value of the register, a write within the mask takes effect exactly
  when the register is writable, and the other calls of the check leave the registers alone.
\<close>

locale register_file =
  fixes cfg :: config and P :: "'s platform"
    and val :: "'s \<Rightarrow> sinc_reg \<Rightarrow> u32" and writable :: "'s \<Rightarrow> sinc_reg \<Rightarrow> bool"
  assumes mask_nonzero: "r \<in> set checked_regs \<Longrightarrow> K cfg (SINC_REGS_WRITE_MASK r) \<noteq> 0"
    and read_val: "r \<in> set checked_regs \<Longrightarrow>
      fst (reply P (Hw_read32 (K cfg (Sinc_regs_ptr r))) d) = val d r"
    and write_val: "r \<in> set checked_regs \<Longrightarrow> v AND K cfg (SINC_REGS_WRITE_MASK r) = v \<Longrightarrow>
      val (snd (reply P (Hw_write32 (K cfg (Sinc_regs_ptr r)) v) d)) =
        (if writable d r then (val d)(r := v) else val d)"
    and write_frame: "r \<in> set checked_regs \<Longrightarrow>
      writable (snd (reply P (Hw_write32 (K cfg (Sinc_regs_ptr r)) v) d)) = writable d"
    and read_frame: "r \<in> set checked_regs \<Longrightarrow>
      val (snd (reply P (Hw_read32 (K cfg (Sinc_regs_ptr r))) d)) = val d \<and>
      writable (snd (reply P (Hw_read32 (K cfg (Sinc_regs_ptr r))) d)) = writable d"
    and quiet_frame: "c \<in> {Rand, Hw_status args, Hw_errmsg args} \<Longrightarrow>
      val (snd (reply P c d)) = val d \<and> writable (snd (reply P c d)) = writable d"
begin

definition in_regs :: "(sinc_reg \<Rightarrow> u32) \<Rightarrow> (sinc_reg \<Rightarrow> bool) \<Rightarrow> 's mach \<Rightarrow> bool" where
  "in_regs V W m \<longleftrightarrow> status m = Running \<and> val (dev m) = V \<and> writable (dev m) = W"

lemma in_regs_quiet:
  assumes "c = Hw_status args \<or> c = Hw_errmsg args"
  shows "triple (in_regs V W) (ext P c) (\<lambda>_. in_regs V W)"
  by (rule triple_ext) (use assms quiet_frame [where args = args] in \<open>auto simp: in_regs_def\<close>)

lemma in_regs_read:
  assumes "r \<in> set checked_regs"
  shows "triple (in_regs V W) (ext P (Hw_read32 (K cfg (Sinc_regs_ptr r)))) (\<lambda>v m. v = V r \<and> in_regs V W m)"
  by (rule triple_ext) (use read_frame [OF assms] read_val [OF assms] in \<open>auto simp: in_regs_def\<close>)

lemma in_regs_write:
  assumes "r \<in> set checked_regs" and "v AND K cfg (SINC_REGS_WRITE_MASK r) = v"
  shows "triple (in_regs V W) (ext P (Hw_write32 (K cfg (Sinc_regs_ptr r)) v))
    (\<lambda>_. in_regs (if W r then V(r := v) else V) W)"
  by (rule triple_ext) (use write_frame [OF assms(1)] write_val [OF assms] in \<open>auto simp: in_regs_def\<close>)

lemma rand_frame:
  "val (((\<lambda>d. snd (reply P Rand d)) ^^ k) d) = val d \<and>
   writable (((\<lambda>d. snd (reply P Rand d)) ^^ k) d) = writable d"
  by (induction k) (use quiet_frame [where c = Rand] in auto)

text \<open>A different word is found when one of the draws that the fuel allows is different.\<close>

lemma in_regs_different:
  assumes "r \<in> set checked_regs"
    and "\<And>d. \<exists>k \<le> fuel cfg. draw P k d AND K cfg (SINC_REGS_WRITE_MASK r) \<noteq> V r"
  shows "triple (in_regs V W) (gen_different_wdata cfg P (V r) (K cfg (SINC_REGS_WRITE_MASK r)))
    (\<lambda>v m. (v \<noteq> V r \<and> v AND K cfg (SINC_REGS_WRITE_MASK r) = v) \<and> in_regs V W m)"
  unfolding triple_def
proof (intro allI impI)
  fix m :: "'s mach"
  let ?k = "K cfg (SINC_REGS_WRITE_MASK r)"
  assume m: "in_regs V W m"
  then have run: "status m = Running" and V: "V = val (dev m)" by (simp_all add: in_regs_def)
  from assms(2) [of "dev m"] obtain k where k: "k \<le> fuel cfg" "draw P k (dev m) AND ?k \<noteq> V r" by auto
  from draw_loop [where f = "\<lambda>r. r AND ?k" and again = "\<lambda>x. x = V r", OF run k]
  obtain j d tr where
    "run_state (gen_different_wdata cfg P (V r) ?k) m =
      (draw P j (dev m) AND ?k, m\<lparr>dev := d, log := tr @ log m\<rparr>)" "draw P j (dev m) AND ?k \<noteq> V r"
    "d = ((\<lambda>d. snd (reply P Rand d)) ^^ Suc j) (dev m)"
    using mask_nonzero [OF assms(1)] unfolding gen_different_wdata_def by (auto simp del: funpow.simps)
  with m rand_frame [of "Suc j" "dev m"]
  show "case run_state (gen_different_wdata cfg P (V r) ?k) m of
      (v, m) \<Rightarrow> (v \<noteq> V r \<and> v AND ?k = v) \<and> in_regs V W m"
    by (simp add: in_regs_def and.assoc del: funpow.simps)
qed

text \<open>The check returns 0 exactly when the register's writability is the expected one.\<close>

lemma check_reg_detects:
  assumes r: "r \<in> set checked_regs"
    and "\<And>d. \<exists>k \<le> fuel cfg. draw P k d AND K cfg (SINC_REGS_WRITE_MASK r) \<noteq> V r"
  shows "triple (in_regs V W)
    (check_reg cfg P (K cfg (Sinc_regs_ptr r)) (K cfg (SINC_REGS_WRITE_MASK r)) b s)
    (\<lambda>e m. e = (if W r = b then 0 else 1) \<and> (\<exists>V. in_regs V W m))"
proof -
  have finish: "triple (in_regs V' W) (do { ext P c; State_Monad.return e })
      (\<lambda>e' m. e' = e \<and> (\<exists>V. in_regs V W m))"
    if "c = Hw_status args \<or> c = Hw_errmsg args" for c args V' and e :: u32
    by (rule triple_bind [OF in_regs_quiet [OF that]]) (auto intro: triple_return)
  have tail: "triple (in_regs V' W)
     (if b then if V' r \<noteq> v then do { hw_errmsg P a1; State_Monad.return 1 } else do { hw_status P a2; State_Monad.return 0 }
      else if V' r \<noteq> V r then do { hw_errmsg P a3; State_Monad.return 1 } else do { hw_status P a4; State_Monad.return 0 })
     (\<lambda>e m. e = (if W r = b then 0 else 1 :: u32) \<and> (\<exists>V. in_regs V W m))"
    if "v \<noteq> V r" "V' = (if W r then V(r := v) else V)" for v V' a1 a2 a3 a4
    unfolding hw_errmsg_def
    using that finish [of "Hw_errmsg a1" a1 V' 1] finish [of "Hw_errmsg a3" a3 V' 1]
      finish [of "Hw_status a2" a2 V' 0] finish [of "Hw_status a4" a4 V' 0]
    by (cases b; cases "W r"; simp)
  show ?thesis
    unfolding check_reg_def
    by (rule triple_bind_value [OF in_regs_read [OF r]], rule triple_bind [OF in_regs_different [where V = V and r = r, OF assms]],
        rule triple_pure, rule triple_bind [OF in_regs_write [OF r]], simp,
        rule triple_bind_value [OF in_regs_read [OF r]], rule tail) simp_all
qed

text \<open>The registers whose writability is not what the test expects in a state.\<close>

definition misfits :: "u32 \<Rightarrow> (sinc_reg \<Rightarrow> bool) \<Rightarrow> sinc_reg list \<Rightarrow> u32" where
  "misfits s W rs = word_of_nat (length (filter (\<lambda>r. W r \<noteq> wallowed cfg s r) rs))"

lemma check_step:
  assumes "\<And>r d x. r \<in> set checked_regs \<Longrightarrow>
      \<exists>k \<le> fuel cfg. draw P k d AND K cfg (SINC_REGS_WRITE_MASK r) \<noteq> x"
    and k: "k < length checked_regs"
  shows "triple (\<lambda>m. e = misfits s W (take k checked_regs) \<and> (\<exists>V. in_regs V W m))
    (add_errors e (check_reg cfg P (K cfg (Sinc_regs_ptr (checked_regs ! k)))
      (K cfg (SINC_REGS_WRITE_MASK (checked_regs ! k))) (wallowed cfg s (checked_regs ! k)) s))
    (\<lambda>e m. e = misfits s W (take (Suc k) checked_regs) \<and> (\<exists>V. in_regs V W m))"
proof (rule triple_pure)
  let ?r = "checked_regs ! k"
  assume e: "e = misfits s W (take k checked_regs)"
  have r: "?r \<in> set checked_regs" using k by simp
  have "triple (in_regs V W) (add_errors e (check_reg cfg P (K cfg (Sinc_regs_ptr ?r))
      (K cfg (SINC_REGS_WRITE_MASK ?r)) (wallowed cfg s ?r) s))
    (\<lambda>e m. e = misfits s W (take (Suc k) checked_regs) \<and> (\<exists>V. in_regs V W m))" for V
    unfolding add_errors_def
    by (rule triple_bind [OF check_reg_detects [where V = V, OF r assms(1) [OF r]]])
      (rule triple_return, auto simp: e misfits_def take_Suc_conv_app_nth [OF k])
  then show "triple (\<lambda>m. \<exists>V. in_regs V W m) (add_errors e (check_reg cfg P (K cfg (Sinc_regs_ptr ?r))
      (K cfg (SINC_REGS_WRITE_MASK ?r)) (wallowed cfg s ?r) s))
    (\<lambda>e m. e = misfits s W (take (Suc k) checked_regs) \<and> (\<exists>V. in_regs V W m))"
    by (rule triple_ex)
qed

lemma write_read_all_regs_detects:
  assumes "\<And>r d x. r \<in> set checked_regs \<Longrightarrow>
      \<exists>k \<le> fuel cfg. draw P k d AND K cfg (SINC_REGS_WRITE_MASK r) \<noteq> x"
  shows "triple (in_regs V W) (write_read_all_regs cfg P s)
    (\<lambda>e m. e = misfits s W checked_regs \<and> (\<exists>V. in_regs V W m))"
proof -
  have "triple (\<lambda>m. 0 = misfits s W (take 0 checked_regs) \<and> (\<exists>V. in_regs V W m))
    (write_read_all_regs cfg P s)
    (\<lambda>e m. e = misfits s W (take (length checked_regs) checked_regs) \<and> (\<exists>V. in_regs V W m))"
    unfolding write_read_all_regs_def
    by (rule triple_for_each [where J = "\<lambda>k e m. e = misfits s W (take k checked_regs) \<and> (\<exists>V. in_regs V W m)"])
      (rule check_step, use assms in blast)
  then show ?thesis by (rule triple_conseq) (auto simp: misfits_def)
qed

end

section \<open>Properties\<close>

text \<open>The state machine tests that count every check report honestly: \<open>HW_TEST_FAIL\<close> only after a
  driver check or a comparison of the test failed, \<open>HW_TEST_PASS\<close> only when the number of failures
  is zero modulo \<open>2 ^ 32\<close>, and one of the two always.\<close>

lemma state_tests_honest:
  "test_ok (counting nothing_ignored) (axi_mgr_toggle_RUN_TEST cfg P) \<and>
   test_ok (counting nothing_ignored) (cache_failed_state_rng_RUN_TEST cfg P) \<and>
   test_ok (counting nothing_ignored) (cache_transition_initialized_runtime_RUN_TEST cfg P) \<and>
   test_ok (counting nothing_ignored) (cache_active_mem_access_short_RUN_TEST cfg P) \<and>
   test_ok (counting nothing_ignored) (command_err_RUN_TEST cfg P) \<and>
   test_ok (counting nothing_ignored) (bus_err_RUN_TEST cfg P) \<and>
   test_ok (counting nothing_ignored) (ksu_access_RUN_TEST cfg P)"
  unfolding axi_mgr_toggle_RUN_TEST_def cache_failed_state_rng_RUN_TEST_def
    cache_transition_initialized_runtime_RUN_TEST_def cache_active_mem_access_short_RUN_TEST_def
    command_err_RUN_TEST_def bus_err_RUN_TEST_def ksu_access_RUN_TEST_def
  by (intro conjI acct_done_test_ok) (rule acct_intros | simp)+

text \<open>\<open>sinc_non_severe_err\<close> and \<open>sinc_reg_access_by_state\<close> report honestly about everything except
  the functions whose result they drop: the interrupt counts of the first, and every register
  comparison of the second.\<close>

lemma dropped_results_tests_honest:
  "test_ok (counting count_message) (non_severe_err_RUN_TEST cfg P) \<and>
   test_ok (counting reg_message) (reg_access_by_state_RUN_TEST cfg P)"
  unfolding non_severe_err_RUN_TEST_def reg_access_by_state_RUN_TEST_def
  by (intro conjI acct_done_test_ok) (rule acct_intros | simp add: count_message_def reg_message_def)+

text \<open>The comparison of \<open>sinc_reg_access_by_state\<close> is exact. On every platform that maps the
  registers, and with random numbers that eventually differ from a register's value, the number
  that \<open>write_read_all_regs\<close> returns is the number of registers that are writable where the test
  expects them not to be, or the other way round; the loops of the check end.\<close>

lemma write_read_all_regs_exact:
  assumes "register_file cfg P val writable" and "status m = Running"
    and "\<And>r d x. r \<in> set checked_regs \<Longrightarrow>
      \<exists>k \<le> fuel cfg. draw P k d AND K cfg (SINC_REGS_WRITE_MASK r) \<noteq> x"
  shows "case run_state (write_read_all_regs cfg P state) m of (errors, m') \<Rightarrow>
    status m' = Running \<and>
    errors = word_of_nat (length (filter (\<lambda>r. writable (dev m) r \<noteq> wallowed cfg state r) checked_regs))"
proof -
  note rf = assms(1)
  have pre: "register_file.in_regs val writable (val (dev m)) (writable (dev m)) m"
    using assms(2) by (simp add: register_file.in_regs_def [OF rf])
  obtain e m' where r: "run_state (write_read_all_regs cfg P state) m = (e, m')"
    by (cases "run_state (write_read_all_regs cfg P state) m")
  have "triple (register_file.in_regs val writable (val (dev m)) (writable (dev m)))
      (write_read_all_regs cfg P state)
      (\<lambda>e m'. e = register_file.misfits cfg state (writable (dev m)) checked_regs \<and>
        (\<exists>V. register_file.in_regs val writable V (writable (dev m)) m'))"
    by (rule register_file.write_read_all_regs_detects [OF rf]) (rule assms(3))
  from tripleD [OF this pre r] show ?thesis
    by (auto simp: r register_file.in_regs_def [OF rf] register_file.misfits_def [OF rf])
qed

text \<open>A platform on which every driver call reports success and every allocation gives a buffer.\<close>

definition drivers_succeed :: "'s platform \<Rightarrow> bool" where
  "drivers_succeed P \<longleftrightarrow> (\<forall>c d. reports_errors c \<longrightarrow> fst (reply P c d) = 0) \<and>
     (\<forall>n d. fst (reply P (Alloc n) d) \<noteq> 0)"

text \<open>The machine is running, without a verdict, and \<open>k\<close> mismatches of registers have been printed.\<close>

definition noted :: "nat \<Rightarrow> 's mach \<Rightarrow> bool" where
  "noted k m \<longleftrightarrow> status m = Running \<and> verdicts (log m) = [] \<and> length (filter reg_message (calls m)) = k"

lemma noted_ext: "silent c \<Longrightarrow> triple (noted k) (ext P c) (\<lambda>_. noted k)"
  by (rule triple_ext) (cases c; simp add: noted_def calls_def reg_message_def)+

lemma noted_tally:
  assumes "drivers_succeed P" and "silent c \<and> reports_errors c"
  shows "triple (noted k) (tally P 0 c) (\<lambda>e m. e = 0 \<and> noted k m)"
proof -
  have "fst (reply P c d) = 0" for d using assms by (auto simp only: drivers_succeed_def)
  then have "triple (noted k) (ext P c) (\<lambda>e m. e = 0 \<and> noted k m)"
    by (intro triple_ext) (use assms(2) in \<open>cases c; simp add: noted_def calls_def reg_message_def\<close>)+
  then show ?thesis
    unfolding tally_def by (rule triple_bind_value) (simp add: triple_return)
qed

lemma noted_alloc:
  assumes "drivers_succeed P"
  shows "triple (noted k) (alloc_cmd_buf cfg P) (\<lambda>_. noted k)"
proof -
  have alloc: "triple (noted k) (ext P (Alloc 24)) (\<lambda>b m. b \<noteq> 0 \<and> noted k m)"
    by (rule triple_ext)
      (use assms in \<open>auto simp: drivers_succeed_def noted_def calls_def reg_message_def simp del: reports_errors_def\<close>)
  show ?thesis
    unfolding alloc_cmd_buf_def
    by (rule triple_bind [OF noted_ext], simp, rule triple_bind [OF noted_ext], simp, rule triple_bind [OF alloc],
      rule triple_pure) (auto simp: triple_return)
qed

lemma noted_draws: "set tr \<subseteq> {Rand} \<times> UNIV \<Longrightarrow> verdicts tr = [] \<and> filter reg_message (map fst tr) = []"
  by (induction tr) (auto simp: reg_message_def)

lemma noted_different:
  fixes P :: "'a platform"
  assumes "k \<noteq> 0" and "\<And>d. \<exists>j \<le> fuel cfg. draw P j d AND k \<noteq> x"
  shows "triple (noted n) (gen_different_wdata cfg P x k) (\<lambda>v m. v \<noteq> x \<and> noted n m)"
  unfolding triple_def
proof (intro allI impI)
  fix m :: "'a mach"
  assume m: "noted n m"
  then have run: "status m = Running" by (simp add: noted_def)
  from assms(2) obtain j where j: "j \<le> fuel cfg" "draw P j (dev m) AND k \<noteq> x" by blast
  from draw_loop [where f = "\<lambda>r. r AND k" and again = "\<lambda>v. v = x", OF run j] obtain v d tr where
    "run_state (gen_different_wdata cfg P x k) m = (v, m\<lparr>dev := d, log := tr @ log m\<rparr>)" "v \<noteq> x"
    "set tr \<subseteq> {Rand} \<times> UNIV"
    using assms(1) unfolding gen_different_wdata_def by auto
  with m noted_draws [of tr] show "case run_state (gen_different_wdata cfg P x k) m of (v, m) \<Rightarrow> v \<noteq> x \<and> noted n m"
    by (auto simp: noted_def calls_def rev_filter [symmetric] filter_map)
qed

text \<open>One register whose value never changes: a mismatch is printed where the test expects a write to take effect.\<close>

lemma noted_check_reg:
  assumes read: "\<And>d. fst (reply P (Hw_read32 a) d) = x" and k: "k \<noteq> 0"
    and draws: "\<And>d. \<exists>j \<le> fuel cfg. draw P j d AND k \<noteq> x"
  shows "triple (noted n) (check_reg cfg P a k b s) (\<lambda>_. noted (if b then Suc n else n))"
proof -
  have rd: "triple (noted n) (ext P (Hw_read32 a)) (\<lambda>v m. v = x \<and> noted n m)" for n
    by (rule triple_ext) (simp_all add: read noted_def calls_def reg_message_def)
  have msg: "length args > 3 \<Longrightarrow> triple (noted n) (hw_errmsg P args) (\<lambda>_. noted (Suc n))" for args n
    unfolding hw_errmsg_def by (rule triple_ext) (simp_all add: noted_def calls_def reg_message_def)
  show ?thesis
    unfolding check_reg_def
    by (rule triple_bind_value [OF rd], rule triple_bind [OF noted_different [OF k draws]], rule triple_pure,
      rule triple_bind [OF noted_ext], simp, rule triple_bind_value [OF rd])
      (auto intro!: triple_bind [OF msg] triple_bind [OF noted_ext] triple_return)
qed

lemma noted_write_read_all_regs:
  assumes "\<And>r d. r \<in> set checked_regs \<Longrightarrow> fst (reply P (Hw_read32 (K cfg (Sinc_regs_ptr r))) d) = v r"
    and "\<And>r. r \<in> set checked_regs \<Longrightarrow> K cfg (SINC_REGS_WRITE_MASK r) \<noteq> 0"
    and "\<And>r d. r \<in> set checked_regs \<Longrightarrow> \<exists>j \<le> fuel cfg. draw P j d AND K cfg (SINC_REGS_WRITE_MASK r) \<noteq> v r"
  shows "triple (noted n) (write_read_all_regs cfg P s)
    (\<lambda>_. noted (n + length (filter (wallowed cfg s) checked_regs)))"
proof -
  let ?J = "\<lambda>k (_ :: u32). noted (n + length (filter (wallowed cfg s) (take k checked_regs)))"
  have "triple (?J k e) (add_errors e (check_reg cfg P (K cfg (Sinc_regs_ptr (checked_regs ! k)))
      (K cfg (SINC_REGS_WRITE_MASK (checked_regs ! k))) (wallowed cfg s (checked_regs ! k)) s)) (?J (Suc k))"
    if k: "k < length checked_regs" for k e
  proof -
    have r: "checked_regs ! k \<in> set checked_regs" using k by simp
    show ?thesis
      unfolding add_errors_def
      by (rule triple_bind [OF noted_check_reg [OF assms(1) [OF r] assms(2) [OF r] assms(3) [OF r]]])
        (rule triple_return, simp add: take_Suc_conv_app_nth [OF k] split: if_splits)
  qed
  then have "triple (?J 0 0) (write_read_all_regs cfg P s) (?J (length checked_regs))"
    unfolding write_read_all_regs_def by (rule triple_for_each)
  then show ?thesis by simp
qed

text \<open>C37: the result of that comparison never reaches the verdict. On every platform whose drivers report success and
  whose nine registers cannot be written at all, always reading the same values, the test prints a mismatch for
  each of the nine registers in the disabled and for five of them in the initialized state, fourteen in all,
  and reports \<open>HW_TEST_PASS\<close>. The constants of the four states have to differ, the write masks not to be zero, and
  \<open>rand\<close> to give a word that differs from the register's value within the fuel.\<close>

theorem reg_access_by_state_misses_stuck_registers:
  assumes "drivers_succeed P"
    and "\<And>r d. r \<in> set checked_regs \<Longrightarrow> fst (reply P (Hw_read32 (K cfg (Sinc_regs_ptr r))) d) = v r"
    and "\<And>r. r \<in> set checked_regs \<Longrightarrow> K cfg (SINC_REGS_WRITE_MASK r) \<noteq> 0"
    and "\<And>r d. r \<in> set checked_regs \<Longrightarrow> \<exists>j \<le> fuel cfg. draw P j d AND K cfg (SINC_REGS_WRITE_MASK r) \<noteq> v r"
    and "distinct (map (K cfg) [SINC_STATE_DISABLED, SINC_STATE_INITIALIZED, SINC_STATE_CACHE_ACTIVE, SINC_STATE_CACHE_FAILED])"
  shows "let m = exec (reg_access_by_state_RUN_TEST cfg P) d in
     status m = Running \<and> verdicts (log m) = [HW_TEST_PASS] \<and> length (filter reg_message (calls m)) = 14"
proof -
  let ?B = "\<lambda>(_ :: unit) m. status m = Running \<and> verdicts (log m) = [HW_TEST_PASS] \<and> length (filter reg_message (calls m)) = 14"
  note tally = noted_tally [OF assms(1)]
  note regs = noted_write_read_all_regs [where P = P and cfg = cfg and v = v, OF assms(2-4)]
  have n: "length (filter (wallowed cfg (K cfg SINC_STATE_DISABLED)) checked_regs) = 9"
    "length (filter (wallowed cfg (K cfg SINC_STATE_INITIALIZED)) checked_regs) = 5"
    "length (filter (wallowed cfg (K cfg SINC_STATE_CACHE_ACTIVE)) checked_regs) = 0"
    "length (filter (wallowed cfg (K cfg SINC_STATE_CACHE_FAILED)) checked_regs) = 0"
    using assms(5) by (auto simp: checked_regs_def wallowed_def)
  have report: "triple (noted 14) (report P 0) ?B"
    unfolding report_def hw_done_def
    by (rule triple_bind [where B = "\<lambda>_. ?B ()"])
      (auto intro!: triple_ext triple_return simp: noted_def calls_def reg_message_def)
  have "triple (noted 0) (reg_access_by_state_RUN_TEST cfg P) ?B"
    unfolding reg_access_by_state_RUN_TEST_def acquire_sram_def acquire_tag_sram_def rng_start_def gen_key_def Let_def
      State_Monad.bind_assoc
    by (rule triple_bind [OF noted_ext] triple_bind_value [OF tally] triple_bind [OF noted_alloc [OF assms(1)]]
        triple_bind [OF regs [where n = 0]] triple_bind [OF regs [where n = 9]] triple_bind [OF regs [where n = 14]]
        report | simp add: n)+
  from triple_exec [OF this, of d] show ?thesis by (simp add: noted_def calls_def Let_def)
qed

definition stuck_registers :: "unit platform" where
  "stuck_registers = \<lparr>reply = (\<lambda>c d. (case c of Alloc _ \<Rightarrow> 0x20000 | Rand \<Rightarrow> 1 | _ \<Rightarrow> 0, d)),
     fill = (\<lambda>_ _. 0)\<rparr>"

theorem reg_access_by_state_misses_stuck_registers_witness:
  "let m = exec (reg_access_by_state_RUN_TEST sample_cfg stuck_registers) () in
     status m = Running \<and> verdicts (log m) = [HW_TEST_PASS] \<and> length (filter reg_message (calls m)) = 14"
proof (rule reg_access_by_state_misses_stuck_registers [where v = "\<lambda>_. 0"])
  show "drivers_succeed stuck_registers"
    by (auto simp: drivers_succeed_def stuck_registers_def split: call.splits)
qed (auto simp: stuck_registers_def sample_cfg_def draw_def intro: exI [of _ 0])

text \<open>The four invalid attributes of \<open>sinc_ksu_access\<close> are each one bit away from a valid one: the
  valid attribute has every required bit and no forbidden one, and each of the four violates
  exactly one of the four requirements. The masks have to be pairwise disjoint and not zero.\<close>

lemma ksu_access_attributes:
  assumes "attr_masks_distinct cfg"
    and "K cfg KSU_ATTR_IS_DEVICE_SECRET AND K cfg KSU_ATTR_AES_ENCRYPT_ALLOWED = 0"
    and "K cfg KSU_ATTR_IS_DEVICE_SECRET AND K cfg KSU_ATTR_AES_DECRYPT_ALLOWED = 0"
    and "K cfg KSU_ATTR_AES_ENCRYPT_ALLOWED AND K cfg KSU_ATTR_AES_DECRYPT_ALLOWED = 0"
    and "K cfg KSU_ATTR_IS_DEVICE_SECRET \<noteq> 0" "K cfg KSU_ATTR_AES_ENCRYPT_ALLOWED \<noteq> 0"
    and "K cfg KSU_ATTR_AES_DECRYPT_ALLOWED \<noteq> 0" "K cfg KSU_ATTR_KEY_SIZE_384 \<noteq> 0"
  shows "violations cfg (valid_key_attr cfg a) = [] \<and>
    map (violations cfg) (invalid_attrs cfg (valid_key_attr cfg a)) =
      [[KSU_ATTR_IS_DEVICE_SECRET], [KSU_ATTR_AES_ENCRYPT_ALLOWED], [KSU_ATTR_AES_DECRYPT_ALLOWED],
       [KSU_ATTR_KEY_SIZE_384]]"
proof (intro conjI)
  let ?v = "valid_key_attr cfg a" and ?s = "K cfg KSU_ATTR_IS_DEVICE_SECRET"
    and ?e = "K cfg KSU_ATTR_AES_ENCRYPT_ALLOWED" and ?d = "K cfg KSU_ATTR_AES_DECRYPT_ALLOWED"
    and ?l = "K cfg KSU_ATTR_KEY_SIZE_384"
  show ok: "violations cfg ?v = []" by (rule valid_key_attr_ok [OF assms(1)])
  then have v: "?v AND ?s = ?s" "?v AND ?e = ?e" "?v AND ?d = ?d" "?v AND ?l = 0"
    by (simp_all add: violations_def split: if_splits)
  have sym: "?e AND ?s = 0" "?d AND ?s = 0" "?d AND ?e = 0"
    using assms(2-4) by (simp_all add: and.commute)
  show "map (violations cfg) (invalid_attrs cfg ?v) =
      [[KSU_ATTR_IS_DEVICE_SECRET], [KSU_ATTR_AES_ENCRYPT_ALLOWED], [KSU_ATTR_AES_DECRYPT_ALLOWED],
       [KSU_ATTR_KEY_SIZE_384]]"
    using assms(5-8) assms(5-8) [symmetric]
    by (simp add: invalid_attrs_def violations_def v assms(2-4) sym clear_keeps clear_keeps_none
        clear_then_none set_keeps set_then_all)
qed

end
