(* ===== verification/TestsReset.thy ===== *)
theory TestsReset
  imports TestCommon
begin

text \<open>
  The tests that cross a reset, an erase or a power transition: \<open>sinc_reset\<close>, \<open>sinc_reinit\<close>,
  \<open>sinc_restore_after_reset\<close>, \<open>sinc_erase_busy\<close>, \<open>sinc_intr\<close>, \<open>sinc_reset_after_gate\<close> and
  \<open>sinc_reinit_after_gate\<close>. A test that resets the chip is started again after the reset and finds
  out from \<open>hsp_reset_count_rpc\<close> how far it got.
\<close>

section \<open>sinc_reset\<close>

definition reset_boot_0 :: "config \<Rightarrow> 's platform \<Rightarrow> u32 \<Rightarrow> ('s, unit) prog" where
  "reset_boot_0 cfg P errors = do {
     let ciram = K cfg SSY_CPU0_MEMORY_DEF_HSP_CIRAM_ADDRESS;
     let inv = Some (K cfg SINC_STATUS_INVALID_CMD_ERR);
     errors \<leftarrow> tally_sinc P errors (Transition_to_initialized None);
     initial_value \<leftarrow> ext P Rand;
     sinc P (Setup_known_data ciram 128 initial_value);
     errors \<leftarrow> tally_sinc P errors (Call_sinc_reset None);
     errors \<leftarrow> tally_sinc P errors (Check_sinc_state (K cfg SINC_STATE_DISABLED));
     errors \<leftarrow> tally_sinc P errors (Check_known_data_cleared ciram 128 initial_value);
     sinc P (Write_reg R_cmd (K cfg SINC_CMD_DISABLE_RESET));
     sinc P (Read_status_check_bits (K cfg SINC_STATUS_SINC_RESET_DISABLED));
     errors \<leftarrow> tally_sinc P errors (Transition_to_initialized None);
     errors \<leftarrow> tally_sinc P errors (Call_sinc_reset inv);
     errors \<leftarrow> tally_sinc P errors (Check_sinc_state (K cfg SINC_STATE_INITIALIZED));
     sinc P (Write_reg R_cmd 0);
     sinc P (Read_status_check_bits (K cfg SINC_STATUS_SINC_RESET_DISABLED));
     errors \<leftarrow> tally_sinc P errors (Call_sinc_reset inv);
     errors \<leftarrow> tally_sinc P errors (Check_sinc_state (K cfg SINC_STATE_INITIALIZED));
     fail_or_reset P errors
   }"

definition reset_boot_1 :: "config \<Rightarrow> 's platform \<Rightarrow> u32 \<Rightarrow> ('s, unit) prog" where
  "reset_boot_1 cfg P errors = do {
     sinc P (Read_status_check_bits_not_set (K cfg SINC_STATUS_SINC_RESET_DISABLED));
     errors \<leftarrow> tally_sinc P errors (Transition_to_initialized None);
     sinc P (Write_reg R_cmd (K cfg SINC_CMD_DISABLE_RESET));
     sinc P (Read_status_check_bits (K cfg SINC_STATUS_SINC_RESET_DISABLED));
     errors \<leftarrow> tally_sinc P errors (Call_sinc_reset (Some (K cfg SINC_STATUS_INVALID_CMD_ERR)));
     errors \<leftarrow> tally_sinc P errors (Check_sinc_state (K cfg SINC_STATE_INITIALIZED));
     fail_or_reset P errors
   }"

definition reset_boot_2 :: "config \<Rightarrow> 's platform \<Rightarrow> u32 \<Rightarrow> ('s, u32) prog" where
  "reset_boot_2 cfg P errors = do {
     let ciram = K cfg SSY_CPU0_MEMORY_DEF_HSP_CIRAM_ADDRESS;
     let inv = Some (K cfg SINC_STATUS_INVALID_CMD_ERR);
     errors \<leftarrow> tally_sinc P errors (Transition_to_initialized None);
     initial_value \<leftarrow> ext P Rand;
     sinc P (Setup_known_data ciram 128 initial_value);
     errors \<leftarrow> tally_sinc P errors (Transition_to_cache_active None);
     errors \<leftarrow> tally_sinc P errors (Call_sinc_reset None);
     errors \<leftarrow> tally_sinc P errors (Check_sinc_state (K cfg SINC_STATE_DISABLED));
     errors \<leftarrow> tally_sinc P errors (Check_known_data_cleared ciram 128 initial_value);
     errors \<leftarrow> tally_sinc P errors (Transition_to_initialized None);
     errors \<leftarrow> tally_sinc P errors (Transition_to_cache_active None);
     sinc P (Write_reg R_cmd (K cfg SINC_CMD_DISABLE_RESET));
     sinc P (Read_status_check_bits (K cfg SINC_STATUS_SINC_RESET_DISABLED));
     errors \<leftarrow> tally_sinc P errors (Call_sinc_reset inv);
     errors \<leftarrow> tally_sinc P errors (Check_sinc_state (K cfg SINC_STATE_CACHE_ACTIVE));
     sinc P (Write_reg R_cmd 0);
     sinc P (Read_status_check_bits (K cfg SINC_STATUS_SINC_RESET_DISABLED));
     errors \<leftarrow> tally_sinc P errors (Call_sinc_reset inv);
     tally_sinc P errors (Check_sinc_state (K cfg SINC_STATE_CACHE_ACTIVE))
   }"

text \<open>The common beginning of \<open>sinc_reset\<close> and \<open>sinc_reinit\<close>: the reset count and the error counter.\<close>

definition reset_setup :: "config \<Rightarrow> 's platform \<Rightarrow> ('s, u32 \<times> u32) prog" where
  "reset_setup cfg P = do {
     sinc P New_SINC_DRIVER;
     ext P New_DMB_DRIVER;
     let errors = 0;
     hsp_reset_count \<leftarrow> ext P Hsp_reset_count_rpc;
     rng_start cfg P;
     sram_addr_ptr \<leftarrow> acquire_sram cfg P;
     ccs_cmd_buf \<leftarrow> alloc_cmd_buf cfg P;
     ext P (New_CCS_DRIVER ccs_cmd_buf 0 0 0);
     errors \<leftarrow> gen_key cfg P errors 0;
     hw_status P [hsp_reset_count];
     write_settings_0 cfg P 0 0 sram_addr_ptr;
     State_Monad.return (hsp_reset_count, errors)
   }"

definition reset_RUN_TEST :: "config \<Rightarrow> 's platform \<Rightarrow> ('s, unit) prog" where
  "reset_RUN_TEST cfg P = do {
     s \<leftarrow> reset_setup cfg P;
     let hsp_reset_count = fst s;
     let errors = snd s;
     st \<leftarrow> sinc P (Read_reg R_status);
     hw_status P [st];
     errors \<leftarrow>
       (if hsp_reset_count = 0 then do { reset_boot_0 cfg P errors; State_Monad.return errors }
        else if hsp_reset_count = 1 then do { reset_boot_1 cfg P errors; State_Monad.return errors }
        else if hsp_reset_count = 2 then reset_boot_2 cfg P errors
        else State_Monad.return errors);
     report P errors
   }"

section \<open>sinc_reinit\<close>

definition reinit_boot_0 :: "config \<Rightarrow> 's platform \<Rightarrow> u32 \<Rightarrow> ('s, unit) prog" where
  "reinit_boot_0 cfg P errors = do {
     let ciram = K cfg SSY_CPU0_MEMORY_DEF_HSP_CIRAM_ADDRESS;
     let inv = Some (K cfg SINC_STATUS_INVALID_CMD_ERR);
     errors \<leftarrow> tally_sinc P errors (Transition_to_initialized None);
     initial_value \<leftarrow> ext P Rand;
     sinc P (Setup_known_data ciram 128 initial_value);
     errors \<leftarrow> tally_sinc P errors (Check_known_data ciram 128 initial_value);
     errors \<leftarrow> tally_sinc P errors (Transition_to_cache_active None);
     errors \<leftarrow> tally_sinc P errors (Call_sinc_reinit None);
     errors \<leftarrow> tally_sinc P errors (Check_sinc_state (K cfg SINC_STATE_INITIALIZED));
     errors \<leftarrow> tally_sinc P errors (Check_known_data_cleared ciram 128 initial_value);
     sinc P (Write_reg R_cmd (K cfg SINC_CMD_DISABLE_REINIT));
     errors \<leftarrow> tally_sinc P errors (Read_status_check_bits (K cfg SINC_STATUS_SINC_REINIT_DISABLED));
     errors \<leftarrow> tally_sinc P errors (Transition_to_cache_active None);
     errors \<leftarrow> tally_sinc P errors (Call_sinc_reinit inv);
     errors \<leftarrow> tally_sinc P errors (Check_sinc_state (K cfg SINC_STATE_CACHE_ACTIVE));
     sinc P (Write_reg R_cmd 0);
     errors \<leftarrow> tally_sinc P errors (Read_status_check_bits (K cfg SINC_STATUS_SINC_REINIT_DISABLED));
     errors \<leftarrow> tally_sinc P errors (Call_sinc_reinit inv);
     errors \<leftarrow> tally_sinc P errors (Check_sinc_state (K cfg SINC_STATE_CACHE_ACTIVE));
     fail_or_reset P errors
   }"

definition reinit_boot_1 :: "config \<Rightarrow> 's platform \<Rightarrow> u32 \<Rightarrow> ('s, unit) prog" where
  "reinit_boot_1 cfg P errors = do {
     sinc P (Read_status_check_bits_not_set (K cfg SINC_STATUS_SINC_REINIT_DISABLED));
     sinc P (Write_reg R_cmd (K cfg SINC_CMD_DISABLE_REINIT));
     sinc P (Read_status_check_bits (K cfg SINC_STATUS_SINC_REINIT_DISABLED));
     errors \<leftarrow> tally_sinc P errors (Transition_to_initialized None);
     errors \<leftarrow> tally_sinc P errors (Transition_to_cache_active None);
     errors \<leftarrow> tally_sinc P errors (Call_sinc_reinit (Some (K cfg SINC_STATUS_INVALID_CMD_ERR)));
     errors \<leftarrow> tally_sinc P errors (Check_sinc_state (K cfg SINC_STATE_CACHE_ACTIVE));
     fail_or_reset P errors
   }"

definition reinit_boot_2 :: "config \<Rightarrow> 's platform \<Rightarrow> u32 \<Rightarrow> ('s, u32) prog" where
  "reinit_boot_2 cfg P errors = do {
     sinc P (Read_status_check_bits_not_set (K cfg SINC_STATUS_SINC_REINIT_DISABLED));
     errors \<leftarrow> tally_sinc P errors (Transition_to_initialized None);
     errors \<leftarrow> tally_sinc P errors (Transition_to_cache_active None);
     sinc P (Write_reg R_cmd (K cfg SINC_CMD_DISABLE_REINIT));
     sinc P (Read_status_check_bits (K cfg SINC_STATUS_SINC_REINIT_DISABLED));
     errors \<leftarrow> tally_sinc P errors (Call_sinc_reinit (Some (K cfg SINC_STATUS_INVALID_CMD_ERR)));
     tally_sinc P errors (Check_sinc_state (K cfg SINC_STATE_CACHE_ACTIVE))
   }"

definition reinit_RUN_TEST :: "config \<Rightarrow> 's platform \<Rightarrow> ('s, unit) prog" where
  "reinit_RUN_TEST cfg P = do {
     s \<leftarrow> reset_setup cfg P;
     let hsp_reset_count = fst s;
     let errors = snd s;
     errors \<leftarrow>
       (if hsp_reset_count = 0 then do { reinit_boot_0 cfg P errors; State_Monad.return errors }
        else if hsp_reset_count = 1 then do { reinit_boot_1 cfg P errors; State_Monad.return errors }
        else if hsp_reset_count = 2 then reinit_boot_2 cfg P errors
        else State_Monad.return errors);
     report P errors
   }"

section \<open>sinc_restore_after_reset\<close>

text \<open>\<open>repeat_val\<close> on an array in memory.\<close>

primrec repeat_val_at :: "'s platform \<Rightarrow> u32 \<Rightarrow> u32 \<Rightarrow> u32 list \<Rightarrow> ('s, u32) prog" where
  "repeat_val_at P input arr [] = State_Monad.return 0"
| "repeat_val_at P input arr (i # is) = do {
     a \<leftarrow> ext P (Load32 (arr + 4 * i));
     (if a = input then State_Monad.return 1 else repeat_val_at P input arr is)
   }"

definition restore_key_attr :: "config \<Rightarrow> u32 \<Rightarrow> u32" where
  "restore_key_attr cfg key_attr =
     (key_attr OR (K cfg KSU_ATTR_IS_DEVICE_SECRET OR K cfg KSU_ATTR_AES_ENCRYPT_ALLOWED
        OR K cfg KSU_ATTR_AES_DECRYPT_ALLOWED) OR K cfg KSU_ATTR_SAVE_KEY_ALLOWED)
     AND NOT (K cfg KSU_ATTR_KEY_SIZE_384 OR K cfg KSU_ATTR_IS_EPHEMERAL_KEY)"

text \<open>The data that has to survive the reset, in external memory.\<close>

definition restore_generate ::
  "config \<Rightarrow> 's platform \<Rightarrow> u32 \<Rightarrow> u32 \<Rightarrow> u32 \<Rightarrow> ('s, unit) prog" where
  "restore_generate cfg P nonce block_table initial_value = do {
     random_fill P (At nonce) 3;
     for_each (idx 10) (\<lambda>i u. do {
       block_num \<leftarrow> do_while (fuel cfg) (do {
           r \<leftarrow> ext P Rand;
           let block_num = r mod 32768;
           again \<leftarrow> repeat_val_at P block_num block_table (idx (unat i));
           State_Monad.return (block_num, again)
         }) (\<lambda>x. snd x \<noteq> 0);
       ext P (Store32 (block_table + 4 * i) (fst block_num));
       v \<leftarrow> ext P Rand;
       ext P (Store32 (initial_value + 4 * i) v);
       State_Monad.return ()
     }) ()
   }"

definition restore_encrypt :: "config \<Rightarrow> 's platform \<Rightarrow> u32 \<Rightarrow> u32 \<Rightarrow> u32 \<Rightarrow> ('s, u32) prog" where
  "restore_encrypt cfg P block_table initial_value errors =
     for_each (idx 10) (\<lambda>i errors. do {
       v \<leftarrow> ext P (Load32 (initial_value + 4 * i));
       sinc P (Setup_known_data (K cfg SSY_HSP_SHAREDRAM_BASE_ADDR) 128 v);
       b \<leftarrow> ext P (Load32 (block_table + 4 * i));
       sinc P (Write_reg R_block_encr_num b);
       tally_sinc P errors (Call_encrypt_block None)
     }) errors"

definition restore_check :: "config \<Rightarrow> 's platform \<Rightarrow> u32 \<Rightarrow> u32 \<Rightarrow> u32 \<Rightarrow> ('s, u32) prog" where
  "restore_check cfg P block_table initial_value errors =
     for_each (idx 10) (\<lambda>i errors. do {
       block_num \<leftarrow> ext P (Load32 (block_table + 4 * i));
       hw_status P [1024 * 2, K cfg SSY_CPU0_MEMORY_DEF_HSP_CIRAM_ADDRESS + 512 * block_num];
       ext P Flush_uart;
       v \<leftarrow> ext P (Load32 (initial_value + 4 * i));
       sinc P (Setup_known_data (K cfg SSY_HSP_SHAREDRAM_BASE_ADDR) 128 v);
       differ \<leftarrow> ext P (Wordcmp (At (K cfg SSY_HSP_SHAREDRAM_BASE_ADDR))
         (At (K cfg SSY_CPU0_MEMORY_DEF_HSP_CIRAM_ADDRESS + 512 * block_num)) 128);
       errors \<leftarrow> (if differ \<noteq> 0 then do { hw_errmsg P []; State_Monad.return (errors + 1) }
         else State_Monad.return errors);
       hw_status P [];
       ext P Flush_uart;
       State_Monad.return errors
     }) errors"

definition restore_after_reset_RUN_TEST :: "config \<Rightarrow> 's platform \<Rightarrow> ('s, unit) prog" where
  "restore_after_reset_RUN_TEST cfg P = do {
     sinc P New_SINC_DRIVER;
     ext P New_DMB_DRIVER;
     let errors = 0;
     hsp_reset_count \<leftarrow> ext P Hsp_reset_count_rpc;
     hw_status P [hsp_reset_count];
     rng_start cfg P;
     sram_addr_ptr \<leftarrow> acquire_sram cfg P;
     sram2_addr_ptr \<leftarrow> ext P (Dmb_acquire (K64 cfg SYS_SRAM2_BASE_ADDR) 0x0 0xA 0x0);
     ccs_dvr_buf \<leftarrow> alloc_cmd_buf cfg P;
     input_buf \<leftarrow> alloc_buf P 48;
     output_buf \<leftarrow> alloc_buf P 48;
     ext P (New_CCS_DRIVER ccs_dvr_buf input_buf output_buf 0);
     r \<leftarrow> ext P Rand;
     let key_attr = restore_key_attr cfg r;
     r \<leftarrow> ext P Rand;
     let aes_key_slot = r mod (K cfg SSY_HSP_KSU_NUM_KEYS - 1) + 1;
     let kek_key_slot = 0;
     errors \<leftarrow> tally P errors (Gen_random_key_fixed_attr aes_key_slot key_attr);
     let nonce = sram2_addr_ptr;
     let block_table = nonce + 4 * 3;
     let initial_value = block_table + 4 * 10;
     let key_blob = initial_value + 4 * 10;
     ext P (Set_data_out key_blob);
     errors \<leftarrow> (if hsp_reset_count = 0 then do {
         restore_generate cfg P nonce block_table initial_value;
         tally P errors (Do_fixed_command (K cfg CMD_CCS_SAVE_KEY) 0 aes_key_slot kek_key_slot 0 0)
       } else State_Monad.return errors);
     errors \<leftarrow> (if hsp_reset_count = 1 then
         tally P errors (Do_fixed_command (K cfg CMD_CCS_LOAD_KEY) aes_key_slot 0 kek_key_slot key_blob 0)
       else State_Monad.return errors);
     sinc P (Write_reg R_num_of_blocks 1);
     sinc P (Write_reg R_block_encr_addr (K cfg SSY_HSP_SHAREDRAM_BASE_ADDR));
     sinc P (Write_reg R_block_encr_key aes_key_slot);
     sinc P (Write_all_aes_iv_nonce (At nonce));
     sinc P (Write_reg R_ext_block_base_addr sram_addr_ptr);
     sinc P (Write_reg R_ext_auth_tag_base_addr (sram_addr_ptr + 0x1000000));
     hw_status P [];
     errors \<leftarrow> tally_sinc P errors (Transition_to_initialized None);
     errors \<leftarrow> (if hsp_reset_count = 0
       then restore_encrypt cfg P block_table initial_value errors
       else State_Monad.return errors);
     errors \<leftarrow> tally_sinc P errors (Transition_to_cache_active None);
     errors \<leftarrow> restore_check cfg P block_table initial_value errors;
     fail_fast P errors;
     (if hsp_reset_count = 0 then do { ext P Hsp_reset_rpc; State_Monad.return () }
      else State_Monad.return ());
     report P errors
   }"

section \<open>sinc_erase_busy\<close>

text \<open>\<open>1 << n\<close>\<close>

abbreviation bit_at :: "u32 \<Rightarrow> u32" where
  "bit_at n \<equiv> push_bit (unat n) 1"

text \<open>Clear the done status, start the erase of the cache memory and read from it meanwhile.\<close>

definition erase_and_read :: "config \<Rightarrow> 's platform \<Rightarrow> ('s, unit) prog" where
  "erase_and_read cfg P = do {
     done_sts \<leftarrow> ext P (Mem_err_read MEM_ERASE_DONE_STS);
     ext P (Mem_err_write MEM_ERASE_DONE_STS done_sts);
     ext P (Mem_err_write MEM_ERASE_EN (bit_at (K cfg MEM_SPCIRAM)));
     ext P (Hw_read32 (K cfg SSY_CPU0_MEMORY_DEF_HSP_CIRAM_ADDRESS));
     State_Monad.return ()
   }"

text \<open>Poll until the erase is done.\<close>

definition wait_erase_done :: "config \<Rightarrow> 's platform \<Rightarrow> ('s, u32) prog" where
  "wait_erase_done cfg P =
     do_while (fuel cfg)
       (do { d \<leftarrow> ext P (Mem_err_read MEM_ERASE_DONE_STS);
             State_Monad.return (d AND bit_at (K cfg MEM_SPCIRAM)) })
       (\<lambda>done_sts. done_sts = 0)"

definition check_erase_intsts :: "config \<Rightarrow> 's platform \<Rightarrow> u32 \<Rightarrow> ('s, u32) prog" where
  "check_erase_intsts cfg P errors = do {
     erase_intsts \<leftarrow> ext P (Mem_err_read MEM_ERASE_ERR_INTSTS);
     errors \<leftarrow> (if erase_intsts AND bit_at (K cfg MEM_SPCIRAM) = 0 then do {
         hw_errmsg P [bit_at (K cfg MEM_SPCIRAM), erase_intsts];
         State_Monad.return (errors + 1)
       } else do {
         hw_status P [bit_at (K cfg MEM_SPCIRAM), erase_intsts];
         State_Monad.return errors
       });
     ext P (Mem_err_write MEM_ERASE_ERR_INTSTS erase_intsts);
     State_Monad.return errors
   }"

definition erase_busy_RUN_TEST :: "config \<Rightarrow> 's platform \<Rightarrow> ('s, unit) prog" where
  "erase_busy_RUN_TEST cfg P = do {
     sinc P New_SINC_DRIVER;
     ext P New_DMB_DRIVER;
     ext P Int_get_instance;
     let errors = 0;
     rng_start cfg P;
     ext P (Disable_interrupt (K cfg HSP_AXI_WDT_IRQ));
     ext P (Disable_interrupt (K cfg HSP_DMB_IRQ));
     block_addr_ptr \<leftarrow> acquire_sram cfg P;
     tag_addr_ptr \<leftarrow> acquire_tag_sram cfg P;
     ccs_cmd_buf \<leftarrow> alloc_cmd_buf cfg P;
     ext P (New_CCS_DRIVER ccs_cmd_buf 0 0 0);
     errors \<leftarrow> gen_key cfg P errors 0;
     nonce \<leftarrow> random_fill P (Local []) 3;
     write_settings cfg P 0 0 0 (Local nonce) block_addr_ptr tag_addr_ptr;
     hw_status P [];
     hw_status P [block_addr_ptr];
     hw_status P [tag_addr_ptr];
     st \<leftarrow> sinc P (Read_reg R_status);
     hw_status P [st];
     hw_status P [];
     errors \<leftarrow> tally_sinc P errors (Transition_to_initialized None);
     sinc P (Write_reg R_block_encr_addr (K cfg SSY_HSP_SHAREDRAM_BASE_ADDR));
     sinc P (Setup_known_data (K cfg SSY_HSP_SHAREDRAM_BASE_ADDR) 128 0);
     sinc P (Write_reg R_num_of_blocks 1);
     errors \<leftarrow> tally_sinc P errors (Call_encrypt_block None);
     errors \<leftarrow> tally_sinc P errors (Transition_to_cache_active None);
     erase_and_read cfg P;
     wait_erase_done cfg P;
     errors \<leftarrow> check_erase_intsts cfg P errors;
     st \<leftarrow> sinc P (Read_reg R_status);
     hw_status P [st];
     sinc P Wait_for_no_cmd_in_progress_no_timeout;
     errors \<leftarrow> tally_sinc P errors (Call_sinc_reset None);
     errors \<leftarrow> tally_sinc P errors (Check_sinc_state (K cfg SINC_STATE_DISABLED));
     hw_status P [];
     erase_and_read cfg P;
     wait_erase_done cfg P;
     ext P (Mem_err_write MEM_ERASE_EN (bit_at (K cfg MEM_SPCIRAM)));
     errors \<leftarrow> check_erase_intsts cfg P errors;
     report P errors
   }"

section \<open>sinc_intr\<close>

definition check_int_count :: "'s platform \<Rightarrow> u32 \<Rightarrow> u32 \<Rightarrow> ('s, u32) prog" where
  "check_int_count P int_count exp_int_count =
     (if int_count \<noteq> exp_int_count
      then do { hw_errmsg P [int_count, exp_int_count]; State_Monad.return 1 }
      else do { hw_status P [int_count]; State_Monad.return 0 })"

definition check_crypto_intsts :: "config \<Rightarrow> 's platform \<Rightarrow> u32 \<Rightarrow> ('s, u32) prog" where
  "check_crypto_intsts cfg P crypto_done_intsts =
     (if crypto_done_intsts AND bit_at (K cfg SINC_BIT) = 0
      then do { hw_errmsg P [crypto_done_intsts]; State_Monad.return 1 }
      else do { hw_status P [crypto_done_intsts]; State_Monad.return 0 })"

text \<open>The pair of checks after every operation.\<close>

definition check_done_interrupt :: "config \<Rightarrow> 's platform \<Rightarrow> u32 \<Rightarrow> u32 \<Rightarrow> ('s, u32) prog" where
  "check_done_interrupt cfg P exp_int_count errors = do {
     int_count \<leftarrow> ext P (Int_trig_count (K cfg HSP_CRYPTO_DONE_IRQ));
     errors \<leftarrow> add_errors errors (check_int_count P int_count exp_int_count);
     sts \<leftarrow> ext P (Int_message (K cfg HSP_CRYPTO_DONE_IRQ) (K cfg INT_CRYPTO_DONE_INTSTS));
     add_errors errors (check_crypto_intsts cfg P sts)
   }"

text \<open>A command that completes with the interrupt number \<open>exp_int_count\<close>.\<close>

definition intr_command :: "config \<Rightarrow> 's platform \<Rightarrow> sinc_call \<Rightarrow> u32 \<Rightarrow> u32 \<Rightarrow> ('s, u32) prog" where
  "intr_command cfg P c exp_int_count errors = do {
     ext P Flush_uart;
     errors \<leftarrow> tally_sinc P errors c;
     check_done_interrupt cfg P exp_int_count errors
   }"

definition intr_aes_and_erase :: "config \<Rightarrow> 's platform \<Rightarrow> u32 \<Rightarrow> ('s, u32) prog" where
  "intr_aes_and_erase cfg P errors = do {
     ext P Flush_uart;
     sinc P (Write_reg R_cmd (K cfg SINC_CMD_AES_TEST_EN));
     sinc P (Write_reg R_cmd 0);
     ext P (Hw_sleep 10);
     ext P Flush_uart;
     errors \<leftarrow> check_done_interrupt cfg P 6 errors;
     ext P Flush_uart;
     done_sts \<leftarrow> ext P (Mem_err_read MEM_ERASE_DONE_STS);
     ext P (Mem_err_write MEM_ERASE_DONE_STS done_sts);
     ext P (Mem_err_write MEM_ERASE_EN (bit_at (K cfg MEM_SPCIRAM)));
     wait_erase_done cfg P;
     ext P (Hw_sleep 10);
     ext P Flush_uart;
     check_done_interrupt cfg P 7 errors
   }"

definition intr_RUN_TEST :: "config \<Rightarrow> 's platform \<Rightarrow> ('s, unit) prog" where
  "intr_RUN_TEST cfg P = do {
     sinc P New_SINC_DRIVER;
     ext P New_DMB_DRIVER;
     let errors = 0;
     ext P Int_get_instance;
     ext P New_CRYPTO_DRIVER;
     rng_start cfg P;
     ext P (Set_crypto_done_intsts (bit_at (K cfg SINC_BIT)));
     ext P (Disable_interrupt (K cfg HSP_DMB_IRQ));
     ext P (Enable_interrupt (K cfg HSP_CRYPTO_DONE_IRQ) crypto_done_interrupt_handler);
     ext P (Set_crypto_done_int_en_bit (K cfg SINC_BIT));
     sram_addr_ptr \<leftarrow> acquire_sram cfg P;
     ccs_cmd_buf \<leftarrow> alloc_cmd_buf cfg P;
     ext P (New_CCS_DRIVER ccs_cmd_buf 0 0 0);
     errors \<leftarrow> gen_key cfg P errors 0;
     write_settings_0 cfg P 0 2 sram_addr_ptr;
     errors \<leftarrow> intr_command cfg P (Transition_to_initialized None) 1 errors;
     initial_value \<leftarrow> ext P Rand;
     sinc P (Setup_known_data (K cfg SSY_HSP_SHAREDRAM_BASE_ADDR) 128 initial_value);
     errors \<leftarrow> intr_command cfg P (Call_encrypt_block None) 2 errors;
     errors \<leftarrow> intr_command cfg P (Transition_to_cache_active None) 3 errors;
     errors \<leftarrow> intr_command cfg P (Call_sinc_reinit None) 4 errors;
     errors \<leftarrow> intr_command cfg P (Call_sinc_reset None) 5 errors;
     errors \<leftarrow> intr_aes_and_erase cfg P errors;
     report P errors
   }"

section \<open>sinc_reset_after_gate and sinc_reinit_after_gate\<close>

text \<open>The common part of the two tests, up to the command that distinguishes them.\<close>

definition after_gate_setup ::
  "config \<Rightarrow> 's platform \<Rightarrow> ('s, (u32 \<times> u32) list \<times> u32 \<times> u32 list \<times> u32) prog" where
  "after_gate_setup cfg P = do {
     sinc P New_SINC_DRIVER;
     ext P New_DMB_DRIVER;
     let errors = 0;
     ext P (New_PCU_DRIVER (K cfg PCU_HSP_OFFSET) True);
     rng_start cfg P;
     sram_addr_ptr \<leftarrow> acquire_sram cfg P;
     ccs_cmd_buf \<leftarrow> alloc_cmd_buf cfg P;
     ext P (New_CCS_DRIVER ccs_cmd_buf 0 0 0);
     r \<leftarrow> ext P Rand;
     let key_attr = valid_key_attr cfg r;
     r \<leftarrow> ext P Rand;
     let key_slot = r mod K cfg SSY_HSP_KSU_NUM_KEYS;
     errors \<leftarrow> tally P errors (Gen_random_key_fixed_attr key_slot key_attr);
     tabs \<leftarrow> pick_blocks cfg P;
     nonce \<leftarrow> random_fill P (Local []) 3;
     sinc P (Write_reg R_num_of_blocks 1);
     sinc P (Write_reg R_block_encr_addr (K cfg SSY_HSP_SHAREDRAM_BASE_ADDR));
     sinc P (Write_reg R_block_encr_key key_slot);
     sinc P (Write_all_aes_iv_nonce (Local nonce));
     sinc P (Write_reg R_ext_block_base_addr sram_addr_ptr);
     sinc P (Write_reg R_ext_auth_tag_base_addr (sram_addr_ptr + 0x1000000));
     hw_status P [];
     st \<leftarrow> sinc P (Read_reg R_status);
     hw_status P [st];
     State_Monad.return (zip (fst tabs) (snd tabs), key_slot, nonce, errors)
   }"

text \<open>Encrypt the first five blocks and read them back through the cache.\<close>

definition after_gate_first_half ::
  "config \<Rightarrow> 's platform \<Rightarrow> (u32 \<times> u32) list \<Rightarrow> u32 \<Rightarrow> ('s, u32) prog" where
  "after_gate_first_half cfg P blocks errors = do {
     errors \<leftarrow> tally_sinc P errors (Transition_to_initialized None);
     errors \<leftarrow> encrypt_blocks cfg P (take 5 blocks) errors;
     errors \<leftarrow> tally_sinc P errors (Transition_to_cache_active None);
     hw_status P [];
     ext P Flush_uart;
     check_blocks cfg P (take 5 blocks) errors
   }"

text \<open>Encrypt the other five and read back all ten.\<close>

definition after_gate_second_half ::
  "config \<Rightarrow> 's platform \<Rightarrow> (u32 \<times> u32) list \<Rightarrow> u32 \<Rightarrow> ('s, u32) prog" where
  "after_gate_second_half cfg P blocks errors = do {
     errors \<leftarrow> encrypt_blocks cfg P (drop 5 blocks) errors;
     errors \<leftarrow> tally_sinc P errors (Transition_to_cache_active None);
     hw_status P [];
     ext P Flush_uart;
     check_blocks cfg P blocks errors
   }"

definition reset_after_gate_RUN_TEST ::
  "config \<Rightarrow> 's platform \<Rightarrow> test_params \<Rightarrow> ('s, unit) prog" where
  "reset_after_gate_RUN_TEST cfg P params = do {
     s \<leftarrow> after_gate_setup cfg P;
     let blocks = fst s;
     let key_slot = fst (snd s);
     let nonce = fst (snd (snd s));
     let errors = snd (snd (snd s));
     errors \<leftarrow> after_gate_first_half cfg P blocks errors;
     errors \<leftarrow> tally_sinc P errors (Call_sinc_reset None);
     errors \<leftarrow> tally_sinc P errors (Check_sinc_state (K cfg SINC_STATE_DISABLED));
     errors \<leftarrow>
       (if CLKGATE params \<noteq> 0 then do {
          hw_status P [];
          tally P errors (Pcu_clkgate_checks 0)
        } else if PWRGATE params \<noteq> 0 then do {
          hw_status P [];
          errors \<leftarrow> tally P errors (Pcu_pwrgate_checks 0 0 (DIS_PWR_SWTITCH params));
          sinc P (Write_reg R_block_encr_addr (K cfg SSY_HSP_SHAREDRAM_BASE_ADDR));
          sinc P (Write_reg R_num_of_blocks 1);
          sinc P (Write_reg R_block_encr_key key_slot);
          sinc P (Write_all_aes_iv_nonce (Local nonce));
          State_Monad.return errors
        } else State_Monad.return errors);
     errors \<leftarrow> tally_sinc P errors (Transition_to_initialized None);
     errors \<leftarrow> after_gate_second_half cfg P blocks errors;
     report P errors
   }"

definition reinit_after_gate_RUN_TEST ::
  "config \<Rightarrow> 's platform \<Rightarrow> test_params \<Rightarrow> ('s, unit) prog" where
  "reinit_after_gate_RUN_TEST cfg P params = do {
     s \<leftarrow> after_gate_setup cfg P;
     let blocks = fst s;
     let errors = snd (snd (snd s));
     errors \<leftarrow> after_gate_first_half cfg P blocks errors;
     errors \<leftarrow> tally_sinc P errors (Call_sinc_reinit None);
     errors \<leftarrow> tally_sinc P errors (Check_sinc_state (K cfg SINC_STATE_INITIALIZED));
     errors \<leftarrow>
       (if CLKGATE params \<noteq> 0 then do {
          hw_status P [];
          tally P errors (Pcu_clkgate_checks 0)
        } else if PWRGATE params \<noteq> 0 then do {
          hw_status P [];
          errors \<leftarrow> tally P errors (Pcu_pwrgate_checks 0 0 (DIS_PWR_SWTITCH params));
          sinc P (Write_reg R_block_encr_addr (K cfg SSY_HSP_SHAREDRAM_BASE_ADDR));
          sinc P (Write_reg R_num_of_blocks 1);
          State_Monad.return errors
        } else State_Monad.return errors);
     errors \<leftarrow> after_gate_second_half cfg P blocks errors;
     report P errors
   }"

section \<open>Verdicts\<close>

lemma acct_erase_and_read [acct_intros]: "acct (counting ign) x (erase_and_read cfg P) (\<lambda>_. x)"
  unfolding erase_and_read_def by (rule acct_intros | simp)+

lemma acct_wait_erase_done [acct_intros]: "acct (counting ign) x (wait_erase_done cfg P) (\<lambda>_. x)"
  unfolding wait_erase_done_def by (rule acct_intros acct_return | simp)+

lemma acct_check_erase_intsts [acct_intros]:
  "acct (counting nothing_ignored) x (check_erase_intsts cfg P x) (\<lambda>v. v)"
  unfolding check_erase_intsts_def by (rule acct_intros | simp)+

lemma acct_check_int_count [acct_intros]:
  "acct (counting nothing_ignored) x (check_int_count P a b) (\<lambda>r. x + r)"
  unfolding check_int_count_def by (rule acct_intros acct_return | simp)+

lemma acct_check_crypto_intsts [acct_intros]:
  "acct (counting nothing_ignored) x (check_crypto_intsts cfg P a) (\<lambda>r. x + r)"
  unfolding check_crypto_intsts_def by (rule acct_intros acct_return | simp)+

lemma acct_check_done_interrupt [acct_intros]:
  "acct (counting nothing_ignored) x (check_done_interrupt cfg P n x) (\<lambda>v. v)"
  unfolding check_done_interrupt_def by (rule acct_intros | simp)+

lemma acct_intr_command [acct_intros]:
  "sinc_reports_errors c \<Longrightarrow> acct (counting nothing_ignored) x (intr_command cfg P c n x) (\<lambda>v. v)"
  unfolding intr_command_def by (rule acct_intros | simp del: sinc_reports_errors_def)+

lemma acct_intr_aes_and_erase [acct_intros]:
  "acct (counting nothing_ignored) x (intr_aes_and_erase cfg P x) (\<lambda>v. v)"
  unfolding intr_aes_and_erase_def by (rule acct_intros | simp)+

lemma acct_after_gate_setup [acct_intros]:
  "acct (counting nothing_ignored) 0 (after_gate_setup cfg P) (\<lambda>s. snd (snd (snd s)))"
  unfolding after_gate_setup_def by (rule acct_intros acct_return | simp)+

lemma acct_after_gate_first_half [acct_intros]:
  "acct (counting nothing_ignored) x (after_gate_first_half cfg P bs x) (\<lambda>v. v)"
  unfolding after_gate_first_half_def by (rule acct_intros | simp)+

lemma acct_after_gate_second_half [acct_intros]:
  "acct (counting nothing_ignored) x (after_gate_second_half cfg P bs x) (\<lambda>v. v)"
  unfolding after_gate_second_half_def by (rule acct_intros | simp)+

lemma acct_repeat_val_at [acct_intros]:
  "acct (counting ign) x (repeat_val_at P a b is) (\<lambda>_. x)"
  by (induction "is") (auto simp: acct_return intro!: acct_bind [OF acct_ext_silent])

lemma acct_restore_generate [acct_intros]:
  "acct (counting ign) x (restore_generate cfg P a b c) (\<lambda>_. x)"
  unfolding restore_generate_def by (rule acct_intros acct_return | simp)+

lemma acct_restore_encrypt [acct_intros]:
  "acct (counting nothing_ignored) x (restore_encrypt cfg P a b x) (\<lambda>v. v)"
  unfolding restore_encrypt_def by (rule acct_intros | simp)+

lemma acct_restore_check [acct_intros]:
  "acct (counting nothing_ignored) x (restore_check cfg P a b x) (\<lambda>v. v)"
  unfolding restore_check_def by (rule acct_intros | simp)+

lemma acct_reset_setup [acct_intros]:
  "\<not> ign (Hw_errmsg []) \<Longrightarrow> (\<And>s a. \<not> ign (Gen_random_key_fixed_attr s a)) \<Longrightarrow>
   acct (counting ign) 0 (reset_setup cfg P) snd"
  unfolding reset_setup_def by (rule acct_intros acct_return | simp)+

text \<open>The status reads whose result the reset tests drop.\<close>

definition status_bits_read :: "call \<Rightarrow> bool" where
  "status_bits_read c = (case c of
      Sinc (Read_status_check_bits _) \<Rightarrow> True | Sinc (Read_status_check_bits_not_set _) \<Rightarrow> True
    | _ \<Rightarrow> False)"

lemma acct_reset_boot_0 [acct_intros]:
  "acct (counting status_bits_read) x (reset_boot_0 cfg P x) f"
  unfolding reset_boot_0_def by (rule acct_intros | simp add: status_bits_read_def)+

lemma acct_reset_boot_1 [acct_intros]:
  "acct (counting status_bits_read) x (reset_boot_1 cfg P x) f"
  unfolding reset_boot_1_def by (rule acct_intros | simp add: status_bits_read_def)+

lemma acct_reset_boot_2 [acct_intros]:
  "acct (counting status_bits_read) x (reset_boot_2 cfg P x) (\<lambda>v. v)"
  unfolding reset_boot_2_def by (rule acct_intros | simp add: status_bits_read_def)+

lemma acct_reset_test: "acct_done (counting status_bits_read) 0 (reset_RUN_TEST cfg P)"
  unfolding reset_RUN_TEST_def by (rule acct_intros | simp add: status_bits_read_def)+

lemma acct_reinit_boot_0: "acct (counting nothing_ignored) x (reinit_boot_0 cfg P x) f"
  unfolding reinit_boot_0_def by (rule acct_intros | simp)+

lemma acct_reinit_boot_1: "acct (counting status_bits_read) x (reinit_boot_1 cfg P x) f"
  unfolding reinit_boot_1_def by (rule acct_intros | simp add: status_bits_read_def)+

lemma acct_reinit_boot_2: "acct (counting status_bits_read) x (reinit_boot_2 cfg P x) (\<lambda>v. v)"
  unfolding reinit_boot_2_def by (rule acct_intros | simp add: status_bits_read_def)+

section \<open>Runs over several boots\<close>

text \<open>
  \<open>boots n p d\<close>: the machines in which the test \<open>p\<close> ends on its successive boots, at most \<open>n\<close> of
  them. A boot follows when the previous one ended in the wait for the reset it requested; the
  platform's state survives the reset, the program's does not.
\<close>

primrec boots :: "nat \<Rightarrow> ('s, 'a) prog \<Rightarrow> 's \<Rightarrow> 's mach list" where
  "boots 0 p d = []"
| "boots (Suc n) p d = (let m = exec p d in
     m # (if status m = Reset_wait then boots n p (dev m) else []))"

lemma triple_frozen:
  assumes "frozen p" and "\<And>m. A m \<Longrightarrow> status m \<noteq> Running"
  shows "triple A p (\<lambda>_. A)"
proof -
  have "A (snd (run_state p m))" if "A m" for m
    using assms that by (simp add: frozen_def)
  then show ?thesis by (simp add: triple_def split_beta)
qed

subsection \<open>A boot without a verdict\<close>

text \<open>
  The machine has given no verdict; a boot that stops has reported a failure or is out of fuel; the value
  \<open>c\<close> that the boot read as the reset count is 0.
\<close>

definition unjudged :: "u32 \<Rightarrow> 's mach \<Rightarrow> bool" where
  "unjudged c m \<longleftrightarrow> c = 0 \<and> verdicts (log m) = []"

definition given_up :: "'s mach \<Rightarrow> bool" where
  "given_up m \<longleftrightarrow> status m = Returned \<and> verdicts (log m) = [HW_TEST_FAIL] \<or>
     status m = Out_of_fuel \<and> verdicts (log m) = []"

definition passed_at_reset :: "'s mach \<Rightarrow> bool" where
  "passed_at_reset m \<longleftrightarrow>
     (\<exists>r r' tr. log m = (Hw_done HW_TEST_PASS, r) # (Hsp_reset_rpc, r') # tr \<and> verdicts tr = [])"

lemma unjudged_ext: "silent c \<or> (\<exists>a. c = Hw_errmsg a) \<Longrightarrow> runs given_up (unjudged n) (ext P c) (\<lambda>_. unjudged n)"
  by (rule runs_ext) (auto simp: unjudged_def verdicts_Cons_other dest: silentD simp del: silent_def)

lemma unjudged_errmsg: "runs given_up (unjudged n) (hw_errmsg P args) (\<lambda>_. unjudged n)"
  unfolding hw_errmsg_def by (rule unjudged_ext) simp

lemma unjudged_return: "runs given_up (unjudged n) (State_Monad.return x) (\<lambda>_. unjudged n)"
  by (rule runs_return)

lemma unjudged_tally: "silent c \<Longrightarrow> runs given_up (unjudged n) (tally P e c) (\<lambda>_. unjudged n)"
  unfolding tally_def by (rule runs_bind [OF unjudged_ext]) (simp_all add: runs_return)

lemma unjudged_fail: "runs given_up (unjudged n) (do { hw_done P HW_TEST_FAIL; halt Returned }) B"
  unfolding hw_done_def
  by (rule runs_bind [where B = "\<lambda>_ m. verdicts (log m) = [HW_TEST_FAIL]"])
    (auto intro!: runs_ext runs_halt simp: unjudged_def given_up_def)

lemma unjudged_give_up: "runs given_up (unjudged n) (give_up P args) (\<lambda>_. unjudged n)"
  unfolding give_up_def by (rule runs_bind [OF unjudged_errmsg unjudged_fail])

lemma unjudged_fail_fast: "runs given_up (unjudged n) (fail_fast P e) (\<lambda>_ m. e = 0 \<and> unjudged n m)"
  unfolding fail_fast_def by (auto intro: unjudged_fail runs_return)

lemma unjudged_do_while:
  "runs given_up (unjudged n) p (\<lambda>_. unjudged n) \<Longrightarrow> runs given_up (unjudged n) (do_while k p again) (\<lambda>_. unjudged n)"
  by (rule runs_conseq [OF runs_do_while [where A = "unjudged n" and B = "\<lambda>_. unjudged n"]])
    (auto simp: unjudged_def [abs_def] given_up_def)

lemma unjudged_repeat_val_at: "runs given_up (unjudged n) (repeat_val_at P x a is) (\<lambda>_. unjudged n)"
  by (induction "is") (auto intro!: runs_bind [OF unjudged_ext] unjudged_return)

lemma unjudged_random_fill: "runs given_up (unjudged n) (random_fill P b k) (\<lambda>_. unjudged n)"
  unfolding random_fill_def
  by (rule runs_bind [where B = "\<lambda>_. unjudged n"] runs_peek unjudged_ext unjudged_return | simp)+

lemmas unjudged_intros = runs_bind [where B = "\<lambda>_. unjudged _"] runs_if runs_let unjudged_ext unjudged_errmsg
  unjudged_return unjudged_tally unjudged_give_up unjudged_do_while unjudged_repeat_val_at unjudged_random_fill
  runs_for_each_const

lemma unjudged_restore:
  "runs given_up (unjudged n) (restore_generate cfg P a b c) (\<lambda>_. unjudged n)"
  "runs given_up (unjudged n) (restore_encrypt cfg P a b e) (\<lambda>_. unjudged n)"
  "runs given_up (unjudged n) (restore_check cfg P a b e) (\<lambda>_. unjudged n)"
  unfolding restore_generate_def restore_encrypt_def restore_check_def by (rule unjudged_intros | simp)+

lemma unjudged_buffers:
  "runs given_up (unjudged n) (alloc_cmd_buf cfg P) (\<lambda>_. unjudged n)"
  "runs given_up (unjudged n) (alloc_buf P k) (\<lambda>_. unjudged n)"
  "runs given_up (unjudged n) (rng_start cfg P) (\<lambda>_. unjudged n)"
  unfolding alloc_cmd_buf_def alloc_buf_def rng_start_def by (rule unjudged_intros | simp)+

lemma unjudged_reset_report:
  "runs given_up (\<lambda>m. e = 0 \<and> unjudged n m) (do {
      (if n = 0 then do { ext P Hsp_reset_rpc; State_Monad.return () } else State_Monad.return ());
      report P e }) (\<lambda>_. passed_at_reset)"
proof -
  let ?R = "\<lambda>m. e = 0 \<and> (\<exists>r tr. log m = (Hsp_reset_rpc, r) # tr \<and> verdicts tr = [])"
  have "runs given_up (\<lambda>m. e = 0 \<and> unjudged n m)
      (if n = 0 then do { ext P Hsp_reset_rpc; State_Monad.return () } else State_Monad.return ()) (\<lambda>_. ?R)"
    by (rule runs_if)
      (auto intro!: runs_bind [where B = "\<lambda>_. ?R"] runs_ext runs_return simp: unjudged_def)
  moreover have "runs given_up ?R (report P e) (\<lambda>_. passed_at_reset)"
    unfolding report_def hw_done_def
    by (rule runs_bind [where B = "\<lambda>_. passed_at_reset"], rule runs_if)
      (auto intro!: runs_ext runs_return simp: passed_at_reset_def)
  ultimately show ?thesis by (rule runs_bind)
qed

text \<open>The contract of the reset services: the count is the number of resets performed so far.\<close>

locale reset_counter =
  fixes P :: "'s platform" and count :: "'s \<Rightarrow> nat"
  assumes count_rpc: "fst (reply P Hsp_reset_count_rpc d) = word_of_nat (count d)"
    and count_reset: "count (snd (reply P Hsp_reset_rpc d)) = Suc (count d)"
    and count_frame: "c \<noteq> Hsp_reset_rpc \<Longrightarrow> count (snd (reply P c d)) = count d"
begin

text \<open>
  The invariant of boot \<open>n\<close>: still running, with no verdict, or ended by \<open>return\<close>; and the end of a
  boot that is not the last: ended by \<open>return\<close>, or waiting for reset \<open>n + 1\<close> with no verdict.
\<close>

definition booted :: "nat \<Rightarrow> 's mach \<Rightarrow> bool" where
  "booted n m \<longleftrightarrow> status m = Running \<and> count (dev m) = n \<and> verdicts (log m) = [] \<or> status m = Returned"

definition stopped :: "nat \<Rightarrow> 's mach \<Rightarrow> bool" where
  "stopped n m \<longleftrightarrow>
     status m = Returned \<or> status m = Reset_wait \<and> count (dev m) = Suc n \<and> verdicts (log m) = []"

definition ended :: "nat \<Rightarrow> 's mach \<Rightarrow> bool" where
  "ended n m = (if n < 2 then stopped n m else status m \<in> {Running, Returned})"

lemma runs_restore_first_boot:
  "runs given_up (\<lambda>m. count (dev m) = 0 \<and> verdicts (log m) = []) (restore_after_reset_RUN_TEST cfg P)
     (\<lambda>_. passed_at_reset)"
proof -
  let ?A = "\<lambda>m. count (dev m) = 0 \<and> verdicts (log m) = []"
  have new: "runs given_up ?A (ext P c) (\<lambda>_. ?A)" if "c = Sinc New_SINC_DRIVER \<or> c = New_DMB_DRIVER" for c
    by (rule runs_ext) (use that in \<open>auto simp: count_frame\<close>)
  have read: "runs given_up ?A (ext P Hsp_reset_count_rpc) (\<lambda>c. unjudged c)"
    by (rule runs_ext) (simp add: unjudged_def count_rpc)
  show ?thesis
    unfolding restore_after_reset_RUN_TEST_def Let_def
    by (rule runs_bind [OF new], simp, rule runs_bind [OF new], simp, rule runs_bind [OF read])
      (rule runs_bind [OF unjudged_fail_fast unjudged_reset_report] unjudged_restore unjudged_buffers unjudged_intros
        | simp add: acquire_sram_def)+
qed

lemma stopped_frozen: "frozen p \<Longrightarrow> triple (stopped n) p (\<lambda>_. stopped n)"
  by (erule triple_frozen) (auto simp: stopped_def)

lemma booted_ext:
  assumes "silent c" and "c \<noteq> Hsp_reset_rpc"
  shows "triple (booted n) (ext P c) (\<lambda>_. booted n)"
  using assms count_frame
  by (auto simp: triple_def booted_def ext_def verdicts_Cons_other dest: silentD
      split: prod.splits simp del: silent_def; metis snd_conv)

lemma booted_count:
  "triple (booted n) (ext P Hsp_reset_count_rpc)
     (\<lambda>v m. booted n m \<and> (status m = Running \<longrightarrow> v = word_of_nat n))"
  using count_frame [of Hsp_reset_count_rpc] count_rpc
  by (auto simp: triple_def booted_def ext_def split: prod.splits; metis fst_conv snd_conv)

lemma booted_tally:
  "silent c \<Longrightarrow> c \<noteq> Hsp_reset_rpc \<Longrightarrow> triple (booted n) (tally P e c) (\<lambda>_. booted n)"
  unfolding tally_def by (rule triple_bind [OF booted_ext]) (simp_all add: triple_return)

lemma booted_give_up: "triple (booted n) (give_up P args) (\<lambda>_. booted n)"
  by (auto simp: triple_def booted_def give_up_def hw_done_def hw_errmsg_def ext_def halt_def
      split: prod.splits)

lemma booted_alloc: "triple (booted n) (alloc_buf P k) (\<lambda>_. booted n)"
  unfolding alloc_buf_def
  by (rule triple_bind [where B = "\<lambda>_. booted n"] booted_ext triple_if booted_give_up triple_return | simp)+

lemma booted_fail_fast: "triple (booted n) (fail_fast P e) (\<lambda>_. booted n)"
  unfolding fail_fast_def
  by (rule triple_if)
    (auto simp: triple_def booted_def hw_done_def ext_def halt_def split: prod.splits)

lemma booted_wait: "triple (booted n) (State_Monad.bind (ext P Hsp_reset_rpc) (\<lambda>_. halt Reset_wait)) (\<lambda>_. stopped n)"
  unfolding triple_def
proof (intro allI impI)
  fix m
  assume m: "booted n m"
  obtain r d where r: "reply P Hsp_reset_rpc (dev m) = (r, d)" by (cases "reply P Hsp_reset_rpc (dev m)")
  then have "count d = Suc (count (dev m))" using count_reset [of "dev m"] by simp
  with m r show "case run_state (State_Monad.bind (ext P Hsp_reset_rpc) (\<lambda>_. halt Reset_wait)) m of
      (v, m') \<Rightarrow> stopped n m'"
    by (cases "status m = Running") (auto simp: ext_def halt_def booted_def stopped_def)
qed

lemma booted_reset: "triple (booted n) (fail_or_reset P e) (\<lambda>_. stopped n)"
  unfolding fail_or_reset_def by (rule triple_bind [OF booted_fail_fast booted_wait])

lemma triple_let: "triple A (f x) B \<Longrightarrow> triple A (Let x f) B"
  by simp

lemmas booted_intros = booted_reset booted_tally booted_ext booted_alloc triple_let
  triple_bind [where B = "\<lambda>_. booted _"] triple_if

lemma booted_case:
  assumes "v = c \<Longrightarrow> triple (booted n) p B" and "frozen p"
    and "\<And>u m. status m = Returned \<Longrightarrow> B u m"
  shows "triple (\<lambda>m. booted n m \<and> (status m = Running \<longrightarrow> v = c)) p B"
proof (cases "v = c")
  case True
  with assms(1) show ?thesis by simp
next
  case False
  have "triple (\<lambda>m. status m = Returned) p (\<lambda>_ m. status m = Returned)"
    using assms(2) by (rule triple_frozen) simp
  then show ?thesis
    by (rule triple_conseq) (use False assms(3) in \<open>auto simp: booted_def\<close>)
qed

lemma booted_setup:
  "triple (booted n) (reset_setup cfg P)
     (\<lambda>s m. booted n m \<and> (status m = Running \<longrightarrow> fst s = word_of_nat n))"
proof -
  define rest where "rest v = do {
     rng_start cfg P;
     sram_addr_ptr \<leftarrow> acquire_sram cfg P;
     ccs_cmd_buf \<leftarrow> alloc_cmd_buf cfg P;
     ext P (New_CCS_DRIVER ccs_cmd_buf 0 0 0);
     errors \<leftarrow> gen_key cfg P 0 0;
     hw_status P [v];
     write_settings_0 cfg P 0 0 sram_addr_ptr;
     State_Monad.return (v, errors)
   }" for v
  have "acct (counting nothing_ignored) 0 (rest v) snd" for v
    unfolding rest_def by (rule acct_intros acct_return | simp)+
  then have frozen: "frozen (rest v)" for v by (rule acct_frozen)
  have "triple (booted n) (rest (word_of_nat n))
     (\<lambda>s m. booted n m \<and> (status m = Running \<longrightarrow> fst s = word_of_nat n))"
    unfolding rest_def rng_start_def acquire_sram_def alloc_cmd_buf_alt gen_key_def write_settings_0_def
      State_Monad.bind_assoc
    by (rule booted_intros triple_return | simp)+
  then have "triple (\<lambda>m. booted n m \<and> (status m = Running \<longrightarrow> v = word_of_nat n)) (rest v)
      (\<lambda>s m. booted n m \<and> (status m = Running \<longrightarrow> fst s = word_of_nat n))" for v
    by (intro booted_case frozen) (simp_all add: booted_def)
  then show ?thesis
    unfolding reset_setup_def Let_def
    by (fold rest_def) (rule booted_intros booted_count triple_bind [OF booted_count] | simp)+
qed

lemma booted_report: "triple (booted n) (report P e) (\<lambda>_ m. status m \<in> {Running, Returned})"
  by (auto simp: triple_def booted_def report_def hw_done_def ext_def split: prod.splits)

lemma ended_boot:
  assumes "triple (booted n) p (\<lambda>_. stopped n)" and "n < 2"
  shows "triple (booted n) (State_Monad.bind p (\<lambda>_. report P x)) (\<lambda>_. ended n)"
proof -
  have "triple (stopped n) (report P x) (\<lambda>_. stopped n)" by (rule stopped_frozen [OF frozen_report])
  moreover have "ended n = stopped n" using assms(2) by (simp add: ended_def fun_eq_iff)
  ultimately show ?thesis using triple_bind [OF assms(1)] by simp
qed

lemma ended_last_boot:
  assumes "triple (booted 2) p (\<lambda>_. booted 2)"
  shows "triple (booted 2) (State_Monad.bind p (report P)) (\<lambda>_. ended 2)"
  by (rule triple_bind [OF assms]) (rule triple_conseq [OF booted_report], auto simp: ended_def)

lemma reset_boots:
  "triple (booted 0) (reset_boot_0 cfg P e) (\<lambda>_. stopped 0)"
  "triple (booted (Suc 0)) (reset_boot_1 cfg P e) (\<lambda>_. stopped (Suc 0))"
  "triple (booted 2) (reset_boot_2 cfg P e) (\<lambda>_. booted 2)"
  unfolding reset_boot_0_def reset_boot_1_def reset_boot_2_def by (rule booted_intros | simp)+

lemma reinit_boots:
  "triple (booted 0) (reinit_boot_0 cfg P e) (\<lambda>_. stopped 0)"
  "triple (booted (Suc 0)) (reinit_boot_1 cfg P e) (\<lambda>_. stopped (Suc 0))"
  "triple (booted 2) (reinit_boot_2 cfg P e) (\<lambda>_. booted 2)"
  unfolding reinit_boot_0_def reinit_boot_1_def reinit_boot_2_def by (rule booted_intros | simp)+

lemma less_3_cases: "n < (3 :: nat) \<Longrightarrow> n = 0 \<or> n = 1 \<or> n = 2"
  by auto

lemma reset_ends:
  assumes "n < 3"
  shows "triple (booted n) (reset_RUN_TEST cfg P) (\<lambda>_. ended n)"
  unfolding reset_RUN_TEST_def Let_def
proof (rule triple_bind [OF booted_setup], rule booted_case)
  fix s :: "u32 \<times> u32"
  assume "fst s = word_of_nat n"
  with less_3_cases [OF assms]
  show "triple (booted n) (do { st \<leftarrow> sinc P (Read_reg R_status); hw_status P [st];
      e \<leftarrow> (if fst s = 0 then do { reset_boot_0 cfg P (snd s); State_Monad.return (snd s) }
        else if fst s = 1 then do { reset_boot_1 cfg P (snd s); State_Monad.return (snd s) }
        else if fst s = 2 then reset_boot_2 cfg P (snd s) else State_Monad.return (snd s));
      report P e }) (\<lambda>_. ended n)"
    by (elim disjE; simp; intro triple_bind [OF booted_ext] ended_boot ended_last_boot reset_boots; simp)
qed (auto simp: ended_def stopped_def intro!: frozen_intros
  acct_frozen [OF acct_reset_boot_0] acct_frozen [OF acct_reset_boot_1] acct_frozen [OF acct_reset_boot_2])

lemma reinit_ends:
  assumes "n < 3"
  shows "triple (booted n) (reinit_RUN_TEST cfg P) (\<lambda>_. ended n)"
  unfolding reinit_RUN_TEST_def Let_def
proof (rule triple_bind [OF booted_setup], rule booted_case)
  fix s :: "u32 \<times> u32"
  assume "fst s = word_of_nat n"
  with less_3_cases [OF assms]
  show "triple (booted n) (do {
      e \<leftarrow> (if fst s = 0 then do { reinit_boot_0 cfg P (snd s); State_Monad.return (snd s) }
        else if fst s = 1 then do { reinit_boot_1 cfg P (snd s); State_Monad.return (snd s) }
        else if fst s = 2 then reinit_boot_2 cfg P (snd s) else State_Monad.return (snd s));
      report P e }) (\<lambda>_. ended n)"
    by (elim disjE; simp; intro ended_boot ended_last_boot reinit_boots; simp)
qed (auto simp: ended_def stopped_def intro!: frozen_intros
  acct_frozen [OF acct_reinit_boot_0] acct_frozen [OF acct_reinit_boot_1] acct_frozen [OF acct_reinit_boot_2])

text \<open>Three boots are enough.\<close>

lemma boots_end:
  assumes "\<And>n. n < 3 \<Longrightarrow> triple (booted n) p (\<lambda>_. ended n)"
    and verdict: "\<And>d. count d < 3 \<Longrightarrow> status (exec p d) \<in> {Running, Returned} \<Longrightarrow>
      verdicts (log (exec p d)) \<noteq> []"
    and "count d = 2 - k" and "k < 3"
  shows "\<exists>ms m. boots (Suc k) p d = ms @ [m] \<and> verdicts (log m) \<noteq> [] \<and>
    (\<forall>m' \<in> set ms. status m' = Reset_wait \<and> verdicts (log m') = [])"
  using assms(3,4)
proof (induction k arbitrary: d)
  case 0
  then have "ended 2 (exec p d)"
    using triple_exec [OF assms(1) [of 2], of d] by (auto simp: booted_def)
  then have "status (exec p d) \<in> {Running, Returned}" by (simp add: ended_def)
  with verdict [of d] 0 show ?case by (intro exI [of _ "[]"]) (auto simp: Let_def)
next
  case (Suc k)
  then have "ended (2 - Suc k) (exec p d)"
    using triple_exec [OF assms(1) [of "2 - Suc k"], of d] by (auto simp: booted_def)
  with Suc.prems have st: "stopped (2 - Suc k) (exec p d)" by (auto simp: ended_def split: if_splits)
  show ?case
  proof (cases "status (exec p d) = Returned")
    case True
    with verdict [of d] Suc.prems show ?thesis by (intro exI [of _ "[]"]) (auto simp: Let_def)
  next
    case False
    with st have w: "status (exec p d) = Reset_wait" "verdicts (log (exec p d)) = []"
      "count (dev (exec p d)) = Suc (2 - Suc k)" by (auto simp: stopped_def)
    from w(3) Suc.prems have "count (dev (exec p d)) = 2 - k" by simp
    from Suc.IH [OF this] Suc.prems obtain ms m where
      "boots (Suc k) p (dev (exec p d)) = ms @ [m]" "verdicts (log m) \<noteq> []"
      "\<forall>m' \<in> set ms. status m' = Reset_wait \<and> verdicts (log m') = []" by auto
    with w show ?thesis
      by (intro exI [of _ "exec p d # ms"] exI [of _ m]) (simp add: Let_def)
  qed
qed

text \<open>Once the count is known, the test is the branch of that boot.\<close>

lemma known_count:
  fixes q :: "u32 \<times> u32 \<Rightarrow> ('s, unit) prog"
  assumes "\<And>s. frozen (q s)" and "count d = n"
  shows "exec (State_Monad.bind (reset_setup cfg P) q) d =
    exec (State_Monad.bind (reset_setup cfg P) (\<lambda>s. q (word_of_nat n, snd s))) d"
proof -
  let ?m = "\<lparr>dev = d, log = [], status = Running\<rparr>"
  obtain s m where r: "run_state (reset_setup cfg P) ?m = (s, m)"
    by (cases "run_state (reset_setup cfg P) ?m")
  have "booted n ?m" using assms(2) by (simp add: booted_def)
  from booted_setup [unfolded triple_def, rule_format, OF this, of cfg] r
  have "status m = Running \<longrightarrow> fst s = word_of_nat n" by simp
  then have "snd (run_state (q s) m) = snd (run_state (q (word_of_nat n, snd s)) m)"
    using assms(1) by (cases s; cases "status m = Running") (auto simp: frozen_def)
  then show ?thesis by (simp add: exec_def r)
qed

lemma reinit_run_ok:
  assumes "count d = n" and "n < 3"
  shows "run_ok (counting (if n = 0 then nothing_ignored else status_bits_read))
    (exec (reinit_RUN_TEST cfg P) d)"
proof -
  define q where "q s = do {
     errors \<leftarrow>
       (if fst s = 0 then do { reinit_boot_0 cfg P (snd s); State_Monad.return (snd s) }
        else if fst s = 1 then do { reinit_boot_1 cfg P (snd s); State_Monad.return (snd s) }
        else if fst s = 2 then reinit_boot_2 cfg P (snd s)
        else State_Monad.return (snd s));
     report P errors }" for s :: "u32 \<times> u32"
  let ?w = "counting (if n = 0 then nothing_ignored else status_bits_read)"
  have fr: "frozen (q s)" for s
    unfolding q_def by (intro frozen_bind frozen_if frozen_return frozen_report
      acct_frozen [OF acct_reinit_boot_0]
      acct_frozen [OF acct_reinit_boot_1] acct_frozen [OF acct_reinit_boot_2])
  have split: "reinit_RUN_TEST cfg P = State_Monad.bind (reset_setup cfg P) q"
    unfolding reinit_RUN_TEST_def q_def [abs_def] Let_def by (rule refl)
  have eq: "exec (reinit_RUN_TEST cfg P) d =
      exec (State_Monad.bind (reset_setup cfg P) (\<lambda>s. q (word_of_nat n, snd s))) d"
    unfolding split by (rule known_count [OF fr assms(1)])
  have "acct_done ?w x (q (word_of_nat n, x))" for x
    using less_3_cases [OF assms(2)] unfolding q_def
    by (elim disjE; simp)
      (rule acct_done_bind [OF acct_reinit_boot_0] acct_done_bind [OF acct_reinit_boot_1]
        acct_done_bind [OF acct_reinit_boot_2] counting.acct_done_report)+
  moreover have "acct ?w 0 (reset_setup cfg P) snd"
    by (rule acct_reset_setup) (simp_all add: status_bits_read_def)
  ultimately have "test_ok ?w (State_Monad.bind (reset_setup cfg P) (\<lambda>s. q (word_of_nat n, snd s)))"
    by (intro acct_done_test_ok acct_done_bind)
  then show ?thesis unfolding eq test_ok_def by blast
qed

end

section \<open>Properties\<close>

text \<open>The erase, interrupt, power gating and restore tests count every failure: their verdicts are
  honest, whatever the platform does, provided their polling loops end.\<close>

lemma reset_family_tests_honest:
  "test_ok (counting nothing_ignored) (erase_busy_RUN_TEST cfg P) \<and>
   test_ok (counting nothing_ignored) (intr_RUN_TEST cfg P) \<and>
   test_ok (counting nothing_ignored) (reset_after_gate_RUN_TEST cfg P params) \<and>
   test_ok (counting nothing_ignored) (reinit_after_gate_RUN_TEST cfg P params) \<and>
   test_ok (counting nothing_ignored) (restore_after_reset_RUN_TEST cfg P)"
  unfolding erase_busy_RUN_TEST_def intr_RUN_TEST_def reset_after_gate_RUN_TEST_def
    reinit_after_gate_RUN_TEST_def restore_after_reset_RUN_TEST_def
  by (intro conjI acct_done_test_ok) (rule acct_intros | simp)+

text \<open>\<open>sinc_reset\<close> is honest about everything except the status bits it reads: on every boot, a
  failure is reported or the reset is requested only with no failure counted.\<close>

lemma reset_test_honest:
  "test_ok (counting status_bits_read) (reset_RUN_TEST cfg P)"
  by (rule acct_done_test_ok [OF acct_reset_test])

text \<open>Any platform, together with a counter of the resets requested from it.\<close>

definition with_reset_counter :: "'s platform \<Rightarrow> ('s \<times> nat) platform" where
  "with_reset_counter Q = \<lparr>
     reply = (\<lambda>c (d, n). case reply Q c d of (r, d') \<Rightarrow>
       (if c = Hsp_reset_count_rpc then word_of_nat n else r,
        (d', if c = Hsp_reset_rpc then Suc n else n))),
     fill = (\<lambda>(d, n). fill Q d)\<rparr>"

interpretation counted: reset_counter "with_reset_counter Q" snd for Q
  by unfold_locales (auto simp: with_reset_counter_def split: prod.splits)

text \<open>A platform on which every check succeeds.\<close>

definition all_good :: "unit platform" where
  "all_good = \<lparr>reply = (\<lambda>c d. (case c of Alloc _ \<Rightarrow> 0x20000 | Load32 _ \<Rightarrow> 0x8000 | _ \<Rightarrow> 0, d)),
     fill = (\<lambda>_ _. 0)\<rparr>"

text \<open>C23: \<open>sinc_reset\<close> and \<open>sinc_reinit\<close> come to an end. Where the reset count is the number of
  resets performed, each of the two gives its verdict on the third boot at the latest, and on the
  boots before that no verdict but the request for the next reset.\<close>

theorem reset_tests_end_within_three_boots:
  assumes "reset_counter P count" and "count d = 0"
  shows "(\<exists>ms m. boots 3 (reset_RUN_TEST cfg P) d = ms @ [m] \<and> verdicts (log m) \<noteq> [] \<and>
            (\<forall>m' \<in> set ms. status m' = Reset_wait \<and> verdicts (log m') = [])) \<and>
         (\<exists>ms m. boots 3 (reinit_RUN_TEST cfg P) d = ms @ [m] \<and> verdicts (log m) \<noteq> [] \<and>
            (\<forall>m' \<in> set ms. status m' = Reset_wait \<and> verdicts (log m') = []))"
proof (intro conjI)
  note c = assms(1)
  have "verdicts (log (exec (reset_RUN_TEST cfg P) d)) \<noteq> []"
    if "status (exec (reset_RUN_TEST cfg P) d) \<in> {Running, Returned}" for d
    using test_okD(2) [OF acct_done_test_ok [OF acct_reset_test] refl that] .
  then show "\<exists>ms m. boots 3 (reset_RUN_TEST cfg P) d = ms @ [m] \<and> verdicts (log m) \<noteq> [] \<and>
      (\<forall>m' \<in> set ms. status m' = Reset_wait \<and> verdicts (log m') = [])"
    unfolding numeral_3_eq_3
    by (intro reset_counter.boots_end [OF c] reset_counter.reset_ends [OF c]) (use assms(2) in simp_all)
  have "verdicts (log (exec (reinit_RUN_TEST cfg P) d)) \<noteq> []"
    if "count d < 3" "status (exec (reinit_RUN_TEST cfg P) d) \<in> {Running, Returned}" for d
    using reset_counter.reinit_run_ok [OF c refl that(1)] that(2) unfolding run_ok_def by blast
  then show "\<exists>ms m. boots 3 (reinit_RUN_TEST cfg P) d = ms @ [m] \<and> verdicts (log m) \<noteq> [] \<and>
      (\<forall>m' \<in> set ms. status m' = Reset_wait \<and> verdicts (log m') = [])"
    unfolding numeral_3_eq_3
    by (intro reset_counter.boots_end [OF c] reset_counter.reinit_ends [OF c]) (use assms(2) in simp_all)
qed

theorem reset_tests_end_within_three_boots_witness:
  "\<exists>ms m. boots 3 (reset_RUN_TEST sample_cfg (with_reset_counter all_good)) ((), 0) = ms @ [m] \<and>
     verdicts (log m) \<noteq> []"
  using reset_tests_end_within_three_boots [OF counted.reset_counter_axioms [of all_good], of "((), 0)" sample_cfg]
  by auto

text \<open>C33: what \<open>sinc_reinit\<close> counts depends on the boot. On the first boot its verdict takes every
  check into account; on the later boots it drops the status bits it reads.\<close>

theorem reinit_test_honest:
  assumes "reset_counter P count" and "count d < 3"
  shows "run_ok (counting (if count d = 0 then nothing_ignored else status_bits_read))
    (exec (reinit_RUN_TEST cfg P) d)"
  by (rule reset_counter.reinit_run_ok [OF assms(1) refl assms(2)])

theorem reinit_test_honest_witness:
  "run_ok (counting status_bits_read)
     (exec (reinit_RUN_TEST sample_cfg (with_reset_counter all_good)) ((), 1))"
  using reinit_test_honest [OF counted.reset_counter_axioms [of all_good], of "((), 1)" sample_cfg] by simp

text \<open>C38: \<open>sinc_restore_after_reset\<close> does not wait for the reset it requests, unlike the other tests, which stay in a
  loop behind \<open>hsp_reset_rpc\<close>. A call returns in this model; where \<open>hsp_reset_rpc\<close> does, the first boot gives the
  verdict of the whole test on every platform: it never ends in the wait for the reset, and unless a check failed or
  the choice of the blocks did not end, its last two calls are the request of the reset and \<open>HW_TEST_PASS\<close>, before
  the boot that restores the key and the blocks.\<close>

theorem restore_after_reset_passes_before_reset:
  assumes "reset_counter P count" and "count d = 0"
  shows "let m = exec (restore_after_reset_RUN_TEST cfg P) d in
     status m = Running \<and>
       (\<exists>r r' tr. log m = (Hw_done HW_TEST_PASS, r) # (Hsp_reset_rpc, r') # tr \<and> verdicts tr = []) \<or>
     status m = Returned \<and> verdicts (log m) = [HW_TEST_FAIL] \<or>
     status m = Out_of_fuel \<and> verdicts (log m) = []"
proof -
  let ?m = "\<lparr>dev = d, log = [], status = Running\<rparr>"
  obtain u m where r: "run_state (restore_after_reset_RUN_TEST cfg P) ?m = (u, m)"
    by (cases "run_state (restore_after_reset_RUN_TEST cfg P) ?m")
  have "status ?m = Running" "count (dev ?m) = 0 \<and> verdicts (log ?m) = []" using assms(2) by simp_all
  from runsD [OF reset_counter.runs_restore_first_boot [OF assms(1)] this r] r show ?thesis
    by (cases "status m = Running") (auto simp: exec_def passed_at_reset_def given_up_def)
qed

theorem restore_after_reset_passes_before_reset_witness:
  "let m = exec (restore_after_reset_RUN_TEST sample_cfg (with_reset_counter all_good)) ((), 0) in
     status m = Running \<and> (\<exists>r r' tr. log m = (Hw_done HW_TEST_PASS, r) # (Hsp_reset_rpc, r') # tr)"
proof -
  have "status (exec (restore_after_reset_RUN_TEST sample_cfg (with_reset_counter all_good)) ((), 0)) = Running"
    by code_simp
  then show ?thesis
    using restore_after_reset_passes_before_reset [OF counted.reset_counter_axioms [of all_good], of "((), 0)" sample_cfg]
    by (auto simp: Let_def)
qed

end
