(* ===== verification/FifoCache.thy ===== *)
theory FifoCache
  imports Prelude
begin

text \<open>
  What one set of the cache promises, independently of how it is stored: it holds at most four tags,
  a look-up of a tag it holds is a hit and changes nothing, and a look-up of another tag is a miss
  that adds the tag and drops the one that has been held longest. The locale \<open>fifo_set\<close> states this
  contract for a representation; it is interpreted for the tables of the C tests and for the tag
  memory of the hardware.
\<close>

section \<open>Lists of four\<close>

lemma length_4E:
  assumes "length xs = 4"
  obtains a b c d where "xs = [a, b, c, d]"
  using assms by (auto simp: numeral_eq_Suc length_Suc_conv)

lemma all_less_4: "(\<forall>i < 4. P i) \<longleftrightarrow> P 0 \<and> P 1 \<and> P 2 \<and> P (3 :: nat)"
  by (auto simp: numeral_eq_Suc less_Suc_eq)

lemma upt_4: "[0..<4] = [0, 1, 2, 3 :: nat]"
  by (simp add: upt_rec)

lemma rotate_4:
  "rotate (Suc 0) [a, b, c, d] = [b, c, d, a]"
  "rotate 2 [a, b, c, d] = [c, d, a, b]"
  "rotate 3 [a, b, c, d] = [d, a, b, c]"
  by (simp_all add: rotate_def eval_nat_numeral)

section \<open>First in, first out\<close>

definition fifo_access :: "'t list \<Rightarrow> 't \<Rightarrow> bool \<times> 't list" where
  "fifo_access q t =
     (if t \<in> set q then (True, q) else (False, (if length q < 4 then q else tl q) @ [t]))"

text \<open>A sequence of look-ups, with the hits and misses it sees.\<close>

primrec lookups :: "('c \<Rightarrow> 't \<Rightarrow> bool \<times> 'c) \<Rightarrow> 'c \<Rightarrow> 't list \<Rightarrow> bool list \<times> 'c" where
  "lookups f c [] = ([], c)"
| "lookups f c (t # ts) = (let (h, c') = f c t; (hs, c'') = lookups f c' ts in (h # hs, c''))"

lemma lookups_Cons [simp]:
  "fst (lookups f c (t # ts)) = fst (f c t) # fst (lookups f (snd (f c t)) ts)"
  "snd (lookups f c (t # ts)) = snd (lookups f (snd (f c t)) ts)"
  by (simp_all add: Let_def split_beta)

declare lookups.simps(2) [simp del]

lemma length_lookups [simp]: "length (fst (lookups f c ts)) = length ts"
  by (induction ts arbitrary: c) simp_all

lemma lookups_append:
  "fst (lookups f c (ts @ us)) = fst (lookups f c ts) @ fst (lookups f (snd (lookups f c ts)) us)"
  "snd (lookups f c (ts @ us)) = snd (lookups f (snd (lookups f c ts)) us)"
  by (induction ts arbitrary: c) simp_all

definition fifo_ok :: "'t list \<Rightarrow> bool" where
  "fifo_ok q \<longleftrightarrow> distinct q \<and> length q \<le> 4"

lemma fifo_ok_access: "fifo_ok q \<Longrightarrow> fifo_ok (snd (fifo_access q t))"
  by (cases q) (auto simp: fifo_ok_def fifo_access_def)

lemma fifo_ok_lookups: "fifo_ok q \<Longrightarrow> fifo_ok (snd (lookups fifo_access q ts))"
  by (induction ts arbitrary: q) (simp_all add: fifo_ok_access)

text \<open>New, different tags all miss and end up, in order, behind what is left of the old contents.\<close>

lemma fifo_fill:
  assumes "fifo_ok q" and "distinct ts" and "set ts \<inter> set q = {}" and "length ts \<le> 4"
  shows "lookups fifo_access q ts =
    (replicate (length ts) False, drop (length q + length ts - 4) q @ ts)"
  using assms
proof (induction ts rule: rev_induct)
  case (snoc t ts)
  let ?q = "drop (length q + length ts - 4) q @ ts"
  from snoc have IH: "lookups fifo_access q ts = (replicate (length ts) False, ?q)" by simp
  have t: "t \<notin> set ?q" using snoc.prems by (auto dest: in_set_dropD)
  have tl: "tl ?q = drop (Suc (length q + length ts - 4)) q @ ts" if "length ts + length q \<ge> 4"
  proof -
    have "length q + length ts - 4 < length q" using that snoc.prems by simp
    from Cons_nth_drop_Suc [OF this, symmetric] show ?thesis by simp
  qed
  have step: "fifo_access ?q t = (False, drop (length q + Suc (length ts) - 4) q @ ts @ [t])"
  proof (cases "length q + length ts < 4")
    case False
    then have "Suc (length q + length ts - 4) = length q + Suc (length ts) - 4" by simp
    with False t tl show ?thesis by (simp add: fifo_access_def)
  qed (use t in \<open>simp add: fifo_access_def\<close>)
  show ?case
    by (simp add: prod_eq_iff lookups_append IH step replicate_append_same)
qed (simp add: fifo_ok_def)

section \<open>The contract of a set\<close>

locale fifo_set =
  fixes access :: "'c \<Rightarrow> 't \<Rightarrow> bool \<times> 'c" and wf :: "'c \<Rightarrow> bool" and content :: "'c \<Rightarrow> 't list"
  assumes content_ok: "wf c \<Longrightarrow> fifo_ok (content c)"
    and wf_access: "wf c \<Longrightarrow> wf (snd (access c t))"
    and hit: "wf c \<Longrightarrow> fst (access c t) \<longleftrightarrow> t \<in> set (content c)"
    and content_access: "wf c \<Longrightarrow> content (snd (access c t)) = snd (fifo_access (content c) t)"
begin

lemma refines: "wf c \<Longrightarrow> fst (access c t) = fst (fifo_access (content c) t)"
  by (simp add: hit fifo_access_def)

lemma lookups_refine:
  "wf c \<Longrightarrow> wf (snd (lookups access c ts)) \<and>
     fst (lookups access c ts) = fst (lookups fifo_access (content c) ts) \<and>
     content (snd (lookups access c ts)) = snd (lookups fifo_access (content c) ts)"
  by (induction ts arbitrary: c) (simp_all add: refines wf_access content_access)

text \<open>After a tag, four other tags that are not in the set evict it.\<close>

lemma evicted:
  assumes "wf c" and "distinct ts" and "length ts = 4" and "t \<notin> set ts" and "set ts \<inter> set (content c) = {}"
  shows "\<not> fst (access (snd (lookups access c (t # ts))) t)"
proof -
  let ?q = "snd (fifo_access (content c) t)"
  have ok: "fifo_ok ?q" by (rule fifo_ok_access [OF content_ok [OF assms(1)]])
  have "set ?q \<subseteq> insert t (set (content c))"
    by (cases "content c") (auto simp: fifo_access_def)
  with assms(4,5) have "set ts \<inter> set ?q = {}" by auto
  from fifo_fill [OF ok assms(2) this] assms(3)
  have "snd (lookups fifo_access ?q ts) = ts" by simp
  with lookups_refine [OF assms(1), of "t # ts"] hit assms(4) show ?thesis by simp
qed

text \<open>A tag that was looked up is held until four others have been added.\<close>

lemma hits_again: "wf c \<Longrightarrow> fst (access (snd (access c t)) t)"
  by (simp add: hit wf_access content_access fifo_access_def)

end

text \<open>Two representations with the same contents see the same hits and misses.\<close>

lemma fifo_sets_agree:
  assumes "fifo_set f wf content" and "fifo_set g wf' content'"
    and "wf c" and "wf' c'" and "content c = content' c'"
  shows "fst (lookups f c ts) = fst (lookups g c' ts)"
  using fifo_set.lookups_refine [OF assms(1,3), of ts] fifo_set.lookups_refine [OF assms(2,4), of ts] assms(5)
  by simp

end
