(* ===== verification/Predictor.thy ===== *)
theory Predictor
  imports FifoCache
begin

text \<open>
  The tables with which the C tests predict the hits and misses of the cache: \<open>check_hit\<close> and
  \<open>tag_in_block_table\<close> of \<open>sinc_performance_counter_check\<close>, for ten sets, and \<open>check_hit\<close> and
  \<open>block_in_tag_table\<close> of \<open>sinc_onoff_ret_check_active\<close>, for one. An index outside an array is
  undefined behaviour in C and the value \<open>None\<close> here.
\<close>

section \<open>One set\<close>

text \<open>The globals \<open>tag_table\<close>, \<open>valid_table\<close> and \<open>tag_table_counter\<close> of one set.\<close>

record tag_row =
  tag_table :: "u32 list"
  valid_table :: "u32 list"
  tag_table_counter :: u32

definition block_in_tag_table :: "tag_row \<Rightarrow> u32 \<Rightarrow> u32" where
  "block_in_tag_table r tag =
     (if list_ex (\<lambda>i. valid_table r ! i = 1 \<and> tag_table r ! i = tag) [0..<4] then 1 else 0)"

text \<open>A new tag is written at the counter, which then goes round.\<close>

definition record_miss :: "tag_row \<Rightarrow> u32 \<Rightarrow> tag_row option" where
  "record_miss r tag = (let counter = tag_table_counter r in
     if unat counter < 4
     then Some \<lparr>tag_table = (tag_table r)[unat counter := tag],
                valid_table = (valid_table r)[unat counter := 1],
                tag_table_counter = (if counter = 3 then 0 else counter + 1)\<rparr>
     else None)"

text \<open>\<open>check_hit\<close> of \<open>sinc_onoff_ret_check_active\<close>.\<close>

definition check_hit_onoff :: "u32 list \<Rightarrow> tag_row \<Rightarrow> u32 \<Rightarrow> (u32 \<times> tag_row) option" where
  "check_hit_onoff block_table r block_table_index =
     (if unat block_table_index < length block_table
      then (let tag = block_table ! unat block_table_index in
        if block_in_tag_table r tag \<noteq> 0 then Some (1, r)
        else map_option (\<lambda>r'. (0, r')) (record_miss r tag))
      else None)"

section \<open>Ten sets\<close>

text \<open>The globals of \<open>sinc_performance_counter_check\<close>.\<close>

record perf_tables =
  set_num :: "u32 list"
  rows :: "tag_row list"
  block_table :: "u32 list list"

definition tag_in_block_table :: "perf_tables \<Rightarrow> u32 \<Rightarrow> u32 \<Rightarrow> u32" where
  "tag_in_block_table g tag set_num_index = block_in_tag_table (rows g ! unat set_num_index) tag"

definition check_hit :: "perf_tables \<Rightarrow> u32 \<Rightarrow> u32 \<Rightarrow> (u32 \<times> perf_tables) option" where
  "check_hit g set_num_index block_table_index =
     (if unat set_num_index < length (rows g) \<and> unat set_num_index < length (block_table g) \<and>
         unat block_table_index < length (block_table g ! unat set_num_index)
      then (let tag = block_table g ! unat set_num_index ! unat block_table_index in
        if tag_in_block_table g tag set_num_index \<noteq> 0 then Some (1, g)
        else map_option (\<lambda>r. (0, g\<lparr>rows := (rows g)[unat set_num_index := r]\<rparr>))
               (record_miss (rows g ! unat set_num_index) tag))
      else None)"

text \<open>The byte offset of a block: its tag in bits 23 to 16, its set in bits 15 to 9.\<close>

definition offset_addr :: "u32 \<Rightarrow> u32 \<Rightarrow> u32" where
  "offset_addr tag st = push_bit 16 (tag AND 0xff) OR push_bit 9 (st AND 0x7f)"

section \<open>The invariant and the contents of a set\<close>

text \<open>
  The tables have four entries, the counter stays below four, a valid entry is marked 1 and the
  valid entries are different. Before the counter has gone round once, the valid entries are the
  ones below it; afterwards all four are valid and the oldest is the one at the counter.
\<close>

definition row_wf :: "tag_row \<Rightarrow> bool" where
  "row_wf r \<longleftrightarrow> length (tag_table r) = 4 \<and> length (valid_table r) = 4 \<and>
     unat (tag_table_counter r) < 4 \<and>
     (valid_table r = [1, 1, 1, 1] \<and> distinct (tag_table r) \<or>
      (\<forall>i < 4. valid_table r ! i = (if i < unat (tag_table_counter r) then 1 else 0)) \<and>
        distinct (take (unat (tag_table_counter r)) (tag_table r)))"

definition row_content :: "tag_row \<Rightarrow> u32 list" where
  "row_content r = (if valid_table r = [1, 1, 1, 1]
     then rotate (unat (tag_table_counter r)) (tag_table r)
     else take (unat (tag_table_counter r)) (tag_table r))"

definition empty_row :: tag_row where
  "empty_row = \<lparr>tag_table = [0, 0, 0, 0], valid_table = [0, 0, 0, 0], tag_table_counter = 0\<rparr>"

text \<open>A look-up that follows a well-formed row.\<close>

definition row_access :: "tag_row \<Rightarrow> u32 \<Rightarrow> bool \<times> tag_row" where
  "row_access r tag = (if block_in_tag_table r tag \<noteq> 0 then (True, r) else (False, the (record_miss r tag)))"

lemma below_4: "unat (k :: u32) < 4 \<Longrightarrow> k = 0 \<or> k = 1 \<or> k = 2 \<or> k = 3"
proof -
  assume "unat k < 4"
  then have "unat k = 0 \<or> unat k = 1 \<or> unat k = 2 \<or> unat k = 3" by auto
  moreover have "k = word_of_nat (unat k)" by simp
  ultimately show ?thesis by (elim disjE) simp_all
qed

lemma row_wfE:
  assumes "row_wf r"
  obtains a b c d vs k where "r = \<lparr>tag_table = [a, b, c, d], valid_table = vs, tag_table_counter = k\<rparr>"
    and "vs = [1, 1, 1, 1] \<and> distinct [a, b, c, d] \<and> (k = 0 \<or> k = 1 \<or> k = 2 \<or> k = 3) \<or>
      vs = [0, 0, 0, 0] \<and> k = 0 \<or>
      vs = [1, 0, 0, 0] \<and> k = 1 \<or>
      vs = [1, 1, 0, 0] \<and> k = 2 \<and> a \<noteq> b \<or>
      vs = [1, 1, 1, 0] \<and> k = 3 \<and> distinct [a, b, c]"
proof -
  obtain a b c d where t: "tag_table r = [a, b, c, d]"
    using assms by (auto simp: row_wf_def elim: length_4E)
  obtain v w x y where v: "valid_table r = [v, w, x, y]"
    using assms by (auto simp: row_wf_def elim: length_4E)
  have k: "tag_table_counter r = 0 \<or> tag_table_counter r = 1 \<or> tag_table_counter r = 2 \<or> tag_table_counter r = 3"
    using assms by (intro below_4) (simp add: row_wf_def)
  have r: "r = \<lparr>tag_table = [a, b, c, d], valid_table = [v, w, x, y], tag_table_counter = tag_table_counter r\<rparr>"
    using t v by simp
  let ?k = "unat (tag_table_counter r)"
  from assms consider (full) "[v, w, x, y] = [1, 1, 1, 1]" "distinct [a, b, c, d]"
    | (part) "v = (if 0 < ?k then 1 else 0)" "w = (if 1 < ?k then 1 else 0)"
      "x = (if 2 < ?k then 1 else 0)" "y = (if 3 < ?k then 1 else 0)" "distinct (take ?k [a, b, c, d])"
    unfolding row_wf_def t v all_less_4 by auto
  then show ?thesis
  proof cases
    case full
    with k show ?thesis by (intro that [OF r]) simp
  next
    case part
    from k show ?thesis by (elim disjE; intro that [OF r]) (use part in simp_all)
  qed
qed

lemmas row_simps = row_wf_def row_content_def row_access_def block_in_tag_table_def record_miss_def
  fifo_access_def fifo_ok_def all_less_4 upt_4 rotate_4 Let_def

interpretation row: fifo_set row_access row_wf row_content
proof
  fix r :: tag_row and t :: u32
  assume wf: "row_wf r"
  show "fifo_ok (row_content r)"
    using wf by (elim row_wfE disjE conjE) (auto simp: row_simps)
  show "fst (row_access r t) = (t \<in> set (row_content r))"
    using wf by (elim row_wfE disjE conjE) (auto simp: row_simps)
  show "row_wf (snd (row_access r t))"
    using wf by (elim row_wfE disjE conjE) (auto simp: row_simps)
  show "row_content (snd (row_access r t)) = snd (fifo_access (row_content r) t)"
    using wf by (elim row_wfE disjE conjE) (auto simp: row_simps)
qed

lemma record_miss_defined: "row_wf r \<Longrightarrow> record_miss r tag = Some (the (record_miss r tag))"
  by (auto simp: record_miss_def row_wf_def Let_def)

lemma block_in_tag_table_01: "block_in_tag_table r tag = 0 \<or> block_in_tag_table r tag = 1"
  by (simp add: block_in_tag_table_def)

text \<open>On a well-formed row the functions of the tests are look-ups.\<close>

lemma check_hit_onoff_access:
  assumes "row_wf r" and "unat i < length blocks"
  shows "check_hit_onoff blocks r i =
    (let (h, r') = row_access r (blocks ! unat i) in Some (of_bool h, r'))"
  using assms record_miss_defined [OF assms(1), of "blocks ! unat i"] block_in_tag_table_01 [of r "blocks ! unat i"]
  by (auto simp: check_hit_onoff_def row_access_def Let_def)

section \<open>The invariant of the ten sets\<close>

definition perf_wf :: "perf_tables \<Rightarrow> bool" where
  "perf_wf g \<longleftrightarrow> length (set_num g) = 10 \<and> length (rows g) = 10 \<and> list_all row_wf (rows g) \<and>
     length (block_table g) = 10 \<and> list_all (\<lambda>b. length b = 10) (block_table g)"

text \<open>The tag that the test looks up for a pair of indices.\<close>

abbreviation tag_at :: "perf_tables \<Rightarrow> u32 \<Rightarrow> u32 \<Rightarrow> u32" where
  "tag_at g j i \<equiv> block_table g ! unat j ! unat i"

lemma perf_wf_row: "perf_wf g \<Longrightarrow> unat j < 10 \<Longrightarrow> row_wf (rows g ! unat j)"
  by (simp add: perf_wf_def list_all_length)

lemma check_hit_access:
  assumes "perf_wf g" and "unat j < 10" and "unat i < 10"
  shows "check_hit g j i = (let (h, r) = row_access (rows g ! unat j) (tag_at g j i) in
    Some (of_bool h, g\<lparr>rows := (rows g)[unat j := r]\<rparr>))"
proof -
  let ?r = "rows g ! unat j"
  have wf: "row_wf ?r" by (rule perf_wf_row [OF assms(1,2)])
  have len: "unat j < length (rows g)" "unat j < length (block_table g)"
    "unat i < length (block_table g ! unat j)"
    using assms by (simp_all add: perf_wf_def list_all_length)
  show ?thesis
    using len record_miss_defined [OF wf, of "tag_at g j i"] block_in_tag_table_01 [of ?r "tag_at g j i"]
    by (auto simp: check_hit_def row_access_def tag_in_block_table_def Let_def)
qed

lemma perf_wf_update:
  "perf_wf g \<Longrightarrow> row_wf r \<Longrightarrow> perf_wf (g\<lparr>rows := (rows g)[k := r]\<rparr>)"
  by (auto simp: perf_wf_def list_all_iff dest: set_update_subset_insert [THEN subsetD])

section \<open>Properties\<close>

text \<open>On well-formed tables \<open>check_hit\<close> never leaves its arrays, keeps the tables well-formed,
  answers 1 exactly when the block is resident, and changes its set as a first-in first-out set of
  four does; the other sets and the tables of blocks stay as they are.\<close>

lemma check_hit_predicts:
  assumes "perf_wf g" and "unat j < 10" and "unat i < 10"
  shows "\<exists>g'. check_hit g j i =
      Some (if tag_at g j i \<in> set (row_content (rows g ! unat j)) then 1 else 0, g') \<and>
    perf_wf g' \<and> set_num g' = set_num g \<and> block_table g' = block_table g \<and>
    row_content (rows g' ! unat j) = snd (fifo_access (row_content (rows g ! unat j)) (tag_at g j i)) \<and>
    (\<forall>k. k \<noteq> unat j \<longrightarrow> rows g' ! k = rows g ! k)"
proof -
  let ?t = "tag_at g j i"
  obtain h r where a: "row_access (rows g ! unat j) ?t = (h, r)" by fastforce
  have wf: "row_wf (rows g ! unat j)" by (rule perf_wf_row [OF assms(1,2)])
  have h: "h = (?t \<in> set (row_content (rows g ! unat j)))" using row.hit [OF wf, of ?t] a by simp
  have "row_wf r" using row.wf_access [OF wf, of ?t] a by simp
  moreover have "row_content r = snd (fifo_access (row_content (rows g ! unat j)) ?t)"
    using row.content_access [OF wf, of ?t] a by simp
  moreover have "unat j < length (rows g)" using assms by (simp add: perf_wf_def)
  ultimately show ?thesis
    using perf_wf_update [OF assms(1), of r "unat j"]
    by (intro exI [of _ "g\<lparr>rows := (rows g)[unat j := r]\<rparr>"])
      (simp add: check_hit_access [OF assms] a h)
qed

text \<open>The tables after their initialisation, with the blocks 0 to 9 in each of the sets 0 to 9.\<close>

definition sample_tables :: perf_tables where
  "sample_tables = \<lparr>set_num = idx 10, rows = replicate 10 empty_row, block_table = replicate 10 (idx 10)\<rparr>"

lemma sample_tables_wf: "perf_wf sample_tables"
  by (simp add: perf_wf_def sample_tables_def empty_row_def row_wf_def list_all_iff all_less_4)

end
