(* ===== verification/Vtag.thy ===== *)
theory Vtag
  imports FifoCache
begin

text \<open>
  The tag store of the cache (\<open>src/src/sinc/rtl/sinc_ciu_vtag.sv\<close> and \<open>sinc_ciu_vtag_ret.sv\<close>) in the
  configuration of \<open>sinc_top\<close>: 8 tag bits, 128 sets of four ways, the ways kept in a register file
  (\<open>CACHE_VTAG_USE_RF\<close> is 1). The combinational blocks are functions of the four entries that the
  register file delivers for the set of the look-up; the registers of the erase machine and the
  entries it writes are stepped clock by clock.
\<close>

section \<open>Entries\<close>

record VTAG_BITS =
  parity_bit :: bool
  valid_bit :: bool
  tag_bits :: u8

definition bits_of :: "u8 \<Rightarrow> bool list" where
  "bits_of w = map (bit w) [0..<8]"

definition parity_gen :: "u8 \<Rightarrow> bool" where
  "parity_gen data_in = (\<not> red_xor (bits_of data_in))"

definition parity_chk :: "VTAG_BITS \<Rightarrow> bool" where
  "parity_chk data_in =
     (\<not> red_xor (parity_bit data_in # valid_bit data_in # bits_of (tag_bits data_in)))"

definition erased_entry :: VTAG_BITS where
  "erased_entry = \<lparr>parity_bit = False, valid_bit = False, tag_bits = 0\<rparr>"

section \<open>Look-up\<close>

definition block_hit :: "bool \<Rightarrow> u8 \<Rightarrow> VTAG_BITS \<Rightarrow> bool" where
  "block_hit ciu_vtag_comp_r cache_tag_r e =
     (valid_bit e \<and> ciu_vtag_comp_r \<and> parity_chk e \<and> tag_bits e = cache_tag_r)"

definition parity_pass :: "bool \<Rightarrow> VTAG_BITS \<Rightarrow> bool" where
  "parity_pass ciu_vtag_comp_r e = (if valid_bit e \<and> ciu_vtag_comp_r then parity_chk e else True)"

text \<open>\<open>vtag_cache_hit\<close> and \<open>vtag_cache_hit_word_idx\<close>; more than one hit is none.\<close>

definition hit_encode :: "bool list \<Rightarrow> bool \<times> 2 word" where
  "hit_encode bs =
     (if bs = [True, False, False, False] then (True, 0)
      else if bs = [False, True, False, False] then (True, 1)
      else if bs = [False, False, True, False] then (True, 2)
      else if bs = [False, False, False, True] then (True, 3)
      else (False, 0))"

definition vtag_hit :: "bool \<Rightarrow> u8 \<Rightarrow> VTAG_BITS list \<Rightarrow> bool \<times> 2 word" where
  "vtag_hit comp_r tag_r vtag = hit_encode (map (block_hit comp_r tag_r) vtag)"

definition vtag_parity_error :: "bool \<Rightarrow> VTAG_BITS list \<Rightarrow> bool" where
  "vtag_parity_error comp_r vtag = (\<not> list_all (parity_pass comp_r) vtag)"

section \<open>Update\<close>

text \<open>One set: its four entries and its pointer to the next way to replace (\<open>fifo_sta_reg\<close>).\<close>

record vtag_set =
  ways :: "VTAG_BITS list"
  fifo_sta_reg :: "2 word"

definition vtag_update_ways :: "bool \<Rightarrow> u8 \<Rightarrow> vtag_set \<Rightarrow> VTAG_BITS list" where
  "vtag_update_ways ciu_vtag_update cache_tag s =
     (if ciu_vtag_update
      then (ways s)[unat (fifo_sta_reg s) :=
        \<lparr>parity_bit = parity_gen cache_tag, valid_bit = True, tag_bits = cache_tag\<rparr>]
      else ways s)"

definition nxt_fifo_sta_reg :: "bool \<Rightarrow> vtag_set \<Rightarrow> 2 word" where
  "nxt_fifo_sta_reg ciu_vtag_update s =
     (if ciu_vtag_update then fifo_sta_reg s + 1 else fifo_sta_reg s)"

definition vtag_update :: "u8 \<Rightarrow> vtag_set \<Rightarrow> vtag_set" where
  "vtag_update cache_tag s =
     \<lparr>ways = vtag_update_ways True cache_tag s, fifo_sta_reg = nxt_fifo_sta_reg True s\<rparr>"

text \<open>
  What a processor read does to the set it falls in when the block fetch succeeds: \<open>CIU_MEM_READ\<close>
  compares; a parity error ends the read, a hit serves it, and a miss fetches the block
  (\<open>CIU_CACHE_MISS\<close>), updates the set and reads again (\<open>CIU_RREAD\<close>).
\<close>

definition vtag_access :: "vtag_set \<Rightarrow> u8 \<Rightarrow> bool \<times> vtag_set" where
  "vtag_access s t =
     (if vtag_parity_error True (ways s) then (False, s)
      else if fst (vtag_hit True t (ways s)) then (True, s)
      else (False, vtag_update t s))"

section \<open>Addresses\<close>

text \<open>The word address of the processor: 8 bits of tag, 7 bits of set, 7 bits of word.\<close>

definition cache_tag_of :: "22 word \<Rightarrow> u8" where
  "cache_tag_of cpu_mem_addr = ucast (drop_bit 14 cpu_mem_addr)"

definition cache_set_idx_of :: "22 word \<Rightarrow> 7 word" where
  "cache_set_idx_of cpu_mem_addr = ucast (drop_bit 7 cpu_mem_addr)"

type_synonym cache = "7 word \<Rightarrow> vtag_set"

definition cache_read :: "cache \<Rightarrow> 22 word \<Rightarrow> bool \<times> cache" where
  "cache_read c addr = (let i = cache_set_idx_of addr; (h, s) = vtag_access (c i) (cache_tag_of addr) in
     (h, c(i := s)))"

section \<open>The erase machine\<close>

datatype vtag_erase_fsm = VTAG_ERASE_IDLE | VTAG_ERASE_WR

record vtag_erase =
  vtag_sm_r :: vtag_erase_fsm
  vtag_erase_addr_r :: "7 word"

definition is_erase_op :: "bool \<Rightarrow> vtag_erase \<Rightarrow> bool" where
  "is_erase_op vtag_erase_start s = (case vtag_sm_r s of
     VTAG_ERASE_IDLE \<Rightarrow> vtag_erase_start | VTAG_ERASE_WR \<Rightarrow> True)"

definition vtag_erase_next :: "bool \<Rightarrow> bool \<Rightarrow> vtag_erase \<Rightarrow> vtag_erase" where
  "vtag_erase_next sync_ciu_reset vtag_erase_start s =
     (if sync_ciu_reset then \<lparr>vtag_sm_r = VTAG_ERASE_IDLE, vtag_erase_addr_r = 0\<rparr>
      else case vtag_sm_r s of
        VTAG_ERASE_IDLE \<Rightarrow>
          (if vtag_erase_start
           then \<lparr>vtag_sm_r = VTAG_ERASE_WR, vtag_erase_addr_r = vtag_erase_addr_r s + 1\<rparr>
           else s)
      | VTAG_ERASE_WR \<Rightarrow>
          (if vtag_erase_addr_r s = - 1 then \<lparr>vtag_sm_r = VTAG_ERASE_IDLE, vtag_erase_addr_r = 0\<rparr>
           else s\<lparr>vtag_erase_addr_r := vtag_erase_addr_r s + 1\<rparr>))"

text \<open>One clock of the machine and of the entries: while it runs, all four ways are written with 0.\<close>

definition vtag_erase_clock ::
  "bool \<Rightarrow> vtag_erase \<times> (7 word \<Rightarrow> VTAG_BITS list) \<Rightarrow> vtag_erase \<times> (7 word \<Rightarrow> VTAG_BITS list)" where
  "vtag_erase_clock vtag_erase_start st = (case st of (s, m) \<Rightarrow>
     (vtag_erase_next False vtag_erase_start s,
      if is_erase_op vtag_erase_start s then m(vtag_erase_addr_r s := replicate 4 erased_entry) else m))"

section \<open>Parity\<close>

lemma bits_of_flip:
  assumes "k < 8"
  shows "bits_of (flip_bit k w) = (bits_of w)[k := \<not> bits_of w ! k]"
  using assms
  by (intro nth_equalityI) (auto simp: bits_of_def nth_list_update bit_flip_bit_iff)

lemma red_xor_bits_flip: "k < 8 \<Longrightarrow> red_xor (bits_of (flip_bit k w)) = (\<not> red_xor (bits_of w))"
  using red_xor_flip [of k "bits_of w"] by (simp add: bits_of_flip) (simp add: bits_of_def)

lemma parity_chk_gen:
  "parity_chk \<lparr>parity_bit = parity_gen t, valid_bit = True, tag_bits = t\<rparr>"
  by (simp add: parity_chk_def parity_gen_def)

text \<open>The ten single-bit upsets of an entry.\<close>

definition upsets :: "VTAG_BITS \<Rightarrow> VTAG_BITS list" where
  "upsets e = e\<lparr>parity_bit := \<not> parity_bit e\<rparr> # e\<lparr>valid_bit := \<not> valid_bit e\<rparr> #
     map (\<lambda>k. e\<lparr>tag_bits := flip_bit k (tag_bits e)\<rparr>) [0..<8]"

lemma parity_chk_upset: "e' \<in> set (upsets e) \<Longrightarrow> parity_chk e' = (\<not> parity_chk e)"
  by (auto simp: upsets_def parity_chk_def red_xor_bits_flip)

section \<open>Well-formed sets\<close>

text \<open>
  The entries of a set in the order in which they will be replaced. An entry is erased or holds a
  tag with its parity; the erased ones come first in that order, and the tags held are different.
  The pointer itself may have any value: an erase requested from outside clears the entries and
  leaves the pointer where it is.
\<close>

definition entry_for :: "u8 \<Rightarrow> VTAG_BITS" where
  "entry_for t = \<lparr>parity_bit = parity_gen t, valid_bit = True, tag_bits = t\<rparr>"

definition entry_ok :: "VTAG_BITS \<Rightarrow> bool" where
  "entry_ok e \<longleftrightarrow>
     (if valid_bit e then parity_bit e = parity_gen (tag_bits e) else e = erased_entry)"

definition replace_order :: "vtag_set \<Rightarrow> VTAG_BITS list" where
  "replace_order s = rotate (unat (fifo_sta_reg s)) (ways s)"

definition vtag_content :: "vtag_set \<Rightarrow> u8 list" where
  "vtag_content s = map tag_bits (filter valid_bit (replace_order s))"

definition vtag_wf :: "vtag_set \<Rightarrow> bool" where
  "vtag_wf s \<longleftrightarrow> length (ways s) = 4 \<and> list_all entry_ok (ways s) \<and>
     sorted (map valid_bit (replace_order s)) \<and>
     distinct (vtag_content s)"

definition erased_set :: "2 word \<Rightarrow> vtag_set" where
  "erased_set p = \<lparr>ways = replicate 4 erased_entry, fifo_sta_reg = p\<rparr>"

lemma entry_for_simps [simp]:
  "valid_bit (entry_for t)" "tag_bits (entry_for t) = t" "parity_chk (entry_for t)"
  "\<not> valid_bit erased_entry" "entry_ok (entry_for t)" "entry_ok erased_entry"
  by (simp_all add: entry_for_def entry_ok_def erased_entry_def parity_chk_gen)

lemma parity_chk_ok: "entry_ok e \<Longrightarrow> parity_chk e"
proof (cases "valid_bit e")
  case True
  assume "entry_ok e"
  with True have "e = entry_for (tag_bits e)" by (cases e) (simp add: entry_ok_def entry_for_def)
  then show ?thesis using entry_for_simps(3) [of "tag_bits e"] by simp
next
  case False
  assume "entry_ok e"
  with False have "e = erased_entry" by (simp add: entry_ok_def)
  then show ?thesis by (simp add: parity_chk_def erased_entry_def bits_of_def upt_rec)
qed

lemma set_replace_order [simp]: "set (replace_order s) = set (ways s)"
  by (simp add: replace_order_def)

lemma length_replace_order [simp]: "length (replace_order s) = length (ways s)"
  by (simp add: replace_order_def)

lemma distinct_filter_rotate:
  fixes xs :: "'b list"
  shows "distinct (map f (filter Q (rotate n xs))) = distinct (map f (filter Q xs))"
proof (induction n)
  case (Suc n)
  have "distinct (map f (filter Q (rotate1 ys))) = distinct (map f (filter Q ys))" for ys :: "'b list"
    by (cases ys) auto
  with Suc show ?case by (simp add: rotate_Suc)
qed simp

lemma rotate_replicate [simp]: "rotate n (replicate m x) = replicate m x"
proof (induction n)
  case (Suc n)
  then show ?case by (cases m) (simp_all add: rotate_Suc replicate_append_same)
qed simp

lemma erased_set_wf: "vtag_wf (erased_set p)" "vtag_content (erased_set p) = []"
  by (simp_all add: vtag_wf_def vtag_content_def replace_order_def erased_set_def list_all_iff
      sorted_replicate)

section \<open>Hits\<close>

lemma below_4_word2: "(k :: 2 word) = 0 \<or> k = 1 \<or> k = 2 \<or> k = 3"
proof -
  have "unat k < 2 ^ LENGTH(2)" by (rule unsigned_less)
  then have "unat k = 0 \<or> unat k = 1 \<or> unat k = 2 \<or> unat k = 3" by auto
  moreover have "k = word_of_nat (unat k)" by simp
  ultimately show ?thesis by (elim disjE) simp_all
qed

lemma hit_encode_iff:
  assumes "length bs = 4"
  shows "hit_encode bs = (True, i) \<longleftrightarrow> (\<forall>k < 4. bs ! k \<longleftrightarrow> k = unat i)"
    and "fst (hit_encode bs) \<longleftrightarrow> (\<exists>k < 4. \<forall>j < 4. bs ! j \<longleftrightarrow> j = k)"
proof -
  obtain p q r s where bs: "bs = [p, q, r, s]" using assms by (elim length_4E)
  show "hit_encode bs = (True, i) \<longleftrightarrow> (\<forall>k < 4. bs ! k \<longleftrightarrow> k = unat i)"
    using below_4_word2 [of i] unfolding all_less_4 bs
    by (elim disjE) (auto simp: hit_encode_def)
  have ex: "(\<exists>k < 4. A k) \<longleftrightarrow> A 0 \<or> A 1 \<or> A 2 \<or> A (3 :: nat)" for A
    using all_less_4 [of "\<lambda>k. \<not> A k"] by blast
  show "fst (hit_encode bs) \<longleftrightarrow> (\<exists>k < 4. \<forall>j < 4. bs ! j \<longleftrightarrow> j = k)"
    unfolding ex all_less_4 bs by (auto simp: hit_encode_def)
qed

lemma block_hit_ok: "entry_ok e \<Longrightarrow> block_hit True t e \<longleftrightarrow> valid_bit e \<and> tag_bits e = t"
  by (auto simp: block_hit_def parity_chk_ok)

text \<open>In a well-formed set at most one way holds a tag.\<close>

lemma way_unique:
  assumes "vtag_wf s" and "i < 4" "j < 4" "valid_bit (ways s ! i)" "valid_bit (ways s ! j)"
    and "tag_bits (ways s ! i) = tag_bits (ways s ! j)"
  shows "i = j"
proof -
  have d: "distinct (map tag_bits (filter valid_bit (ways s)))"
    using assms(1) distinct_filter_rotate [of tag_bits valid_bit "unat (fifo_sta_reg s)" "ways s"]
    by (simp add: vtag_wf_def vtag_content_def replace_order_def)
  obtain a b c d' where "ways s = [a, b, c, d']" using assms(1) by (auto simp: vtag_wf_def elim: length_4E)
  with d assms(2-) show ?thesis
    by (auto simp: numeral_eq_Suc less_Suc_eq split: if_splits)
qed

lemma wf_entries: "vtag_wf s \<Longrightarrow> e \<in> set (ways s) \<Longrightarrow> entry_ok e"
  unfolding vtag_wf_def list_all_iff by blast

lemma mem_content: "t \<in> set (vtag_content s) \<longleftrightarrow> (\<exists>e \<in> set (ways s). valid_bit e \<and> tag_bits e = t)"
  by (auto simp: vtag_content_def)

lemma vtag_hit_wf:
  assumes "vtag_wf s"
  shows "vtag_hit True t (ways s) = (True, i) \<longleftrightarrow>
      valid_bit (ways s ! unat i) \<and> tag_bits (ways s ! unat i) = t"
    and "fst (vtag_hit True t (ways s)) = (t \<in> set (vtag_content s))"
proof -
  have len: "length (ways s) = 4" and ok: "k < 4 \<Longrightarrow> entry_ok (ways s ! k)" for k
    using assms by (simp_all add: vtag_wf_def list_all_length)
  have i: "unat i < 4" using unsigned_less [of i] by simp
  have hit: "k < 4 \<Longrightarrow> map (block_hit True t) (ways s) ! k \<longleftrightarrow>
      valid_bit (ways s ! k) \<and> tag_bits (ways s ! k) = t" for k
    by (simp add: len block_hit_ok ok)
  show "vtag_hit True t (ways s) = (True, i) \<longleftrightarrow>
      valid_bit (ways s ! unat i) \<and> tag_bits (ways s ! unat i) = t"
    unfolding vtag_hit_def using i hit way_unique [OF assms _ i] by (subst hit_encode_iff) (auto simp: len)
  have "fst (vtag_hit True t (ways s)) \<longleftrightarrow>
      (\<exists>k < 4. \<forall>j < 4. (valid_bit (ways s ! j) \<and> tag_bits (ways s ! j) = t) \<longleftrightarrow> j = k)"
    unfolding vtag_hit_def using hit by (subst hit_encode_iff(2)) (simp_all add: len)
  also have "\<dots> \<longleftrightarrow> (\<exists>k < 4. valid_bit (ways s ! k) \<and> tag_bits (ways s ! k) = t)"
    using way_unique [OF assms] by blast
  also have "\<dots> \<longleftrightarrow> (\<exists>e \<in> set (ways s). valid_bit e \<and> tag_bits e = t)"
    by (metis in_set_conv_nth len)
  also have "\<dots> \<longleftrightarrow> t \<in> set (vtag_content s)" by (rule mem_content [symmetric])
  finally show "fst (vtag_hit True t (ways s)) = (t \<in> set (vtag_content s))" .
qed

lemma vtag_no_parity_error: "vtag_wf s \<Longrightarrow> \<not> vtag_parity_error True (ways s)"
  using wf_entries [of s] by (simp add: vtag_parity_error_def parity_pass_def list_all_iff parity_chk_ok)

lemma vtag_access_eq:
  "vtag_wf s \<Longrightarrow> vtag_access s t =
     (if t \<in> set (vtag_content s) then (True, s) else (False, vtag_update t s))"
  by (simp add: vtag_access_def vtag_hit_wf vtag_no_parity_error)

section \<open>The set as a first-in first-out queue\<close>

lemma replace_order_update:
  assumes "length (ways s) = 4"
  shows "replace_order (vtag_update t s) = tl (replace_order s) @ [entry_for t]"
proof -
  obtain a b c d where "ways s = [a, b, c, d]" using assms by (elim length_4E)
  then show ?thesis
    using below_4_word2 [of "fifo_sta_reg s"]
    by (auto simp: replace_order_def vtag_update_def vtag_update_ways_def nxt_fifo_sta_reg_def
        entry_for_def [symmetric] rotate_4)
qed

lemma vtag_update_content:
  assumes wf: "vtag_wf s" and new: "t \<notin> set (vtag_content s)"
  shows "vtag_wf (vtag_update t s)"
    and "vtag_content (vtag_update t s) =
      (if length (vtag_content s) < 4 then vtag_content s else tl (vtag_content s)) @ [t]"
proof -
  have len: "length (ways s) = 4" using wf by (simp add: vtag_wf_def)
  note order = replace_order_update [OF len, of t]
  obtain e es where es: "replace_order s = e # es" "length es = 3"
    using len by (cases "replace_order s") (auto dest: arg_cong [of _ _ length])
  have content: "vtag_content (vtag_update t s) =
      (if valid_bit e then tl (vtag_content s) else vtag_content s) @ [t]"
    by (simp add: vtag_content_def order es)
  have sorted: "sorted (map valid_bit (e # es))" using wf by (simp add: vtag_wf_def es)
  then have all: "\<forall>x \<in> set es. valid_bit x" if "valid_bit e" using that by auto
  have "length (vtag_content s) < 4 \<longleftrightarrow> \<not> valid_bit e"
    using length_filter_le [of valid_bit es] all by (cases "valid_bit e") (simp_all add: vtag_content_def es)
  then show eq: "vtag_content (vtag_update t s) =
      (if length (vtag_content s) < 4 then vtag_content s else tl (vtag_content s)) @ [t]"
    by (simp add: content)
  have "sorted (map valid_bit (es @ [entry_for t]))" using sorted by (simp add: sorted_append)
  moreover have "set (ways (vtag_update t s)) \<subseteq> insert (entry_for t) (set (ways s))"
    unfolding vtag_update_def vtag_update_ways_def entry_for_def by (simp add: set_update_subset_insert)
  then have "list_all entry_ok (ways (vtag_update t s))"
    using wf_entries [OF wf] by (auto simp: list_all_iff)
  moreover have "distinct (vtag_content (vtag_update t s))"
    using wf new unfolding eq
    by (cases "vtag_content s") (auto simp: vtag_wf_def)
  moreover have "length (ways (vtag_update t s)) = 4"
    by (simp add: vtag_update_def vtag_update_ways_def len)
  ultimately show "vtag_wf (vtag_update t s)" by (simp add: vtag_wf_def order es)
qed

interpretation vtag: fifo_set vtag_access vtag_wf vtag_content
proof
  fix s :: vtag_set and t :: u8
  assume wf: "vtag_wf s"
  have "length (vtag_content s) \<le> length (replace_order s)"
    unfolding vtag_content_def length_map by (rule length_filter_le)
  with wf show "fifo_ok (vtag_content s)" by (simp add: fifo_ok_def vtag_wf_def)
  show "fst (vtag_access s t) = (t \<in> set (vtag_content s))"
    by (simp add: vtag_access_eq [OF wf])
  show "vtag_wf (snd (vtag_access s t))"
    by (simp add: vtag_access_eq [OF wf] wf vtag_update_content)
  show "vtag_content (snd (vtag_access s t)) = snd (fifo_access (vtag_content s) t)"
    by (simp add: vtag_access_eq [OF wf] wf vtag_update_content fifo_access_def)
qed

section \<open>Erasing\<close>

definition vtag_erase_run ::
  "bool list \<Rightarrow> vtag_erase \<times> (7 word \<Rightarrow> VTAG_BITS list) \<Rightarrow> vtag_erase \<times> (7 word \<Rightarrow> VTAG_BITS list)" where
  "vtag_erase_run starts st = foldl (\<lambda>st b. vtag_erase_clock b st) st starts"

abbreviation erase_idle :: vtag_erase where
  "erase_idle \<equiv> \<lparr>vtag_sm_r = VTAG_ERASE_IDLE, vtag_erase_addr_r = 0\<rparr>"

lemma last_set: "(- 1 :: 7 word) = 127"
  by simp

lemma not_last: "j < 127 \<Longrightarrow> (word_of_nat j :: 7 word) \<noteq> - 1"
proof
  assume "j < 127" and "(word_of_nat j :: 7 word) = - 1"
  then have "unat (word_of_nat j :: 7 word) = 127" unfolding last_set by simp
  with \<open>j < 127\<close> show False by (simp add: unat_of_nat)
qed

lemma set_index_eq: "n < 128 \<Longrightarrow> (i :: 7 word) = word_of_nat n \<longleftrightarrow> unat i = n"
  by (auto simp: unat_of_nat)

text \<open>During the first 127 clocks the machine has erased the sets below its address.\<close>

lemma erase_progress:
  "length bs < 127 \<Longrightarrow> vtag_erase_run (True # bs) (erase_idle, m) =
     (\<lparr>vtag_sm_r = VTAG_ERASE_WR, vtag_erase_addr_r = word_of_nat (Suc (length bs))\<rparr>,
      \<lambda>i. if unat i \<le> length bs then replicate 4 erased_entry else m i)"
proof (induction bs rule: rev_induct)
  case Nil
  show ?case
    by (auto simp: vtag_erase_run_def vtag_erase_clock_def vtag_erase_next_def is_erase_op_def
        fun_eq_iff unsigned_eq_0_iff)
next
  case (snoc b bs)
  define n where "n = length bs"
  define w :: "7 word" where "w = word_of_nat (Suc n)"
  from snoc have IH: "foldl (\<lambda>st b. vtag_erase_clock b st) (vtag_erase_clock True (erase_idle, m)) bs =
     (\<lparr>vtag_sm_r = VTAG_ERASE_WR, vtag_erase_addr_r = w\<rparr>,
      \<lambda>i. if unat i \<le> n then replicate 4 erased_entry else m i)"
    by (simp add: vtag_erase_run_def w_def n_def)
  have "Suc n < 127" using snoc.prems by (simp add: n_def)
  then have eq: "i = w \<longleftrightarrow> unat i = Suc n" for i
    unfolding w_def by (intro set_index_eq) simp
  have "w \<noteq> - 1" unfolding w_def by (rule not_last) fact
  then have clock: "vtag_erase_clock b (\<lparr>vtag_sm_r = VTAG_ERASE_WR, vtag_erase_addr_r = w\<rparr>,
      \<lambda>i. if unat i \<le> n then replicate 4 erased_entry else m i) =
    (\<lparr>vtag_sm_r = VTAG_ERASE_WR, vtag_erase_addr_r = w + 1\<rparr>,
      \<lambda>i. if unat i \<le> Suc n then replicate 4 erased_entry else m i)"
    by (auto simp: vtag_erase_clock_def vtag_erase_next_def is_erase_op_def fun_eq_iff eq)
  have "w + 1 = word_of_nat (Suc (length (bs @ [b])))" by (simp add: w_def n_def)
  then show ?case by (simp add: vtag_erase_run_def IH clock [unfolded n_def] n_def del: of_nat_Suc)
qed

lemma erase_complete:
  assumes "length bs = 127"
  shows "vtag_erase_run (True # bs) (erase_idle, m) = (erase_idle, \<lambda>_. replicate 4 erased_entry)"
proof -
  obtain bs' b where bs: "bs = bs' @ [b]" "length bs' = 126"
    using assms by (cases bs rule: rev_cases) auto
  have le: "unat (i :: 7 word) \<le> 126 \<or> i = 127" for i
  proof -
    have "unat i < 2 ^ LENGTH(7)" by (rule unsigned_less)
    then have "unat i \<le> 126 \<or> unat i = 127" by auto
    then show ?thesis using set_index_eq [of 127 i] by auto
  qed
  have "vtag_erase_run (True # bs) (erase_idle, m) =
      vtag_erase_clock b (vtag_erase_run (True # bs') (erase_idle, m))"
    by (simp add: vtag_erase_run_def bs)
  also have "\<dots> = vtag_erase_clock b (\<lparr>vtag_sm_r = VTAG_ERASE_WR, vtag_erase_addr_r = 127\<rparr>,
      \<lambda>i. if unat i \<le> 126 then replicate 4 erased_entry else m i)"
    using erase_progress [of bs' m] bs by simp
  also have "\<dots> = (erase_idle, \<lambda>_. replicate 4 erased_entry)"
    using le by (auto simp: vtag_erase_clock_def vtag_erase_next_def is_erase_op_def fun_eq_iff last_set)
  finally show ?thesis .
qed

section \<open>Single-bit upsets\<close>

lemma upset_entry:
  assumes "entry_ok e" and "e' \<in> set (upsets e)"
  shows "\<not> block_hit True t e'" and "parity_pass True e' \<longleftrightarrow> \<not> valid_bit e'"
  using parity_chk_upset [OF assms(2)] parity_chk_ok [OF assms(1)]
  by (simp_all add: block_hit_def parity_pass_def)

section \<open>Properties\<close>

text \<open>C10: a processor read with a successful fetch treats its set as a first-in first-out queue of at
  most four tags: it hits exactly when the tag is held, a hit changes nothing, a miss puts the tag
  behind the others and drops the oldest one when there are four; the set stays well-formed.\<close>

theorem vtag_is_fifo:
  assumes "vtag_wf s"
  shows "vtag_wf (snd (vtag_access s t)) \<and>
    (fst (vtag_access s t), vtag_content (snd (vtag_access s t))) = fifo_access (vtag_content s) t"
  using vtag.wf_access [OF assms] vtag.refines [OF assms] vtag.content_access [OF assms]
  by (simp add: prod_eq_iff)

theorem vtag_is_fifo_witness:
  "vtag_content (snd (vtag_access (erased_set 2) 7)) = [7] \<and> \<not> fst (vtag_access (erased_set 2) 7)"
  using vtag_is_fifo [OF erased_set_wf(1), of 2 7] by (simp add: erased_set_wf(2) fifo_access_def prod_eq_iff)

text \<open>The read that follows a refill hits, and it is served from the way that the refill has
  written: the way the pointer of the set was at.\<close>

lemma refill_then_hit:
  assumes "vtag_wf s" and "\<not> fst (vtag_access s t)"
  shows "vtag_hit True t (ways (snd (vtag_access s t))) = (True, fifo_sta_reg s) \<and>
    \<not> vtag_parity_error True (ways (snd (vtag_access s t)))"
proof -
  have new: "t \<notin> set (vtag_content s)" and eq: "snd (vtag_access s t) = vtag_update t s"
    using assms by (simp_all add: vtag_access_eq split: if_splits)
  have wf: "vtag_wf (vtag_update t s)" by (rule vtag_update_content [OF assms(1) new])
  have "unat (fifo_sta_reg s) < length (ways s)"
    using assms(1) below_4_word2 [of "fifo_sta_reg s"] by (auto simp: vtag_wf_def)
  then have "ways (vtag_update t s) ! unat (fifo_sta_reg s) = entry_for t"
    by (simp add: vtag_update_def vtag_update_ways_def entry_for_def)
  then show ?thesis
    unfolding eq vtag_hit_wf(1) [OF wf] by (simp add: vtag_no_parity_error [OF wf])
qed

text \<open>C20: no single-bit upset of an entry makes a wrong block appear to be cached. A valid entry that is
  hit by an upset raises the parity error, and when no parity error is raised, a hit in the damaged
  set is a hit of the same way in the undamaged one.\<close>

theorem upset_never_hits:
  assumes "vtag_wf s" and "k < 4" and "e \<in> set (upsets (ways s ! k))"
  shows "(vtag_parity_error True ((ways s)[k := e]) \<longleftrightarrow> valid_bit e) \<and>
    (vtag_hit True t ((ways s)[k := e]) = (True, i) \<longrightarrow> vtag_hit True t (ways s) = (True, i))"
proof (intro conjI impI)
  have len: "length (ways s) = 4" using assms(1) by (simp add: vtag_wf_def)
  have ok: "entry_ok (ways s ! j)" if "j < 4" for j using wf_entries [OF assms(1)] len that by simp
  note e = upset_entry [OF ok [OF assms(2)] assms(3)]
  have "j < 4 \<Longrightarrow> j \<noteq> k \<Longrightarrow> parity_pass True (ways s ! j)" for j
    using parity_chk_ok [OF ok] by (simp add: parity_pass_def)
  then have "list_all (parity_pass True) ((ways s)[k := e]) \<longleftrightarrow> parity_pass True e"
    using assms(2) by (auto simp: list_all_length len nth_list_update)
  then show "vtag_parity_error True ((ways s)[k := e]) \<longleftrightarrow> valid_bit e"
    by (simp add: vtag_parity_error_def e)
  assume "vtag_hit True t ((ways s)[k := e]) = (True, i)"
  then have "map (block_hit True t) ((ways s)[k := e]) ! unat i"
    unfolding vtag_hit_def using hit_encode_iff(1) [of "map (block_hit True t) ((ways s)[k := e])" i]
      below_4_word2 [of i] by (auto simp: len)
  moreover have i: "unat i < 4" using below_4_word2 [of i] by auto
  ultimately have "block_hit True t (ways s ! unat i)"
    using e(1) [of t] by (cases "unat i = k") (simp_all add: len)
  then show "vtag_hit True t (ways s) = (True, i)"
    unfolding vtag_hit_wf(1) [OF assms(1)] using block_hit_ok [OF ok [OF i]] by simp
qed

theorem upset_never_hits_witness:
  "vtag_parity_error True ((ways (erased_set 0))[1 := erased_entry\<lparr>valid_bit := True\<rparr>])"
  using upset_never_hits [OF erased_set_wf(1), of 1 "erased_entry\<lparr>valid_bit := True\<rparr>" 0]
  by (simp add: erased_set_def upsets_def erased_entry_def)

text \<open>An erase takes 128 clocks, whatever the request line does after the first: the machine then
  is idle at set 0 again, every entry of every set is erased, and, wherever the pointers of the sets
  are, each set is well-formed and empty.\<close>

lemma erase_takes_128_clocks:
  assumes "length starts = 127"
  shows "vtag_erase_run (True # starts) (erase_idle, m) = (erase_idle, \<lambda>_. replicate 4 erased_entry) \<and>
    vtag_wf \<lparr>ways = replicate 4 erased_entry, fifo_sta_reg = p\<rparr> \<and>
    vtag_content \<lparr>ways = replicate 4 erased_entry, fifo_sta_reg = p\<rparr> = []"
  using erase_complete [OF assms] erased_set_wf [of p] by (simp add: erased_set_def)

end
