(* ===== verification/Agreement.thy ===== *)
theory Agreement
  imports Predictor Vtag
begin

text \<open>
  The prediction of the C tests and the tag store of the hardware, side by side: the address that a
  test computes from a tag and a set number is taken apart by the hardware into the same two, and a
  sequence of reads sees the hits and misses that \<open>check_hit\<close> predicts.
\<close>

section \<open>Addresses\<close>

text \<open>The word address that belongs to a byte offset into the cached memory.\<close>

definition word_addr :: "u32 \<Rightarrow> 22 word" where
  "word_addr a = ucast (drop_bit 2 a)"

lemma masks: "(0xff :: u32) = mask 8" "(0x7f :: u32) = mask 7"
  by (simp_all add: mask_eq_exp_minus_1)

lemma and_0xff: "(b :: u32) < 256 \<Longrightarrow> b AND 0xff = b"
  unfolding masks take_bit_eq_mask [symmetric]
  by (simp add: take_bit_eq_mod word_unat_eq_iff unat_mod word_less_nat_alt)

lemma bit_less_128: "(w :: u32) < 128 \<Longrightarrow> bit w n \<Longrightarrow> n < 7"
proof -
  assume "w < 128" "bit w n"
  then have "take_bit 7 w = w"
    by (simp add: take_bit_eq_mod word_eq_iff_unsigned [where ?'a = nat] unat_mod word_less_nat_alt)
  with \<open>bit w n\<close> show "n < 7" by (metis bit_take_bit_iff)
qed

lemma bit_offset_addr:
  assumes "w < 128"
  shows "bit (offset_addr t s + w * 4) n \<longleftrightarrow>
    n < 24 \<and> (if n < 9 then 2 \<le> n \<and> bit w (n - 2) else if n < 16 then bit s (n - 9) else bit t (n - 16))"
proof -
  have w: "w * 4 = push_bit 2 w" by (simp add: push_bit_eq_mult)
  have "offset_addr t s AND push_bit 2 w = 0"
    by (rule bit_word_eqI) (auto simp: offset_addr_def bit_simps masks dest: bit_less_128 [OF assms])
  then have "offset_addr t s + w * 4 = offset_addr t s OR push_bit 2 w"
    unfolding w by (rule disjunctive_add_eq_or)
  then show ?thesis
    by (auto simp: offset_addr_def bit_simps masks dest: bit_less_128 [OF assms])
qed

lemma decode_offset:
  assumes "w < 128"
  shows "cache_tag_of (word_addr (offset_addr t s + w * 4)) = ucast t"
    and "cache_set_idx_of (word_addr (offset_addr t s + w * 4)) = ucast s"
  by (rule bit_word_eqI;
      simp add: cache_tag_of_def cache_set_idx_of_def word_addr_def bit_simps bit_offset_addr [OF assms]
        del: ucast_drop_bit_eq)+

section \<open>Sequences of reads\<close>

text \<open>A set of the tag store holds the tags \<open>q\<close>, oldest first.\<close>

definition set_holds :: "7 word \<Rightarrow> u8 list \<Rightarrow> cache \<Rightarrow> bool" where
  "set_holds s q c \<longleftrightarrow> vtag_wf (c s) \<and> vtag_content (c s) = q"

lemma read_in_set:
  assumes "set_holds s q c" and "cache_set_idx_of a = s"
  shows "fst (cache_read c a) = (cache_tag_of a \<in> set q) \<and>
    set_holds s (snd (fifo_access q (cache_tag_of a))) (snd (cache_read c a))"
  using assms vtag.hit [of "c s" "cache_tag_of a"] vtag.wf_access [of "c s" "cache_tag_of a"]
    vtag.content_access [of "c s" "cache_tag_of a"]
  by (simp add: cache_read_def set_holds_def split_beta Let_def)

text \<open>Reads that stay in one set see the hits of a queue of tags.\<close>

lemma reads_in_set:
  assumes "set_holds s q c" and "list_all (\<lambda>a. cache_set_idx_of a = s) as"
  shows "fst (lookups cache_read c as) = fst (lookups fifo_access q (map cache_tag_of as))"
  using assms
proof (induction as arbitrary: q c)
  case (Cons a as)
  let ?t = "cache_tag_of a"
  have a: "fst (cache_read c a) = (?t \<in> set q)" "set_holds s (snd (fifo_access q ?t)) (snd (cache_read c a))"
    using read_in_set [of s q c a] Cons.prems by simp_all
  have "fst (fifo_access q ?t) = (?t \<in> set q)" by (simp add: fifo_access_def)
  with a(1) Cons.IH [OF a(2)] Cons.prems(2) show ?case by simp
qed simp

text \<open>What \<open>check_hit\<close> answers for a sequence of pairs of a set index and a block index.\<close>

primrec predict :: "perf_tables \<Rightarrow> (u32 \<times> u32) list \<Rightarrow> (u32 list \<times> perf_tables) option" where
  "predict g [] = Some ([], g)"
| "predict g (p # ps) = (case check_hit g (fst p) (snd p) of
     None \<Rightarrow> None
   | Some (r, g') \<Rightarrow> map_option (\<lambda>(rs, g''). (r # rs, g'')) (predict g' ps))"

text \<open>The address of a word of a block: set index, block index, word number.\<close>

definition read_addr :: "perf_tables \<Rightarrow> u32 \<times> u32 \<times> u32 \<Rightarrow> 22 word" where
  "read_addr g a = (case a of (j, i, w) \<Rightarrow>
     word_addr (offset_addr (tag_at g j i) (set_num g ! unat j) + w * 4))"

definition in_tables :: "u32 \<times> u32 \<times> u32 \<Rightarrow> bool" where
  "in_tables a = (case a of (j, i, w) \<Rightarrow> unat j < 10 \<and> unat i < 10 \<and> w < 128)"

text \<open>A row of the tables and a set of the tag store hold the same blocks, in the same order.\<close>

definition row_agrees :: "u32 \<Rightarrow> tag_row \<Rightarrow> cache \<Rightarrow> bool" where
  "row_agrees s r c \<longleftrightarrow> row_wf r \<and> vtag_wf (c (ucast s)) \<and>
     row_content r = map ucast (vtag_content (c (ucast s)))"

text \<open>The tables of the test and the tag store hold the same blocks of the ten sets.\<close>

definition agree :: "perf_tables \<Rightarrow> cache \<Rightarrow> bool" where
  "agree g c \<longleftrightarrow> perf_wf g \<and> distinct (set_num g) \<and> list_all (\<lambda>s. s < 128) (set_num g) \<and>
     list_all (list_all (\<lambda>t. t < 256)) (block_table g) \<and>
     (\<forall>j < 10. row_agrees (set_num g ! j) (rows g ! j) c)"

lemma ucast_tag: "(t :: u32) < 256 \<Longrightarrow> ucast (ucast t :: u8) = t"
  by (simp add: word_unat_eq_iff unsigned_ucast_eq take_bit_eq_mod word_less_nat_alt unat_mod)

lemma ucast_set_inj: "(s :: u32) < 128 \<Longrightarrow> s' < 128 \<Longrightarrow> (ucast s :: 7 word) = ucast s' \<longleftrightarrow> s = s'"
  by (simp add: word_unat_eq_iff unsigned_ucast_eq take_bit_eq_mod word_less_nat_alt)

lemma inj_ucast_tag: "inj (ucast :: u8 \<Rightarrow> u32)"
  by (rule injI) (simp add: word_unat_eq_iff unsigned_ucast_eq take_bit_eq_mod unsigned_less
      mod_less order.strict_trans [OF unsigned_less])

lemma fifo_access_map:
  assumes "inj f"
  shows "fifo_access (map f q) (f t) = map_prod id (map f) (fifo_access q t)"
  by (simp add: fifo_access_def inj_image_mem_iff [OF assms] map_tl)

text \<open>One read: the row hits exactly when the tag store does, and both stay in agreement.\<close>

lemma row_agrees_step:
  assumes "row_agrees s r c" and "t < 256" and "w < 128"
    and "a = word_addr (offset_addr t s + w * 4)" and "row_access r t = (h, r')"
  shows "fst (cache_read c a) = h \<and> row_agrees s r' (snd (cache_read c a)) \<and>
    (\<forall>s'. (ucast s' :: 7 word) \<noteq> ucast s \<longrightarrow> snd (cache_read c a) (ucast s') = c (ucast s'))"
proof -
  have row: "row_wf r" and vt: "vtag_wf (c (ucast s))"
    and content: "row_content r = map ucast (vtag_content (c (ucast s)))"
    using assms(1) by (simp_all add: row_agrees_def)
  have tag: "t = ucast (ucast t :: u8)" using assms(2) by (simp add: ucast_tag)
  obtain h' v where b: "vtag_access (c (ucast s)) (ucast t) = (h', v)" by fastforce
  have eq: "fifo_access (row_content r) t =
      map_prod id (map ucast) (fifo_access (vtag_content (c (ucast s))) (ucast t))"
    unfolding content fifo_access_map [OF inj_ucast_tag, symmetric] tag [symmetric] ..
  have "h' = h" and "row_content r' = map ucast (vtag_content v)"
    using row.refines [OF row, of t] vtag.refines [OF vt, of "ucast t"] row.content_access [OF row, of t]
      vtag.content_access [OF vt, of "ucast t"] eq assms(5) b by (simp_all add: prod_eq_iff)
  moreover have "row_wf r'" "vtag_wf v"
    using row.wf_access [OF row, of t] vtag.wf_access [OF vt, of "ucast t"] assms(5) b by simp_all
  ultimately show ?thesis
    by (simp add: assms(4) cache_read_def decode_offset [OF assms(3)] b row_agrees_def)
qed

lemma agree_step:
  assumes "agree g c" and "in_tables (j, i, w)"
  shows "\<exists>g'. check_hit g j i = Some (of_bool (fst (cache_read c (read_addr g (j, i, w)))), g') \<and>
    agree g' (snd (cache_read c (read_addr g (j, i, w)))) \<and>
    set_num g' = set_num g \<and> block_table g' = block_table g"
proof -
  let ?s = "set_num g ! unat j" and ?tag = "tag_at g j i" and ?a = "read_addr g (j, i, w)"
  have j: "unat j < 10" and i: "unat i < 10" and w: "w < 128"
    using assms(2) by (simp_all add: in_tables_def)
  have wf: "perf_wf g" using assms(1) by (simp add: agree_def)
  have len: "length (rows g) = 10" "length (set_num g) = 10" "length (block_table g) = 10"
    "length (block_table g ! unat j) = 10"
    using wf j by (simp_all add: perf_wf_def list_all_length)
  have agrees: "row_agrees (set_num g ! k) (rows g ! k) c" if "k < 10" for k
    using assms(1) that by (simp add: agree_def)
  have "?tag < 256" using assms(1) i j len by (auto simp: agree_def list_all_length)
  obtain h r where a: "row_access (rows g ! unat j) ?tag = (h, r)" by fastforce
  have step: "fst (cache_read c ?a) = h" "row_agrees ?s r (snd (cache_read c ?a))"
    "(ucast s' :: 7 word) \<noteq> ucast ?s \<Longrightarrow> snd (cache_read c ?a) (ucast s') = c (ucast s')" for s'
    using row_agrees_step [OF agrees [OF j] \<open>?tag < 256\<close> w _ a, of ?a] by (auto simp: read_addr_def)
  have "(ucast (set_num g ! k) :: 7 word) = ucast ?s \<longleftrightarrow> k = unat j" if "k < 10" for k
    using assms(1) that j len
    by (auto simp: agree_def list_all_length ucast_set_inj nth_eq_iff_index_eq)
  then have other: "row_agrees (set_num g ! k) (rows g ! k) (snd (cache_read c ?a))"
    if "k < 10" "k \<noteq> unat j" for k
    using agrees [OF that(1)] step(3) [of "set_num g ! k"] that by (simp add: row_agrees_def)
  let ?g = "g\<lparr>rows := (rows g)[unat j := r]\<rparr>"
  have "row_wf r" using step(2) by (simp add: row_agrees_def)
  then have "agree ?g (snd (cache_read c ?a))"
    using assms(1) perf_wf_update [OF wf, of r "unat j"] step(2) other len j
    by (auto simp: agree_def nth_list_update)
  then show ?thesis
    by (intro exI [of _ ?g]) (simp add: check_hit_access [OF wf j i] a step(1))
qed

section \<open>Properties\<close>

text \<open>C1: the predictor of the performance counter test agrees with the hardware. From any state in
  which both hold the same blocks, a sequence of reads of words of the chosen blocks makes
  \<open>check_hit\<close> answer 1 exactly at the reads that hit in the tag store, with no access outside its
  arrays, and afterwards both hold the same blocks again.\<close>

theorem predictor_agrees_with_hardware:
  assumes "agree g c" and "list_all in_tables accs"
  shows "\<exists>g'. predict g (map (\<lambda>(j, i, w). (j, i)) accs) =
      Some (map of_bool (fst (lookups cache_read c (map (read_addr g) accs))), g') \<and>
    agree g' (snd (lookups cache_read c (map (read_addr g) accs)))"
  using assms
proof (induction accs arbitrary: g c)
  case (Cons a accs)
  obtain j i w where a: "a = (j, i, w)" by (cases a)
  let ?hc = "cache_read c (read_addr g a)"
  from Cons.prems obtain g' where
    g': "check_hit g j i = Some (of_bool (fst ?hc), g')" "agree g' (snd ?hc)"
    and same: "set_num g' = set_num g" "block_table g' = block_table g"
    using agree_step [of g c j i w] a by auto
  have "read_addr g' = read_addr g" by (simp add: read_addr_def fun_eq_iff same)
  with Cons.IH [OF g'(2)] Cons.prems(2) show ?case by (auto simp: a g'(1))
qed simp

lemma sample_agree: "agree sample_tables (\<lambda>_. erased_set 0)"
proof -
  have "row_content (rows sample_tables ! j) = []" if "j < 10" for j
    using that by (simp add: sample_tables_def empty_row_def row_content_def)
  moreover have "distinct (set_num sample_tables)"
    by (simp add: sample_tables_def idx_def upt_rec)
  moreover have "list_all (\<lambda>s. s < 128) (idx 10)" "list_all (\<lambda>s. s < 256) (idx 10)"
    by (simp_all add: idx_def upt_rec)
  ultimately show ?thesis
    using sample_tables_wf perf_wf_row [OF sample_tables_wf, of 0]
    by (simp add: agree_def row_agrees_def erased_set_wf) (simp add: sample_tables_def list_all_iff)
qed

theorem predictor_agrees_with_hardware_witness:
  "\<exists>g'. predict sample_tables [(3, 7), (3, 7)] =
    Some (map of_bool (fst (lookups cache_read (\<lambda>_. erased_set 0)
      [read_addr sample_tables (3, 7, 0), read_addr sample_tables (3, 7, 127)])), g')"
  using predictor_agrees_with_hardware [OF sample_agree, of "[(3, 7, 0), (3, 7, 127)]"]
  by (auto simp: in_tables_def)

end
