(* ===== verification/TestsPerf.thy ===== *)
theory TestsPerf
  imports TestCommon Agreement
begin

text \<open>
  The tests of the performance counters, \<open>sinc_performance_counter_check\<close> and
  \<open>sinc_performance_counter_check_simple\<close>. The first keeps the tables of \<open>Predictor\<close> and compares
  the counters with its prediction after every read; the second reads five blocks of one set.
\<close>

section \<open>sinc_performance_counter_check\<close>

text \<open>The register writes, with a random nonce.\<close>

definition write_settings_rand ::
  "config \<Rightarrow> 's platform \<Rightarrow> u32 \<Rightarrow> u32 \<Rightarrow> u32 \<Rightarrow> u32 \<Rightarrow> ('s, unit) prog" where
  "write_settings_rand cfg P block_num num_blocks key_slot sram_addr_ptr = do {
     sinc P (Write_reg R_block_encr_num block_num);
     sinc P (Write_reg R_num_of_blocks num_blocks);
     sinc P (Write_reg R_block_encr_addr (K cfg SSY_HSP_SHAREDRAM_BASE_ADDR));
     sinc P (Write_reg R_block_encr_key key_slot);
     n \<leftarrow> ext P Rand;
     sinc P (Write_reg R_aes_iv_nonce_0 n);
     n \<leftarrow> ext P Rand;
     sinc P (Write_reg R_aes_iv_nonce_1 n);
     n \<leftarrow> ext P Rand;
     sinc P (Write_reg R_aes_iv_nonce_2 n);
     sinc P (Write_reg R_ext_block_base_addr sram_addr_ptr);
     sinc P (Write_reg R_ext_auth_tag_base_addr (sram_addr_ptr + tag_offset));
     hw_status P [];
     State_Monad.return ()
   }"

text \<open>Ten random sets, ten random blocks in each, and tables with no valid entry.\<close>

definition pick_sets :: "config \<Rightarrow> 's platform \<Rightarrow> ('s, u32 list) prog" where
  "pick_sets cfg P =
     for_each (idx 10) (\<lambda>i sets. pick_fresh cfg P (\<lambda>r. drop_bit 9 r AND 0x7f) sets) []"

definition pick_tags :: "config \<Rightarrow> 's platform \<Rightarrow> ('s, u32 list) prog" where
  "pick_tags cfg P =
     for_each (idx 10) (\<lambda>i tags. pick_fresh cfg P (\<lambda>r. drop_bit 16 r AND 0xff) tags) []"

text \<open>
  \<open>tag_table\<close> is not initialized by the test; as a global it starts from zero.
\<close>

definition perf_init :: "config \<Rightarrow> 's platform \<Rightarrow> ('s, perf_tables) prog" where
  "perf_init cfg P = do {
     sets \<leftarrow> pick_sets cfg P;
     blocks \<leftarrow> for_each (idx 10) (\<lambda>j blocks. do {
       tags \<leftarrow> pick_tags cfg P;
       State_Monad.return (blocks @ [tags])
     }) [];
     State_Monad.return \<lparr>set_num = sets, rows = replicate 10 empty_row, block_table = blocks\<rparr>
   }"

text \<open>Reproducible data for one block: each word is its offset plus a constant.\<close>

definition encrypt_offsets ::
  "config \<Rightarrow> 's platform \<Rightarrow> u32 \<Rightarrow> u32 \<Rightarrow> u32 \<Rightarrow> u32 \<Rightarrow> ('s, u32) prog" where
  "encrypt_offsets cfg P initial_value block_num offset errors = do {
     sinc P (Write_reg R_block_encr_num block_num);
     sinc P (Write_reg R_num_of_blocks 1);
     for_each (idx 128) (\<lambda>i u. do {
       ext P (Hw_write32 (K cfg SSY_HSP_SHAREDRAM_BASE_ADDR + i * 4) (offset + i * 4 + initial_value));
       State_Monad.return u
     }) ();
     tally_sinc P errors (Call_encrypt_block None)
   }"

definition perf_encrypt :: "config \<Rightarrow> 's platform \<Rightarrow> perf_tables \<Rightarrow> u32 \<Rightarrow> u32 \<Rightarrow> ('s, u32) prog" where
  "perf_encrypt cfg P g initial_value errors =
     for_each (idx 10) (\<lambda>j errors.
       for_each (idx 10) (\<lambda>i errors.
         let offset = offset_addr (tag_at g j i) (set_num g ! unat j) in
         encrypt_offsets cfg P initial_value (drop_bit 9 offset) offset errors) errors) errors"

text \<open>The tables, \<open>exp_hit\<close>, \<open>exp_miss\<close> and \<open>errors\<close>.\<close>

record perf_run =
  tables :: perf_tables
  exp_hit :: u32
  exp_miss :: u32
  perf_errors :: u32

text \<open>\<open>check_hit\<close> in a program: an index outside the arrays is undefined behaviour.\<close>

definition run_check_hit :: "perf_run \<Rightarrow> u32 \<Rightarrow> u32 \<Rightarrow> ('s, u32 \<times> perf_run) prog" where
  "run_check_hit st j i = (case check_hit (tables st) j i of
     None \<Rightarrow> do { halt Undefined; State_Monad.return (0, st) }
   | Some (hit, g) \<Rightarrow> State_Monad.return (hit, st\<lparr>tables := g\<rparr>))"

text \<open>Read one word and compare; a mismatch ends the test.\<close>

definition read_and_compare :: "config \<Rightarrow> 's platform \<Rightarrow> u32 \<Rightarrow> u32 \<Rightarrow> ('s, unit) prog" where
  "read_and_compare cfg P initial_value offset = do {
     rdata \<leftarrow> ext P (Hw_read32 (K cfg SSY_CPU0_MEMORY_DEF_HSP_CIRAM_ADDRESS + offset));
     let exp_rdata = offset + initial_value;
     (if rdata \<noteq> exp_rdata
      then give_up P [rdata, exp_rdata, K cfg SSY_CPU0_MEMORY_DEF_HSP_CIRAM_ADDRESS + offset]
      else State_Monad.return ())
   }"

definition check_counters :: "'s platform \<Rightarrow> perf_run \<Rightarrow> ('s, perf_run) prog" where
  "check_counters P st = do {
     errors \<leftarrow> tally_sinc P (perf_errors st) (Check_perf_counters (exp_miss st) (exp_hit st));
     State_Monad.return (st\<lparr>perf_errors := errors\<rparr>)
   }"

definition access_random_word :: "config \<Rightarrow> 's platform \<Rightarrow> u32 \<Rightarrow> u32 \<Rightarrow> perf_run \<Rightarrow> ('s, perf_run) prog" where
  "access_random_word cfg P initial_value i st = do {
     (if i mod 25 = 0 then do { hw_status P [i]; State_Monad.return () } else State_Monad.return ());
     r \<leftarrow> ext P Rand;
     let set_num_index = r mod 10;
     r \<leftarrow> ext P Rand;
     let block_table_index = r mod 10;
     r \<leftarrow> ext P Rand;
     let word_num = r mod 128;
     let set_idx = set_num (tables st) ! unat set_num_index;
     let tag = tag_at (tables st) set_num_index block_table_index;
     (hit, st) \<leftarrow> run_check_hit st set_num_index block_table_index;
     let st = (if hit \<noteq> 0 then st\<lparr>exp_hit := exp_hit st + 1\<rparr> else st\<lparr>exp_miss := exp_miss st + 1\<rparr>);
     read_and_compare cfg P initial_value (offset_addr tag set_idx + word_num * 4);
     check_counters P st
   }"

definition check_whole_block ::
  "config \<Rightarrow> 's platform \<Rightarrow> u32 \<Rightarrow> u32 \<Rightarrow> u32 \<Rightarrow> perf_run \<Rightarrow> ('s, perf_run) prog" where
  "check_whole_block cfg P initial_value j i st = do {
     (hit, st) \<leftarrow> run_check_hit st j i;
     let st = (if hit \<noteq> 0 then st\<lparr>exp_hit := exp_hit st + 128\<rparr>
       else st\<lparr>exp_miss := exp_miss st + 1, exp_hit := exp_hit st + 127\<rparr>);
     let offset = offset_addr (tag_at (tables st) j i) (set_num (tables st) ! unat j);
     for_each (idx 128) (\<lambda>k u. read_and_compare cfg P initial_value (offset + k * 4)) ();
     check_counters P st
   }"

text \<open>The two phases that follow the activation of the cache.\<close>

definition perf_accesses :: "config \<Rightarrow> 's platform \<Rightarrow> u32 \<Rightarrow> perf_run \<Rightarrow> ('s, perf_run) prog" where
  "perf_accesses cfg P initial_value st = do {
     st \<leftarrow> for_each (idx 200) (access_random_word cfg P initial_value) st;
     for_each (idx 10) (\<lambda>j st. for_each (idx 10) (\<lambda>i st. check_whole_block cfg P initial_value j i st) st) st
   }"

definition print_counters :: "'s platform \<Rightarrow> ('s, unit) prog" where
  "print_counters P = do {
     u \<leftarrow> sinc P (Read_reg R_hit_cntr_upper);
     l \<leftarrow> sinc P (Read_reg R_hit_cntr_lower);
     hw_status P [u, l];
     u \<leftarrow> sinc P (Read_reg R_miss_cntr_upper);
     l \<leftarrow> sinc P (Read_reg R_miss_cntr_lower);
     hw_status P [u, l];
     u \<leftarrow> sinc P (Read_reg R_lat_cntr_upper);
     l \<leftarrow> sinc P (Read_reg R_lat_cntr_lower);
     hw_status P [u, l];
     State_Monad.return ()
   }"

definition enable_counters :: "config \<Rightarrow> 's platform \<Rightarrow> ('s, unit) prog" where
  "enable_counters cfg P = do {
     sinc P (Write_reg R_perf_cntr_ctrl (K cfg SINC_PERF_HIT_CNTR_EN OR K cfg SINC_PERF_MISS_CNTR_EN
       OR K cfg SINC_PERF_LAT_CNTR_EN));
     State_Monad.return ()
   }"

definition performance_counter_check_RUN_TEST :: "config \<Rightarrow> 's platform \<Rightarrow> ('s, unit) prog" where
  "performance_counter_check_RUN_TEST cfg P = do {
     sinc P New_SINC_DRIVER;
     ext P New_DMB_DRIVER;
     let errors = 0;
     rng_start cfg P;
     sram_addr_ptr \<leftarrow> acquire_sram cfg P;
     ccs_cmd_buf \<leftarrow> alloc_cmd_buf cfg P;
     ext P (New_CCS_DRIVER ccs_cmd_buf 0 0 0);
     errors \<leftarrow> gen_key cfg P errors 0;
     write_settings_rand cfg P 0 16 0 sram_addr_ptr;
     s \<leftarrow> sinc P (Read_reg R_status);
     hw_status P [s];
     errors \<leftarrow> tally_sinc P errors (Transition_to_initialized None);
     g \<leftarrow> perf_init cfg P;
     initial_value \<leftarrow> ext P Rand;
     errors \<leftarrow> perf_encrypt cfg P g initial_value errors;
     errors \<leftarrow> tally_sinc P errors (Transition_to_cache_active None);
     enable_counters cfg P;
     a \<leftarrow> sinc P (Read_reg R_miss_cntr_lower);
     hw_status P [0, a];
     a \<leftarrow> sinc P (Read_reg R_hit_cntr_lower);
     hw_status P [0, a];
     hw_status P [];
     st \<leftarrow> perf_accesses cfg P initial_value
       \<lparr>tables = g, exp_hit = 0, exp_miss = 0, perf_errors = errors\<rparr>;
     print_counters P;
     report P (perf_errors st)
   }"

section \<open>sinc_performance_counter_check_simple\<close>

text \<open>
  \<open>check_block\<close> works on the globals \<open>exp_miss\<close> and \<open>exp_hit\<close>, a pair here. The register is read a
  second time for the message.
\<close>

definition check_block ::
  "config \<Rightarrow> 's platform \<Rightarrow> u32 \<Rightarrow> u32 \<Rightarrow> u32 \<Rightarrow> u32 \<times> u32 \<Rightarrow> ('s, u32 \<times> u32 \<times> u32) prog" where
  "check_block cfg P block_num is_hit initial_value g = do {
     let errors = 0;
     let exp_miss = (if is_hit \<noteq> 0 then fst g else fst g + 1);
     let exp_hit = (if is_hit \<noteq> 0 then snd g + 1 else snd g);
     let offset_addr = push_bit 16 block_num;
     hw_status P [offset_addr + K cfg SSY_CPU0_MEMORY_DEF_HSP_CIRAM_ADDRESS];
     rdata \<leftarrow> ext P (Hw_read32 (K cfg SSY_CPU0_MEMORY_DEF_HSP_CIRAM_ADDRESS + offset_addr));
     let exp_rdata = offset_addr + initial_value;
     errors \<leftarrow> (if rdata \<noteq> exp_rdata then do {
         hw_errmsg P [rdata, exp_rdata, K cfg SSY_CPU0_MEMORY_DEF_HSP_CIRAM_ADDRESS + offset_addr];
         State_Monad.return (errors + 1)
       } else State_Monad.return errors);
     miss \<leftarrow> sinc P (Read_reg R_miss_cntr_lower);
     errors \<leftarrow> (if miss \<noteq> exp_miss then do {
         again \<leftarrow> sinc P (Read_reg R_miss_cntr_lower);
         hw_errmsg P [exp_miss, again];
         State_Monad.return (errors + 1)
       } else do {
         again \<leftarrow> sinc P (Read_reg R_miss_cntr_lower);
         hw_status P [exp_miss, again];
         State_Monad.return errors
       });
     hit \<leftarrow> sinc P (Read_reg R_hit_cntr_lower);
     errors \<leftarrow> (if hit \<noteq> exp_hit then do {
         again \<leftarrow> sinc P (Read_reg R_hit_cntr_lower);
         hw_errmsg P [exp_hit, again];
         State_Monad.return (errors + 1)
       } else do {
         again \<leftarrow> sinc P (Read_reg R_hit_cntr_lower);
         hw_status P [exp_hit, again];
         State_Monad.return errors
       });
     State_Monad.return (errors, exp_miss, exp_hit)
   }"

text \<open>\<open>errors += check_block(...)\<close>, on the counter and the globals.\<close>

definition add_check_block ::
  "config \<Rightarrow> 's platform \<Rightarrow> u32 \<Rightarrow> u32 \<Rightarrow> u32 \<Rightarrow> u32 \<times> u32 \<times> u32 \<Rightarrow> ('s, u32 \<times> u32 \<times> u32) prog" where
  "add_check_block cfg P initial_value is_hit block_num st = do {
     r \<leftarrow> check_block cfg P block_num is_hit initial_value (snd st);
     State_Monad.return (fst st + fst r, snd r)
   }"

text \<open>The ten reads: five misses, four hits, one miss.\<close>

definition simple_accesses ::
  "config \<Rightarrow> 's platform \<Rightarrow> u32 \<Rightarrow> u32 \<times> u32 \<times> u32 \<Rightarrow> ('s, u32 \<times> u32 \<times> u32) prog" where
  "simple_accesses cfg P initial_value st = do {
     st \<leftarrow> for_each (idx 5) (add_check_block cfg P initial_value 0) st;
     st \<leftarrow> for_each (tl (idx 5)) (add_check_block cfg P initial_value 1) st;
     add_check_block cfg P initial_value 0 0 st
   }"

text \<open>
  The assignments \<open>exp_miss = 0; exp_hit = 0;\<close> of \<open>RUN_TEST\<close> are to local variables that shadow the
  globals, so the globals are an argument and a result here.
\<close>

definition performance_counter_check_simple_RUN_TEST ::
  "config \<Rightarrow> 's platform \<Rightarrow> u32 \<times> u32 \<Rightarrow> ('s, u32 \<times> u32) prog" where
  "performance_counter_check_simple_RUN_TEST cfg P globals = do {
     sinc P New_SINC_DRIVER;
     ext P New_DMB_DRIVER;
     let errors = 0;
     rng_start cfg P;
     sram_addr_ptr \<leftarrow> acquire_sram cfg P;
     ccs_cmd_buf \<leftarrow> alloc_cmd_buf cfg P;
     ext P (New_CCS_DRIVER ccs_cmd_buf 0 0 0);
     errors \<leftarrow> gen_key cfg P errors 0;
     write_settings_rand cfg P 0 1 0 sram_addr_ptr;
     s \<leftarrow> sinc P (Read_reg R_status);
     hw_status P [s];
     errors \<leftarrow> tally_sinc P errors (Transition_to_initialized None);
     initial_value \<leftarrow> ext P Rand;
     errors \<leftarrow> for_each (idx 5) (\<lambda>i errors.
       let offset = push_bit 16 i in
       encrypt_offsets cfg P initial_value (drop_bit 9 offset) offset errors) errors;
     errors \<leftarrow> tally_sinc P errors (Transition_to_cache_active None);
     enable_counters cfg P;
     a \<leftarrow> sinc P (Read_reg R_miss_cntr_lower);
     hw_status P [0, a];
     a \<leftarrow> sinc P (Read_reg R_hit_cntr_lower);
     hw_status P [0, a];
     st \<leftarrow> simple_accesses cfg P initial_value (errors, globals);
     report P (fst st);
     State_Monad.return (snd st)
   }"

section \<open>Accounting\<close>

lemma acct_case_prod [acct_intros]:
  "(\<And>a b. v = (a, b) \<Longrightarrow> acct w x (q a b) f) \<Longrightarrow> acct w x (case v of (a, b) \<Rightarrow> q a b) f"
  by (cases v) simp

lemma acct_write_settings_rand [acct_intros]:
  "acct (counting ign) x (write_settings_rand cfg P b n k a) (\<lambda>_. x)"
  unfolding write_settings_rand_def by (rule acct_intros | simp)+

lemma acct_print_counters [acct_intros]: "acct (counting ign) x (print_counters P) (\<lambda>_. x)"
  unfolding print_counters_def by (rule acct_intros | simp)+

lemma acct_enable_counters [acct_intros]: "acct (counting ign) x (enable_counters cfg P) (\<lambda>_. x)"
  unfolding enable_counters_def by (rule acct_intros | simp)+

lemma acct_perf_init [acct_intros]: "acct (counting ign) x (perf_init cfg P) (\<lambda>_. x)"
  unfolding perf_init_def pick_sets_def pick_tags_def
  by (rule acct_bind acct_for_each [where f = "\<lambda>_. x"] acct_pick_fresh acct_return | simp)+

lemma acct_encrypt_offsets [acct_intros]:
  "\<not> ign (Sinc (Call_encrypt_block None)) \<Longrightarrow>
   acct (counting ign) x (encrypt_offsets cfg P v b a x) (\<lambda>v. v)"
  unfolding encrypt_offsets_def by (rule acct_intros | simp)+

lemma acct_perf_encrypt [acct_intros]:
  "\<not> ign (Sinc (Call_encrypt_block None)) \<Longrightarrow>
   acct (counting ign) x (perf_encrypt cfg P g v x) (\<lambda>v. v)"
  unfolding perf_encrypt_def by (rule acct_intros | simp)+

lemma acct_run_check_hit:
  "acct w (perf_errors st) (run_check_hit st j i) (\<lambda>r. perf_errors (snd r))"
  unfolding run_check_hit_def
  by (cases "check_hit (tables st) j i")
    (auto intro: acct_return acct_bind [OF acct_halt_Undefined [where f = "\<lambda>_. perf_errors st"] acct_return])

lemma acct_read_and_compare [acct_intros]:
  "(\<And>a. \<not> ign (Hw_errmsg a)) \<Longrightarrow> acct (counting ign) x (read_and_compare cfg P v a) (\<lambda>_. x)"
  unfolding read_and_compare_def by (rule acct_intros | simp)+

lemma acct_check_counters:
  "(\<And>a b. \<not> ign (Sinc (Check_perf_counters a b))) \<Longrightarrow>
   acct (counting ign) (perf_errors st) (check_counters P st) perf_errors"
  unfolding check_counters_def by (rule acct_bind [OF acct_tally_id] acct_return | simp)+

lemma acct_when_status [acct_intros]:
  "acct (counting ign) x (if b then do { hw_status P a; State_Monad.return () } else State_Monad.return ()) (\<lambda>_. x)"
  by (rule acct_intros | simp)+

lemma acct_access_random_word:
  assumes "\<And>a. \<not> ign (Hw_errmsg a)" and "\<And>a b. \<not> ign (Sinc (Check_perf_counters a b))"
  shows "acct (counting ign) (perf_errors st) (access_random_word cfg P v i st) perf_errors"
proof -
  have cont: "perf_errors st' = e \<Longrightarrow> acct (counting ign) e (do {
      read_and_compare cfg P v a;
      check_counters P st' }) perf_errors" for st' a e
    using assms by (hypsubst, intro acct_bind [OF acct_read_and_compare acct_check_counters]) auto
  show ?thesis
    unfolding access_random_word_def Let_def
    by (rule acct_bind [OF acct_when_status] acct_bind [OF acct_ext_silent] acct_bind [OF acct_run_check_hit]
        acct_case_prod | simp)+ (auto intro: cont)
qed

lemma acct_check_whole_block:
  assumes "\<And>a. \<not> ign (Hw_errmsg a)" and "\<And>a b. \<not> ign (Sinc (Check_perf_counters a b))"
  shows "acct (counting ign) (perf_errors st) (check_whole_block cfg P v j i st) perf_errors"
proof -
  have cont: "perf_errors st' = e \<Longrightarrow> acct (counting ign) e (do {
      for_each ks (\<lambda>k u. read_and_compare cfg P v (a + k * 4)) ();
      check_counters P st' }) perf_errors" for st' a ks e
    using assms
    by (hypsubst, intro acct_bind [OF acct_for_each_unit acct_check_counters] acct_read_and_compare) auto
  show ?thesis
    unfolding check_whole_block_def Let_def
    by (rule acct_bind [OF acct_run_check_hit] acct_case_prod | simp)+ (auto intro: cont)
qed

lemma acct_perf_accesses:
  assumes "\<And>a. \<not> ign (Hw_errmsg a)" and "\<And>a b. \<not> ign (Sinc (Check_perf_counters a b))"
  shows "acct (counting ign) (perf_errors st) (perf_accesses cfg P v st) perf_errors"
  unfolding perf_accesses_def
  by (intro acct_bind [where f = perf_errors] acct_for_each acct_access_random_word
      acct_check_whole_block assms)

lemma acct_check_block:
  assumes "\<And>a. \<not> ign (Hw_errmsg a)"
  shows "acct (counting ign) x (check_block cfg P b h v g) (\<lambda>r. x + fst r)"
  unfolding check_block_def Let_def
  by (rule acct_sub_start) (rule acct_sub_intros acct_bind acct_return | simp add: assms)+

lemma acct_add_check_block:
  assumes "\<And>a. \<not> ign (Hw_errmsg a)"
  shows "acct (counting ign) (fst st) (add_check_block cfg P v h b st) fst"
  unfolding add_check_block_def
  by (rule acct_bind [OF acct_check_block acct_return]) (simp_all add: assms)

lemma acct_simple_accesses:
  assumes "\<And>a. \<not> ign (Hw_errmsg a)"
  shows "acct (counting ign) (fst st) (simple_accesses cfg P v st) fst"
  unfolding simple_accesses_def
  by (intro acct_bind [where f = fst] acct_for_each acct_add_check_block assms)

lemma acct_done_bind_return:
  "acct_done w x p \<Longrightarrow> acct_done w x (State_Monad.bind p (\<lambda>_. State_Monad.return v))"
  by (auto simp: acct_done_def acctR_def frozen_def outcome_def split_beta)

lemma acct_perf_test:
  "acct_done (counting nothing_ignored) 0 (performance_counter_check_RUN_TEST cfg P)"
  unfolding performance_counter_check_RUN_TEST_def
  by (rule acct_intros acct_done_bind [OF acct_perf_accesses [of nothing_ignored
        "\<lparr>tables = _, exp_hit = 0, exp_miss = 0, perf_errors = _\<rparr>", simplified]] | simp)+

lemma acct_simple_test:
  "acct_done (counting nothing_ignored) 0 (performance_counter_check_simple_RUN_TEST cfg P globals)"
  unfolding performance_counter_check_simple_RUN_TEST_def
  by (rule acct_intros acct_done_bind_return [OF counting.acct_done_report]
      acct_done_bind [OF acct_simple_accesses [of nothing_ignored "(_, globals)", simplified]] | simp)+

section \<open>Triples on tables\<close>

text \<open>A fact that the precondition implies may be used in the proof of the triple.\<close>

lemma triple_fact: "(\<And>m. A m \<Longrightarrow> phi) \<Longrightarrow> (phi \<Longrightarrow> triple A p B) \<Longrightarrow> triple A p B"
  by (auto simp: triple_def)

lemma triple_value:
  "triple A p (\<lambda>v m. v = c \<and> B m) \<Longrightarrow> (\<And>m. B m \<Longrightarrow> Q c m) \<Longrightarrow> triple A p Q"
  by (fastforce simp: triple_def split: prod.splits)

text \<open>The words of the chosen blocks hold their offset plus a constant.\<close>

definition stored :: "perf_tables \<Rightarrow> u32 \<Rightarrow> (u32 \<Rightarrow> u32) \<Rightarrow> bool" where
  "stored g v f \<longleftrightarrow> (\<forall>j i w. in_tables (j, i, w) \<longrightarrow>
     f (offset_addr (tag_at g j i) (set_num g ! unat j) + w * 4) =
       offset_addr (tag_at g j i) (set_num g ! unat j) + w * 4 + v)"

lemma check_hit_same:
  "perf_wf g \<Longrightarrow> unat j < 10 \<Longrightarrow> unat i < 10 \<Longrightarrow> check_hit g j i = Some (x, g') \<Longrightarrow>
   set_num g' = set_num g \<and> block_table g' = block_table g"
  by (auto simp: check_hit_access Let_def split: prod.splits)

lemma check_hit_again:
  assumes "perf_wf g" and "unat j < 10" and "unat i < 10" and "check_hit g j i = Some (x, g')"
  shows "perf_wf g' \<and> check_hit g' j i = Some (1, g')"
proof -
  let ?r = "rows g ! unat j" and ?t = "tag_at g j i"
  obtain h r where a: "row_access ?r ?t = (h, r)" by fastforce
  have wf: "row_wf ?r" by (rule perf_wf_row [OF assms(1,2)])
  have g': "g' = g\<lparr>rows := (rows g)[unat j := r]\<rparr>" using assms by (simp add: check_hit_access a)
  have "row_wf r" using row.wf_access [OF wf, of ?t] a by simp
  then have wf': "perf_wf g'" unfolding g' by (rule perf_wf_update [OF assms(1)])
  have "unat j < length (rows g)" using assms by (simp add: perf_wf_def)
  then have r: "rows g' ! unat j = r" by (simp add: g')
  obtain r' where again: "row_access r ?t = (True, r')"
    using row.hits_again [OF wf, of ?t] a by (cases "row_access r ?t") simp
  then have "r' = r" by (simp add: row_access_def split: if_splits)
  with again wf' show ?thesis
    using assms(2,3) by (simp add: check_hit_access r) (simp add: g')
qed

text \<open>Reads of the first words of blocks of set 0, which holds the tags \<open>q\<close>.\<close>

lemma read_set_0:
  assumes "set_holds 0 q c" and "b < 256"
  shows "fst (cache_read c (word_addr (push_bit 16 b))) = (ucast b \<in> set q) \<and>
    set_holds 0 (snd (fifo_access q (ucast b))) (snd (cache_read c (word_addr (push_bit 16 b))))"
proof -
  have "push_bit 16 b = offset_addr b 0 + 0 * 4"
    using assms(2) by (simp add: offset_addr_def and_0xff)
  with read_in_set [OF assms(1), of "word_addr (push_bit 16 b)"] decode_offset [of 0 b 0]
  show ?thesis by simp
qed

section \<open>The cached memory\<close>

text \<open>
  What the tests rely on in the hardware while the cache is active: a read of a word of the cached
  memory returns the word and is a look-up in the tag store, each look-up is counted as a hit or as
  a miss, the counter registers and \<open>check_perf_counters\<close> show the counts, and printing and
  drawing random numbers do not touch any of it.
\<close>

locale cached_memory =
  fixes cfg :: config and P :: "'s platform" and tags :: "'s \<Rightarrow> cache"
    and hits misses :: "'s \<Rightarrow> u32" and content :: "'s \<Rightarrow> u32 \<Rightarrow> u32"
  assumes read:
    "w < 128 \<Longrightarrow> a = offset_addr t s + w * 4 \<Longrightarrow> cache_read (tags d) (word_addr a) = (hit, c) \<Longrightarrow>
     reply P (Hw_read32 (K cfg SSY_CPU0_MEMORY_DEF_HSP_CIRAM_ADDRESS + a)) d = (r, d') \<Longrightarrow>
     r = content d a \<and> tags d' = c \<and> content d' = content d \<and>
     hits d' = hits d + of_bool hit \<and> misses d' = misses d + of_bool (\<not> hit)"
    and check: "reply P (Sinc (Check_perf_counters m h)) d = (r, d') \<Longrightarrow>
     (r = 0 \<longleftrightarrow> m = misses d \<and> h = hits d) \<and>
     tags d' = tags d \<and> content d' = content d \<and> hits d' = hits d \<and> misses d' = misses d"
    and counter: "q \<in> {R_hit_cntr_lower, R_miss_cntr_lower} \<Longrightarrow> reply P (Sinc (Read_reg q)) d = (r, d') \<Longrightarrow>
     r = (if q = R_hit_cntr_lower then hits d else misses d) \<and>
     tags d' = tags d \<and> content d' = content d \<and> hits d' = hits d \<and> misses d' = misses d"
    and quiet: "call = Rand \<or> call = Hw_status args \<Longrightarrow> reply P call d = (r, d') \<Longrightarrow>
     tags d' = tags d \<and> content d' = content d \<and> hits d' = hits d \<and> misses d' = misses d"
begin

text \<open>
  The machine runs, has given the verdicts \<open>V\<close>, its tag store and counters are known and its memory
  holds \<open>f\<close>.
\<close>

definition cached where
  "cached V f C h n m \<longleftrightarrow> status m = Running \<and> verdicts (log m) = V \<and> C (tags (dev m)) \<and>
     hits (dev m) = h \<and> misses (dev m) = n \<and> content (dev m) = f"

lemma cached_quiet:
  assumes "c = Rand \<or> c = Hw_status args"
  shows "triple (cached V f C h n) (ext P c) (\<lambda>_. cached V f C h n)"
proof (rule triple_ext)
  fix m
  assume A: "cached V f C h n m"
  then show "status m = Running" by (simp add: cached_def)
  show "cached V f C h n (m\<lparr>dev := snd (reply P c (dev m)), log := (c, fst (reply P c (dev m))) # log m\<rparr>)"
    using A quiet [OF assms, of "dev m" "fst (reply P c (dev m))" "snd (reply P c (dev m))"] assms
    by (auto simp: cached_def verdicts_Cons_other)
qed

lemmas cached_status = cached_quiet [OF disjI2 [OF refl]]

lemma cached_read:
  assumes "w < 128" and "a = offset_addr t s + w * 4"
    and "\<And>c. C c \<Longrightarrow> fst (cache_read c (word_addr a)) = hit \<and> C' (snd (cache_read c (word_addr a)))"
  shows "triple (cached V f C h n) (ext P (Hw_read32 (K cfg SSY_CPU0_MEMORY_DEF_HSP_CIRAM_ADDRESS + a)))
    (\<lambda>r m. r = f a \<and> cached V f C' (h + of_bool hit) (n + of_bool (\<not> hit)) m)"
proof (rule triple_ext)
  fix m
  let ?c = "Hw_read32 (K cfg SSY_CPU0_MEMORY_DEF_HSP_CIRAM_ADDRESS + a)"
  assume A: "cached V f C h n m"
  then show "status m = Running" by (simp add: cached_def)
  show "fst (reply P ?c (dev m)) = f a \<and> cached V f C' (h + of_bool hit) (n + of_bool (\<not> hit))
      (m\<lparr>dev := snd (reply P ?c (dev m)), log := (?c, fst (reply P ?c (dev m))) # log m\<rparr>)"
  proof -
    obtain r d' where rd: "reply P ?c (dev m) = (r, d')" by fastforce
    have "C (tags (dev m))" using A by (simp add: cached_def)
    from assms(3) [OF this] obtain c where c: "cache_read (tags (dev m)) (word_addr a) = (hit, c)" "C' c"
      by (cases "cache_read (tags (dev m)) (word_addr a)") auto
    from read [OF assms(1,2) c(1) rd] A c(2) show ?thesis
      by (simp add: rd cached_def verdicts_Cons_other)
  qed
qed

lemma cached_check:
  "triple (cached V f C h n) (tally_sinc P e (Check_perf_counters n h))
     (\<lambda>v m. v = e \<and> cached V f C h n m)"
proof -
  have "triple (cached V f C h n) (ext P (Sinc (Check_perf_counters n h)))
      (\<lambda>r m. r = 0 \<and> cached V f C h n m)"
  proof (rule triple_ext)
    fix m
    let ?c = "Sinc (Check_perf_counters n h)"
    assume A: "cached V f C h n m"
    then show "status m = Running" by (simp add: cached_def)
    show "fst (reply P ?c (dev m)) = 0 \<and> cached V f C h n
        (m\<lparr>dev := snd (reply P ?c (dev m)), log := (?c, fst (reply P ?c (dev m))) # log m\<rparr>)"
      using A check [of n h "dev m" "fst (reply P ?c (dev m))" "snd (reply P ?c (dev m))"]
      by (auto simp: cached_def verdicts_Cons_other)
  qed
  then show ?thesis
    unfolding tally_def by (rule triple_bind) (auto intro: triple_return)
qed

lemma cached_counter:
  assumes "q \<in> {R_hit_cntr_lower, R_miss_cntr_lower}"
  shows "triple (cached V f C h n) (ext P (Sinc (Read_reg q)))
    (\<lambda>r m. r = (if q = R_hit_cntr_lower then h else n) \<and> cached V f C h n m)"
proof (rule triple_ext)
  fix m
  let ?c = "Sinc (Read_reg q)"
  assume A: "cached V f C h n m"
  then show "status m = Running" by (simp add: cached_def)
  show "fst (reply P ?c (dev m)) = (if q = R_hit_cntr_lower then h else n) \<and> cached V f C h n
      (m\<lparr>dev := snd (reply P ?c (dev m)), log := (?c, fst (reply P ?c (dev m))) # log m\<rparr>)"
    using A counter [OF assms, of "dev m" "fst (reply P ?c (dev m))" "snd (reply P ?c (dev m))"]
    by (auto simp: cached_def verdicts_Cons_other)
qed

lemma read_and_compare_ok:
  assumes "in_tables (j, i, w)" and "check_hit g j i = Some (x, g')" and "stored g v f"
    and "a = offset_addr (tag_at g j i) (set_num g ! unat j) + w * 4"
  shows "triple (cached V f (agree g) h n) (read_and_compare cfg P v a)
    (\<lambda>_. cached V f (agree g') (h + of_bool (x \<noteq> 0)) (n + of_bool (x = 0)))"
proof -
  have w: "w < 128" using assms(1) by (simp add: in_tables_def)
  have fa: "f a = a + v" using assms(1,3,4) by (simp add: stored_def)
  have "fst (cache_read c (word_addr a)) = (x \<noteq> 0) \<and> agree g' (snd (cache_read c (word_addr a)))"
    if "agree g c" for c
    using agree_step [OF that assms(1)] assms(2,4) by (auto simp: read_addr_def of_bool_def split: if_splits)
  from cached_read [OF w assms(4) this, where V = V and f = f and h = h and n = n]
  have "triple (cached V f (agree g) h n) (ext P (Hw_read32 (K cfg SSY_CPU0_MEMORY_DEF_HSP_CIRAM_ADDRESS + a)))
    (\<lambda>r m. r = f a \<and> cached V f (agree g') (h + of_bool (x \<noteq> 0)) (n + of_bool (x = 0)) m)" by simp
  then show ?thesis
    unfolding read_and_compare_def Let_def
    by (rule triple_bind) (auto intro: triple_fact triple_return simp: fa)
qed

text \<open>The tables, the counters and the expected counts of a run belong together.\<close>

definition in_phase where
  "in_phase V f v e st m \<longleftrightarrow> stored (tables st) v f \<and> perf_errors st = e \<and>
     cached V f (agree (tables st)) (exp_hit st) (exp_miss st) m"

lemma counters_ok:
  assumes "stored (tables st) v f" and "perf_errors st = e"
  shows "triple (cached V f (agree (tables st)) (exp_hit st) (exp_miss st)) (check_counters P st)
    (in_phase V f v e)"
  unfolding check_counters_def
  by (rule triple_bind_value [OF cached_check [where e = "perf_errors st"]] triple_return)+
    (use assms in \<open>simp add: in_phase_def\<close>)

lemma phase_check_hit:
  assumes "unat j < 10" and "unat i < 10"
    and "\<And>x g'. check_hit (tables st) j i = Some (x, g') \<Longrightarrow> stored g' v f \<Longrightarrow> perf_wf g' \<Longrightarrow>
      set_num g' = set_num (tables st) \<Longrightarrow> block_table g' = block_table (tables st) \<Longrightarrow>
      triple (in_phase V f v e st) (q (x, st\<lparr>tables := g'\<rparr>)) B"
  shows "triple (in_phase V f v e st) (State_Monad.bind (run_check_hit st j i) q) B"
proof (rule triple_fact)
  fix m
  assume "in_phase V f v e st m"
  then show "perf_wf (tables st) \<and> stored (tables st) v f"
    by (simp add: in_phase_def cached_def agree_def)
next
  assume A: "perf_wf (tables st) \<and> stored (tables st) v f"
  then obtain x g' where x: "check_hit (tables st) j i = Some (x, g')"
    using check_hit_access [of "tables st" j i] assms(1,2) by (auto simp: Let_def split: prod.splits)
  with A have "set_num g' = set_num (tables st)" "block_table g' = block_table (tables st)" "perf_wf g'"
    using check_hit_same [of "tables st" j i x g'] check_hit_again [of "tables st" j i x g'] assms(1,2) by simp_all
  with A have "stored g' v f" by (simp add: stored_def)
  have "State_Monad.bind (run_check_hit st j i) q = q (x, st\<lparr>tables := g'\<rparr>)"
    by (simp add: run_check_hit_def x)
  with assms(3) [OF x \<open>stored g' v f\<close> \<open>perf_wf g'\<close>] \<open>set_num g' = _\<close> \<open>block_table g' = _\<close>
  show "triple (in_phase V f v e st) (State_Monad.bind (run_check_hit st j i) q) B" by simp
qed

lemma phase_quiet:
  "c = Rand \<or> c = Hw_status args \<Longrightarrow> triple (in_phase V f v e st) (ext P c) (\<lambda>_. in_phase V f v e st)"
  unfolding in_phase_def
  using cached_quiet [of c args V f "agree (tables st)" "exp_hit st" "exp_miss st"]
  by (auto simp: triple_def split_beta)

lemma mod_10: "unat (r mod 10 :: u32) < 10"
  by (simp add: unat_mod)

lemma access_random_word_ok:
  "triple (in_phase V f v e st) (access_random_word cfg P v i st) (in_phase V f v e)"
proof -
  have word: "(r :: u32) mod 128 < 128" for r by (simp add: word_less_nat_alt unat_mod)
  have read: "triple (in_phase V f v e st) (do {
      read_and_compare cfg P v (offset_addr (tag_at (tables st) (j mod 10) (b mod 10))
        (set_num (tables st) ! unat (j mod 10)) + w mod 128 * 4);
      check_counters P (if x \<noteq> 0 then st\<lparr>tables := g', exp_hit := exp_hit st + 1\<rparr>
        else st\<lparr>tables := g', exp_miss := exp_miss st + 1\<rparr>) }) (in_phase V f v e)"
    if x: "check_hit (tables st) (j mod 10) (b mod 10) = Some (x, g')" and g': "stored g' v f"
    for j b w x g'
  proof (rule triple_fact)
    fix m
    assume "in_phase V f v e st m"
    then show "stored (tables st) v f \<and> perf_errors st = e" by (simp add: in_phase_def)
  next
    assume A: "stored (tables st) v f \<and> perf_errors st = e"
    then have pre: "in_phase V f v e st = cached V f (agree (tables st)) (exp_hit st) (exp_miss st)"
      by (simp add: in_phase_def fun_eq_iff)
    have "in_tables (j mod 10, b mod 10, w mod 128)" by (simp add: in_tables_def mod_10 word)
    from read_and_compare_ok [OF this x conjunct1 [OF A] refl, of V "exp_hit st" "exp_miss st"]
    show ?thesis
      unfolding pre
      by (rule triple_bind)
        (use counters_ok [of "st\<lparr>tables := g', exp_hit := exp_hit st + 1\<rparr>" v f e V] g' A
          counters_ok [of "st\<lparr>tables := g', exp_miss := exp_miss st + 1\<rparr>" v f e V] in auto)
  qed
  show ?thesis
    unfolding access_random_word_def Let_def
    apply (rule triple_bind [where B = "\<lambda>_. in_phase V f v e st"])
     apply (auto intro: triple_bind [OF phase_quiet] triple_return)[1]
    apply (rule triple_bind [OF phase_quiet], simp)+
    apply (rule phase_check_hit [OF mod_10 mod_10])
    subgoal for _ j b w x g' using read [of j b x g' w] by (cases "x = 0") simp_all
    done
qed

text \<open>The 128 reads of a block: the first as predicted, the others hits.\<close>

lemma read_block_ok:
  assumes "unat j < 10" and "unat i < 10" and "perf_wf g" and "check_hit g j i = Some (x, g')"
    and "stored g v f"
  shows "triple (cached V f (agree g) h n)
    (for_each (idx 128) (\<lambda>k u. read_and_compare cfg P v
      (offset_addr (tag_at g' j i) (set_num g' ! unat j) + k * 4)) ())
    (\<lambda>_. cached V f (agree g') (h + (if x \<noteq> 0 then 128 else 127)) (n + of_bool (x = 0)))"
proof -
  have same: "set_num g' = set_num g" "block_table g' = block_table g"
    and again: "check_hit g' j i = Some (1, g')"
    using check_hit_same [OF assms(3,1,2,4)] check_hit_again [OF assms(3,1,2,4)] by simp_all
  have st': "stored g' v f" using assms(5) by (simp add: stored_def same)
  have less: "(word_of_nat k :: u32) < 128" if "k < 128" for k
    using that by (simp add: word_less_nat_alt unat_of_nat)
  define J :: "nat \<Rightarrow> unit \<Rightarrow> 's mach \<Rightarrow> bool" where "J k = (\<lambda>_ :: unit. if k = 0 then cached V f (agree g) h n
    else cached V f (agree g') (h + of_bool (x \<noteq> 0) + word_of_nat (k - 1)) (n + of_bool (x = 0)))" for k
  have "triple (J k u) (read_and_compare cfg P v
      (offset_addr (tag_at g' j i) (set_num g' ! unat j) + idx 128 ! k * 4)) (J (Suc k))"
    if "k < length (idx 128)" for k u
  proof (cases k)
    case 0
    then show ?thesis
      using read_and_compare_ok [OF _ assms(4,5) refl, of 0 V h n] assms(1,2)
      by (simp add: J_def same in_tables_def)
  next
    case (Suc l)
    have "in_tables (j, i, word_of_nat k)" using assms(1,2) that less [of k] by (simp add: in_tables_def)
    from read_and_compare_ok [OF this again st' refl, of V "h + of_bool (x \<noteq> 0) + word_of_nat (k - 1)" "n + of_bool (x = 0)"]
    show ?thesis
      using that by (cases "x = 0") (simp_all add: J_def Suc ac_simps)
  qed
  from triple_for_each [of "idx 128" J, OF this, of "()"] show ?thesis
    by (cases "x = 0") (simp_all add: J_def add.assoc)
qed

lemma check_whole_block_ok:
  assumes "unat j < 10" and "unat i < 10"
  shows "triple (in_phase V f v e st) (check_whole_block cfg P v j i st) (in_phase V f v e)"
  unfolding check_whole_block_def Let_def
proof (rule phase_check_hit [OF assms])
  fix x g'
  assume x: "check_hit (tables st) j i = Some (x, g')" and g': "stored g' v f"
  let ?st = "if x \<noteq> 0 then st\<lparr>tables := g', exp_hit := exp_hit st + 128\<rparr>
    else st\<lparr>tables := g', exp_miss := exp_miss st + 1, exp_hit := exp_hit st + 127\<rparr>"
  have "triple (in_phase V f v e st) (do {
      for_each (idx 128) (\<lambda>k u. read_and_compare cfg P v
        (offset_addr (tag_at g' j i) (set_num g' ! unat j) + k * 4)) ();
      check_counters P ?st }) (in_phase V f v e)"
  proof (rule triple_fact)
    fix m
    assume "in_phase V f v e st m"
    then show "stored (tables st) v f \<and> perf_errors st = e \<and> perf_wf (tables st)"
      by (simp add: in_phase_def cached_def agree_def)
  next
    assume A: "stored (tables st) v f \<and> perf_errors st = e \<and> perf_wf (tables st)"
    then have pre: "in_phase V f v e st = cached V f (agree (tables st)) (exp_hit st) (exp_miss st)"
      by (simp add: in_phase_def fun_eq_iff)
    have "triple (cached V f (agree (tables ?st)) (exp_hit ?st) (exp_miss ?st)) (check_counters P ?st)
        (in_phase V f v e)"
      using A g' by (intro counters_ok) auto
    then show "triple (in_phase V f v e st) (do {
        for_each (idx 128) (\<lambda>k u. read_and_compare cfg P v
          (offset_addr (tag_at g' j i) (set_num g' ! unat j) + k * 4)) ();
        check_counters P ?st }) (in_phase V f v e)"
      unfolding pre
      by (intro triple_bind [OF read_block_ok [OF assms _ x]]) (use A in \<open>auto split: if_splits\<close>)
  qed
  then show "triple (in_phase V f v e st) (case (x, st\<lparr>tables := g'\<rparr>) of (hit, st) \<Rightarrow>
      for_each (idx 128) (\<lambda>k u. read_and_compare cfg P v
        (offset_addr (tag_at (tables (if hit \<noteq> 0 then st\<lparr>exp_hit := exp_hit st + 128\<rparr>
             else st\<lparr>exp_miss := exp_miss st + 1, exp_hit := exp_hit st + 127\<rparr>)) j i)
           (set_num (tables (if hit \<noteq> 0 then st\<lparr>exp_hit := exp_hit st + 128\<rparr>
             else st\<lparr>exp_miss := exp_miss st + 1, exp_hit := exp_hit st + 127\<rparr>)) ! unat j) + k * 4)) ()
      \<bind> (\<lambda>_. check_counters P (if hit \<noteq> 0 then st\<lparr>exp_hit := exp_hit st + 128\<rparr>
             else st\<lparr>exp_miss := exp_miss st + 1, exp_hit := exp_hit st + 127\<rparr>))) (in_phase V f v e)"
    by (cases "x = 0") simp_all
qed

lemma unat_idx_10: "k < 10 \<Longrightarrow> unat (idx 10 ! k) < 10"
  by (simp add: unat_of_nat)

lemma perf_accesses_ok:
  "triple (in_phase V f v e st) (perf_accesses cfg P v st) (in_phase V f v e)"
proof -
  have "triple (in_phase V f v e st) (for_each (idx 200) (access_random_word cfg P v) st) (in_phase V f v e)"
    for st
    using triple_for_each [of "idx 200" "\<lambda>_. in_phase V f v e" "access_random_word cfg P v" st]
    by (simp add: access_random_word_ok)
  moreover have "triple (in_phase V f v e st)
      (for_each (idx 10) (\<lambda>j st. for_each (idx 10) (\<lambda>i st. check_whole_block cfg P v j i st) st) st)
      (in_phase V f v e)" for st
  proof -
    have "triple (in_phase V f v e st) (for_each (idx 10) (\<lambda>i st. check_whole_block cfg P v (idx 10 ! j) i st) st)
        (in_phase V f v e)" if "j < 10" for j st
      using triple_for_each [of "idx 10" "\<lambda>_. in_phase V f v e" "check_whole_block cfg P v (idx 10 ! j)" st]
        check_whole_block_ok [OF unat_idx_10 [OF that] unat_idx_10] by simp
    then show ?thesis
      using triple_for_each [of "idx 10" "\<lambda>_. in_phase V f v e"
          "\<lambda>j st. for_each (idx 10) (\<lambda>i st. check_whole_block cfg P v j i st) st" st] by simp
  qed
  ultimately show ?thesis unfolding perf_accesses_def by (rule triple_bind)
qed

lemma check_block_ok:
  assumes "b < 256" and "is_hit \<noteq> 0 \<longleftrightarrow> ucast b \<in> set q" and "f (push_bit 16 b) = push_bit 16 b + v"
  shows "triple (cached V f (set_holds 0 q) h n) (add_check_block cfg P v is_hit b (e, n, h))
    (\<lambda>st m. st = (e, n + of_bool (is_hit = 0), h + of_bool (is_hit \<noteq> 0)) \<and>
      cached V f (set_holds 0 (snd (fifo_access q (ucast b)))) (h + of_bool (is_hit \<noteq> 0)) (n + of_bool (is_hit = 0)) m)"
proof -
  define h' where "h' = h + of_bool (is_hit \<noteq> 0)"
  define n' where "n' = n + of_bool (is_hit = 0)"
  let ?C = "cached V f (set_holds 0 (snd (fifo_access q (ucast b)))) h' n'"
  let ?a = "push_bit 16 b"
  have a: "?a = offset_addr b 0 + 0 * 4"
    using assms(1) by (simp add: offset_addr_def and_0xff)
  have "fst (cache_read c (word_addr ?a)) = (is_hit \<noteq> 0) \<and>
      set_holds 0 (snd (fifo_access q (ucast b))) (snd (cache_read c (word_addr ?a)))" if "set_holds 0 q c" for c
    using read_set_0 [OF that assms(1)] assms(2) by simp
  from cached_read [OF _ a this, where V = V and f = f and h = h and n = n]
  have read: "triple (cached V f (set_holds 0 q) h n)
      (ext P (Hw_read32 (K cfg SSY_CPU0_MEMORY_DEF_HSP_CIRAM_ADDRESS + ?a))) (\<lambda>r m. r = f ?a \<and> ?C m)"
    by (simp add: h'_def n'_def)
  have miss: "triple ?C (ext P (Sinc (Read_reg R_miss_cntr_lower))) (\<lambda>r m. r = n' \<and> ?C m)"
    using cached_counter [of R_miss_cntr_lower V f "set_holds 0 (snd (fifo_access q (ucast b)))" h' n'] by simp
  have hit: "triple ?C (ext P (Sinc (Read_reg R_hit_cntr_lower))) (\<lambda>r m. r = h' \<and> ?C m)"
    using cached_counter [of R_hit_cntr_lower V f "set_holds 0 (snd (fifo_access q (ucast b)))" h' n'] by simp
  have n: "(if is_hit \<noteq> 0 then n else n + 1) = n'" "(if is_hit \<noteq> 0 then h + 1 else h) = h'" by (simp_all add: h'_def n'_def)
  show ?thesis
    unfolding add_check_block_def check_block_def Let_def fst_conv snd_conv n h'_def [symmetric] n'_def [symmetric] State_Monad.bind_assoc
      assms(3) [symmetric]
    by (rule triple_bind [OF cached_status] triple_bind_value [OF read] triple_bind_value [OF miss]
        triple_bind_value [OF hit] triple_return | simp)+
qed

lemma simple_accesses_ok:
  assumes "\<forall>b < 5. f (push_bit 16 b) = push_bit 16 b + v"
  shows "triple (cached V f (set_holds 0 []) h n) (simple_accesses cfg P v (e, n, h))
    (\<lambda>st m. st = (e, n + 6, h + 4) \<and> cached V f (set_holds 0 [2, 3, 4, 0]) (h + 4) (n + 6) m)"
proof -
  have idx: "idx 5 = [0, 1, 2, 3, 4]" by (simp add: idx_def upt_rec)
  have f: "f (push_bit 16 b) = push_bit 16 b + v" if "b \<in> {0, 1, 2, 3, 4}" for b
  proof -
    have "b < 5" using that by auto
    with assms show ?thesis by blast
  qed
  note step = check_block_ok [where f = f and v = v and V = V and e = e]
  show ?thesis
    unfolding simple_accesses_def idx list.sel for_each.simps State_Monad.bind_assoc
      State_Monad.bind_left_identity
    apply (rule triple_bind_value [OF step [where q = "[]"]], simp, simp, (rule f, simp))
    apply (rule triple_bind_value [OF step], simp, simp add: fifo_access_def, (rule f, simp))+
    apply (rule triple_value [OF step], simp, simp add: fifo_access_def, (rule f, simp))
    by (simp_all add: fifo_access_def add.assoc)
qed

end

section \<open>A platform with the tag store\<close>

text \<open>
  The tag store of the hardware and its two counters in front of a memory; every other call is left
  to the platform \<open>Q\<close>.
\<close>

record 's tag_store_dev =
  rest :: 's
  tag_store :: cache
  hit_count :: u32
  miss_count :: u32
  ext_mem :: "u32 \<Rightarrow> u32"

definition with_tag_store :: "config \<Rightarrow> 's platform \<Rightarrow> 's tag_store_dev platform" where
  "with_tag_store cfg Q = \<lparr>
     reply = (\<lambda>c d. case c of
         Hw_read32 x \<Rightarrow>
           (let a = x - K cfg SSY_CPU0_MEMORY_DEF_HSP_CIRAM_ADDRESS;
                (h, t) = cache_read (tag_store d) (word_addr a)
            in (ext_mem d a, d\<lparr>tag_store := t, hit_count := hit_count d + of_bool h,
                 miss_count := miss_count d + of_bool (\<not> h)\<rparr>))
       | Sinc (Check_perf_counters m h) \<Rightarrow>
           (of_bool (\<not> (m = miss_count d \<and> h = hit_count d)), d)
       | Sinc (Read_reg R_hit_cntr_lower) \<Rightarrow> (hit_count d, d)
       | Sinc (Read_reg R_miss_cntr_lower) \<Rightarrow> (miss_count d, d)
       | _ \<Rightarrow> (let (r, s) = reply Q c (rest d) in (r, d\<lparr>rest := s\<rparr>))),
     fill = (\<lambda>d. fill Q (rest d))\<rparr>"

interpretation tag_store: cached_memory cfg "with_tag_store cfg Q" tag_store hit_count miss_count ext_mem
  for cfg Q
proof
  fix w a t s d hit c r d'
  assume "cache_read (tag_store d) (word_addr a) = (hit, c)"
    and "reply (with_tag_store cfg Q) (Hw_read32 (K cfg SSY_CPU0_MEMORY_DEF_HSP_CIRAM_ADDRESS + a)) d = (r, d')"
  then show "r = ext_mem d a \<and> tag_store d' = c \<and> ext_mem d' = ext_mem d \<and>
      hit_count d' = hit_count d + of_bool hit \<and> miss_count d' = miss_count d + of_bool (\<not> hit)"
    by (auto simp: with_tag_store_def)
next
  fix q d r d'
  assume "q \<in> {R_hit_cntr_lower, R_miss_cntr_lower}"
    and "reply (with_tag_store cfg Q) (Sinc (Read_reg q)) d = (r, d')"
  then show "r = (if q = R_hit_cntr_lower then hit_count d else miss_count d) \<and>
      tag_store d' = tag_store d \<and> ext_mem d' = ext_mem d \<and> hit_count d' = hit_count d \<and>
      miss_count d' = miss_count d"
    by (auto simp: with_tag_store_def)
next
  fix c args d r d'
  assume "c = Rand \<or> c = Hw_status args" and "reply (with_tag_store cfg Q) c d = (r, d')"
  then show "tag_store d' = tag_store d \<and> ext_mem d' = ext_mem d \<and> hit_count d' = hit_count d \<and>
      miss_count d' = miss_count d"
    by (auto simp: with_tag_store_def split: prod.splits)
qed (auto simp: with_tag_store_def)

section \<open>Properties\<close>

text \<open>C3: on a memory with the tag store of the hardware in front of it, the predictions of
  \<open>sinc_performance_counter_check\<close> are right: if the blocks are stored and the tables agree with
  the tag store and the counters, then the 200 random reads and the complete reads of all 100 blocks
  run to the end without a data mismatch, the counter check after each of them succeeds, and the
  expected counts are the counts of the hardware.\<close>

theorem perf_accesses_pass:
  assumes "cached_memory cfg P tags hits misses content" and "status m = Running"
    and "agree g (tags (dev m))" and "stored g v (content (dev m))"
  shows "case run_state (perf_accesses cfg P v \<lparr>tables = g, exp_hit = hits (dev m),
      exp_miss = misses (dev m), perf_errors = e\<rparr>) m of (st, m') \<Rightarrow>
    status m' = Running \<and> perf_errors st = e \<and> exp_hit st = hits (dev m') \<and>
    exp_miss st = misses (dev m') \<and> verdicts (log m') = verdicts (log m)"
proof -
  let ?st = "\<lparr>tables = g, exp_hit = hits (dev m), exp_miss = misses (dev m), perf_errors = e\<rparr>"
  note defs = cached_memory.in_phase_def [OF assms(1)] cached_memory.cached_def [OF assms(1)]
  have "cached_memory.in_phase tags hits misses content (verdicts (log m)) (content (dev m)) v e ?st m"
    using assms(2-4) by (simp add: defs)
  with cached_memory.perf_accesses_ok [OF assms(1), of "verdicts (log m)" "content (dev m)" v e ?st]
  show ?thesis by (auto simp: triple_def defs)
qed

text \<open>On such a memory the ten reads of \<open>sinc_performance_counter_check_simple\<close> behave as the test
  expects when set 0 starts empty and the globals equal the counters: six misses and four hits are
  counted, no error is, and the set ends up with the blocks 2, 3, 4 and 0.\<close>

lemma simple_accesses_pass:
  assumes "cached_memory cfg P tags hits misses content" and "status m = Running"
    and "vtag_wf (tags (dev m) 0)" and "vtag_content (tags (dev m) 0) = []"
    and "\<forall>b < 5. content (dev m) (push_bit 16 b) = push_bit 16 b + v"
  shows "case run_state (simple_accesses cfg P v (e, misses (dev m), hits (dev m))) m of (st, m') \<Rightarrow>
    status m' = Running \<and> st = (e, misses (dev m) + 6, hits (dev m) + 4) \<and>
    misses (dev m') = misses (dev m) + 6 \<and> hits (dev m') = hits (dev m) + 4 \<and>
    vtag_content (tags (dev m') 0) = [2, 3, 4, 0] \<and> verdicts (log m') = verdicts (log m)"
proof -
  note defs = cached_memory.cached_def [OF assms(1)]
  have "cached_memory.cached tags hits misses content (verdicts (log m)) (content (dev m))
      (set_holds 0 []) (hits (dev m)) (misses (dev m)) m"
    using assms(2-4) by (simp add: defs set_holds_def)
  with cached_memory.simple_accesses_ok [OF assms(1,5), of "verdicts (log m)" "hits (dev m)" "misses (dev m)" e]
  show ?thesis by (auto simp: triple_def defs set_holds_def)
qed

text \<open>Concrete instances: the tag store after an erase, a memory that holds its own offsets.\<close>

definition idle :: "unit platform" where
  "idle = \<lparr>reply = (\<lambda>c d. (0, d)), fill = (\<lambda>d n. 0)\<rparr>"

definition erased_mach :: "unit tag_store_dev mach" where
  "erased_mach = \<lparr>dev = \<lparr>rest = (), tag_store = (\<lambda>_. erased_set 0), hit_count = 0, miss_count = 0,
     ext_mem = (\<lambda>a. a + 7)\<rparr>, log = [], status = Running\<rparr>"

theorem perf_accesses_pass_witness:
  "case run_state (perf_accesses sample_cfg (with_tag_store sample_cfg idle) 7
      \<lparr>tables = sample_tables, exp_hit = 0, exp_miss = 0, perf_errors = 0\<rparr>) erased_mach of (st, m') \<Rightarrow>
    status m' = Running \<and> perf_errors st = 0 \<and> exp_hit st = hit_count (dev m')"
  using perf_accesses_pass [OF tag_store.cached_memory_axioms [of sample_cfg idle],
      of erased_mach sample_tables 7 0]
    sample_agree
  by (simp add: erased_mach_def stored_def split_beta)

text \<open>Both performance counter tests report PASS only when no check failed and FAIL only when one
  did, on every platform and from every initial value of the globals.\<close>

lemma perf_tests_honest:
  "test_ok (counting nothing_ignored) (performance_counter_check_RUN_TEST cfg P) \<and>
   test_ok (counting nothing_ignored) (performance_counter_check_simple_RUN_TEST cfg P globals)"
  using acct_done_test_ok [OF acct_perf_test] acct_done_test_ok [OF acct_simple_test] by blast

end
