(* ===== verification/TestsCache.thy ===== *)
theory TestsCache
  imports TestsMem TestsPerf
begin

text \<open>
  The tests of the working cache: \<open>sinc_cache_initialized_encrypt\<close>, \<open>sinc_cache_active_mem_access\<close>,
  \<open>sinc_cache_failed_state\<close> and \<open>sinc_auth_tag_mismatch\<close>. Beside the accounting of their verdicts,
  the bounds of the arrays and divisions of \<open>sinc_cache_active_mem_access\<close> are settled, and the
  order in which \<open>sinc_auth_tag_mismatch\<close> reads its blocks is run through the tag store.
\<close>

section \<open>Gating\<close>

text \<open>
  \<open>if (params->CLKGATE == n) ... else if (params->PWRGATE == n) ...\<close>; after a power gate a test may
  restore registers.
\<close>

definition gate_checks ::
  "'s platform \<Rightarrow> test_params \<Rightarrow> u32 \<Rightarrow> ('s, unit) prog \<Rightarrow> u32 \<Rightarrow> ('s, u32) prog" where
  "gate_checks P params n restore errors =
     (if CLKGATE params = n then do {
        hw_status P [CLKGATE params];
        tally P errors (Pcu_clkgate_checks 0)
      } else if PWRGATE params = n then do {
        hw_status P [PWRGATE params];
        errors \<leftarrow> tally P errors (Pcu_pwrgate_checks 0 0 (DIS_PWR_SWTITCH params));
        restore;
        State_Monad.return errors
      } else State_Monad.return errors)"

section \<open>sinc_cache_initialized_encrypt\<close>

definition initialized_encrypt_setup ::
  "config \<Rightarrow> 's platform \<Rightarrow> test_params \<Rightarrow> ('s, u32 \<times> u32 \<times> u32 \<times> u32) prog" where
  "initialized_encrypt_setup cfg P params = do {
     sinc P New_SINC_DRIVER;
     ext P New_DMB_DRIVER;
     let errors = 0;
     ext P New_AEB_DRIVER;
     ext P (New_PCU_DRIVER (K cfg PCU_HSP_OFFSET) True);
     rng_start cfg P;
     sram_addr_ptr \<leftarrow> acquire_sram cfg P;
     ccs_cmd_buf \<leftarrow> alloc_cmd_buf cfg P;
     ext P (New_CCS_DRIVER ccs_cmd_buf 0 0 0);
     r \<leftarrow> ext P Rand;
     let key_attr = valid_key_attr cfg r;
     r \<leftarrow> ext P Rand;
     let key_slot = r mod K cfg SSY_HSP_KSU_NUM_KEYS;
     errors \<leftarrow> tally P errors (Gen_random_key_fixed_attr key_slot key_attr);
     (if disable_encryption params = 1
      then do { ext P (Aeb_enable (K cfg AEB_SINC_AUTHEN_DISABLE)); State_Monad.return () }
      else State_Monad.return ());
     nonce \<leftarrow> random_fill P (Local []) 3;
     r \<leftarrow> ext P Rand;
     let block_encr_num = r mod (32768 - 2);
     write_settings cfg P block_encr_num 2 key_slot (Local nonce) sram_addr_ptr
       (sram_addr_ptr + tag_offset);
     hw_status P [];
     State_Monad.return (block_encr_num, key_slot, sram_addr_ptr, errors)
   }"

definition initialized_encrypt_RUN_TEST ::
  "config \<Rightarrow> 's platform \<Rightarrow> test_params \<Rightarrow> ('s, unit) prog" where
  "initialized_encrypt_RUN_TEST cfg P params = do {
     s \<leftarrow> initialized_encrypt_setup cfg P params;
     let block_encr_num = fst s;
     let key_slot = fst (snd s);
     let sram_addr_ptr = fst (snd (snd s));
     let errors = snd (snd (snd s));
     errors \<leftarrow> tally_sinc P errors (Transition_to_initialized None);
     initial_value \<leftarrow> ext P Rand;
     sinc P (Setup_known_data (K cfg SSY_HSP_SHAREDRAM_BASE_ADDR) 128 initial_value);
     sinc P (Copy_func (K cfg SSY_HSP_SHAREDRAM_BASE_ADDR + 512) Function1 Function2);
     errors \<leftarrow> gate_checks P params 1 (do {
         sinc P (Write_reg R_ext_block_base_addr sram_addr_ptr);
         sinc P (Write_reg R_ext_auth_tag_base_addr (sram_addr_ptr + tag_offset));
         sinc P (Write_reg R_block_encr_addr (K cfg SSY_HSP_SHAREDRAM_BASE_ADDR));
         sinc P (Write_reg R_block_encr_num block_encr_num);
         sinc P (Write_reg R_num_of_blocks 2);
         State_Monad.return ()
       }) errors;
     errors \<leftarrow> tally_sinc P errors (Call_encrypt_block None);
     errors \<leftarrow> gate_checks P params 2 (State_Monad.return ()) errors;
     errors \<leftarrow> tally_sinc P errors (Transition_to_cache_active None);
     errors \<leftarrow> tally_sinc P errors (Check_known_data
       (K cfg SSY_CPU0_MEMORY_DEF_HSP_CIRAM_ADDRESS + 512 * block_encr_num) 128 initial_value);
     errors \<leftarrow> tally_sinc P errors
       (Check_ciphertext 0 block_encr_num 1 initial_value (disable_encryption params));
     fail_fast P errors;
     errors \<leftarrow> tally_sinc P errors (Compare_func
       (K cfg SSY_CPU0_MEMORY_DEF_HSP_CIRAM_ADDRESS + 512 * (block_encr_num + 1)) Function1);
     errors \<leftarrow> tally_sinc P errors (Check_ciphertext (K cfg SSY_HSP_SHAREDRAM_BASE_ADDR + 512)
       (block_encr_num + 1) 0 0 (disable_encryption params));
     errors \<leftarrow> tally_sinc P errors (Call_sinc_reset None);
     errors \<leftarrow> tally_sinc P errors (Check_sinc_state (K cfg SINC_STATE_DISABLED));
     (if PWRGATE params \<noteq> 0
      then do { sinc P (Write_reg R_block_encr_key key_slot); State_Monad.return () }
      else State_Monad.return ());
     (if PWRGATE params = 2 then do {
        sinc P (Write_reg R_block_encr_num block_encr_num);
        sinc P (Write_reg R_num_of_blocks 2);
        sinc P (Write_reg R_block_encr_addr (K cfg SSY_HSP_SHAREDRAM_BASE_ADDR));
        State_Monad.return ()
      } else State_Monad.return ());
     errors \<leftarrow> tally_sinc P errors (Transition_to_initialized None);
     errors \<leftarrow> tally_sinc P errors (Call_encrypt_block None);
     report P errors
   }"

section \<open>sinc_cache_active_mem_access\<close>

definition check_int_cnt :: "config \<Rightarrow> 's platform \<Rightarrow> u32 \<Rightarrow> u32 \<Rightarrow> ('s, u32) prog" where
  "check_int_cnt cfg P exp_sp_bus_err_cnt exp_mpu_intr_cnt = do {
     ext P Int_get_instance;
     let errors = 0;
     delay 100;
     sp_bus_err_cnt \<leftarrow> ext P (Int_trig_count (K cfg HSP_SP_BUS_ERR_IRQ));
     mpu_intr_cnt \<leftarrow> ext P (Int_trig_count (K cfg HSP_MPU_IRQ));
     errors \<leftarrow> (if sp_bus_err_cnt \<noteq> exp_sp_bus_err_cnt then do {
         hw_errmsg P [sp_bus_err_cnt, exp_sp_bus_err_cnt];
         State_Monad.return (errors + 1)
       } else State_Monad.return errors);
     (if mpu_intr_cnt \<noteq> exp_mpu_intr_cnt then do {
         hw_errmsg P [mpu_intr_cnt, exp_mpu_intr_cnt];
         State_Monad.return (errors + 1)
       } else State_Monad.return errors)
   }"

text \<open>\<open>num_blocks_to_encrypt\<close>: the parameter, rounded up to a multiple of 16 that is not zero.\<close>

definition round_blocks :: "u32 \<Rightarrow> u32" where
  "round_blocks n = (if n = 0 \<or> n mod 16 \<noteq> 0 then (n div 16 + 1) * 16 else n)"

text \<open>\<open>a % b\<close>, undefined for a zero divisor.\<close>

definition checked_mod :: "u32 \<Rightarrow> u32 \<Rightarrow> ('s, u32) prog" where
  "checked_mod a b = do {
     (if b = 0 then halt Undefined else State_Monad.return ());
     State_Monad.return (a mod b)
   }"

text \<open>\<open>arr[i]\<close> of the part of an array that has been written.\<close>

definition checked_nth :: "'a list \<Rightarrow> u32 \<Rightarrow> ('s, 'a) prog" where
  "checked_nth xs i = do {
     (if unat i < length xs then State_Monad.return () else halt Undefined);
     State_Monad.return (xs ! unat i)
   }"

text \<open>
  The encryption loop. \<open>initial_value\<close> is an array of 1000 words, here the list of the entries
  written so far; a store behind its end is undefined.
\<close>

definition encrypt_groups ::
  "config \<Rightarrow> 's platform \<Rightarrow> u32 \<Rightarrow> u32 \<Rightarrow> u32 \<Rightarrow> ('s, u32 \<times> u32 list \<times> u32) prog" where
  "encrypt_groups cfg P num_encrypts start_block_num errors =
     for_each (idx (unat num_encrypts)) (\<lambda>i st. do {
       let cur_block_num = fst st;
       let initial_value = fst (snd st);
       v \<leftarrow> ext P Rand;
       (if i < 1000 then State_Monad.return () else halt Undefined);
       sinc P (Setup_known_data (K cfg SSY_HSP_SHAREDRAM_BASE_ADDR) (1024 * 2) v);
       errors \<leftarrow> tally_sinc P (snd (snd st)) (Call_encrypt_block None);
       sinc P (Write_reg R_block_encr_num (cur_block_num + 16));
       State_Monad.return (cur_block_num + 16, initial_value @ [v], errors)
     }) (start_block_num, [], errors)"

text \<open>A write to the cached memory, which the active cache refuses.\<close>

definition refused_write :: "config \<Rightarrow> 's platform \<Rightarrow> u32 \<Rightarrow> u32 \<Rightarrow> u32 \<Rightarrow> ('s, u32) prog" where
  "refused_write cfg P waddr n errors = do {
     hw_status P [waddr];
     ext P (Hw_write32 waddr 0xabcdabcd);
     add_errors errors (check_int_cnt cfg P 0 n)
   }"

definition compare_groups ::
  "config \<Rightarrow> 's platform \<Rightarrow> u32 list \<Rightarrow> u32 \<Rightarrow> u32 \<Rightarrow> u32 \<Rightarrow> ('s, u32) prog" where
  "compare_groups cfg P initial_value num_encrypts start_block_num errors = do {
     st \<leftarrow> for_each (idx (unat num_encrypts)) (\<lambda>i st. do {
         let a = K cfg SSY_CPU0_MEMORY_DEF_HSP_CIRAM_ADDRESS + 512 * fst st;
         hw_status P [1024 * 2, a];
         ext P Flush_uart;
         v \<leftarrow> checked_nth initial_value i;
         sinc P (Setup_known_data (K cfg SSY_HSP_SHAREDRAM_BASE_ADDR) (1024 * 2) v);
         differ \<leftarrow> ext P (Wordcmp (At (K cfg SSY_HSP_SHAREDRAM_BASE_ADDR)) (At a) (1024 * 2));
         errors \<leftarrow> (if differ \<noteq> 0 then do { hw_errmsg P []; State_Monad.return (snd st + 1) }
           else State_Monad.return (snd st));
         hw_status P [];
         ext P Flush_uart;
         State_Monad.return (fst st + 16, errors)
       }) (start_block_num, errors);
     State_Monad.return (snd st)
   }"

definition compare_random_block ::
  "config \<Rightarrow> 's platform \<Rightarrow> test_params \<Rightarrow> u32 list \<Rightarrow> u32 \<Rightarrow> u32 \<Rightarrow> u32 \<Rightarrow> ('s, u32) prog" where
  "compare_random_block cfg P params initial_value num_blocks start_block_num errors = do {
     r \<leftarrow> ext P Rand;
     offset_block_num \<leftarrow> checked_mod r num_blocks;
     let cur_block_num = start_block_num + offset_block_num;
     let a = K cfg SSY_CPU0_MEMORY_DEF_HSP_CIRAM_ADDRESS + 512 * cur_block_num;
     hw_status P [128, a];
     ext P Flush_uart;
     v \<leftarrow> checked_nth initial_value (offset_block_num div 16);
     sinc P (Setup_known_data_offset (K cfg SSY_HSP_SHAREDRAM_BASE_ADDR) 128 v
       ((offset_block_num mod 16) * 128));
     differ \<leftarrow> ext P (Wordcmp (At (K cfg SSY_HSP_SHAREDRAM_BASE_ADDR)) (At a) 128);
     errors \<leftarrow> (if differ \<noteq> 0 then do { hw_errmsg P []; State_Monad.return (errors + 1) }
       else State_Monad.return errors);
     errors \<leftarrow> tally_sinc P errors (Check_ciphertext (K cfg SSY_HSP_SHAREDRAM_BASE_ADDR) cur_block_num 0 0
       (disable_encryption params));
     hw_status P [];
     ext P Flush_uart;
     State_Monad.return errors
   }"

definition active_mem_access_setup ::
  "config \<Rightarrow> 's platform \<Rightarrow> test_params \<Rightarrow> ('s, u32 \<times> u32 \<times> u32) prog" where
  "active_mem_access_setup cfg P params = do {
     sinc P New_SINC_DRIVER;
     ext P New_DMB_DRIVER;
     let errors = 0;
     ext P New_AEB_DRIVER;
     enable_access_irqs cfg P;
     ext P (Mpu_inten_write (push_bit (unat (K cfg MPU_SPCIRAM)) 1));
     ext P (New_PCU_DRIVER (K cfg PCU_HSP_OFFSET) True);
     errors \<leftarrow> gate_checks P params 3 (State_Monad.return ()) errors;
     rng_start cfg P;
     sram_addr_ptr \<leftarrow> acquire_sram cfg P;
     ccs_cmd_buf \<leftarrow> alloc_cmd_buf cfg P;
     ext P (New_CCS_DRIVER ccs_cmd_buf 0 0 0);
     r \<leftarrow> ext P Rand;
     let key_attr = valid_key_attr cfg r;
     r \<leftarrow> ext P Rand;
     let key_slot = r mod K cfg SSY_HSP_KSU_NUM_KEYS;
     errors \<leftarrow> tally P errors (Gen_random_key_fixed_attr key_slot key_attr);
     (if disable_encryption params = 1
      then do { ext P (Aeb_enable (K cfg AEB_SINC_AUTHEN_DISABLE)); State_Monad.return () }
      else State_Monad.return ());
     let num_blocks = round_blocks (num_blocks_to_encrypt params);
     r \<leftarrow> ext P Rand;
     start_block_num \<leftarrow> checked_mod r (32768 - num_blocks);
     nonce \<leftarrow> random_fill P (Local []) 3;
     write_settings cfg P start_block_num 16 key_slot (Local nonce) sram_addr_ptr
       (sram_addr_ptr + tag_offset);
     hw_status P [];
     st \<leftarrow> sinc P (Read_reg R_status);
     hw_status P [st];
     errors \<leftarrow> gate_checks P params 4 (do {
         sinc P (Write_reg R_block_encr_num start_block_num);
         sinc P (Write_reg R_num_of_blocks 16);
         sinc P (Write_reg R_block_encr_addr (K cfg SSY_HSP_SHAREDRAM_BASE_ADDR));
         sinc P (Write_reg R_block_encr_key key_slot);
         sinc P (Write_all_aes_iv_nonce (Local nonce));
         State_Monad.return ()
       }) errors;
     State_Monad.return (num_blocks, start_block_num, errors)
   }"

definition active_mem_access_RUN_TEST ::
  "config \<Rightarrow> 's platform \<Rightarrow> test_params \<Rightarrow> ('s, unit) prog" where
  "active_mem_access_RUN_TEST cfg P params = do {
     s \<leftarrow> active_mem_access_setup cfg P params;
     let num_blocks = fst s;
     let start_block_num = fst (snd s);
     let errors = snd (snd s);
     let num_encrypts = num_blocks div 16;
     errors \<leftarrow> tally_sinc P errors (Transition_to_initialized None);
     st \<leftarrow> encrypt_groups cfg P num_encrypts start_block_num errors;
     let initial_value = fst (snd st);
     errors \<leftarrow> tally_sinc P (snd (snd st)) (Transition_to_cache_active None);
     hw_status P [];
     ext P Flush_uart;
     errors \<leftarrow> gate_checks P params 1 (State_Monad.return ()) errors;
     let ciram = K cfg SSY_CPU0_MEMORY_DEF_HSP_CIRAM_ADDRESS;
     errors \<leftarrow> refused_write cfg P ciram 1 errors;
     errors \<leftarrow> refused_write cfg P (ciram_end cfg - 4) 2 errors;
     errors \<leftarrow> refused_write cfg P (ciram_end cfg) 3 errors;
     errors \<leftarrow> refused_write cfg P (ciram + K cfg SSY_HSP_HW_MEM_EXT_MEM_SIZE - 4) 4 errors;
     errors \<leftarrow> compare_groups cfg P initial_value num_encrypts start_block_num errors;
     errors \<leftarrow> gate_checks P params 2 (State_Monad.return ()) errors;
     errors \<leftarrow> for_each (idx 10) (\<lambda>i errors.
       compare_random_block cfg P params initial_value num_blocks start_block_num errors) errors;
     report P errors
   }"

section \<open>sinc_cache_failed_state\<close>

text \<open>One write and one read at \<open>addr\<close>, which the failed cache blocks.\<close>

definition blocked_access :: "config \<Rightarrow> 's platform \<Rightarrow> u32 \<Rightarrow> u32 \<Rightarrow> u32 \<Rightarrow> u32 \<Rightarrow> ('s, u32) prog" where
  "blocked_access cfg P addr wdata exp_sp_bus_err_cnt errors = do {
     hw_status P [];
     ext P (Hw_write32 addr wdata);
     hw_status P [];
     rdata \<leftarrow> ext P (Hw_read32 addr);
     errors \<leftarrow> (if wdata = rdata then do { hw_errmsg P [rdata, wdata]; State_Monad.return (errors + 1) }
       else State_Monad.return errors);
     delay 100;
     sp_bus_err_cnt \<leftarrow> ext P (Int_trig_count (K cfg HSP_SP_BUS_ERR_IRQ));
     mpu_intr_cnt \<leftarrow> ext P (Int_trig_count (K cfg HSP_MPU_IRQ));
     errors \<leftarrow> (if sp_bus_err_cnt \<noteq> exp_sp_bus_err_cnt then do {
         hw_errmsg P [sp_bus_err_cnt, exp_sp_bus_err_cnt];
         State_Monad.return (errors + 1)
       } else State_Monad.return errors);
     (if mpu_intr_cnt \<noteq> 2 then do {
         hw_errmsg P [mpu_intr_cnt, 2];
         State_Monad.return (errors + 1)
       } else State_Monad.return errors)
   }"

definition check_write_read_in_cache_failed :: "config \<Rightarrow> 's platform \<Rightarrow> ('s, u32) prog" where
  "check_write_read_in_cache_failed cfg P = do {
     wdata \<leftarrow> do_while (fuel cfg) (ext P Rand) (\<lambda>wdata. wdata = 0);
     errors \<leftarrow> blocked_access cfg P (K cfg SSY_CPU0_MEMORY_DEF_HSP_CIRAM_ADDRESS) wdata 0 0;
     blocked_access cfg P (ciram_end cfg) wdata 2 errors
   }"

text \<open>\<open>call_sinc_reset(); check_sinc_state(SINC_STATE_DISABLED);\<close> and a fresh nonce, with the
  permissions of the DMB windows restored in between where the source does so.\<close>

definition reset_and_renew :: "config \<Rightarrow> 's platform \<Rightarrow> ('s, unit) prog \<Rightarrow> u32 \<Rightarrow> ('s, u32) prog" where
  "reset_and_renew cfg P restore errors = do {
     errors \<leftarrow> tally_sinc P errors (Call_sinc_reset None);
     errors \<leftarrow> tally_sinc P errors (Check_sinc_state (K cfg SINC_STATE_DISABLED));
     restore;
     nonce \<leftarrow> random_fill P (Local []) 3;
     sinc P (Write_all_aes_iv_nonce (Local nonce));
     State_Monad.return errors
   }"

definition set_crypto_perms :: "'s platform \<Rightarrow> u32 \<Rightarrow> u32 \<Rightarrow> u32 \<Rightarrow> u32 \<Rightarrow> ('s, unit) prog" where
  "set_crypto_perms P tag_addr_ptr tag_perm block_addr_ptr block_perm = do {
     ext P (Set_crypto_perm_data tag_addr_ptr tag_perm);
     ext P (Set_crypto_perm_data block_addr_ptr block_perm);
     State_Monad.return ()
   }"

text \<open>\<open>check_sinc_state(SINC_STATE_CACHE_FAILED); check_all_aes_iv_nonce_cleared();\<close>\<close>

definition check_failed :: "config \<Rightarrow> 's platform \<Rightarrow> u32 \<Rightarrow> ('s, u32) prog" where
  "check_failed cfg P errors = do {
     errors \<leftarrow> tally_sinc P errors (Check_sinc_state (K cfg SINC_STATE_CACHE_FAILED));
     tally_sinc P errors Check_all_aes_iv_nonce_cleared
   }"

text \<open>A read of the first word of the cached memory, which misses and fails with \<open>err\<close>.\<close>

definition failing_fetch :: "config \<Rightarrow> 's platform \<Rightarrow> macro \<Rightarrow> u32 \<Rightarrow> ('s, u32) prog" where
  "failing_fetch cfg P err errors = do {
     ext P (Hw_read32 (K cfg SSY_CPU0_MEMORY_DEF_HSP_CIRAM_ADDRESS));
     st \<leftarrow> sinc P Wait_for_no_cmd_in_progress;
     errors \<leftarrow> tally_sinc P errors (Check_cmd_result_status_failure st (K cfg err));
     check_failed cfg P errors
   }"

text \<open>1. a hardware fault\<close>

definition failed_by_hw_fault :: "config \<Rightarrow> 's platform \<Rightarrow> u32 \<Rightarrow> ('s, u32) prog" where
  "failed_by_hw_fault cfg P errors = do {
     ext P (Set_scratch0 1);
     ext P (Hw_sleep 10);
     st \<leftarrow> sinc P (Read_reg R_status);
     errors \<leftarrow> tally_sinc P errors (Check_status_for_err_bits st (K cfg SINC_STATUS_SINC_HW_FAULT));
     errors \<leftarrow> tally_sinc P errors (Check_sinc_state (K cfg SINC_STATE_CACHE_FAILED));
     ext P (Set_scratch0 0);
     errors \<leftarrow> tally_sinc P errors Check_all_aes_iv_nonce_cleared;
     errors \<leftarrow> add_errors errors (check_write_read_in_cache_failed cfg P);
     reset_and_renew cfg P (State_Monad.return ()) errors
   }"

text \<open>3. a block read error, during the encryption and during a fetch\<close>

definition failed_by_block_read ::
  "config \<Rightarrow> 's platform \<Rightarrow> u32 \<Rightarrow> u32 \<Rightarrow> u32 \<Rightarrow> ('s, u32) prog" where
  "failed_by_block_read cfg P block_addr_ptr tag_addr_ptr errors = do {
     errors \<leftarrow> tally_sinc P errors (Transition_to_initialized None);
     sinc P (Write_reg R_block_encr_addr (K cfg SSY_HSP_SHAREDRAM_MAX_ADDR));
     sinc P (Write_reg R_num_of_blocks 1);
     errors \<leftarrow> tally_sinc P errors (Call_encrypt_block (Some (K cfg SINC_STATUS_CACHE_BLOCK_R_ERR)));
     errors \<leftarrow> check_failed cfg P errors;
     errors \<leftarrow> reset_and_renew cfg P (State_Monad.return ()) errors;
     errors \<leftarrow> tally_sinc P errors (Transition_to_initialized None);
     errors \<leftarrow> tally_sinc P errors (Transition_to_cache_active None);
     set_crypto_perms P tag_addr_ptr 1 block_addr_ptr 0;
     errors \<leftarrow> failing_fetch cfg P SINC_STATUS_CACHE_BLOCK_R_ERR errors;
     reset_and_renew cfg P (set_crypto_perms P tag_addr_ptr 1 block_addr_ptr 1) errors
   }"

text \<open>
  4. a tag with one bit flipped. The source computes the new tag in one expression, whose two calls
  are made from left to right here.
\<close>

definition failed_by_tag_check :: "config \<Rightarrow> 's platform \<Rightarrow> u32 \<Rightarrow> u32 \<Rightarrow> ('s, u32) prog" where
  "failed_by_tag_check cfg P tag_addr_ptr errors = do {
     errors \<leftarrow> tally_sinc P errors (Transition_to_initialized None);
     sinc P (Write_reg R_block_encr_addr (K cfg SSY_HSP_SHAREDRAM_BASE_ADDR));
     sinc P (Setup_known_data (K cfg SSY_HSP_SHAREDRAM_BASE_ADDR) 128 0);
     sinc P (Write_reg R_num_of_blocks 1);
     errors \<leftarrow> tally_sinc P errors (Call_encrypt_block None);
     tag \<leftarrow> ext P (Hw_read32 tag_addr_ptr);
     r \<leftarrow> ext P Rand;
     ext P (Hw_write32 tag_addr_ptr (tag XOR push_bit (unat (r mod 32)) 1));
     errors \<leftarrow> tally_sinc P errors (Transition_to_cache_active None);
     errors \<leftarrow> failing_fetch cfg P SINC_STATUS_AUTH_TAG_CHK_ERR errors;
     reset_and_renew cfg P (State_Monad.return ()) errors
   }"

text \<open>5. a tag read error\<close>

definition failed_by_tag_read ::
  "config \<Rightarrow> 's platform \<Rightarrow> u32 \<Rightarrow> u32 \<Rightarrow> u32 \<Rightarrow> ('s, u32) prog" where
  "failed_by_tag_read cfg P block_addr_ptr tag_addr_ptr errors = do {
     errors \<leftarrow> tally_sinc P errors (Transition_to_initialized None);
     errors \<leftarrow> tally_sinc P errors (Transition_to_cache_active None);
     set_crypto_perms P tag_addr_ptr 0 block_addr_ptr 1;
     errors \<leftarrow> failing_fetch cfg P SINC_STATUS_AUTH_TAG_R_ERR errors;
     reset_and_renew cfg P (set_crypto_perms P tag_addr_ptr 1 block_addr_ptr 1) errors
   }"

text \<open>8. an error of the AES engine\<close>

definition failed_by_aes :: "config \<Rightarrow> 's platform \<Rightarrow> u32 \<Rightarrow> ('s, u32) prog" where
  "failed_by_aes cfg P errors = do {
     errors \<leftarrow> tally_sinc P errors (Transition_to_initialized None);
     sinc P (Write_reg R_num_of_blocks 1);
     ext P (Set_scratch0 2);
     errors \<leftarrow> tally_sinc P errors (Call_encrypt_block (Some (K cfg SINC_STATUS_AES_ERR)));
     errors \<leftarrow> check_failed cfg P errors;
     ext P (Set_scratch0 0);
     reset_and_renew cfg P (State_Monad.return ()) errors
   }"

definition failed_state_setup :: "config \<Rightarrow> 's platform \<Rightarrow> ('s, u32 \<times> u32 \<times> u32) prog" where
  "failed_state_setup cfg P = do {
     sinc P New_SINC_DRIVER;
     ext P New_DMB_DRIVER;
     ext P New_MISC_DRIVER;
     let errors = 0;
     enable_access_irqs cfg P;
     ext P (Mpu_inten_write (push_bit (unat (K cfg MPU_SPCIRAM)) 1));
     rng_start cfg P;
     ext P (Disable_interrupt (K cfg HSP_AXI_WDT_IRQ));
     ext P (Disable_interrupt (K cfg HSP_DMB_IRQ));
     block_addr_ptr \<leftarrow> acquire_sram cfg P;
     tag_addr_ptr \<leftarrow> acquire_tag_sram cfg P;
     ccs_cmd_buf \<leftarrow> alloc_cmd_buf cfg P;
     ext P (New_CCS_DRIVER ccs_cmd_buf 0 0 0);
     errors \<leftarrow> gen_key cfg P errors 0;
     nonce \<leftarrow> random_fill P (Local []) 3;
     write_settings cfg P 0 0 0 (Local nonce) block_addr_ptr tag_addr_ptr;
     hw_status P [];
     hw_status P [block_addr_ptr];
     hw_status P [tag_addr_ptr];
     st \<leftarrow> sinc P (Read_reg R_status);
     hw_status P [st];
     State_Monad.return (block_addr_ptr, tag_addr_ptr, errors)
   }"

definition cache_failed_state_RUN_TEST :: "config \<Rightarrow> 's platform \<Rightarrow> ('s, unit) prog" where
  "cache_failed_state_RUN_TEST cfg P = do {
     s \<leftarrow> failed_state_setup cfg P;
     let block_addr_ptr = fst s;
     let tag_addr_ptr = fst (snd s);
     errors \<leftarrow> failed_by_hw_fault cfg P (snd (snd s));
     errors \<leftarrow> failed_by_block_read cfg P block_addr_ptr tag_addr_ptr errors;
     errors \<leftarrow> failed_by_tag_check cfg P tag_addr_ptr errors;
     errors \<leftarrow> failed_by_tag_read cfg P block_addr_ptr tag_addr_ptr errors;
     errors \<leftarrow> failed_by_aes cfg P errors;
     errors \<leftarrow> tally_sinc P errors (Transition_to_initialized None);
     initial_value \<leftarrow> ext P Rand;
     sinc P (Write_reg R_num_of_blocks 1);
     sinc P (Setup_known_data (K cfg SSY_HSP_SHAREDRAM_BASE_ADDR) 128 initial_value);
     errors \<leftarrow> tally_sinc P errors (Call_encrypt_block None);
     errors \<leftarrow> tally_sinc P errors (Transition_to_cache_active None);
     errors \<leftarrow> tally_sinc P errors
       (Check_known_data (K cfg SSY_CPU0_MEMORY_DEF_HSP_CIRAM_ADDRESS) 128 initial_value);
     report P errors
   }"

section \<open>sinc_auth_tag_mismatch\<close>

text \<open>The offset of a word of a block, \<open>block*512 + word_num*4\<close>.\<close>

definition word_offset :: "u32 \<Rightarrow> u32 \<Rightarrow> u32" where
  "word_offset block word_num = block * 512 + word_num * 4"

text \<open>\<open>block = (cache_tag << 7) | set\<close> with \<open>cache_tag = rand() & 0xff\<close>\<close>

definition block_in_set :: "u32 \<Rightarrow> u32 \<Rightarrow> u32" where
  "block_in_set set_idx r = push_bit 7 (r AND 0xff) OR set_idx"

text \<open>The \<open>i\<close>-th block read to evict the block at index \<open>block_sel\<close>.\<close>

definition evicting_block :: "u32 list \<Rightarrow> u32 \<Rightarrow> u32 \<Rightarrow> u32" where
  "evicting_block blocks block_sel i = blocks ! unat ((block_sel + i + 1) mod 10)"

text \<open>Read a word and compare; a mismatch ends the test.\<close>

definition read_checked ::
  "config \<Rightarrow> 's platform \<Rightarrow> u32 \<Rightarrow> u32 \<Rightarrow> ('s, unit) prog" where
  "read_checked cfg P offset initial_value = do {
     let full_addr = K cfg SSY_CPU0_MEMORY_DEF_HSP_CIRAM_ADDRESS + offset;
     hw_status P [full_addr];
     rdata \<leftarrow> ext P (Hw_read32 full_addr);
     let exp_rdata = offset + initial_value;
     (if rdata \<noteq> exp_rdata then give_up P [rdata, exp_rdata, full_addr] else State_Monad.return ())
   }"

definition corrupt_tag :: "'s platform \<Rightarrow> u32 \<Rightarrow> u32 \<Rightarrow> u32 \<Rightarrow> u32 \<Rightarrow> ('s, unit) prog" where
  "corrupt_tag P tag_addr_ptr block auth_tag_word auth_tag_bit = do {
     let a = tag_addr_ptr + 4 * (block * 4 + auth_tag_word);
     rdata \<leftarrow> ext P (Hw_read32 a);
     hw_status P [block, auth_tag_word, a, rdata];
     let wdata = rdata XOR push_bit (unat auth_tag_bit) 1;
     ext P (Hw_write32 a wdata);
     hw_status P [block, auth_tag_word, a, wdata];
     State_Monad.return ()
   }"

text \<open>The last read, which fetches the block with the corrupted tag.\<close>

definition read_corrupted ::
  "config \<Rightarrow> 's platform \<Rightarrow> test_params \<Rightarrow> u32 \<Rightarrow> u32 \<Rightarrow> u32 \<Rightarrow> ('s, u32) prog" where
  "read_corrupted cfg P params offset initial_value errors = do {
     let full_addr = K cfg SSY_CPU0_MEMORY_DEF_HSP_CIRAM_ADDRESS + offset;
     hw_status P [full_addr];
     rdata \<leftarrow> ext P (Hw_read32 full_addr);
     let exp_rdata = offset + initial_value;
     (if disable_encryption params = 0 then do {
        (if rdata = exp_rdata then give_up P [rdata, full_addr] else State_Monad.return ());
        tally_sinc P errors (Check_sinc_state (K cfg SINC_STATE_CACHE_FAILED))
      } else do {
        (if rdata \<noteq> exp_rdata then give_up P [rdata, full_addr] else State_Monad.return ());
        tally_sinc P errors (Check_sinc_state (K cfg SINC_STATE_CACHE_ACTIVE))
      })
   }"

text \<open>One round of the test: fill, read, corrupt, read again, evict, read once more.\<close>

definition auth_tag_encrypt :: "config \<Rightarrow> 's platform \<Rightarrow> u32 \<Rightarrow> ('s, u32 list \<times> u32 \<times> u32) prog" where
  "auth_tag_encrypt cfg P errors = do {
     r \<leftarrow> ext P Rand;
     let set_idx = r AND 0x7f;
     blocks \<leftarrow> for_each (idx 10) (\<lambda>i table. pick_fresh cfg P (block_in_set set_idx) table) [];
     initial_value \<leftarrow> ext P Rand;
     errors \<leftarrow> for_each blocks (\<lambda>block errors.
       encrypt_offsets cfg P initial_value block (block * 512) errors) errors;
     State_Monad.return (blocks, initial_value, errors)
   }"

definition auth_tag_round ::
  "config \<Rightarrow> 's platform \<Rightarrow> test_params \<Rightarrow> u32 \<Rightarrow> u32 \<Rightarrow> ('s, u32) prog" where
  "auth_tag_round cfg P params tag_addr_ptr errors = do {
     errors \<leftarrow> tally_sinc P errors (Transition_to_initialized None);
     e \<leftarrow> auth_tag_encrypt cfg P errors;
     let blocks = fst e;
     let initial_value = fst (snd e);
     errors \<leftarrow> tally_sinc P (snd (snd e)) (Transition_to_cache_active None);
     r \<leftarrow> ext P Rand;
     let block_sel = r mod 10;
     let block = blocks ! unat block_sel;
     r \<leftarrow> ext P Rand;
     let auth_tag_word = r mod 4;
     r \<leftarrow> ext P Rand;
     let auth_tag_bit = r mod 32;
     r \<leftarrow> ext P Rand;
     let word_num = r mod 128;
     read_checked cfg P (word_offset block word_num) initial_value;
     errors \<leftarrow> tally_sinc P errors (Check_sinc_state (K cfg SINC_STATE_CACHE_ACTIVE));
     corrupt_tag P tag_addr_ptr block auth_tag_word auth_tag_bit;
     read_checked cfg P (word_offset block word_num) initial_value;
     errors \<leftarrow> tally_sinc P errors (Check_sinc_state (K cfg SINC_STATE_CACHE_ACTIVE));
     for_each (idx 4) (\<lambda>i u. do {
       r \<leftarrow> ext P Rand;
       let full_addr = K cfg SSY_CPU0_MEMORY_DEF_HSP_CIRAM_ADDRESS +
         word_offset (evicting_block blocks block_sel i) (r mod 128);
       hw_status P [full_addr];
       ext P (Hw_read32 full_addr);
       State_Monad.return ()
     }) ();
     errors \<leftarrow> read_corrupted cfg P params (word_offset block word_num) initial_value errors;
     errors \<leftarrow> tally_sinc P errors (Call_sinc_reset None);
     nonce \<leftarrow> random_fill P (Local []) 3;
     sinc P (Write_all_aes_iv_nonce (Local nonce));
     State_Monad.return errors
   }"

definition auth_tag_mismatch_RUN_TEST ::
  "config \<Rightarrow> 's platform \<Rightarrow> test_params \<Rightarrow> ('s, unit) prog" where
  "auth_tag_mismatch_RUN_TEST cfg P params = do {
     sinc P New_SINC_DRIVER;
     ext P New_DMB_DRIVER;
     let errors = 0;
     ext P New_AEB_DRIVER;
     rng_start cfg P;
     block_addr_ptr \<leftarrow> acquire_sram cfg P;
     tag_addr_ptr \<leftarrow> acquire_tag_sram cfg P;
     ccs_cmd_buf \<leftarrow> alloc_cmd_buf cfg P;
     ext P (New_CCS_DRIVER ccs_cmd_buf 0 0 0);
     errors \<leftarrow> gen_key cfg P errors 0;
     sinc P (Write_reg R_block_encr_num 0);
     sinc P (Write_reg R_num_of_blocks 16);
     sinc P (Write_reg R_block_encr_addr (K cfg SSY_HSP_SHAREDRAM_BASE_ADDR));
     sinc P (Write_reg R_block_encr_key 0);
     nonce \<leftarrow> random_fill P (Local []) 3;
     sinc P (Write_all_aes_iv_nonce (Local nonce));
     sinc P (Write_reg R_ext_block_base_addr block_addr_ptr);
     sinc P (Write_reg R_ext_auth_tag_base_addr tag_addr_ptr);
     hw_status P [];
     (if disable_encryption params = 1
      then do { ext P (Aeb_enable (K cfg AEB_SINC_AUTHEN_DISABLE)); State_Monad.return () }
      else State_Monad.return ());
     errors \<leftarrow> for_each (idx 3) (\<lambda>i errors. auth_tag_round cfg P params tag_addr_ptr errors) errors;
     report P errors
   }"

section \<open>Accounting\<close>

lemma acct_gate_checks [acct_intros]:
  assumes "\<And>y. acct (counting nothing_ignored) y restore (\<lambda>_. y)"
  shows "acct (counting nothing_ignored) x (gate_checks P params n restore x) (\<lambda>v. v)"
  unfolding gate_checks_def by (rule acct_intros assms | simp)+

lemma acct_checked_mod [acct_intros]: "acct w x (checked_mod a b) (\<lambda>_. x)"
  unfolding checked_mod_def
  by (rule acct_bind [where f = "\<lambda>_. x"]) (auto intro: acct_return acct_halt_Undefined)

lemma acct_checked_nth [acct_intros]: "acct w x (checked_nth xs i) (\<lambda>_. x)"
  unfolding checked_nth_def
  by (rule acct_bind [where f = "\<lambda>_. x"]) (auto intro: acct_return acct_halt_Undefined)

lemma acct_initialized_encrypt_setup:
  "acct (counting nothing_ignored) 0 (initialized_encrypt_setup cfg P params)
     (\<lambda>s. snd (snd (snd s)))"
  unfolding initialized_encrypt_setup_def by (rule acct_intros acct_return | simp)+

lemma acct_initialized_encrypt:
  "acct_done (counting nothing_ignored) 0 (initialized_encrypt_RUN_TEST cfg P params)"
  unfolding initialized_encrypt_RUN_TEST_def
  by (rule acct_intros acct_done_bind [OF acct_initialized_encrypt_setup] | simp)+

lemma acct_check_int_cnt:
  "acct (counting nothing_ignored) x (check_int_cnt cfg P a b) (\<lambda>v. x + v)"
  unfolding check_int_cnt_def
  by (rule acct_sub_start) (rule acct_sub_intros | simp)+

lemma acct_refused_write [acct_intros]:
  "acct (counting nothing_ignored) x (refused_write cfg P a n x) (\<lambda>v. v)"
  unfolding refused_write_def by (rule acct_intros acct_check_int_cnt | simp)+

lemma acct_encrypt_groups:
  "acct (counting nothing_ignored) x (encrypt_groups cfg P n b x) (\<lambda>st. snd (snd st))"
  unfolding encrypt_groups_def
  by (rule acct_for_each [where f = "\<lambda>st. snd (snd st)" and y = "(b, [], x)", simplified])
    (rule acct_intros acct_return | simp)+

lemma acct_compare_groups [acct_intros]:
  "acct (counting nothing_ignored) x (compare_groups cfg P vs n b x) (\<lambda>v. v)"
  unfolding compare_groups_def
  by (rule acct_bind [OF acct_for_each [where f = snd and y = "(b, x)", simplified]])
    (rule acct_intros acct_return | simp)+

lemma acct_compare_random_block [acct_intros]:
  "acct (counting nothing_ignored) x (compare_random_block cfg P params vs n b x) (\<lambda>v. v)"
  unfolding compare_random_block_def by (rule acct_intros | simp)+

lemma acct_active_mem_access_setup:
  "acct (counting nothing_ignored) 0 (active_mem_access_setup cfg P params) (\<lambda>s. snd (snd s))"
  unfolding active_mem_access_setup_def by (rule acct_intros acct_return | simp)+

lemma acct_active_mem_access:
  "acct_done (counting nothing_ignored) 0 (active_mem_access_RUN_TEST cfg P params)"
  unfolding active_mem_access_RUN_TEST_def
  by (rule acct_intros acct_done_bind [OF acct_active_mem_access_setup]
      acct_done_bind [OF acct_encrypt_groups] | simp)+

lemma acct_blocked_access [acct_sub_intros]:
  "acct (counting nothing_ignored) (x + y) (blocked_access cfg P a d n y) (\<lambda>v. x + v)"
  unfolding blocked_access_def by (rule acct_sub_intros | simp)+

lemma acct_check_write_read_in_cache_failed:
  "acct (counting nothing_ignored) x (check_write_read_in_cache_failed cfg P) (\<lambda>v. x + v)"
  unfolding check_write_read_in_cache_failed_def
  by (rule acct_sub_start) (rule acct_sub_intros | simp)+

lemma acct_set_crypto_perms [acct_intros]:
  "acct (counting ign) x (set_crypto_perms P t a b c) (\<lambda>_. x)"
  unfolding set_crypto_perms_def by (rule acct_intros | simp)+

lemma acct_reset_and_renew [acct_intros]:
  assumes "\<And>y. acct (counting nothing_ignored) y restore (\<lambda>_. y)"
  shows "acct (counting nothing_ignored) x (reset_and_renew cfg P restore x) (\<lambda>v. v)"
  unfolding reset_and_renew_def by (rule acct_intros assms | simp)+

lemma acct_check_failed [acct_intros]:
  "acct (counting nothing_ignored) x (check_failed cfg P x) (\<lambda>v. v)"
  unfolding check_failed_def by (rule acct_intros | simp)+

lemma acct_failing_fetch [acct_intros]:
  "acct (counting nothing_ignored) x (failing_fetch cfg P err x) (\<lambda>v. v)"
  unfolding failing_fetch_def by (rule acct_intros | simp)+

lemma acct_failed_phases [acct_intros]:
  "acct (counting nothing_ignored) x (failed_by_hw_fault cfg P x) (\<lambda>v. v)"
  "acct (counting nothing_ignored) x (failed_by_block_read cfg P b t x) (\<lambda>v. v)"
  "acct (counting nothing_ignored) x (failed_by_tag_check cfg P t x) (\<lambda>v. v)"
  "acct (counting nothing_ignored) x (failed_by_tag_read cfg P b t x) (\<lambda>v. v)"
  "acct (counting nothing_ignored) x (failed_by_aes cfg P x) (\<lambda>v. v)"
  unfolding failed_by_hw_fault_def failed_by_block_read_def failed_by_tag_check_def
    failed_by_tag_read_def failed_by_aes_def
  by (rule acct_intros acct_check_write_read_in_cache_failed | simp)+

lemma acct_failed_state_setup:
  "acct (counting nothing_ignored) 0 (failed_state_setup cfg P) (\<lambda>s. snd (snd s))"
  unfolding failed_state_setup_def by (rule acct_intros acct_return | simp)+

lemma acct_cache_failed_state:
  "acct_done (counting nothing_ignored) 0 (cache_failed_state_RUN_TEST cfg P)"
  unfolding cache_failed_state_RUN_TEST_def
  by (rule acct_intros acct_done_bind [OF acct_failed_state_setup] | simp)+

lemma acct_read_checked [acct_intros]:
  "acct (counting nothing_ignored) x (read_checked cfg P a v) (\<lambda>_. x)"
  unfolding read_checked_def by (rule acct_intros | simp)+

lemma acct_corrupt_tag [acct_intros]:
  "acct (counting ign) x (corrupt_tag P t b w k) (\<lambda>_. x)"
  unfolding corrupt_tag_def by (rule acct_intros | simp)+

lemma acct_read_corrupted [acct_intros]:
  "acct (counting nothing_ignored) x (read_corrupted cfg P params a v x) (\<lambda>v. v)"
  unfolding read_corrupted_def by (rule acct_intros | simp)+

lemma acct_auth_tag_encrypt:
  "acct (counting nothing_ignored) x (auth_tag_encrypt cfg P x) (\<lambda>e. snd (snd e))"
  unfolding auth_tag_encrypt_def
  by (rule acct_intros acct_return acct_for_each [where f = "\<lambda>_. x" and y = "[]", simplified] | simp)+

lemma acct_auth_tag_round [acct_intros]:
  "acct (counting nothing_ignored) x (auth_tag_round cfg P params t x) (\<lambda>v. v)"
  unfolding auth_tag_round_def
  by (rule acct_intros acct_bind [OF acct_auth_tag_encrypt] | simp)+

lemma acct_auth_tag_mismatch:
  "acct_done (counting nothing_ignored) 0 (auth_tag_mismatch_RUN_TEST cfg P params)"
  unfolding auth_tag_mismatch_RUN_TEST_def by (rule acct_intros | simp)+

section \<open>Absence of undefined behaviour\<close>

lemma safe_enable_access_irqs: "safe (enable_access_irqs cfg P) (\<lambda>_. True)"
  unfolding enable_access_irqs_def by (rule safe_intros | simp)+

lemma safe_gate_checks:
  "safe restore (\<lambda>_. True) \<Longrightarrow> safe (gate_checks P params n restore e) (\<lambda>_. True)"
  unfolding gate_checks_def by (rule safe_intros safe_blocks | assumption | simp)+

lemma safe_refused_write: "safe (refused_write cfg P a n e) (\<lambda>_. True)"
  unfolding refused_write_def check_int_cnt_def add_errors_def by (rule safe_intros safe_blocks | simp)+

lemma safe_checked_mod: "b \<noteq> 0 \<Longrightarrow> safe (checked_mod a b) (\<lambda>v. v = a mod b)"
  unfolding checked_mod_def by (simp add: safe_return)

lemma safe_checked_nth: "unat i < length xs \<Longrightarrow> safe (checked_nth xs i) (\<lambda>_. True)"
  unfolding checked_nth_def by (simp add: safe_return)

subsection \<open>Block counts\<close>

lemma unat_round_blocks:
  assumes "n \<le> 16000"
  shows "0 < unat (round_blocks n)" "unat (round_blocks n) \<le> 16000"
    "unat (round_blocks n) mod 16 = 0" "unat n \<le> unat (round_blocks n)"
proof -
  have n: "unat n \<le> 16000" using assms by (simp add: word_le_nat_alt)
  have r: "unat (round_blocks n) = (if unat n = 0 \<or> unat n mod 16 \<noteq> 0 then (unat n div 16 + 1) * 16 else unat n)"
  proof -
    have "unat ((n div 16 + 1) * 16) = (unat n div 16 + 1) * 16"
      using n by (simp add: unat_word_ariths unat_div)
    moreover have "n mod 16 = 0 \<longleftrightarrow> unat n mod 16 = 0" "n = 0 \<longleftrightarrow> unat n = 0"
      by (simp_all add: word_unat_eq_iff unat_mod)
    ultimately show ?thesis by (simp add: round_blocks_def)
  qed
  have split: "unat n = unat n div 16 * 16 + unat n mod 16" "unat n mod 16 < 16" by simp_all
  show "0 < unat (round_blocks n)" "unat (round_blocks n) mod 16 = 0" using r by auto
  show "unat n \<le> unat (round_blocks n)" using r split by (auto simp: algebra_simps)
  show "unat (round_blocks n) \<le> 16000"
  proof (cases "unat n = 0 \<or> unat n mod 16 \<noteq> 0")
    case True
    then have "unat n div 16 < 1000" using split n by (elim disjE) linarith+
    with True r show ?thesis by simp
  qed (use r n in simp)
qed

lemma safe_encrypt_groups:
  assumes "unat n \<le> 1000"
  shows "safe (encrypt_groups cfg P n b e) (\<lambda>st. length (fst (snd st)) = unat n)"
proof -
  have less: "(word_of_nat k :: u32) < 1000" if "k < unat n" for k
    using that assms by (simp add: word_less_nat_alt unat_of_nat)
  let ?Q = "\<lambda>k (st :: u32 \<times> u32 list \<times> u32). length (fst (snd st)) = k"
  show ?thesis
    unfolding encrypt_groups_def
    by (rule safe_for_each [of "idx (unat n)" ?Q _ "(b, [], e)", simplified length_idx])
      (simp_all add: less Let_def, (rule safe_intros safe_blocks | simp)+)
qed

lemma safe_compare_groups:
  assumes "length vs = unat n"
  shows "safe (compare_groups cfg P vs n b e) (\<lambda>_. True)"
proof -
  have "unat (word_of_nat k :: u32) < length vs" if "k < unat n" for k
    using order.strict_trans [OF that unsigned_less] that assms by (simp add: unat_of_nat)
  note nth = safe_checked_nth [OF this]
  show ?thesis
    unfolding compare_groups_def
    by (rule safe_bind [OF safe_for_each [where Q = "\<lambda>_ _. True"]])
      (simp_all, (rule safe_intros safe_blocks nth | simp)+)
qed

lemma safe_compare_random_block:
  assumes "0 < unat n" and "length vs = unat n div 16" and "unat n mod 16 = 0"
  shows "safe (compare_random_block cfg P params vs n b e) (\<lambda>_. True)"
proof -
  have n: "n \<noteq> 0" using assms(1) by auto
  have "unat (v div 16) < length vs" if "v = r mod n" for v r :: u32
  proof -
    have "unat v < unat n" using that assms(1) by (simp add: unat_mod)
    also have "unat n = 16 * length vs" using assms(2,3) by (auto simp: mod_eq_0_iff_dvd)
    finally show ?thesis by (simp add: unat_div less_mult_imp_div_less mult.commute)
  qed
  note nth = safe_checked_nth [OF this]
  show ?thesis
    unfolding compare_random_block_def
    by (rule safe_bind [OF safe_ext] safe_bind [OF safe_checked_mod [OF n]] safe_bind [OF nth] safe_intros
        safe_blocks | assumption | simp)+
qed

lemma safe_active_mem_access_setup:
  assumes "num_blocks_to_encrypt params \<le> 16000"
  shows "safe (active_mem_access_setup cfg P params)
    (\<lambda>s. fst s = round_blocks (num_blocks_to_encrypt params))"
proof -
  let ?n = "round_blocks (num_blocks_to_encrypt params)"
  have "32768 - ?n \<noteq> 0" using unat_round_blocks(2) [OF assms] by (auto simp: word_le_nat_alt)
  note mod = safe_checked_mod [OF this]
  show ?thesis
    unfolding active_mem_access_setup_def
    by (rule safe_bind [OF mod] safe_intros safe_blocks safe_enable_access_irqs safe_gate_checks | simp)+
qed

subsection \<open>Addresses of one set\<close>

lemma word_offset_in_set:
  assumes "s < 128"
  shows "word_offset (block_in_set s r) w = offset_addr r s + w * 4"
proof -
  have "b * 512 = push_bit 9 b" for b :: u32 by (simp add: push_bit_eq_mult)
  then have "block_in_set s r * 512 = push_bit 9 (push_bit 7 (r AND 0xff) OR s)"
    by (simp only: block_in_set_def)
  also have "\<dots> = offset_addr r s"
    unfolding offset_addr_def
    by (rule bit_word_eqI) (auto simp: bit_simps masks dest: bit_less_128 [OF assms])
  finally show ?thesis by (simp add: word_offset_def)
qed

lemma same_tag_same_block:
  assumes "(ucast r :: u8) = ucast r'"
  shows "block_in_set s r = block_in_set s r'"
proof -
  have "bit r n = bit r' n" if "n < 8" for n
    using arg_cong [OF assms, of "\<lambda>v. bit v n"] that by (simp add: bit_simps)
  then have "r AND 0xff = r' AND 0xff"
    unfolding masks by (intro bit_word_eqI) (auto simp: bit_simps)
  then show ?thesis by (simp add: block_in_set_def)
qed

lemma decode_word_offset:
  assumes "s < 128" and "w < 128"
  shows "cache_tag_of (word_addr (word_offset (block_in_set s r) w)) = ucast r"
    and "cache_set_idx_of (word_addr (word_offset (block_in_set s r) w)) = ucast s"
  by (simp_all only: word_offset_in_set [OF assms(1)] decode_offset [OF assms(2)])

text \<open>The five blocks of a round: the selected one and the four behind it, cyclically.\<close>

lemma round_indices:
  assumes "sel < (10 :: u32)"
  shows "distinct (unat sel # map (\<lambda>i. unat ((sel + i + 1) mod 10)) (idx 4))"
    and "\<forall>k \<in> set (map (\<lambda>i. unat ((sel + i + 1) mod 10)) (idx 4)). k < 10"
proof -
  have "sel \<in> {0, 1, 2, 3, 4, 5, 6, 7, 8, 9}"
  proof -
    have "unat sel < 10" using assms by (simp add: word_less_nat_alt)
    then have "unat sel \<in> {0, 1, 2, 3, 4, 5, 6, 7, 8, 9}" by auto
    then have "word_of_nat (unat sel) \<in> {0, 1, 2, 3, 4, 5, 6, 7, 8, (9 :: u32)}"
      by (elim insertE) simp_all
    then show ?thesis by simp
  qed
  moreover have idx: "idx 4 = [0, 1, 2, 3]" by (simp add: idx_def upt_rec)
  ultimately show "distinct (unat sel # map (\<lambda>i. unat ((sel + i + 1) mod 10)) (idx 4))"
    unfolding idx by (elim insertE) simp_all
  show "\<forall>k \<in> set (map (\<lambda>i. unat ((sel + i + 1) mod 10)) (idx 4)). k < 10"
    by (simp add: unat_mod)
qed

lemma fifo_round:
  assumes "distinct (t # ts)" and "length ts = 4"
  shows "fst (lookups fifo_access [] (t # t # ts @ [t])) = [False, True, False, False, False, False, False]"
proof -
  obtain t1 t2 t3 t4 where "ts = [t1, t2, t3, t4]" using length_4E [OF assms(2)] .
  with assms(1) show ?thesis by (auto simp: fifo_access_def)
qed

lemma round_hits:
  assumes "s < 128" and "length rs = 10" and "distinct (map (block_in_set s) rs)" and "sel < 10"
    and "w < 128" and "\<And>i. ws i < 128" and "vtag_wf (c (ucast s))" and "vtag_content (c (ucast s)) = []"
  shows "fst (lookups cache_read c (map word_addr (
      let blocks = map (block_in_set s) rs; block = blocks ! unat sel
      in [word_offset block w, word_offset block w] @
        map (\<lambda>i. word_offset (evicting_block blocks sel i) (ws i)) (idx 4) @ [word_offset block w]))) =
    [False, True, False, False, False, False, False]"
proof -
  let ?tag = "\<lambda>k. ucast (rs ! k) :: u8"
  let ?k = "\<lambda>i. unat ((sel + i + 1) mod 10)"
  note ix = round_indices [OF assms(4)]
  have sel: "unat sel < 10" using assms(4) by (simp add: word_less_nat_alt)
  have k: "?k i < 10" for i by (simp add: unat_mod)
  have inj: "inj_on ?tag {..<10}"
  proof (rule inj_onI)
    fix i j
    assume "i \<in> {..<10}" "j \<in> {..<10}" and "?tag i = ?tag j"
    with same_tag_same_block [of "rs ! i" "rs ! j" s] assms(2,3)
    show "i = j" by (auto simp: distinct_conv_nth)
  qed
  let ?as = "let blocks = map (block_in_set s) rs; block = blocks ! unat sel
    in [word_offset block w, word_offset block w] @
      map (\<lambda>i. word_offset (evicting_block blocks sel i) (ws i)) (idx 4) @ [word_offset block w]"
  have nth: "map (block_in_set s) rs ! i = block_in_set s (rs ! i)" if "i < 10" for i
    using that assms(2) by simp
  have "set_holds (ucast s) [] c" using assms(7,8) by (simp add: set_holds_def)
  moreover have "list_all (\<lambda>a. cache_set_idx_of a = ucast s) (map word_addr ?as)"
    using sel k by (simp add: Let_def evicting_block_def nth decode_word_offset assms list_all_iff)
  ultimately have "fst (lookups cache_read c (map word_addr ?as)) =
      fst (lookups fifo_access [] (map cache_tag_of (map word_addr ?as)))"
    by (rule reads_in_set)
  also have "map cache_tag_of (map word_addr ?as) =
      ?tag (unat sel) # ?tag (unat sel) # map ?tag (map ?k (idx 4)) @ [?tag (unat sel)]"
    using sel k by (simp add: Let_def evicting_block_def nth decode_word_offset assms)
  also have "fst (lookups fifo_access [] \<dots>) = [False, True, False, False, False, False, False]"
  proof (rule fifo_round)
    have "distinct (map ?tag (unat sel # map ?k (idx 4)))"
      using ix sel inj by (intro iffD2 [OF distinct_map] conjI inj_on_subset [OF inj]) auto
    then show "distinct (?tag (unat sel) # map ?tag (map ?k (idx 4)))" by simp
  qed simp
  finally show ?thesis .
qed

subsection \<open>The reads of a round\<close>

text \<open>The window of the cached memory, 32768 blocks of 512 bytes, and the reads in it, as offsets in order.\<close>

definition in_ciram :: "config \<Rightarrow> u32 \<Rightarrow> bool" where
  "in_ciram cfg a = (a - K cfg SSY_CPU0_MEMORY_DEF_HSP_CIRAM_ADDRESS < 0x1000000)"

definition ciram_reads :: "config \<Rightarrow> call list \<Rightarrow> u32 list" where
  "ciram_reads cfg cs = List.map_filter (\<lambda>c. case c of
     Hw_read32 a \<Rightarrow> if in_ciram cfg a then Some (a - K cfg SSY_CPU0_MEMORY_DEF_HSP_CIRAM_ADDRESS) else None
   | _ \<Rightarrow> None) cs"

text \<open>The calls since \<open>base\<close> have read at the offsets \<open>xs\<close>.\<close>

definition reading :: "config \<Rightarrow> call list \<Rightarrow> u32 list \<Rightarrow> 's mach \<Rightarrow> bool" where
  "reading cfg base xs m \<longleftrightarrow> (\<exists>cs. calls m = base @ cs \<and> ciram_reads cfg cs = xs)"

text \<open>The first reads of a round, and a round that stopped with these.\<close>

definition round_reads :: "cache \<Rightarrow> u32 list \<Rightarrow> bool" where
  "round_reads c xs \<longleftrightarrow> (\<exists>ys. fst (lookups cache_read c (map word_addr (xs @ ys))) =
     [False, True, False, False, False, False, False])"

definition cut_short :: "config \<Rightarrow> call list \<Rightarrow> cache \<Rightarrow> 's mach \<Rightarrow> bool" where
  "cut_short cfg base c m \<longleftrightarrow> (\<exists>xs. reading cfg base xs m \<and> round_reads c xs)"

lemma round_reads_hits:
  assumes "round_reads c xs"
  shows "fst (lookups cache_read c (map word_addr xs)) = take (length xs) [False, True, False, False, False, False, False]"
proof -
  from assms obtain ys where
    "fst (lookups cache_read c (map word_addr (xs @ ys))) = [False, True, False, False, False, False, False]"
    by (auto simp: round_reads_def)
  then show ?thesis
    by (metis append_eq_conv_conj length_lookups length_map lookups_append map_append)
qed

lemma round_reads_prefix: "round_reads c (xs @ ys) \<Longrightarrow> round_reads c xs"
  unfolding round_reads_def append_assoc by blast

lemma reading_status: "reading cfg base xs (m\<lparr>status := s\<rparr>) = reading cfg base xs m"
  by (simp add: reading_def calls_def)

lemma reading_call:
  "reading cfg base xs m \<Longrightarrow> reading cfg base (xs @ ciram_reads cfg [c]) (m\<lparr>dev := d, log := (c, r) # log m\<rparr>)"
  by (auto simp: reading_def calls_def ciram_reads_def map_filter_def intro!: exI [of _ "_ @ [c]"])

lemma reading_ext: "runs S (reading cfg base xs) (ext P c) (\<lambda>_. reading cfg base (xs @ ciram_reads cfg [c]))"
  by (rule runs_ext) (rule reading_call)

lemma reading_other:
  "\<forall>a. c = Hw_read32 a \<longrightarrow> \<not> in_ciram cfg a \<Longrightarrow> runs S (reading cfg base xs) (ext P c) (\<lambda>_. reading cfg base xs)"
  using reading_ext [of S cfg base xs P c] by (cases c) (simp_all add: ciram_reads_def map_filter_def)

lemma reading_tally: "runs S (reading cfg base xs) (tally_sinc P e c) (\<lambda>_. reading cfg base xs)"
  unfolding tally_def by (rule runs_bind [OF reading_other]) (simp_all add: runs_return)

lemma reading_cached:
  assumes "x < 0x1000000"
  shows "runs S (reading cfg base xs) (ext P (Hw_read32 (K cfg SSY_CPU0_MEMORY_DEF_HSP_CIRAM_ADDRESS + x)))
    (\<lambda>_. reading cfg base (xs @ [x]))"
  using reading_ext [of S cfg base xs P "Hw_read32 (K cfg SSY_CPU0_MEMORY_DEF_HSP_CIRAM_ADDRESS + x)"] assms
  by (simp add: ciram_reads_def map_filter_def in_ciram_def)

lemma reading_give_up:
  assumes "round_reads c xs"
  shows "runs (cut_short cfg base c) (reading cfg base xs) (give_up P args) B"
  unfolding give_up_def hw_errmsg_def hw_done_def
  by (rule runs_bind [OF reading_other], simp, rule runs_bind [OF reading_other], simp, rule runs_halt)
    (use assms in \<open>auto simp: cut_short_def reading_status\<close>)

lemmas reading_intros = runs_bind [OF reading_other] runs_bind [OF reading_tally] reading_tally reading_other runs_let

lemma reading_read_checked:
  assumes "x < 0x1000000" and "round_reads c (xs @ [x])"
  shows "runs (cut_short cfg base c) (reading cfg base xs) (read_checked cfg P x v) (\<lambda>_. reading cfg base (xs @ [x]))"
  unfolding read_checked_def Let_def
  by (rule runs_bind [OF reading_other], simp, rule runs_bind [OF reading_cached [OF assms(1)]])
    (auto intro: reading_give_up assms(2) runs_return)

lemma reading_read_corrupted:
  assumes "x < 0x1000000" and "round_reads c (xs @ [x])"
  shows "runs (cut_short cfg base c) (reading cfg base xs) (read_corrupted cfg P params x v e)
    (\<lambda>_. reading cfg base (xs @ [x]))"
proof -
  have check: "runs (cut_short cfg base c) (reading cfg base (xs @ [x]))
      (do { (if b then give_up P args else State_Monad.return ()); tally_sinc P e q })
      (\<lambda>_. reading cfg base (xs @ [x]))" for b args q
    by (rule runs_bind [where B = "\<lambda>_. reading cfg base (xs @ [x])"])
      (auto intro: reading_give_up assms(2) runs_return reading_tally)
  show ?thesis
    unfolding read_corrupted_def Let_def
    by (rule runs_bind [OF reading_other], simp, rule runs_bind [OF reading_cached [OF assms(1)]])
      (rule runs_if check)+
qed

lemma reading_corrupt_tag:
  assumes "\<not> in_ciram cfg (t + 4 * (b * 4 + w))"
  shows "runs S (reading cfg base xs) (corrupt_tag P t b w n) (\<lambda>_. reading cfg base xs)"
  unfolding corrupt_tag_def using assms by (auto intro!: reading_intros runs_return)

lemma reading_keeps:
  assumes "\<And>xs. runs S (reading cfg base xs) p (\<lambda>_. reading cfg base xs)"
  shows "runs S (\<lambda>m. \<exists>xs. reading cfg base xs m \<and> Q xs) p (\<lambda>_ m. \<exists>xs. reading cfg base xs m \<and> Q xs)"
proof (rule runs_ex)
  fix xs
  have "runs S (\<lambda>m. Q xs \<and> reading cfg base xs m) p (\<lambda>_ m. \<exists>xs. reading cfg base xs m \<and> Q xs)"
    by (rule runs_pure [OF runs_conseq [OF assms] runs_frozen [OF assms]]) auto
  then show "runs S (\<lambda>m. reading cfg base xs m \<and> Q xs) p (\<lambda>_ m. \<exists>xs. reading cfg base xs m \<and> Q xs)"
    by (rule runs_conseq) auto
qed

text \<open>The blocks of a round lie in one set and are different.\<close>

definition round_blocks_ok :: "u32 \<Rightarrow> nat \<Rightarrow> u32 list \<Rightarrow> bool" where
  "round_blocks_ok s n blocks \<longleftrightarrow>
     s < 128 \<and> (\<exists>rs. length rs = n \<and> blocks = map (block_in_set s) rs \<and> distinct blocks)"

lemma reading_encrypt:
  assumes "round_reads c []"
  shows "runs (cut_short cfg base c) (reading cfg base []) (auth_tag_encrypt cfg P e)
    (\<lambda>v m. (\<exists>s. round_blocks_ok s 10 (fst v)) \<and> reading cfg base [] m)"
proof -
  let ?S = "cut_short cfg base c" and ?R = "reading cfg base []"
  have pick: "runs ?S (\<lambda>m. round_blocks_ok s k table \<and> ?R m) (pick_fresh cfg P (block_in_set s) table)
      (\<lambda>t m. round_blocks_ok s (Suc k) t \<and> ?R m)" for s k table
  proof (rule runs_conseq [OF runs_pick_fresh])
    show "round_blocks_ok s k table \<and> ?R (m\<lparr>dev := snd (reply P Rand (dev m)), log := (Rand, fst (reply P Rand (dev m))) # log m\<rparr>)"
      if "round_blocks_ok s k table \<and> ?R m" for m
      using that reading_call [of cfg base "[]" m Rand] by (simp add: ciram_reads_def map_filter_def)
    show "?S (m\<lparr>status := Out_of_fuel\<rparr>)" if "round_blocks_ok s k table \<and> ?R m" for m
      using that assms by (auto simp: cut_short_def reading_status)
    show "round_blocks_ok s (Suc k) t \<and> ?R m"
      if ok: "(\<exists>r. t = table @ [block_in_set s r] \<and> block_in_set s r \<notin> set table) \<and> round_blocks_ok s k table \<and> ?R m" for t m
    proof -
      from ok obtain r rs where "t = map (block_in_set s) (rs @ [r])" "length rs = k" "distinct t" "s < 128"
        by (auto simp: round_blocks_ok_def)
      then have "round_blocks_ok s (Suc k) t" unfolding round_blocks_ok_def by (intro conjI exI [of _ "rs @ [r]"]) auto
      with ok show ?thesis by simp
    qed
  qed
  have table: "runs ?S ?R (for_each (idx 10) (\<lambda>i table. pick_fresh cfg P (block_in_set s) table) [])
      (\<lambda>t m. round_blocks_ok s 10 t \<and> ?R m)" if "s < 128" for s
    by (rule runs_conseq [OF runs_for_each [where J = "\<lambda>k t m. round_blocks_ok s k t \<and> ?R m"]], rule pick)
      (use that in \<open>auto simp: round_blocks_ok_def\<close>)
  have rest: "runs ?S ?R (do {
      v \<leftarrow> ext P Rand;
      e \<leftarrow> for_each blocks (\<lambda>block e. encrypt_offsets cfg P v block (block * 512) e) e;
      State_Monad.return (blocks, v, e) }) (\<lambda>v m. fst v = blocks \<and> ?R m)" for blocks
    unfolding encrypt_offsets_def
    by (rule runs_bind [OF reading_other], simp, rule runs_bind [OF runs_for_each_const])
      (auto intro!: reading_intros runs_bind [OF runs_for_each_const] runs_return)
  show ?thesis
    unfolding auth_tag_encrypt_def Let_def
  proof (rule runs_bind [OF reading_other], simp, rule runs_bind [OF table])
    fix r :: u32
    show "r AND 0x7f < 128" using and_mask_less' [of 7 r] by (simp add: mask_eq_exp_minus_1)
  next
    fix r :: u32 and blocks
    let ?s = "r AND 0x7f"
    show "runs ?S (\<lambda>m. round_blocks_ok ?s 10 blocks \<and> ?R m) (do {
        v \<leftarrow> ext P Rand;
        e \<leftarrow> for_each blocks (\<lambda>block e. encrypt_offsets cfg P v block (block * 512) e) e;
        State_Monad.return (blocks, v, e) }) (\<lambda>v m. (\<exists>s. round_blocks_ok s 10 (fst v)) \<and> ?R m)"
      by (rule runs_pure [OF runs_conseq [OF rest] runs_frozen [OF rest]]) auto
  qed
qed

text \<open>The four reads that evict the selected block, with random words.\<close>

lemma reading_evict:
  assumes "\<And>i w. w < 128 \<Longrightarrow> word_offset (evicting_block blocks sel i) w < 0x1000000"
  shows "runs S (reading cfg base xs) (for_each (idx 4) (\<lambda>i u. do {
       r \<leftarrow> ext P Rand;
       let full_addr = K cfg SSY_CPU0_MEMORY_DEF_HSP_CIRAM_ADDRESS + word_offset (evicting_block blocks sel i) (r mod 128);
       hw_status P [full_addr];
       ext P (Hw_read32 full_addr);
       State_Monad.return ()
     }) ())
    (\<lambda>_ m. \<exists>ws. (\<forall>i. ws i < 128) \<and>
      reading cfg base (xs @ map (\<lambda>i. word_offset (evicting_block blocks sel i) (ws i)) (idx 4)) m)"
proof -
  let ?x = "\<lambda>i w. word_offset (evicting_block blocks sel i) w"
  let ?J = "\<lambda>k (_ :: unit) m. \<exists>ws. (\<forall>i. ws i < 128) \<and> reading cfg base (xs @ map (\<lambda>i. ?x i (ws i)) (take k (idx 4))) m"
  have step: "runs S (?J k u) (do {
       r \<leftarrow> ext P Rand;
       let full_addr = K cfg SSY_CPU0_MEMORY_DEF_HSP_CIRAM_ADDRESS + ?x (idx 4 ! k) (r mod 128);
       hw_status P [full_addr];
       ext P (Hw_read32 full_addr);
       State_Monad.return () }) (?J (Suc k))" if k: "k < length (idx 4)" for k u
  proof (rule runs_ex)
    fix ws :: "u32 \<Rightarrow> u32"
    let ?i = "idx 4 ! k" and ?xs = "xs @ map (\<lambda>i. ?x i (ws i)) (take k (idx 4))"
    have "k \<in> {0, 1, 2, 3}" using k by auto
    moreover have "idx 4 = [0, 1, 2, 3]" by (simp add: idx_def upt_rec)
    ultimately have "?i \<notin> set (take k (idx 4))" by (elim insertE) simp_all
    then have new: "xs @ map (\<lambda>i. ?x i ((ws(?i := w)) i)) (take (Suc k) (idx 4)) = ?xs @ [?x ?i w]" for w
      using k by (auto simp: take_Suc_conv_app_nth)
    have mod: "r mod 128 < 128" for r :: u32 by (rule word_mod_less_divisor) simp
    show "runs S (\<lambda>m. (\<forall>i. ws i < 128) \<and> reading cfg base ?xs m) (do {
       r \<leftarrow> ext P Rand;
       let full_addr = K cfg SSY_CPU0_MEMORY_DEF_HSP_CIRAM_ADDRESS + ?x ?i (r mod 128);
       hw_status P [full_addr];
       ext P (Hw_read32 full_addr);
       State_Monad.return () }) (?J (Suc k))"
      unfolding Let_def
    proof (rule runs_pure, rule runs_bind [OF reading_other], simp, rule runs_bind [OF reading_other], simp,
        rule runs_bind [OF reading_cached [OF assms [OF mod]]], rule runs_return)
      fix r :: u32 and m :: "'a mach"
      assume "\<forall>i. ws i < 128" and "reading cfg base (?xs @ [?x ?i (r mod 128)]) m"
      then show "?J (Suc k) () m"
        by (intro exI [of _ "ws(?i := r mod 128)"]) (simp add: new mod del: fun_upd_apply, simp add: mod)
    qed (rule frozen_intros)+
  qed
  have "runs S (?J 0 ()) (for_each (idx 4) (\<lambda>i u. do {
       r \<leftarrow> ext P Rand;
       let full_addr = K cfg SSY_CPU0_MEMORY_DEF_HSP_CIRAM_ADDRESS + ?x i (r mod 128);
       hw_status P [full_addr];
       ext P (Hw_read32 full_addr);
       State_Monad.return () }) ()) (?J (length (idx 4)))"
    by (rule runs_for_each [where J = ?J]) (rule step)
  then show ?thesis by (rule runs_conseq) (auto intro: exI [of _ "\<lambda>_. 0"])
qed

text \<open>A round as a whole: the offsets are in the window, and whatever stops the round, its reads are the first ones.\<close>

lemma block_in_set_less: "s < 128 \<Longrightarrow> block_in_set s r < 32768"
proof -
  assume s: "s < 128"
  have "block_in_set s r = block_in_set s r AND mask 15"
    unfolding block_in_set_def masks
    by (rule bit_word_eqI) (auto simp: bit_simps dest: bit_less_128 [OF s])
  also have "\<dots> < 2 ^ 15" by (rule and_mask_less') simp
  finally show ?thesis by simp
qed

lemma word_offset_less:
  assumes "b < 32768" and "w < 128"
  shows "word_offset b w < 0x1000000"
proof -
  have "unat b < 32768" "unat w < 128" using assms by (simp_all add: word_less_nat_alt)
  then have "unat (word_offset b w) = unat b * 512 + unat w * 4"
    by (simp add: word_offset_def unat_word_ariths)
  with \<open>unat b < 32768\<close> \<open>unat w < 128\<close> show ?thesis by (simp add: word_less_nat_alt)
qed

lemma tag_offset_less:
  assumes "b < (32768 :: u32)" and "w < 4"
  shows "4 * (b * 4 + w) < 0x80000"
proof -
  have "unat b < 32768" "unat w < 4" using assms by (simp_all add: word_less_nat_alt)
  then have "unat (4 * (b * 4 + w)) = 4 * (unat b * 4 + unat w)" by (simp add: unat_word_ariths)
  with \<open>unat b < 32768\<close> \<open>unat w < 4\<close> show ?thesis by (simp add: word_less_nat_alt)
qed

lemma round_reads_full:
  assumes "round_blocks_ok s 10 blocks" and "sel < 10" and "w < 128" and "\<And>i. ws i < 128"
    and "\<forall>s. vtag_wf (c s) \<and> vtag_content (c s) = []"
  shows "round_reads c ([word_offset (blocks ! unat sel) w, word_offset (blocks ! unat sel) w] @
    map (\<lambda>i. word_offset (evicting_block blocks sel i) (ws i)) (idx 4) @ [word_offset (blocks ! unat sel) w])"
proof -
  from assms(1) obtain rs where rs: "length rs = 10" "blocks = map (block_in_set s) rs" "distinct blocks" "s < 128"
    by (auto simp: round_blocks_ok_def)
  show ?thesis
    using round_hits [of s rs sel w ws c] rs assms(2-5) by (auto simp: round_reads_def Let_def intro!: exI [of _ "[]"])
qed

lemma frozen_round:
  "frozen (tally P e q)" "frozen (give_up P args)" "frozen (random_fill P b n)" "frozen (read_checked cfg P x v)"
  "frozen (corrupt_tag P t k w j)" "frozen (read_corrupted cfg P params x v e)"
  unfolding tally_def give_up_def hw_errmsg_def hw_done_def random_fill_def read_checked_def corrupt_tag_def
    read_corrupted_def
  by (rule frozen_intros)+

text \<open>The last read, behind the evicting ones.\<close>

lemma reading_last:
  fixes ev :: "(u32 \<Rightarrow> u32) \<Rightarrow> u32 list"
  assumes x: "x < 0x1000000" and full: "\<And>ws. (\<And>i. ws i < 128) \<Longrightarrow> round_reads c (xs @ ev ws @ [x])"
    and len: "\<And>ws. length (xs @ ev ws @ [x]) = 7"
  shows "runs (cut_short cfg base c) (\<lambda>m. \<exists>ws. (\<forall>i. ws i < (128 :: u32)) \<and> reading cfg base (xs @ ev ws) m)
    (read_corrupted cfg P params x v e) (\<lambda>_ m. \<exists>xs. reading cfg base xs m \<and> round_reads c xs \<and> length xs = 7)"
proof (rule runs_ex, rule runs_pure)
  fix ws :: "u32 \<Rightarrow> u32"
  assume "\<forall>i. ws i < 128"
  then have full: "round_reads c (xs @ ev ws @ [x])" by (simp add: full)
  then have "runs (cut_short cfg base c) (reading cfg base (xs @ ev ws)) (read_corrupted cfg P params x v e)
      (\<lambda>_. reading cfg base ((xs @ ev ws) @ [x]))"
    by (intro reading_read_corrupted [OF x]) simp
  then show "runs (cut_short cfg base c) (reading cfg base (xs @ ev ws)) (read_corrupted cfg P params x v e)
      (\<lambda>_ m. \<exists>xs. reading cfg base xs m \<and> round_reads c xs \<and> length xs = 7)"
    by (rule runs_conseq) (use full len [of ws] in auto)
qed (rule frozen_round)

text \<open>From the first to the last read.\<close>

lemma reading_round:
  assumes tags: "\<forall>k < 0x80000. \<not> in_ciram cfg (t + k)"
    and empty: "\<forall>s. vtag_wf (c s) \<and> vtag_content (c s) = []"
    and ok: "round_blocks_ok s 10 blocks" and sel: "sel < 10" and w: "w < 128" and k: "k < 4"
  shows "runs (cut_short cfg base c) (reading cfg base []) (do {
      read_checked cfg P (word_offset (blocks ! unat sel) w) v;
      errors \<leftarrow> tally_sinc P errors q;
      corrupt_tag P t (blocks ! unat sel) k n;
      read_checked cfg P (word_offset (blocks ! unat sel) w) v;
      errors \<leftarrow> tally_sinc P errors q;
      for_each (idx 4) (\<lambda>i u. do {
        r \<leftarrow> ext P Rand;
        let full_addr = K cfg SSY_CPU0_MEMORY_DEF_HSP_CIRAM_ADDRESS + word_offset (evicting_block blocks sel i) (r mod 128);
        hw_status P [full_addr];
        ext P (Hw_read32 full_addr);
        State_Monad.return ()
      }) ();
      read_corrupted cfg P params (word_offset (blocks ! unat sel) w) v errors })
    (\<lambda>_ m. \<exists>xs. reading cfg base xs m \<and> round_reads c xs \<and> length xs = 7)"
proof -
  let ?x = "word_offset (blocks ! unat sel) w"
  let ?ev = "\<lambda>ws. map (\<lambda>i. word_offset (evicting_block blocks sel i) (ws i)) (idx 4)"
  have b: "b < 32768" if "b \<in> set blocks" for b
    using that ok by (auto simp: round_blocks_ok_def block_in_set_less)
  have len: "length blocks = 10" using ok by (auto simp: round_blocks_ok_def)
  then have block: "blocks ! unat sel < 32768" using sel by (intro b nth_mem) (simp add: word_less_nat_alt)
  have ev: "word_offset (evicting_block blocks sel i) w < 0x1000000" if "w < 128" for i w
    using that len by (intro word_offset_less b) (simp_all add: evicting_block_def unat_mod)
  note x = word_offset_less [OF block w]
  have full: "round_reads c ([?x, ?x] @ ?ev ws @ [?x])" if "\<And>i. ws i < 128" for ws
    by (rule round_reads_full [OF ok sel w that empty])
  have "round_reads c [?x]" "round_reads c [?x, ?x]"
    using full [of "\<lambda>_. 0"] round_reads_prefix [of c "[?x]"] round_reads_prefix [of c "[?x, ?x]"] by simp_all
  then have first: "runs (cut_short cfg base c) (reading cfg base []) (read_checked cfg P ?x v) (\<lambda>_. reading cfg base [?x])"
    and second: "runs (cut_short cfg base c) (reading cfg base [?x]) (read_checked cfg P ?x v) (\<lambda>_. reading cfg base [?x, ?x])"
    using reading_read_checked [OF x, of c "[]"] reading_read_checked [OF x, of c "[?x]"] by simp_all
  have last: "runs (cut_short cfg base c) (\<lambda>m. \<exists>ws. (\<forall>i. ws i < 128) \<and> reading cfg base ([?x, ?x] @ ?ev ws) m)
      (read_corrupted cfg P params ?x v errors)
      (\<lambda>_ m. \<exists>xs. reading cfg base xs m \<and> round_reads c xs \<and> length xs = 7)" for errors
    by (rule reading_last [OF x]) (simp_all add: full [simplified])
  show ?thesis
    by (rule runs_bind [OF first], rule runs_bind [OF reading_tally],
      rule runs_bind [OF reading_corrupt_tag [OF tags [rule_format, OF tag_offset_less [OF block k]]]],
      rule runs_bind [OF second], rule runs_bind [OF reading_tally],
      rule runs_bind [OF reading_evict [OF ev]], assumption, rule last)
qed

lemma runs_auth_tag_round:
  assumes tags: "\<forall>k < 0x80000. \<not> in_ciram cfg (t + k)"
    and empty: "\<forall>s. vtag_wf (c s) \<and> vtag_content (c s) = []"
  shows "runs (cut_short cfg base c) (reading cfg base []) (auth_tag_round cfg P params t e)
    (\<lambda>_ m. \<exists>xs. reading cfg base xs m \<and> round_reads c xs \<and> length xs = 7)"
proof -
  let ?B = "\<lambda>_ m. \<exists>xs. reading cfg base xs m \<and> round_reads c xs \<and> length xs = 7"
  have "round_blocks_ok 0 10 (map (block_in_set 0) (idx 10))"
    unfolding round_blocks_ok_def
    by (intro conjI exI [of _ "idx 10"]) (simp_all add: block_in_set_def idx_def upt_rec)
  from round_reads_full [OF this, of 0 0 "\<lambda>_. 0" c] empty have none: "round_reads c []"
    by (auto dest: round_reads_prefix [of c "[]", simplified])
  have finish: "runs (cut_short cfg base c) (?B u) (do {
      errors \<leftarrow> tally_sinc P errors (Call_sinc_reset None);
      nonce \<leftarrow> random_fill P (Local []) 3;
      sinc P (Write_all_aes_iv_nonce (Local nonce));
      State_Monad.return errors }) ?B" for u :: u32 and errors
    unfolding random_fill_def State_Monad.bind_assoc
    by (rule reading_keeps, rule runs_bind [OF reading_tally], rule runs_bind [where B = "\<lambda>_. reading cfg base _"])
      (auto intro!: reading_intros runs_peek runs_return)
  have mod: "r mod 10 < 10" "r mod 128 < 128" "r mod 4 < 4" for r :: u32 by (simp_all add: word_mod_less_divisor)
  note body = runs_bind [OF reading_round [OF tags empty _ mod] finish, unfolded State_Monad.bind_assoc Let_def]
  show ?thesis
    unfolding auth_tag_round_def Let_def
    by (rule runs_bind [OF reading_tally], rule runs_bind [OF reading_encrypt [OF none]], rule runs_pure,
      elim exE, rule runs_bind [OF reading_tally], rule runs_bind [OF reading_other], simp,
      rule runs_bind [OF reading_other], simp, rule runs_bind [OF reading_other], simp,
      rule runs_bind [OF reading_other], simp, rule body, assumption)
      (rule frozen_intros frozen_round)+
qed

section \<open>Properties\<close>

text \<open>C26: the reads that a round of \<open>sinc_auth_tag_mismatch\<close> makes do what its comments say. On every platform, with the
  tags outside of the cached memory, take the reads of cached memory from the calls of the round, in order, to a tag store
  that is empty at the start, as the reset before the round leaves it. The first one, of the selected
  block, misses, the one after the corruption of the tag still hits, the four of the following blocks of the table
  miss, and the last one, of the selected block, misses again, so that the corrupted tag is fetched. A round that
  stops before its end has made the first of these reads.\<close>

theorem auth_tag_round_evicts:
  assumes "status m = Running" and "\<And>k. k < 0x80000 \<Longrightarrow> \<not> in_ciram cfg (tag_addr_ptr + k)"
    and "\<And>s. vtag_wf (c s) \<and> vtag_content (c s) = []"
  shows "case run_state (auth_tag_round cfg P params tag_addr_ptr errors) m of (e, m') \<Rightarrow>
    \<exists>cs n. calls m' = calls m @ cs \<and>
      fst (lookups cache_read c (map word_addr (ciram_reads cfg cs))) =
        take n [False, True, False, False, False, False, False] \<and>
      (status m' = Running \<longrightarrow> n = 7)"
proof -
  obtain e m' where r: "run_state (auth_tag_round cfg P params tag_addr_ptr errors) m = (e, m')"
    by (cases "run_state (auth_tag_round cfg P params tag_addr_ptr errors) m")
  have "reading cfg (calls m) [] m" by (simp add: reading_def ciram_reads_def)
  moreover have "runs (cut_short cfg (calls m) c) (reading cfg (calls m) []) (auth_tag_round cfg P params tag_addr_ptr errors)
      (\<lambda>_ m'. \<exists>xs. reading cfg (calls m) xs m' \<and> round_reads c xs \<and> length xs = 7)"
    by (rule runs_auth_tag_round) (simp_all add: assms(2,3))
  ultimately have round: "status m' = Running \<Longrightarrow> \<exists>xs. reading cfg (calls m) xs m' \<and> round_reads c xs \<and> length xs = 7"
    "status m' \<noteq> Running \<Longrightarrow> cut_short cfg (calls m) c m'"
    using runsD [OF _ assms(1) _ r] by blast+
  show ?thesis
  proof (cases "status m' = Running")
    case True
    from round(1) [OF this] obtain xs where "reading cfg (calls m) xs m'" "round_reads c xs" "length xs = 7" by blast
    with True show ?thesis using round_reads_hits [of c xs] by (auto simp: r reading_def)
  next
    case False
    from round(2) [OF this] obtain xs where "reading cfg (calls m) xs m'" "round_reads c xs" by (auto simp: cut_short_def)
    with False show ?thesis using round_reads_hits [of c xs] by (auto simp: r reading_def)
  qed
qed

text \<open>A platform on which \<open>rand\<close> counts and cached memory holds what the round expects.\<close>

definition patterned :: "u32 platform" where
  "patterned = \<lparr>reply = (\<lambda>c d. case c of Rand \<Rightarrow> (d, d + 1) | Hw_read32 a \<Rightarrow> (a - 0x1000000 + 11, d) | _ \<Rightarrow> (0, d)),
     fill = (\<lambda>d n. 0)\<rparr>"

definition at_state :: "'s \<Rightarrow> 's mach \<Rightarrow> bool" where
  "at_state d m \<longleftrightarrow> status m = Running \<and> dev m = d"

lemma patterned_ext:
  "triple (at_state d) (ext patterned c) (\<lambda>v m. v = fst (reply patterned c d) \<and> at_state (snd (reply patterned c d)) m)"
  by (rule triple_ext) (auto simp: at_state_def)

lemma patterned_quiet: "c \<noteq> Rand \<Longrightarrow> triple (at_state d) (ext patterned c) (\<lambda>_. at_state d)"
  by (rule triple_conseq [OF patterned_ext]) (cases c; simp add: patterned_def)+

lemma patterned_rand: "triple (at_state d) (ext patterned Rand) (\<lambda>v m. v = d \<and> at_state (d + 1) m)"
  by (rule triple_conseq [OF patterned_ext]) (simp_all add: patterned_def)

lemma patterned_pick:
  assumes "f d \<notin> set table"
  shows "triple (at_state d) (pick_fresh cfg patterned f table) (\<lambda>t m. t = table @ [f d] \<and> at_state (d + 1) m)"
proof -
  have "triple (at_state d) (do_while n (do { r \<leftarrow> ext patterned Rand; State_Monad.return (f r) })
      (\<lambda>x. repeat_val x (length table) table \<noteq> 0)) (\<lambda>x m. x = f d \<and> at_state (d + 1) m)" for n
    using assms repeat_val_iff [of "f d" table]
    by (cases n) (auto intro!: triple_bind_value [OF patterned_rand] triple_return)
  then show ?thesis unfolding pick_fresh_def by (rule triple_bind_value) (simp add: triple_return)
qed

lemma patterned_encrypt:
  "triple (at_state 0) (auth_tag_encrypt sample_cfg patterned e)
     (\<lambda>v m. (fst v = map (block_in_set 0) [1, 2, 3, 4, 5, 6, 7, 8, 9, 10] \<and> fst (snd v) = 11) \<and> at_state 12 m)"
proof -
  have enc: "triple (at_state d) (for_each bs (\<lambda>b e. encrypt_offsets sample_cfg patterned v b (b * 512) e) e) (\<lambda>_. at_state d)"
    for bs v d and e :: u32
    unfolding encrypt_offsets_def tally_def
    by (rule triple_for_each [where J = "\<lambda>_ _. at_state d"])
      (rule triple_bind [OF patterned_quiet] triple_bind [OF triple_for_each [where J = "\<lambda>_ _. at_state d"]]
        triple_return | simp)+
  have idx: "idx 10 = [0, 1, 2, 3, 4, 5, 6, 7, 8, 9]" by (simp add: idx_def upt_rec)
  have zero: "(0 :: u32) AND 0x7f = 0" "(0 :: u32) + 1 = 1" by simp_all
  have pick: "triple (at_state 1) (for_each (idx 10) (\<lambda>i table. pick_fresh sample_cfg patterned (block_in_set 0) table) [])
      (\<lambda>t m. t = map (block_in_set 0) [1, 2, 3, 4, 5, 6, 7, 8, 9, 10] \<and> at_state 11 m)"
    unfolding idx for_each.simps
    by ((rule triple_bind_value [OF patterned_pick], simp add: block_in_set_def)+, simp add: triple_return)
  show ?thesis
    unfolding auth_tag_encrypt_def Let_def
    by (rule triple_bind_value [OF patterned_rand], simp only: zero, rule triple_bind_value [OF pick],
      rule triple_bind_value [OF patterned_rand], rule triple_bind [OF enc], rule triple_return) simp
qed

lemma patterned_read:
  "triple (at_state d) (ext patterned (Hw_read32 a)) (\<lambda>v m. v = a - 0x1000000 + 11 \<and> at_state d m)"
  by (rule triple_conseq [OF patterned_ext]) (simp_all add: patterned_def)

lemma patterned_round:
  "triple (at_state 0) (auth_tag_round sample_cfg patterned (initParams\<lparr>disable_encryption := 1\<rparr>) 0x40000000 0)
     (\<lambda>_ m. status m = Running)"
proof -
  have base: "K sample_cfg SSY_CPU0_MEMORY_DEF_HSP_CIRAM_ADDRESS = 0x1000000" by (simp add: sample_cfg_def)
  have check: "triple (at_state d) (read_checked sample_cfg patterned x 11) (\<lambda>_. at_state d)" for d x
    unfolding read_checked_def Let_def
    by (rule triple_bind [OF patterned_quiet], simp, rule triple_bind_value [OF patterned_read])
      (simp add: base triple_return)
  have tally: "triple (at_state d) (tally_sinc patterned e c) (\<lambda>_. at_state d)" for d e c
    unfolding tally_def by (rule triple_bind [OF patterned_quiet]) (simp_all add: triple_return)
  have corrupt: "triple (at_state d) (corrupt_tag patterned t b w n) (\<lambda>_. at_state d)" for d t b w n
    unfolding corrupt_tag_def Let_def by (rule triple_bind [OF patterned_quiet] triple_return | simp)+
  have last: "triple (at_state d) (read_corrupted sample_cfg patterned (initParams\<lparr>disable_encryption := 1\<rparr>) x 11 e)
      (\<lambda>_. at_state d)" for d x e
    unfolding read_corrupted_def Let_def
    by (rule triple_bind [OF patterned_quiet], simp, rule triple_bind_value [OF patterned_read])
      (simp add: base tally initParams_def)
  have evict: "triple (\<lambda>m. \<exists>d. at_state d m) (for_each is (\<lambda>i u. do {
       r \<leftarrow> ext patterned Rand;
       hw_status patterned (f i r);
       ext patterned (Hw_read32 (g i r));
       State_Monad.return () }) ()) (\<lambda>_ m. \<exists>d. at_state d m)" for "is" :: "u32 list" and f g
    by (rule triple_for_each [where J = "\<lambda>_ _ m. \<exists>d. at_state d m"], rule triple_ex,
      rule triple_bind_value [OF patterned_rand], (rule triple_bind [OF patterned_quiet], simp)+, rule triple_return) blast
  have fill: "triple (at_state d) (random_fill patterned b n) (\<lambda>_. at_state d)" for d b n
    unfolding random_fill_def
    by (rule triple_bind [where B = "\<lambda>_. at_state d"], simp add: triple_def)
      (rule triple_bind [OF patterned_quiet] triple_return | simp)+
  have finish: "triple (\<lambda>m. \<exists>d. at_state d m) (do {
      errors \<leftarrow> read_corrupted sample_cfg patterned (initParams\<lparr>disable_encryption := 1\<rparr>) x 11 errors;
      errors \<leftarrow> tally_sinc patterned errors q;
      nonce \<leftarrow> random_fill patterned b n;
      sinc patterned (Write_all_aes_iv_nonce (Local nonce));
      State_Monad.return errors }) (\<lambda>_ m. status m = Running)" for x errors q b n
    by (rule triple_ex, rule triple_bind [OF last], rule triple_bind [OF tally], rule triple_bind [OF fill],
      rule triple_bind [OF patterned_quiet], simp, rule triple_return) (simp add: at_state_def)
  show ?thesis
    unfolding auth_tag_round_def Let_def
    by (rule triple_bind [OF tally], rule triple_bind [OF patterned_encrypt], rule triple_pure, elim conjE, simp only:,
      rule triple_bind [OF tally], (rule triple_bind_value [OF patterned_rand])+,
      rule triple_bind [OF check], rule triple_bind [OF tally], rule triple_bind [OF corrupt], rule triple_bind [OF check],
      rule triple_bind [OF tally], rule triple_bind [OF triple_conseq [OF evict]], blast, assumption, rule finish)
qed

theorem auth_tag_round_evicts_witness:
  "case run_state (auth_tag_round sample_cfg patterned (initParams\<lparr>disable_encryption := 1\<rparr>) 0x40000000 0)
      \<lparr>dev = 0, log = [], status = Running\<rparr> of (e, m') \<Rightarrow>
    status m' = Running \<and>
    fst (lookups cache_read (\<lambda>_. erased_set 3) (map word_addr (ciram_reads sample_cfg (calls m')))) =
      [False, True, False, False, False, False, False]"
proof -
  let ?m = "\<lparr>dev = 0, log = [], status = Running\<rparr>"
  let ?p = "auth_tag_round sample_cfg patterned (initParams\<lparr>disable_encryption := 1\<rparr>) 0x40000000 0"
  have "status (snd (run_state ?p ?m)) = Running" using patterned_round by (simp add: triple_def at_state_def split_beta)
  moreover have "\<not> in_ciram sample_cfg (0x40000000 + k)" if "k < 0x80000" for k
  proof -
    have "unat (0x3f000000 + k) = 0x3f000000 + unat k"
      using that by (simp add: unat_word_ariths word_less_nat_alt)
    then have "\<not> 0x3f000000 + k < 0x1000000" by (simp only: word_less_nat_alt) simp
    moreover have "0x40000000 + k - 0x1000000 = 0x3f000000 + k" by simp
    moreover have "K sample_cfg SSY_CPU0_MEMORY_DEF_HSP_CIRAM_ADDRESS = 0x1000000" by (simp add: sample_cfg_def)
    ultimately show ?thesis by (simp only: in_ciram_def not_False_eq_True)
  qed
  ultimately show ?thesis
    using auth_tag_round_evicts [where m = ?m and cfg = sample_cfg and tag_addr_ptr = "0x40000000" and c = "\<lambda>_. erased_set 3"
      and P = patterned and params = "initParams\<lparr>disable_encryption := 1\<rparr>" and errors = 0]
    by (auto simp: erased_set_wf calls_def split: prod.splits)
qed

text \<open>The four tests of the working cache report PASS only when no check failed and FAIL only when
  one did, on every platform and for all parameters.\<close>

lemma cache_tests_honest:
  "test_ok (counting nothing_ignored) (initialized_encrypt_RUN_TEST cfg P params) \<and>
   test_ok (counting nothing_ignored) (active_mem_access_RUN_TEST cfg P params) \<and>
   test_ok (counting nothing_ignored) (cache_failed_state_RUN_TEST cfg P) \<and>
   test_ok (counting nothing_ignored) (auth_tag_mismatch_RUN_TEST cfg P params)"
  using acct_done_test_ok [OF acct_initialized_encrypt] acct_done_test_ok [OF acct_active_mem_access]
    acct_done_test_ok [OF acct_cache_failed_state] acct_done_test_ok [OF acct_auth_tag_mismatch] by blast

text \<open>C25: with at most 16000 blocks requested, \<open>sinc_cache_active_mem_access\<close> never divides by zero and
  never leaves its array of 1000 initial values, on any platform.\<close>

theorem active_mem_access_defined:
  assumes "num_blocks_to_encrypt params \<le> 16000"
  shows "status (exec (active_mem_access_RUN_TEST cfg P params) d) \<noteq> Undefined"
proof -
  let ?n = "round_blocks (num_blocks_to_encrypt params)"
  note n = unat_round_blocks [OF assms]
  have groups: "safe (encrypt_groups cfg P (k div 16) b e) (\<lambda>st. length (fst (snd st)) = unat (k div 16))"
    if "k = ?n" for k b e
    using that n(2) by (intro safe_encrypt_groups) (simp add: unat_div)
  have block: "safe (compare_random_block cfg P params vs k b e) (\<lambda>_. True)"
    if "k = ?n" and "length vs = unat (k div 16)" for vs k b e
    using that n by (intro safe_compare_random_block) (simp_all add: unat_div)
  have "safe (active_mem_access_RUN_TEST cfg P params) (\<lambda>_. True)"
    unfolding active_mem_access_RUN_TEST_def
    by (rule safe_bind [OF safe_active_mem_access_setup [OF assms]]
        safe_bind [OF groups] safe_intros safe_blocks safe_gate_checks
        safe_refused_write safe_compare_groups block | assumption)+
  then show ?thesis by (auto simp: safe_def triple_def exec_def split_beta)
qed

theorem active_mem_access_defined_witness:
  "status (exec (active_mem_access_RUN_TEST sample_cfg counting_rand initParams) 0) \<noteq> Undefined"
  using active_mem_access_defined [of initParams sample_cfg counting_rand 0] by (simp add: initParams_def)

text \<open>The blocks that \<open>sinc_cache_active_mem_access\<close> encrypts are at least as many as requested,
  come in groups of 16, and lie within the 32768 blocks of the external memory, whatever number
  \<open>rand\<close> returns.\<close>

lemma encrypted_blocks_in_memory:
  assumes "n \<le> 16000"
  shows "0 < unat (round_blocks n) \<and> unat n \<le> unat (round_blocks n) \<and> unat (round_blocks n) mod 16 = 0 \<and>
    unat (r mod (32768 - round_blocks n)) + unat (round_blocks n) \<le> 32768"
proof -
  note b = unat_round_blocks [OF assms]
  have diff: "unat (32768 - round_blocks n) = 32768 - unat (round_blocks n)"
    using b(2) by (subst unat_sub) (simp_all add: word_le_nat_alt)
  then have "unat (r mod (32768 - round_blocks n)) < 32768 - unat (round_blocks n)"
    using b(2) by (simp add: unat_mod)
  with b show ?thesis by linarith
qed

lemma frozenD: "frozen p \<Longrightarrow> status m \<noteq> Running \<Longrightarrow> status (snd (run_state p m)) = status m"
  by (simp add: frozen_def)

lemma encrypt_groups_split:
  "1000 < n \<Longrightarrow> idx n = idx 1000 @ 1000 # map word_of_nat [1001..<n]"
  using upt_add_eq_append [of 0 1000 "n - 1000"] upt_conv_Cons [of 1000 n] by (simp add: idx_def)

text \<open>C35: with more groups than the array of initial values has entries, the encryption loop of
  \<open>sinc_cache_active_mem_access\<close> stores behind the end of the array, on every platform: a parameter
  above 16000 blocks is not rejected.\<close>

theorem encrypt_groups_overflow:
  assumes "1000 < unat n" and "status m = Running"
  shows "status (snd (run_state (encrypt_groups cfg P n b e) m)) = Undefined"
proof -
  define body where "body = (\<lambda>(i :: u32) st. do {
       let cur_block_num = fst st;
       let initial_value = fst (snd st);
       v \<leftarrow> ext P Rand;
       (if i < 1000 then State_Monad.return () else halt Undefined);
       sinc P (Setup_known_data (K cfg SSY_HSP_SHAREDRAM_BASE_ADDR) (1024 * 2) v);
       errors \<leftarrow> tally_sinc P (snd (snd st)) (Call_encrypt_block None);
       sinc P (Write_reg R_block_encr_num (cur_block_num + 16));
       State_Monad.return (cur_block_num + 16, initial_value @ [v], errors)
     })"
  have small: "(word_of_nat k :: u32) < 1000" if "k < 1000" for k
    using that by (simp add: word_less_nat_alt unat_of_nat)
  let ?R = "\<lambda>m. status m = Running"
  have ext: "triple ?R (ext P c) (\<lambda>_. ?R)" for c by (rule triple_ext) simp_all
  have "triple ?R (body (idx 1000 ! k) y) (\<lambda>_. ?R)" if "k < 1000" for k y
    unfolding body_def tally_def using small [OF that] that
    by (simp add: Let_def) (rule triple_bind [OF ext] triple_return | simp)+
  then have first: "triple ?R (for_each (idx 1000) body x) (\<lambda>_. ?R)" for x
    using triple_for_each [of "idx 1000" "\<lambda>_ _. ?R" body x] by simp
  have body: "acct w (snd (snd y)) (body i y) (\<lambda>st. snd (snd st))" if "w = counting nothing_ignored" for w i y
    unfolding body_def that by (rule acct_intros acct_return | simp)+
  have rest: "frozen (for_each is body y)" for "is" y
    using acct_for_each [OF body [OF refl], of y "is"] by (simp add: acct_def acctR_def)
  have stop: "status (snd (run_state (body 1000 y) m)) = Undefined" if "?R m" for y m
    using that by (simp add: body_def Let_def ext_def halt_def tally_def split_beta)
  obtain y m1 where m1: "run_state (for_each (idx 1000) body (b, [], e)) m = (y, m1)" by fastforce
  then have "?R m1" using first [of "(b, [], e)"] assms(2) by (auto simp: triple_def)
  from stop [OF this, of y] have "status (snd (run_state (for_each (idx (unat n)) body (b, [], e)) m)) = Undefined"
    using frozenD [OF rest, of "snd (run_state (body 1000 y) m1)" "map word_of_nat [1001..<unat n]"
        "fst (run_state (body 1000 y) m1)"]
    by (simp add: encrypt_groups_split [OF assms(1)] for_each_append m1 split_beta)
  then show ?thesis by (simp add: encrypt_groups_def body_def)
qed

theorem encrypt_groups_overflow_witness:
  "status (snd (run_state (encrypt_groups sample_cfg counting_rand 1001 0 0)
     \<lparr>dev = 0, log = [], status = Running\<rparr>)) = Undefined"
  using encrypt_groups_overflow [of 1001 "\<lparr>dev = 0, log = [], status = Running\<rparr>"] by simp

end
