(* ===== verification/TestsAes.thy ===== *)
theory TestsAes
  imports TestCommon
begin

text \<open>
  The tests of the AES test mode, in which the firmware drives the AES engine of SInC directly:
  \<open>sinc_aes_test_mode\<close>, \<open>sinc_aes_test_mode_reuse_key\<close>, \<open>sinc_aes_test_mode_reuse_key_gcm\<close> and
  \<open>sinc_aes_test_mode_l1_debug\<close>. The documented sequence of register accesses
  (\<open>docs/sinc_0101_MAS.md\<close>, \<open>Run AES in test mode\<close>) is an automaton. The tests write the mode parameters
  behind the data and again for every block; up to this order every command of the first test is a run of the
  automaton, and the commands of the other three stop one step short of its end, with the status unread.
\<close>

section \<open>One command\<close>

text \<open>One block of data: load, configure, wait, send, wait, compare, acknowledge.\<close>

definition aes_test_block ::
  "config \<Rightarrow> 's platform \<Rightarrow> aes_struct \<Rightarrow> u32 \<Rightarrow> u32 \<Rightarrow> u32 \<Rightarrow> u32 \<Rightarrow> u32 \<Rightarrow> u32 \<Rightarrow> ('s, u32) prog" where
  "aes_test_block cfg P aes_data encrypt gcm_mode reuse_key num_blocks i errors = do {
     sinc P (Write_all_aes_test_data_in
       ((if encrypt \<noteq> 0 then plaintext aes_data else ciphertext aes_data) + 4 * (i * 4)));
     sinc P (Set_aes_test_ctrl_mode_params encrypt gcm_mode reuse_key);
     sinc P Wait_for_data_in_rdy;
     sinc P (Set_aes_test_ctrl_data_params (if i = num_blocks - 1 then 1 else 0));
     sinc P Wait_for_data_out_vld;
     errors \<leftarrow> tally_sinc P errors (Compare_test_data_out
       ((if encrypt \<noteq> 0 then ciphertext aes_data else plaintext aes_data) + 4 * (i * 4)));
     sinc P (Write_reg R_aes_test_ctrl (K cfg SINC_AES_TEST_CTRL_DATA_OUT_ACK));
     State_Monad.return errors
   }"

definition aes_test_steps ::
  "config \<Rightarrow> 's platform \<Rightarrow> aes_struct \<Rightarrow> u32 \<Rightarrow> u32 \<Rightarrow> u32 \<Rightarrow> u32 \<Rightarrow> u32 \<Rightarrow> ('s, u32) prog" where
  "aes_test_steps cfg P aes_data key_slot encrypt gcm_mode reuse_key num_blocks = do {
     let errors = 0;
     sinc P (Write_reg R_cmd (K cfg SINC_CMD_AES_TEST_EN));
     sinc P (Write_reg R_block_encr_key key_slot);
     (if gcm_mode \<noteq> 0
      then do { sinc P (Write_all_aes_iv_nonce (At (init_vector aes_data))); State_Monad.return () }
      else State_Monad.return ());
     sinc P Wait_for_cfg_key_iv_rdy;
     errors \<leftarrow> for_each (idx (unat num_blocks))
       (aes_test_block cfg P aes_data encrypt gcm_mode reuse_key num_blocks) errors;
     errors \<leftarrow> (if gcm_mode \<noteq> 0 then do {
         sinc P Wait_for_data_out_vld_and_tag_out;
         errors \<leftarrow> tally_sinc P errors
           (Compare_test_data_out (ciphertext aes_data + 4 * (num_blocks * 4)));
         sinc P (Write_reg R_aes_test_ctrl (K cfg SINC_AES_TEST_CTRL_DATA_OUT_ACK));
         State_Monad.return errors
       } else State_Monad.return errors);
     sinc P (Write_reg R_cmd 0);
     State_Monad.return errors
   }"

text \<open>\<open>sinc_aes_test_mode\<close> also waits for the end of the command and checks its result.\<close>

definition do_aes_test_mode_cmd ::
  "config \<Rightarrow> 's platform \<Rightarrow> aes_struct \<Rightarrow> u32 \<Rightarrow> u32 \<Rightarrow> u32 \<Rightarrow> u32 \<Rightarrow> u32 \<Rightarrow> ('s, u32) prog" where
  "do_aes_test_mode_cmd cfg P aes_data key_slot encrypt gcm_mode reuse_key num_blocks = do {
     errors \<leftarrow> aes_test_steps cfg P aes_data key_slot encrypt gcm_mode reuse_key num_blocks;
     s \<leftarrow> sinc P Wait_for_no_cmd_in_progress;
     tally_sinc P errors (Check_cmd_result_status_success s)
   }"

section \<open>The tests\<close>

text \<open>
  Buffers for the command, its input and the AES data. When the last allocation fails the test
  reports \<open>HW_TEST_FAIL\<close> and goes on with the null pointer.
\<close>

definition aes_buffers :: "config \<Rightarrow> 's platform \<Rightarrow> ('s, u32 \<times> aes_struct \<times> u32) prog" where
  "aes_buffers cfg P = do {
     let errors = 0;
     rng_start cfg P;
     ccs_cmd_buf \<leftarrow> alloc_cmd_buf cfg P;
     input_buf \<leftarrow> alloc_buf P 48;
     ext P (New_CCS_DRIVER ccs_cmd_buf input_buf 0 0);
     aes_cmd_ptr \<leftarrow> ext P (Alloc 1280);
     errors \<leftarrow> (if aes_cmd_ptr = 0 then do {
         hw_errmsg P [K cfg SIZEOF_AES_CMD div 4];
         hw_done P HW_TEST_FAIL;
         State_Monad.return (errors + 1)
       } else State_Monad.return errors);
     let iv = aes_cmd_ptr + 4 * (K cfg SIZEOF_AES_CMD div 4);
     let aes_data = \<lparr>init_vector = iv, key = iv + 16, plaintext = iv + 48, ciphertext = iv + 560\<rparr>;
     hw_status P [];
     ext P (Aeb_enable (K cfg AEB_KSU_ATTRCHK_BYPASS));
     State_Monad.return (aes_cmd_ptr, aes_data, errors)
   }"

text \<open>\<open>setup_key\<close> in a random slot, then the command \<open>cmd\<close> with that slot.\<close>

definition key_and_cmd ::
  "config \<Rightarrow> 's platform \<Rightarrow> u32 \<Rightarrow> u32 option \<Rightarrow> (u32 \<Rightarrow> ('s, u32) prog) \<Rightarrow> u32 \<Rightarrow> ('s, u32) prog" where
  "key_and_cmd cfg P key_ptr gen cmd errors = do {
     r \<leftarrow> ext P Rand;
     let key_slot = r mod K cfg SSY_HSP_KSU_NUM_KEYS;
     errors \<leftarrow> tally_sinc P errors (Setup_key key_slot key_ptr gen);
     add_errors errors (cmd key_slot)
   }"

text \<open>\<open>sinc_aes_test_mode\<close>: each mode and direction once with a new key, ...\<close>

definition aes_mode_round ::
  "config \<Rightarrow> 's platform \<Rightarrow> u32 \<Rightarrow> aes_struct \<Rightarrow> u32 \<Rightarrow> u32 \<Rightarrow> u32 \<Rightarrow> ('s, u32) prog" where
  "aes_mode_round cfg P aes_cmd_ptr aes_data gcm_mode encrypt errors = do {
     r \<leftarrow> ext P Rand;
     let num_blocks = r mod 4 + 1;
     hw_status P [gcm_mode, encrypt, num_blocks];
     hw_status P [];
     sinc P (Gen_random_aes_data aes_cmd_ptr aes_data gcm_mode num_blocks []);
     errors \<leftarrow> key_and_cmd cfg P (key aes_data) None
       (\<lambda>key_slot. do_aes_test_mode_cmd cfg P aes_data key_slot encrypt gcm_mode 0 num_blocks) errors;
     fail_fast P errors;
     State_Monad.return errors
   }"

text \<open>... then thirty random rounds in which every second one reuses the key.\<close>

definition aes_random_round ::
  "config \<Rightarrow> 's platform \<Rightarrow> u32 \<Rightarrow> aes_struct \<Rightarrow> u32 \<times> u32 \<Rightarrow> ('s, u32 \<times> u32) prog" where
  "aes_random_round cfg P aes_cmd_ptr aes_data st = do {
     let reuse_key = fst st XOR 1;
     r \<leftarrow> ext P Rand;
     let gcm_mode = r AND 1;
     r \<leftarrow> ext P Rand;
     let encrypt = r AND 1;
     r \<leftarrow> ext P Rand;
     let num_blocks = r mod 4 + 1;
     hw_status P [gcm_mode, encrypt, num_blocks, reuse_key];
     hw_status P [];
     sinc P (Gen_random_aes_data aes_cmd_ptr aes_data gcm_mode num_blocks
       (if reuse_key = 0 then [] else [key aes_data]));
     errors \<leftarrow> key_and_cmd cfg P (if reuse_key = 0 then key aes_data else 0)
       (if reuse_key = 0 then None else Some 1)
       (\<lambda>key_slot. do_aes_test_mode_cmd cfg P aes_data key_slot encrypt gcm_mode reuse_key num_blocks)
       (snd st);
     fail_fast P errors;
     State_Monad.return (reuse_key, errors)
   }"

definition aes_test_mode_RUN_TEST :: "config \<Rightarrow> 's platform \<Rightarrow> ('s, unit) prog" where
  "aes_test_mode_RUN_TEST cfg P = do {
     sinc P New_SINC_DRIVER;
     ext P New_AES_DRIVER;
     ext P New_AEB_DRIVER;
     ext P New_DMB_DRIVER;
     nonce \<leftarrow> random_fill P (Local []) 3;
     block_addr_ptr \<leftarrow> acquire_sram cfg P;
     tag_addr_ptr \<leftarrow> acquire_tag_sram cfg P;
     s \<leftarrow> aes_buffers cfg P;
     let aes_cmd_ptr = fst s;
     let aes_data = fst (snd s);
     errors \<leftarrow> for_each (idx 2) (\<lambda>gcm_mode errors.
       for_each (idx 2) (\<lambda>encrypt errors.
         aes_mode_round cfg P aes_cmd_ptr aes_data gcm_mode encrypt errors) errors) (snd (snd s));
     st \<leftarrow> for_each (idx 30) (\<lambda>i. aes_random_round cfg P aes_cmd_ptr aes_data) (0, errors);
     write_settings cfg P 0 1 0 (Local nonce) block_addr_ptr tag_addr_ptr;
     errors \<leftarrow> tally_sinc P (snd st) (Transition_to_initialized None);
     initial_value \<leftarrow> ext P Rand;
     sinc P (Write_reg R_num_of_blocks 1);
     sinc P (Setup_known_data (K cfg SSY_HSP_SHAREDRAM_BASE_ADDR) 128 initial_value);
     errors \<leftarrow> tally_sinc P errors (Call_encrypt_block None);
     errors \<leftarrow> tally_sinc P errors (Transition_to_cache_active None);
     errors \<leftarrow> tally_sinc P errors
       (Check_known_data (K cfg SSY_CPU0_MEMORY_DEF_HSP_CIRAM_ADDRESS) 128 initial_value);
     report P errors
   }"

text \<open>
  The other three tests use known answers: a vector has a key, a plaintext, a ciphertext (followed by
  the tag in GCM mode) and, where the test copies one, an initialization vector.
\<close>

record kat =
  kat_key :: "u32 list"
  kat_pt :: "u32 list"
  kat_ct :: "u32 list"
  kat_iv :: "u32 list"

definition reuse_kat_1 :: kat where
  "reuse_kat_1 = \<lparr>
     kat_key = [0x5a5e69ae, 0x0e7ba9ba, 0x9b518b97, 0x790fbd3b, 0x756699b7, 0xcb033879, 0x677edae1, 0xe3715dc0],
     kat_pt = [0xb5ff6886, 0x11b58739, 0xc75331df, 0xe9dda8b9],
     kat_ct = [0xa8bdff8e, 0x17a57a16, 0xe7cae82f, 0x00f77d9a], kat_iv = []\<rparr>"

definition reuse_kat_2 :: kat where
  "reuse_kat_2 = \<lparr>kat_key = kat_key reuse_kat_1,
     kat_pt = [0xd032ff6a, 0x9dcfa192, 0x8eccb290, 0x3e8e8752, 0xa63dc851, 0xda40faa8, 0xbf03b0be, 0x1152e9c6],
     kat_ct = [0x44e0b577, 0x2605dfd4, 0x43dd82d9, 0xcc03f518, 0x6c801fb7, 0xf2fed142, 0x03875472, 0x5c0868cb],
     kat_iv = []\<rparr>"

definition gcm_kat_1 :: kat where
  "gcm_kat_1 = \<lparr>
     kat_key = [0x20598f36, 0xbee451a3, 0xc07cde03, 0x6ad2e662, 0x3af8cef3, 0xc3c37694, 0x213f2248, 0xb414e438],
     kat_pt = [0xbdcfbee4, 0xba4dd2d1, 0xf0b51211, 0x4da8876e],
     kat_ct = [0x1f29abc1, 0x7a1c3541, 0x404267c1, 0x7c7e296f],
     kat_iv = [0xb23b27a5, 0x7c264ad6, 0x1a72e7fd]\<rparr>"

definition gcm_kat_2 :: kat where
  "gcm_kat_2 = \<lparr>kat_key = kat_key gcm_kat_1,
     kat_pt = [0xaf581667, 0xdd10dd99, 0x61086fb1, 0xf0a9b9a2, 0x1f2b497b, 0xcb113f4a, 0x9764377d, 0xc3b5e2d4,
       0x14aff904, 0xb00a02e7, 0x452bba85, 0xc61656d7],
     kat_ct = [0x38f9ee4e, 0x0090f1a9, 0x366a95a4, 0xc25fb37c, 0x18bac0ef, 0x56a5ce77, 0x51c48949, 0xc42173c1,
       0x2b6b4427, 0x3fb3c2a9, 0x1acbdeeb, 0xbbe23e7c, 0x8dd5a997, 0x73932446, 0x0fe5d7e3, 0x1536c164],
     kat_iv = [0x44bd3936, 0x922554ca, 0x2cee5efd]\<rparr>"

definition debug_kat :: kat where
  "debug_kat = \<lparr>
     kat_key = [0x8f0c4080, 0x8f0c4084, 0x8f0c4088, 0x8f0c408c, 0x8f0c4090, 0x8f0c4094, 0x8f0c4098, 0x8f0c409c],
     kat_pt = [0x7d011d98, 0x22069a08, 0xf8562593, 0x8e16b52d], kat_ct = [],
     kat_iv = [0xcee162e3, 0xc95a727c, 0x6ce0180d]\<rparr>"

text \<open>\<open>wordcpy(dst, arr, n)\<close>: reading behind the end of the array is undefined.\<close>

definition wordcpy_arr :: "'s platform \<Rightarrow> u32 \<Rightarrow> u32 list \<Rightarrow> u32 \<Rightarrow> ('s, unit) prog" where
  "wordcpy_arr P dst arr n = do {
     (if unat n \<le> length arr then State_Monad.return () else halt Undefined);
     ext P (Wordcpy (At dst) (Local arr) n);
     State_Monad.return ()
   }"

text \<open>
  Copy the vector and run it: \<open>ct_words\<close> words of ciphertext, the initialization vector only where
  the test has one, and a key that is either this one or, when it is reused, a random one.
\<close>

definition load_kat :: "'s platform \<Rightarrow> aes_struct \<Rightarrow> kat \<Rightarrow> u32 \<Rightarrow> u32 \<Rightarrow> ('s, unit) prog" where
  "load_kat P aes_data v num_blocks ct_words = do {
     wordcpy_arr P (key aes_data) (kat_key v) 8;
     wordcpy_arr P (plaintext aes_data) (kat_pt v) (4 * num_blocks);
     (if kat_ct v \<noteq> [] then wordcpy_arr P (ciphertext aes_data) (kat_ct v) ct_words
      else State_Monad.return ());
     (if kat_iv v \<noteq> [] then wordcpy_arr P (init_vector aes_data) (kat_iv v) 3 else State_Monad.return ())
   }"

definition kat_round ::
  "config \<Rightarrow> 's platform \<Rightarrow> aes_struct \<Rightarrow> kat \<Rightarrow> u32 \<Rightarrow> u32 \<Rightarrow> u32 \<Rightarrow> u32 \<Rightarrow> u32 \<Rightarrow> u32 \<Rightarrow> ('s, u32) prog" where
  "kat_round cfg P aes_data v reuse_key gcm_mode encrypt num_blocks ct_words errors = do {
     load_kat P aes_data v num_blocks ct_words;
     key_and_cmd cfg P (if reuse_key = 0 then key aes_data else 0) (if reuse_key = 0 then None else Some 1)
       (\<lambda>key_slot. aes_test_steps cfg P aes_data key_slot encrypt gcm_mode reuse_key num_blocks) errors
   }"

definition aes_kat_setup :: "config \<Rightarrow> 's platform \<Rightarrow> ('s, u32 \<times> aes_struct \<times> u32) prog" where
  "aes_kat_setup cfg P = do {
     sinc P New_SINC_DRIVER;
     ext P New_AES_DRIVER;
     ext P New_AEB_DRIVER;
     aes_buffers cfg P
   }"

definition aes_reuse_key_RUN_TEST :: "config \<Rightarrow> 's platform \<Rightarrow> ('s, unit) prog" where
  "aes_reuse_key_RUN_TEST cfg P = do {
     s \<leftarrow> aes_kat_setup cfg P;
     let aes_data = fst (snd s);
     let errors = snd (snd s);
     hw_status P [0, 0, 1];
     hw_status P [];
     errors \<leftarrow> kat_round cfg P aes_data reuse_kat_1 0 0 0 1 4 errors;
     hw_status P [0, 1, 2, 1];
     hw_status P [];
     errors \<leftarrow> kat_round cfg P aes_data reuse_kat_2 1 0 1 2 8 errors;
     hw_status P [0, 1, 2, 0];
     hw_status P [];
     errors \<leftarrow> kat_round cfg P aes_data reuse_kat_2 0 0 1 2 8 errors;
     report P errors
   }"

definition aes_reuse_key_gcm_RUN_TEST :: "config \<Rightarrow> 's platform \<Rightarrow> ('s, unit) prog" where
  "aes_reuse_key_gcm_RUN_TEST cfg P = do {
     s \<leftarrow> aes_kat_setup cfg P;
     let aes_data = fst (snd s);
     let errors = snd (snd s);
     hw_status P [0, 0, 1];
     hw_status P [];
     errors \<leftarrow> kat_round cfg P aes_data gcm_kat_1 0 0 0 1 4 errors;
     hw_status P [1, 0, 3, 1];
     hw_status P [];
     errors \<leftarrow> kat_round cfg P aes_data gcm_kat_2 1 1 0 3 (4 * 3 + 4) errors;
     hw_status P [1, 0, 3, 0];
     hw_status P [];
     errors \<leftarrow> kat_round cfg P aes_data gcm_kat_2 0 1 0 3 (4 * 3 + 4) errors;
     report P errors
   }"

definition aes_l1_debug_RUN_TEST :: "config \<Rightarrow> 's platform \<Rightarrow> ('s, unit) prog" where
  "aes_l1_debug_RUN_TEST cfg P = do {
     s \<leftarrow> aes_kat_setup cfg P;
     let aes_cmd_ptr = fst s;
     let aes_data = fst (snd s);
     hw_status P [1, 1, 1];
     hw_status P [];
     load_kat P aes_data debug_kat 1 0;
     sinc P (Gen_random_aes_data aes_cmd_ptr aes_data 1 1
       [key aes_data, plaintext aes_data, init_vector aes_data]);
     errors \<leftarrow> key_and_cmd cfg P (key aes_data) None
       (\<lambda>key_slot. aes_test_steps cfg P aes_data key_slot 1 1 0 1) (snd (snd s));
     report P errors
   }"

section \<open>Accounting\<close>

lemma acct_aes_test_block [acct_sub_intros]:
  "acct (counting nothing_ignored) (x + y) (aes_test_block cfg P d e g r n i y) (\<lambda>v. x + v)"
  unfolding aes_test_block_def by (rule acct_sub_intros | simp)+

lemma acct_aes_test_steps:
  "acct (counting nothing_ignored) x (aes_test_steps cfg P d k e g r n) (\<lambda>v. x + v)"
  unfolding aes_test_steps_def by (rule acct_sub_start) (rule acct_sub_intros | simp)+

lemma acct_do_aes_test_mode_cmd:
  "acct (counting nothing_ignored) x (do_aes_test_mode_cmd cfg P d k e g r n) (\<lambda>v. x + v)"
  unfolding do_aes_test_mode_cmd_def
  by (rule acct_bind [OF acct_aes_test_steps]) (rule acct_sub_intros | simp)+

lemma acct_key_and_cmd [acct_intros]:
  assumes "\<And>x k. acct (counting nothing_ignored) x (cmd k) (\<lambda>v. x + v)"
  shows "acct (counting nothing_ignored) x (key_and_cmd cfg P p gen cmd x) (\<lambda>v. v)"
  unfolding key_and_cmd_def by (rule acct_intros assms | simp)+

lemma acct_aes_buffers:
  "acct (counting nothing_ignored) 0 (aes_buffers cfg P) (\<lambda>s. snd (snd s))"
proof -
  have fail: "acct (counting nothing_ignored) (1 :: u32) (hw_done P HW_TEST_FAIL) (\<lambda>_. 1)"
    by (rule counting.acct_hw_done) (auto simp: justified_def intro: gr0I)
  have null: "acct (counting nothing_ignored) (0 :: u32) (do {
      hw_errmsg P args; hw_done P HW_TEST_FAIL; State_Monad.return (0 + 1) }) (\<lambda>v. v)" for args
    using acct_bind [OF acct_errmsg [of nothing_ignored args 0 P], of "\<lambda>_. do {
        hw_done P HW_TEST_FAIL; State_Monad.return (0 + 1) }" "\<lambda>v. v"]
      acct_bind [OF fail, of "\<lambda>_. State_Monad.return 1" "\<lambda>v. v"] by (simp add: acct_return)
  show ?thesis
    unfolding aes_buffers_def by (rule acct_intros acct_return null | simp)+
qed

lemma acct_aes_mode_round [acct_intros]:
  "acct (counting nothing_ignored) x (aes_mode_round cfg P p d g e x) (\<lambda>v. v)"
  unfolding aes_mode_round_def by (rule acct_intros acct_do_aes_test_mode_cmd | simp)+

lemma acct_aes_random_round:
  "acct (counting nothing_ignored) (snd st) (aes_random_round cfg P p d st) snd"
  unfolding aes_random_round_def
  by (rule acct_intros acct_do_aes_test_mode_cmd acct_return | simp)+

lemma acct_aes_test_mode: "acct_done (counting nothing_ignored) 0 (aes_test_mode_RUN_TEST cfg P)"
  unfolding aes_test_mode_RUN_TEST_def
  by (rule acct_intros acct_done_bind [OF acct_aes_buffers]
      acct_done_bind [OF acct_for_each [where f = snd and y = "(0, _)", simplified]]
      acct_aes_random_round | simp)+

lemma acct_wordcpy_arr [acct_intros]: "acct (counting ign) x (wordcpy_arr P a xs n) (\<lambda>_. x)"
  unfolding wordcpy_arr_def by (rule acct_intros | simp)+

lemma acct_load_kat [acct_intros]: "acct (counting ign) x (load_kat P d v n c) (\<lambda>_. x)"
  unfolding load_kat_def by (rule acct_intros | simp)+

lemma acct_kat_round [acct_intros]:
  "acct (counting nothing_ignored) x (kat_round cfg P d v r g e n c x) (\<lambda>v. v)"
  unfolding kat_round_def by (rule acct_intros acct_aes_test_steps | simp)+

lemma acct_aes_kat_setup:
  "acct (counting nothing_ignored) 0 (aes_kat_setup cfg P) (\<lambda>s. snd (snd s))"
  unfolding aes_kat_setup_def by (rule acct_intros acct_aes_buffers | simp)+

lemma acct_aes_kat_tests:
  "acct_done (counting nothing_ignored) 0 (aes_reuse_key_RUN_TEST cfg P)"
  "acct_done (counting nothing_ignored) 0 (aes_reuse_key_gcm_RUN_TEST cfg P)"
  "acct_done (counting nothing_ignored) 0 (aes_l1_debug_RUN_TEST cfg P)"
  unfolding aes_reuse_key_RUN_TEST_def aes_reuse_key_gcm_RUN_TEST_def aes_l1_debug_RUN_TEST_def
  by (rule acct_intros acct_done_bind [OF acct_aes_kat_setup] acct_aes_test_steps | simp)+

section \<open>The protocol of the AES test mode\<close>

text \<open>
  Where the firmware is in the documented sequence, whose steps are numbered 1 to 13: loading key and nonce
  (which of them have been loaded), with the mode set, with a block sent or read (whether it is the last one),
  with the tag. The exit completes the command, and the status has to be read before the next one.
\<close>

datatype aes_phase =
    Exited | Loading bool bool | Ready | Configured | Loaded | In_ready
  | Sent bool | Out_ready bool | Compared bool | Last_acked | Tag_ready | Tag_compared | Tag_acked
  | Unread

text \<open>The payload is complete after the last block, in GCM mode after the tag.\<close>

definition payload_done :: "bool \<Rightarrow> aes_phase" where
  "payload_done gcm = (if gcm then Tag_acked else Last_acked)"

text \<open>
  Step 1 enters the mode. Steps 2 and 3 load key and nonce, in any order, and wait; a nonce is needed in GCM
  mode only. Step 4 sets the mode. Steps 5 to 9 load a block, wait, send it, wait, read the result and acknowledge
  it; step 10 goes back to step 5 unless the block was the last one. Steps 11 and 12 are the tag in GCM mode. Step
  13 goes back to step 2 or leaves the mode, and the status is read. Any other access is refused.
\<close>

definition aes_step :: "config \<Rightarrow> bool \<Rightarrow> aes_phase \<Rightarrow> call \<Rightarrow> aes_phase option" where
  "aes_step cfg gcm p c = (case c of Sinc s \<Rightarrow> (case s of
       Write_reg q v \<Rightarrow>
         if q = R_cmd \<and> p = Exited \<and> v = K cfg SINC_CMD_AES_TEST_EN then Some (Loading False False)
         else if q = R_cmd \<and> v = 0 \<and> p = payload_done gcm then Some Unread
         else if q = R_block_encr_key then (case p of
             Loading _ has_nonce \<Rightarrow> Some (Loading True has_nonce)
           | _ \<Rightarrow> if p = payload_done gcm then Some (Loading True False) else None)
         else if q = R_aes_test_ctrl \<and> v = K cfg SINC_AES_TEST_CTRL_DATA_OUT_ACK then (case p of
             Compared data_in_last \<Rightarrow> Some (if data_in_last then Last_acked else Configured)
           | Tag_compared \<Rightarrow> Some Tag_acked
           | _ \<Rightarrow> None)
         else None
     | Write_all_aes_iv_nonce _ \<Rightarrow> (case p of
           Loading has_key _ \<Rightarrow> Some (Loading has_key True)
         | _ \<Rightarrow> if p = payload_done gcm then Some (Loading False True) else None)
     | Wait_for_cfg_key_iv_rdy \<Rightarrow> (case p of
           Loading has_key has_nonce \<Rightarrow> if has_key \<and> (has_nonce \<or> \<not> gcm) then Some Ready else None
         | _ \<Rightarrow> None)
     | Set_aes_test_ctrl_mode_params _ g _ \<Rightarrow> if p = Ready \<and> (g \<noteq> 0) = gcm then Some Configured else None
     | Write_all_aes_test_data_in _ \<Rightarrow> if p = Configured then Some Loaded else None
     | Wait_for_data_in_rdy \<Rightarrow> if p = Loaded then Some In_ready else None
     | Set_aes_test_ctrl_data_params data_in_last \<Rightarrow>
         if p = In_ready then Some (Sent (data_in_last = 1)) else None
     | Wait_for_data_out_vld \<Rightarrow> (case p of Sent data_in_last \<Rightarrow> Some (Out_ready data_in_last) | _ \<Rightarrow> None)
     | Compare_test_data_out _ \<Rightarrow> (case p of Out_ready data_in_last \<Rightarrow> Some (Compared data_in_last)
         | Tag_ready \<Rightarrow> Some Tag_compared | _ \<Rightarrow> None)
     | Wait_for_data_out_vld_and_tag_out \<Rightarrow> if gcm \<and> p = Last_acked then Some Tag_ready else None
     | Wait_for_no_cmd_in_progress \<Rightarrow> if p = Unread then Some Exited else None
     | Check_cmd_result_status_success _ \<Rightarrow> if p = Exited then Some Exited else None
     | _ \<Rightarrow> None)
   | _ \<Rightarrow> None)"

text \<open>A sequence of calls, oldest first.\<close>

primrec aes_steps :: "config \<Rightarrow> bool \<Rightarrow> aes_phase \<Rightarrow> call list \<Rightarrow> aes_phase option" where
  "aes_steps cfg gcm p [] = Some p"
| "aes_steps cfg gcm p (c # cs) = (case aes_step cfg gcm p c of None \<Rightarrow> None | Some q \<Rightarrow> aes_steps cfg gcm q cs)"

lemma aes_steps_append:
  "aes_steps cfg gcm p (cs @ ds) = (case aes_steps cfg gcm p cs of None \<Rightarrow> None | Some q \<Rightarrow> aes_steps cfg gcm q ds)"
  by (induction cs arbitrary: p) (auto split: option.splits)

text \<open>
  The order of the tests against the documented one: where the mode parameters follow the first block of data,
  \<open>params_first\<close> puts them before it, and it leaves out the same parameters where they follow a later block.
\<close>

definition loads_data :: "call \<Rightarrow> bool" where
  "loads_data c = (case c of Sinc (Write_all_aes_test_data_in _) \<Rightarrow> True | _ \<Rightarrow> False)"

definition sets_mode :: "call \<Rightarrow> bool" where
  "sets_mode c = (case c of Sinc (Set_aes_test_ctrl_mode_params _ _ _) \<Rightarrow> True | _ \<Rightarrow> False)"

fun drop_params :: "call \<Rightarrow> call list \<Rightarrow> call list" where
  "drop_params p (d # c # cs) =
     (if loads_data d \<and> c = p then d # drop_params p cs else d # drop_params p (c # cs))"
| "drop_params p cs = cs"

fun params_first :: "call list \<Rightarrow> call list" where
  "params_first (d # c # cs) =
     (if loads_data d \<and> sets_mode c then c # d # drop_params c cs else d # params_first (c # cs))"
| "params_first cs = cs"

lemma drop_params_skip: "list_all (\<lambda>c. \<not> loads_data c) cs \<Longrightarrow> drop_params p (cs @ ds) = cs @ drop_params p ds"
proof (induction cs)
  case (Cons c cs)
  then show ?case by (cases "cs @ ds") auto
qed simp

lemma params_first_skip: "list_all (\<lambda>c. \<not> loads_data c) cs \<Longrightarrow> params_first (cs @ ds) = cs @ params_first ds"
proof (induction cs)
  case (Cons c cs)
  then show ?case by (cases "cs @ ds") auto
qed simp

subsection \<open>The calls of a command\<close>

text \<open>The calls of a command, before, for and behind its blocks; of a block, the data, the mode and the rest.\<close>

definition head_calls :: "config \<Rightarrow> aes_struct \<Rightarrow> u32 \<Rightarrow> u32 \<Rightarrow> call list" where
  "head_calls cfg d k g = map Sinc ([Write_reg R_cmd (K cfg SINC_CMD_AES_TEST_EN), Write_reg R_block_encr_key k] @
     (if g \<noteq> 0 then [Write_all_aes_iv_nonce (At (init_vector d))] else []) @ [Wait_for_cfg_key_iv_rdy])"

definition data_call :: "aes_struct \<Rightarrow> u32 \<Rightarrow> u32 \<Rightarrow> call" where
  "data_call d e i = Sinc (Write_all_aes_test_data_in ((if e \<noteq> 0 then plaintext d else ciphertext d) + 4 * (i * 4)))"

definition mode_call :: "u32 \<Rightarrow> u32 \<Rightarrow> u32 \<Rightarrow> call" where
  "mode_call e g r = Sinc (Set_aes_test_ctrl_mode_params e g r)"

definition send_calls :: "config \<Rightarrow> aes_struct \<Rightarrow> u32 \<Rightarrow> u32 \<Rightarrow> u32 \<Rightarrow> call list" where
  "send_calls cfg d e n i = map Sinc [Wait_for_data_in_rdy, Set_aes_test_ctrl_data_params (if i = n - 1 then 1 else 0),
     Wait_for_data_out_vld, Compare_test_data_out ((if e \<noteq> 0 then ciphertext d else plaintext d) + 4 * (i * 4)),
     Write_reg R_aes_test_ctrl (K cfg SINC_AES_TEST_CTRL_DATA_OUT_ACK)]"

definition tail_calls :: "config \<Rightarrow> aes_struct \<Rightarrow> u32 \<Rightarrow> u32 \<Rightarrow> call list" where
  "tail_calls cfg d g n = map Sinc ((if g \<noteq> 0 then [Wait_for_data_out_vld_and_tag_out,
     Compare_test_data_out (ciphertext d + 4 * (n * 4)), Write_reg R_aes_test_ctrl (K cfg SINC_AES_TEST_CTRL_DATA_OUT_ACK)]
     else []) @ [Write_reg R_cmd 0])"

definition block_calls :: "config \<Rightarrow> aes_struct \<Rightarrow> u32 \<Rightarrow> u32 \<Rightarrow> u32 \<Rightarrow> u32 \<Rightarrow> u32 \<Rightarrow> call list" where
  "block_calls cfg d e g r n i = data_call d e i # mode_call e g r # send_calls cfg d e n i"

definition command_calls :: "config \<Rightarrow> aes_struct \<Rightarrow> u32 \<Rightarrow> u32 \<Rightarrow> u32 \<Rightarrow> u32 \<Rightarrow> u32 \<Rightarrow> call list" where
  "command_calls cfg d k e g r n =
     head_calls cfg d k g @ concat (map (block_calls cfg d e g r n) (idx (unat n))) @ tail_calls cfg d g n"

definition traced :: "call list \<Rightarrow> 's mach \<Rightarrow> bool" where
  "traced cs m \<longleftrightarrow> status m = Running \<and> calls m = cs"

lemma traced_ext: "triple (traced cs) (ext P c) (\<lambda>_. traced (cs @ [c]))"
  by (rule triple_ext) (auto simp: traced_def calls_def)

lemma traced_tally: "triple (traced cs) (tally P e c) (\<lambda>_. traced (cs @ [c]))"
  unfolding tally_def by (rule triple_bind [OF traced_ext]) (simp add: triple_return)

lemma traced_return: "cs = ds \<Longrightarrow> triple (traced cs) (State_Monad.return v) (\<lambda>_. traced ds)"
  by (simp add: triple_return)

lemmas traced_intros = triple_bind [OF traced_ext] triple_bind [OF traced_tally] traced_return

lemma traced_block: "triple (traced cs) (aes_test_block cfg P d e g r n i y) (\<lambda>_. traced (cs @ block_calls cfg d e g r n i))"
  unfolding aes_test_block_def
  by (rule traced_intros)+ (simp add: block_calls_def data_call_def mode_call_def send_calls_def)

lemma traced_blocks:
  "triple (traced cs) (for_each is (aes_test_block cfg P d e g r n) y)
     (\<lambda>_. traced (cs @ concat (map (block_calls cfg d e g r n) is)))"
proof (induction "is" arbitrary: cs y)
  case (Cons i "is")
  show ?case
    using triple_bind [OF traced_block Cons.IH] by simp
qed (simp add: traced_return)

lemma traced_steps:
  "triple (traced cs) (aes_test_steps cfg P d k e g r n) (\<lambda>_. traced (cs @ command_calls cfg d k e g r n))"
  unfolding aes_test_steps_def Let_def
  by (cases "g = 0") (simp_all only: if_True if_False not_True_eq_False not_False_eq_True State_Monad.bind_assoc,
    (rule traced_intros triple_bind [OF traced_blocks] | simp add: command_calls_def head_calls_def tail_calls_def)+)

text \<open>In the documented order the mode is set once, before the first block.\<close>

lemma send_loads_nothing: "list_all (\<lambda>c. \<not> loads_data c) (send_calls cfg d e n i)"
  by (simp add: send_calls_def loads_data_def)

lemma drop_params_block:
  "drop_params (mode_call e g r) (block_calls cfg d e g r n i @ cs) =
    data_call d e i # send_calls cfg d e n i @ drop_params (mode_call e g r) cs"
  by (simp add: block_calls_def data_call_def loads_data_def drop_params_skip [OF send_loads_nothing])

lemma params_first_block:
  "params_first (block_calls cfg d e g r n i @ cs) =
    mode_call e g r # data_call d e i # send_calls cfg d e n i @ drop_params (mode_call e g r) cs"
  by (simp add: block_calls_def data_call_def mode_call_def loads_data_def sets_mode_def
    drop_params_skip [OF send_loads_nothing])

lemma drop_params_blocks:
  assumes "list_all (\<lambda>c. \<not> loads_data c) ts"
  shows "drop_params (mode_call e g r) (concat (map (block_calls cfg d e g r n) is) @ ts) =
    concat (map (\<lambda>i. data_call d e i # send_calls cfg d e n i) is) @ ts"
proof (induction "is")
  case Nil
  show ?case using drop_params_skip [OF assms, of _ "[]"] by simp
qed (simp add: drop_params_block)

lemma idx_nonempty: "n \<noteq> 0 \<Longrightarrow> \<exists>is. idx (unat (n :: u32)) = 0 # is"
  by (simp add: idx_def upt_conv_Cons unat_gt_0)

lemma command_calls_documented:
  assumes "n \<noteq> 0" and "list_all (\<lambda>c. \<not> loads_data c) ts"
  shows "params_first (command_calls cfg d k e g r n @ ts) = head_calls cfg d k g @ mode_call e g r #
    concat (map (\<lambda>i. data_call d e i # send_calls cfg d e n i) (idx (unat n))) @ tail_calls cfg d g n @ ts"
proof -
  have "list_all (\<lambda>c. \<not> loads_data c) (head_calls cfg d k g)"
    and tail: "list_all (\<lambda>c. \<not> loads_data c) (tail_calls cfg d g n @ ts)"
    using assms(2) by (simp_all add: head_calls_def tail_calls_def loads_data_def)
  moreover obtain "is" where "idx (unat n) = 0 # is" using idx_nonempty [OF assms(1)] by blast
  ultimately show ?thesis
    by (simp add: command_calls_def params_first_skip params_first_block drop_params_blocks)
qed

lemma phase_head: "aes_steps cfg (g \<noteq> 0) Exited (head_calls cfg d k g) = Some Ready"
  by (simp add: head_calls_def aes_step_def payload_done_def)

lemma phase_blocks:
  assumes "n \<noteq> 0" and "k \<le> unat n"
  shows "aes_steps cfg gcm Configured (concat (map (\<lambda>i. data_call d e i # send_calls cfg d e n i) (idx k))) =
    Some (if k = unat n then Last_acked else Configured)"
  using assms(2)
proof (induction k)
  case 0
  then show ?case using assms(1) by (simp add: idx_def unat_eq_zero)
next
  case (Suc k)
  then have less: "k < unat n" by simp
  have "unat (word_of_nat k :: u32) = k"
    using order.strict_trans [OF less unsigned_less] by (simp add: unat_of_nat)
  moreover have "unat (n - 1) = unat n - 1" using assms(1) by (simp add: unat_minus_one)
  ultimately have last: "(word_of_nat k = n - 1) = (Suc k = unat n)"
    using less by (simp add: word_unat_eq_iff) linarith
  show ?case
    using Suc.IH less
    by (simp add: idx_def aes_steps_append data_call_def send_calls_def aes_step_def last)
qed

lemma phase_command:
  assumes "n \<noteq> 0"
  shows "list_all (\<lambda>c. \<not> loads_data c) ds \<Longrightarrow>
      aes_steps cfg (g \<noteq> 0) Exited (params_first (command_calls cfg d k e g r n @ ds)) = aes_steps cfg (g \<noteq> 0) Unread ds"
    and "aes_steps cfg (g \<noteq> 0) Exited (command_calls cfg d k e g r n @ ds) = None"
proof -
  have mode: "aes_step cfg (g \<noteq> 0) Ready (mode_call e g r) = Some Configured"
    by (simp add: mode_call_def aes_step_def)
  have tail: "aes_steps cfg (g \<noteq> 0) Last_acked (tail_calls cfg d g n) = Some Unread"
    by (simp add: tail_calls_def aes_step_def payload_done_def)
  show "aes_steps cfg (g \<noteq> 0) Exited (params_first (command_calls cfg d k e g r n @ ds)) = aes_steps cfg (g \<noteq> 0) Unread ds"
    if "list_all (\<lambda>c. \<not> loads_data c) ds"
    unfolding command_calls_documented [OF assms that]
    by (simp add: aes_steps_append phase_head phase_blocks [OF assms order_refl] mode tail)
  show "aes_steps cfg (g \<noteq> 0) Exited (command_calls cfg d k e g r n @ ds) = None"
    using idx_nonempty [OF assms]
    by (auto simp: command_calls_def aes_steps_append [of _ _ _ "head_calls cfg d k g"] phase_head block_calls_def
      data_call_def aes_step_def)
qed

lemma safe_wordcpy_arr: "unat n \<le> length xs \<Longrightarrow> safe (wordcpy_arr P a xs n) (\<lambda>_. True)"
  unfolding wordcpy_arr_def by (rule safe_intros | simp)+

lemma safe_aes_test_steps: "safe (aes_test_steps cfg P d k e g r n) (\<lambda>_. True)"
  unfolding aes_test_steps_def aes_test_block_def by (rule safe_intros safe_blocks | simp)+

lemma safe_key_and_cmd:
  "(\<And>k. safe (cmd k) (\<lambda>_. True)) \<Longrightarrow> safe (key_and_cmd cfg P p gen cmd e) (\<lambda>_. True)"
  unfolding key_and_cmd_def by (rule safe_intros safe_blocks safe_add_errors | assumption | simp)+

lemma safe_aes_kat_setup: "safe (aes_kat_setup cfg P) (\<lambda>_. True)"
  unfolding aes_kat_setup_def aes_buffers_def by (rule safe_intros safe_blocks | simp)+

section \<open>Properties\<close>


definition sample_aes :: aes_struct where
  "sample_aes = \<lparr>init_vector = 0x100, key = 0x110, plaintext = 0x130, ciphertext = 0x330\<rparr>"


text \<open>C36: a command of the three known-answer tests ends without reading the status: in the documented
  order of the mode parameters, its calls lead to the phase in which the documented interface expects a read of the
  status register before the next command, and these tests enter the test mode again without one in
  \<open>do_aes_test_mode_cmd\<close>.\<close>

theorem aes_kat_command_leaves_status_unread:
  assumes "n \<noteq> 0" and "status m = Running"
  shows "case run_state (aes_test_steps cfg P aes_data key_slot encrypt gcm_mode reuse_key n) m of (e, m') \<Rightarrow>
    status m' = Running \<and>
    (\<exists>cs. calls m' = calls m @ cs \<and> aes_steps cfg (gcm_mode \<noteq> 0) Exited (params_first cs) = Some Unread \<and>
      aes_steps cfg (gcm_mode \<noteq> 0) Exited
        (params_first cs @ [Sinc (Write_reg R_cmd (K cfg SINC_CMD_AES_TEST_EN))]) = None)"
proof -
  let ?cs = "command_calls cfg aes_data key_slot encrypt gcm_mode reuse_key n"
  have "traced (calls m) m" using assms(2) by (simp add: traced_def)
  with traced_steps [of "calls m" cfg P aes_data key_slot encrypt gcm_mode reuse_key n]
  have "case run_state (aes_test_steps cfg P aes_data key_slot encrypt gcm_mode reuse_key n) m of (e, m') \<Rightarrow>
      status m' = Running \<and> calls m' = calls m @ ?cs" by (auto simp: triple_def traced_def)
  moreover have "aes_step cfg (gcm_mode \<noteq> 0) Unread (Sinc (Write_reg R_cmd (K cfg SINC_CMD_AES_TEST_EN))) = None"
    by (simp add: aes_step_def payload_done_def)
  ultimately show ?thesis
    using phase_command(1) [OF assms(1), of "[]" cfg gcm_mode aes_data key_slot encrypt reuse_key]
    by (auto simp: aes_steps_append)
qed

theorem aes_kat_command_leaves_status_unread_witness:
  "case run_state (aes_test_steps sample_cfg counting_rand sample_aes 3 0 0 0 1)
      \<lparr>dev = 0, log = [], status = Running\<rparr> of (e, m') \<Rightarrow>
    aes_steps sample_cfg False Exited (params_first (calls m')) = Some Unread"
  using aes_kat_command_leaves_status_unread [of 1 "\<lparr>dev = 0, log = [], status = Running\<rparr>" sample_cfg 0
      counting_rand sample_aes 3 0 0]
  by (auto simp: calls_def split_beta)

text \<open>The four tests of the AES test mode report PASS only when no check failed and FAIL only when
  one did, on every platform. This includes the run that goes on after a failed allocation.\<close>

lemma aes_tests_honest:
  "test_ok (counting nothing_ignored) (aes_test_mode_RUN_TEST cfg P) \<and>
   test_ok (counting nothing_ignored) (aes_reuse_key_RUN_TEST cfg P) \<and>
   test_ok (counting nothing_ignored) (aes_reuse_key_gcm_RUN_TEST cfg P) \<and>
   test_ok (counting nothing_ignored) (aes_l1_debug_RUN_TEST cfg P)"
  using acct_done_test_ok [OF acct_aes_test_mode] acct_aes_kat_tests [THEN acct_done_test_ok] by blast

text \<open>The known-answer tests never copy more words than their arrays hold.\<close>

lemma aes_kat_copies_in_bounds:
  "status (exec (aes_reuse_key_RUN_TEST cfg P) d) \<noteq> Undefined \<and>
   status (exec (aes_reuse_key_gcm_RUN_TEST cfg P) d) \<noteq> Undefined \<and>
   status (exec (aes_l1_debug_RUN_TEST cfg P) d) \<noteq> Undefined"
proof -
  have "safe (aes_reuse_key_RUN_TEST cfg P) (\<lambda>_. True)"
    "safe (aes_reuse_key_gcm_RUN_TEST cfg P) (\<lambda>_. True)" "safe (aes_l1_debug_RUN_TEST cfg P) (\<lambda>_. True)"
    unfolding aes_reuse_key_RUN_TEST_def aes_reuse_key_gcm_RUN_TEST_def aes_l1_debug_RUN_TEST_def
      kat_round_def load_kat_def reuse_kat_1_def reuse_kat_2_def gcm_kat_1_def gcm_kat_2_def debug_kat_def
    by (rule safe_intros safe_blocks safe_aes_kat_setup safe_key_and_cmd safe_aes_test_steps
        safe_wordcpy_arr | simp)+
  then show ?thesis by (auto simp: safe_def triple_def exec_def split_beta)
qed

end
