(* ===== verification/TestsOnOff.thy ===== *)
theory TestsOnOff
  imports TestsMem TestsPerf
begin

text \<open>
  The tests of the retention across a power gate: \<open>sinc_onoff_ret_check_disabled\<close>,
  \<open>sinc_onoff_ret_check_initialized\<close> and \<open>sinc_onoff_ret_check_active\<close>. They write the MPU pages,
  disable the reset or the re-initialization, gate the power, and look for what has to be kept: the
  pages, the sticky bits, registers, and, with the cache active, the contents of the cache, for
  which the test predicts hits and misses.
\<close>

section \<open>MPU pages\<close>

definition mpu_attrib :: "u32 \<Rightarrow> u32 \<Rightarrow> u32 \<Rightarrow> u32" where
  "mpu_attrib factor i initial_value_mpu = (factor * i + initial_value_mpu) AND 0x77777777"

definition modify_mpu_pages :: "config \<Rightarrow> 's platform \<Rightarrow> u32 \<Rightarrow> ('s, unit) prog" where
  "modify_mpu_pages cfg P initial_value_mpu =
     for_each (idx 512) (\<lambda>i u. do {
       ext P (Hw_write32 (K cfg SSY_HSP_MPU_SPCIRAM_PRIVILEGE_ATTRIB_0 + i * 4)
         (mpu_attrib 0xabcdabcd i initial_value_mpu));
       ext P (Hw_write32 (K cfg SSY_HSP_MPU_SPCIRAM_USER_ATTRIB_0 + i * 4)
         (mpu_attrib 0x12341234 i initial_value_mpu));
       State_Monad.return u
     }) ()"

text \<open>The message for the user attributes prints the expected value of the privilege attributes.\<close>

definition check_mpu_page :: "config \<Rightarrow> 's platform \<Rightarrow> u32 \<Rightarrow> u32 \<Rightarrow> u32 \<Rightarrow> ('s, u32) prog" where
  "check_mpu_page cfg P initial_value_mpu i errors = do {
     let exp_privilege_attrib = mpu_attrib 0xabcdabcd i initial_value_mpu;
     let exp_user_attrib = mpu_attrib 0x12341234 i initial_value_mpu;
     act_privilege_attrib \<leftarrow> ext P (Hw_read32 (K cfg SSY_HSP_MPU_SPCIRAM_PRIVILEGE_ATTRIB_0 + i * 4));
     act_user_attrib \<leftarrow> ext P (Hw_read32 (K cfg SSY_HSP_MPU_SPCIRAM_USER_ATTRIB_0 + i * 4));
     errors \<leftarrow> (if act_privilege_attrib \<noteq> exp_privilege_attrib then do {
         hw_errmsg P [i, act_privilege_attrib, exp_privilege_attrib];
         State_Monad.return (errors + 1)
       } else State_Monad.return errors);
     errors \<leftarrow> (if act_user_attrib \<noteq> exp_user_attrib then do {
         hw_errmsg P [i, act_user_attrib, exp_privilege_attrib];
         State_Monad.return (errors + 1)
       } else State_Monad.return errors);
     ext P (Hw_write32 (K cfg SSY_HSP_MPU_SPCIRAM_PRIVILEGE_ATTRIB_0 + i * 4) 0x77777777);
     ext P (Hw_write32 (K cfg SSY_HSP_MPU_SPCIRAM_USER_ATTRIB_0 + i * 4) 0x77777777);
     State_Monad.return errors
   }"

definition check_mpu_pages :: "config \<Rightarrow> 's platform \<Rightarrow> u32 \<Rightarrow> ('s, u32) prog" where
  "check_mpu_pages cfg P initial_value_mpu =
     for_each (idx 512) (check_mpu_page cfg P initial_value_mpu) 0"

section \<open>Registers\<close>

definition recorded_regs :: "sinc_reg list" where
  "recorded_regs = [R_block_encr_num, R_num_of_blocks, R_block_encr_addr, R_block_encr_key,
     R_aes_iv_nonce_0, R_aes_iv_nonce_1, R_aes_iv_nonce_2, R_ext_block_base_addr,
     R_ext_auth_tag_base_addr, R_status, R_hit_cntr_lower, R_hit_cntr_upper, R_miss_cntr_lower,
     R_miss_cntr_upper, R_lat_cntr_lower, R_lat_cntr_upper, R_perf_cntr_ctrl,
     R_aes_test_data_in_0, R_aes_test_data_in_1, R_aes_test_data_in_2, R_aes_test_data_in_3,
     R_aes_test_data_out_0, R_aes_test_data_out_1, R_aes_test_data_out_2, R_aes_test_data_out_3,
     R_aes_test_ctrl, R_aes_test_status, R_encr_block_status]"

definition record_all_sinc_regs :: "'s platform \<Rightarrow> ('s, u32 list) prog" where
  "record_all_sinc_regs P =
     for_each recorded_regs (\<lambda>q reg_storage_arr. do {
       v \<leftarrow> sinc P (Read_reg q);
       State_Monad.return (reg_storage_arr @ [v])
     }) []"

definition check_sinc_reg :: "'s platform \<Rightarrow> u32 \<Rightarrow> u32 \<Rightarrow> ('s, u32) prog" where
  "check_sinc_reg P exp_value act_value =
     (if exp_value \<noteq> act_value then do {
        hw_errmsg P [act_value, exp_value];
        State_Monad.return 1
      } else State_Monad.return 0)"

text \<open>
  After the power gate the nonce and the base addresses are as recorded, the status keeps its lower
  ten bits, and the other registers are zero.
\<close>

definition expected_after_gate :: "u32 list \<Rightarrow> nat \<Rightarrow> u32" where
  "expected_after_gate reg_storage_arr i =
     (if 4 \<le> i \<and> i \<le> 8 then reg_storage_arr ! i
      else if i = 9 then reg_storage_arr ! 9 AND 0x3ff
      else 0)"

definition check_all_sinc_regs :: "'s platform \<Rightarrow> u32 list \<Rightarrow> ('s, u32) prog" where
  "check_all_sinc_regs P reg_storage_arr =
     for_each [0..<28] (\<lambda>i errors. do {
       v \<leftarrow> sinc P (Read_reg (recorded_regs ! i));
       add_errors errors (check_sinc_reg P (expected_after_gate reg_storage_arr i) v)
     }) 0"

section \<open>The power gate\<close>

text \<open>\<open>INIT_TEST\<close>\<close>

definition onoff_INIT_TEST :: "config \<Rightarrow> 's platform \<Rightarrow> ('s, unit) prog" where
  "onoff_INIT_TEST cfg P = do {
     hw_status P [];
     ext P (New_PCU_DRIVER (K cfg PCU_HSP_OFFSET) True);
     ext P Pcu_enable_interrupts;
     State_Monad.return ()
   }"

text \<open>Disable the re-initialization, the reset, or both.\<close>

definition disable_cmd :: "config \<Rightarrow> 's platform \<Rightarrow> macro \<Rightarrow> macro \<Rightarrow> u32 \<Rightarrow> ('s, u32) prog" where
  "disable_cmd cfg P cmd sts errors = do {
     sinc P (Write_reg R_cmd (K cfg cmd));
     tally_sinc P errors (Read_status_check_bits (K cfg sts))
   }"

definition disable_randomly :: "config \<Rightarrow> 's platform \<Rightarrow> u32 \<Rightarrow> u32 \<Rightarrow> ('s, u32) prog" where
  "disable_randomly cfg P dis_val errors =
     (if dis_val = 0 then do {
        hw_status P [];
        disable_cmd cfg P SINC_CMD_DISABLE_REINIT SINC_STATUS_SINC_REINIT_DISABLED errors
      } else if dis_val = 1 then do {
        hw_status P [];
        disable_cmd cfg P SINC_CMD_DISABLE_RESET SINC_STATUS_SINC_RESET_DISABLED errors
      } else if dis_val = 2 then do {
        hw_status P [];
        errors \<leftarrow> disable_cmd cfg P SINC_CMD_DISABLE_REINIT SINC_STATUS_SINC_REINIT_DISABLED errors;
        disable_cmd cfg P SINC_CMD_DISABLE_RESET SINC_STATUS_SINC_RESET_DISABLED errors
      } else State_Monad.return errors)"

definition disabled_bits :: "config \<Rightarrow> u32 \<Rightarrow> u32" where
  "disabled_bits cfg dis_val =
     (if dis_val = 0 then K cfg SINC_STATUS_SINC_REINIT_DISABLED
      else if dis_val = 1 then K cfg SINC_STATUS_SINC_RESET_DISABLED
      else K cfg SINC_STATUS_SINC_REINIT_DISABLED OR K cfg SINC_STATUS_SINC_RESET_DISABLED)"

definition check_disabled :: "config \<Rightarrow> 's platform \<Rightarrow> u32 \<Rightarrow> u32 \<Rightarrow> ('s, u32) prog" where
  "check_disabled cfg P dis_val errors =
     (if dis_val < 3 then tally_sinc P errors (Read_status_check_bits (disabled_bits cfg dis_val))
      else State_Monad.return errors)"

text \<open>
  The part that the three tests share: MPU pages, sticky bits, recorded registers, a new key where
  the test has one (\<open>new_key\<close>), the power gate, and the checks behind it. The result of
  \<open>check_all_sinc_regs\<close> is dropped.
\<close>

definition gate_and_check ::
  "config \<Rightarrow> 's platform \<Rightarrow> test_params \<Rightarrow> (u32 \<Rightarrow> ('s, u32) prog) \<Rightarrow> u32 \<Rightarrow> ('s, u32) prog" where
  "gate_and_check cfg P params new_key errors = do {
     hw_status P [];
     initial_value_mpu \<leftarrow> ext P Rand;
     modify_mpu_pages cfg P initial_value_mpu;
     r \<leftarrow> ext P Rand;
     let dis_val = r mod 3;
     errors \<leftarrow> disable_randomly cfg P dis_val errors;
     hw_status P [];
     register_storage \<leftarrow> record_all_sinc_regs P;
     errors \<leftarrow> new_key errors;
     hw_status P [];
     errors \<leftarrow> tally P errors (Pcu_pwrgate_checks 0 0 (DIS_PWR_SWTITCH params));
     errors \<leftarrow> add_errors errors (check_mpu_pages cfg P initial_value_mpu);
     errors \<leftarrow> check_disabled cfg P dis_val errors;
     check_all_sinc_regs P register_storage;
     State_Monad.return errors
   }"

text \<open>\<open>hw_status("Modifying key in KSU\n")\<close> and the generation of the key.\<close>

definition modify_key :: "'s platform \<Rightarrow> u32 \<Rightarrow> u32 \<Rightarrow> u32 \<Rightarrow> ('s, u32) prog" where
  "modify_key P key_slot key_attr errors = do {
     hw_status P [];
     tally P errors (Gen_random_key_fixed_attr key_slot key_attr)
   }"

text \<open>The key of the initialized and of the active test, in a slot other than 0.\<close>

definition onoff_key :: "config \<Rightarrow> 's platform \<Rightarrow> ('s, u32 \<times> u32 \<times> u32) prog" where
  "onoff_key cfg P = do {
     ccs_cmd_buf \<leftarrow> alloc_cmd_buf cfg P;
     ext P (New_CCS_DRIVER ccs_cmd_buf 0 0 0);
     r \<leftarrow> ext P Rand;
     let key_attr = valid_key_attr cfg r;
     r \<leftarrow> ext P Rand;
     let key_slot = r mod (K cfg SSY_HSP_KSU_NUM_KEYS - 1) + 1;
     errors \<leftarrow> tally P 0 (Gen_random_key_fixed_attr key_slot key_attr);
     State_Monad.return (key_slot, key_attr, errors)
   }"

definition onoff_start :: "config \<Rightarrow> 's platform \<Rightarrow> ('s, u32) prog" where
  "onoff_start cfg P = do {
     sinc P New_SINC_DRIVER;
     ext P New_DMB_DRIVER;
     ext P (New_PCU_DRIVER (K cfg PCU_HSP_OFFSET) True);
     rng_start cfg P;
     acquire_sram cfg P
   }"

section \<open>sinc_onoff_ret_check_disabled\<close>

text \<open>Eleven different sets; known data in the cached memory where the first ten have their words.\<close>

definition pick_11_sets :: "config \<Rightarrow> 's platform \<Rightarrow> ('s, u32 list) prog" where
  "pick_11_sets cfg P = for_each (idx 11) (\<lambda>i sets. pick_fresh cfg P (\<lambda>r. r AND 0x7f) sets) []"

definition write_ciram_sets :: "config \<Rightarrow> 's platform \<Rightarrow> u32 list \<Rightarrow> u32 \<Rightarrow> ('s, unit) prog" where
  "write_ciram_sets cfg P set_table initial_value =
     for_each (take 10 set_table) (\<lambda>s u. do {
       sinc P (Setup_known_data (K cfg SSY_CPU0_MEMORY_DEF_HSP_CIRAM_ADDRESS + 512 * s) 128 initial_value);
       State_Monad.return u
     }) ()"

definition check_ciram_sets :: "config \<Rightarrow> 's platform \<Rightarrow> u32 list \<Rightarrow> u32 \<Rightarrow> u32 \<Rightarrow> ('s, u32) prog" where
  "check_ciram_sets cfg P set_table initial_value errors =
     for_each (take 10 set_table) (\<lambda>s errors. tally_sinc P errors
       (Check_known_data (K cfg SSY_CPU0_MEMORY_DEF_HSP_CIRAM_ADDRESS + 512 * s) 128 initial_value)) errors"

definition onoff_disabled_RUN_TEST :: "config \<Rightarrow> 's platform \<Rightarrow> test_params \<Rightarrow> ('s, unit) prog" where
  "onoff_disabled_RUN_TEST cfg P params = do {
     sram_addr_ptr \<leftarrow> onoff_start cfg P;
     let errors = 0;
     write_settings_rand cfg P 5 16 7 sram_addr_ptr;
     set_table \<leftarrow> pick_11_sets cfg P;
     initial_value \<leftarrow> ext P Rand;
     write_ciram_sets cfg P set_table initial_value;
     errors \<leftarrow> gate_and_check cfg P params State_Monad.return errors;
     errors \<leftarrow> check_ciram_sets cfg P set_table initial_value errors;
     errors \<leftarrow> tally_sinc P errors (Check_sinc_state (K cfg SINC_STATE_DISABLED));
     report P errors
   }"

section \<open>sinc_onoff_ret_check_initialized\<close>

definition access_rand_word_initialized ::
  "config \<Rightarrow> 's platform \<Rightarrow> u32 \<Rightarrow> u32 \<Rightarrow> u32 \<Rightarrow> ('s, u32) prog" where
  "access_rand_word_initialized cfg P st tag initial_value = do {
     let errors = 0;
     r \<leftarrow> ext P Rand;
     let word_num = r mod 128;
     let a = offset_addr tag st + word_num * 4;
     rdata \<leftarrow> ext P (Hw_read32 (K cfg SSY_CPU0_MEMORY_DEF_HSP_CIRAM_ADDRESS + a));
     let exp_rdata = a + initial_value;
     (if rdata \<noteq> exp_rdata then do {
        hw_errmsg P [rdata, exp_rdata, K cfg SSY_CPU0_MEMORY_DEF_HSP_CIRAM_ADDRESS + a];
        State_Monad.return (errors + 1)
      } else State_Monad.return errors)
   }"

definition encrypt_tags :: "config \<Rightarrow> 's platform \<Rightarrow> u32 \<Rightarrow> u32 list \<Rightarrow> u32 \<Rightarrow> u32 \<Rightarrow> ('s, u32) prog" where
  "encrypt_tags cfg P st tags initial_value errors =
     for_each tags (\<lambda>tag errors.
       let offset = offset_addr tag st in
       encrypt_offsets cfg P initial_value (drop_bit 9 offset) offset errors) errors"

definition onoff_initialized_RUN_TEST :: "config \<Rightarrow> 's platform \<Rightarrow> test_params \<Rightarrow> ('s, unit) prog" where
  "onoff_initialized_RUN_TEST cfg P params = do {
     sram_addr_ptr \<leftarrow> onoff_start cfg P;
     k \<leftarrow> onoff_key cfg P;
     let key_slot = fst k;
     let key_attr = fst (snd k);
     let errors = snd (snd k);
     write_settings_rand cfg P 5 16 key_slot sram_addr_ptr;
     errors \<leftarrow> tally_sinc P errors (Transition_to_initialized None);
     tags \<leftarrow> for_each (idx 10) (\<lambda>i tags. pick_fresh cfg P (\<lambda>r. r AND 0xff) tags) [];
     set_table \<leftarrow> pick_11_sets cfg P;
     let st = set_table ! 10;
     initial_value \<leftarrow> ext P Rand;
     errors \<leftarrow> encrypt_tags cfg P st tags initial_value errors;
     write_ciram_sets cfg P set_table initial_value;
     errors \<leftarrow> gate_and_check cfg P params (modify_key P key_slot key_attr) errors;
     errors \<leftarrow> check_ciram_sets cfg P set_table initial_value errors;
     errors \<leftarrow> tally_sinc P errors (Transition_to_cache_active None);
     hw_status P [];
     errors \<leftarrow> for_each (idx 30) (\<lambda>i errors. do {
         r \<leftarrow> ext P Rand;
         add_errors errors (access_rand_word_initialized cfg P st (tags ! unat (r mod 10)) initial_value)
       }) errors;
     report P errors
   }"

section \<open>sinc_onoff_ret_check_active\<close>

text \<open>The globals that the accesses change.\<close>

record onoff_run =
  on_row :: tag_row
  on_miss :: u32
  on_hit :: u32
  on_errors :: u32

text \<open>\<open>errors += access_rand_word(...)\<close>\<close>

definition access_rand_word ::
  "config \<Rightarrow> 's platform \<Rightarrow> u32 \<Rightarrow> u32 list \<Rightarrow> u32 \<Rightarrow> u32 \<Rightarrow> onoff_run \<Rightarrow> ('s, onoff_run) prog" where
  "access_rand_word cfg P st blocks initial_value block_table_index s = do {
     r \<leftarrow> ext P Rand;
     let word_num = r mod 128;
     s \<leftarrow> (case check_hit_onoff blocks (on_row s) block_table_index of
         None \<Rightarrow> do { halt Undefined; State_Monad.return s }
       | Some (hit, row) \<Rightarrow> State_Monad.return
           (if hit \<noteq> 0 then s\<lparr>on_row := row, on_hit := on_hit s + 1\<rparr>
            else s\<lparr>on_row := row, on_miss := on_miss s + 1\<rparr>));
     let a = offset_addr (blocks ! unat block_table_index) st + word_num * 4;
     rdata \<leftarrow> ext P (Hw_read32 (K cfg SSY_CPU0_MEMORY_DEF_HSP_CIRAM_ADDRESS + a));
     let exp_rdata = a + initial_value;
     errors \<leftarrow> (if rdata \<noteq> exp_rdata then do {
         hw_errmsg P [rdata, exp_rdata, K cfg SSY_CPU0_MEMORY_DEF_HSP_CIRAM_ADDRESS + a];
         State_Monad.return (on_errors s + 1)
       } else State_Monad.return (on_errors s));
     errors \<leftarrow> tally_sinc P errors (Check_perf_counters (on_miss s) (on_hit s));
     State_Monad.return (s\<lparr>on_errors := errors\<rparr>)
   }"

text \<open>Thirty accesses to random blocks of the first \<open>n\<close>; the last index is kept.\<close>

definition access_30 ::
  "config \<Rightarrow> 's platform \<Rightarrow> u32 \<Rightarrow> u32 list \<Rightarrow> u32 \<Rightarrow> u32 \<Rightarrow> u32 \<times> onoff_run \<Rightarrow> ('s, u32 \<times> onoff_run) prog" where
  "access_30 cfg P st blocks initial_value n s = do {
     hw_status P [];
     for_each (idx 30) (\<lambda>i s. do {
       r \<leftarrow> ext P Rand;
       let block_table_index = r mod n;
       s \<leftarrow> access_rand_word cfg P st blocks initial_value block_table_index (snd s);
       State_Monad.return (block_table_index, s)
     }) s
   }"

text \<open>After the power gate: the last block, the block not read so far, and thirty random ones.\<close>

definition accesses_after_gate ::
  "config \<Rightarrow> 's platform \<Rightarrow> u32 \<Rightarrow> u32 list \<Rightarrow> u32 \<Rightarrow> u32 \<times> onoff_run \<Rightarrow> ('s, u32 \<times> onoff_run) prog" where
  "accesses_after_gate cfg P st blocks initial_value s = do {
     s1 \<leftarrow> access_rand_word cfg P st blocks initial_value (fst s) (snd s);
     s2 \<leftarrow> access_rand_word cfg P st blocks initial_value 9 s1;
     access_30 cfg P st blocks initial_value 10 (fst s, s2)
   }"

definition onoff_active_RUN_TEST :: "config \<Rightarrow> 's platform \<Rightarrow> test_params \<Rightarrow> ('s, unit) prog" where
  "onoff_active_RUN_TEST cfg P params = do {
     sram_addr_ptr \<leftarrow> onoff_start cfg P;
     k \<leftarrow> onoff_key cfg P;
     let key_slot = fst k;
     let key_attr = fst (snd k);
     let errors = snd (snd k);
     write_settings_rand cfg P 0 16 key_slot sram_addr_ptr;
     v \<leftarrow> sinc P (Read_reg R_status);
     hw_status P [v];
     errors \<leftarrow> tally_sinc P errors (Transition_to_initialized None);
     r \<leftarrow> ext P Rand;
     let st = drop_bit 9 r AND 0x7f;
     blocks \<leftarrow> pick_tags cfg P;
     initial_value \<leftarrow> ext P Rand;
     errors \<leftarrow> encrypt_tags cfg P st blocks initial_value errors;
     errors \<leftarrow> tally_sinc P errors (Transition_to_cache_active None);
     enable_counters cfg P;
     s \<leftarrow> access_30 cfg P st blocks initial_value 9
       (0, \<lparr>on_row = empty_row, on_miss = 0, on_hit = 0, on_errors = errors\<rparr>);
     errors \<leftarrow> gate_and_check cfg P params (modify_key P key_slot key_attr) (on_errors (snd s));
     enable_counters cfg P;
     errors \<leftarrow> tally_sinc P errors (Check_perf_counters 0 0);
     s \<leftarrow> accesses_after_gate cfg P st blocks initial_value
       (fst s, (snd s)\<lparr>on_miss := 0, on_hit := 0, on_errors := errors\<rparr>);
     print_counters P;
     report P (on_errors (snd s))
   }"

section \<open>Accounting\<close>

text \<open>The messages of \<open>check_sinc_reg\<close>, which nothing counts, have two arguments.\<close>

definition register_message :: "call \<Rightarrow> bool" where
  "register_message c = (case c of Hw_errmsg args \<Rightarrow> length args = 2 | _ \<Rightarrow> False)"

lemma acct_modify_mpu_pages [acct_intros]: "acct (counting ign) x (modify_mpu_pages cfg P v) (\<lambda>_. x)"
  unfolding modify_mpu_pages_def by (rule acct_intros | simp)+

lemma acct_check_mpu_page [acct_sub_intros]:
  "acct (counting register_message) (x + y) (check_mpu_page cfg P v i y) (\<lambda>v. x + v)"
  unfolding check_mpu_page_def by (rule acct_sub_intros | simp add: register_message_def)+

lemma acct_check_mpu_pages:
  "acct (counting register_message) x (check_mpu_pages cfg P v) (\<lambda>v. x + v)"
  unfolding check_mpu_pages_def by (rule acct_sub_start) (rule acct_sub_intros | simp)+

lemma acct_record_all_sinc_regs [acct_intros]:
  "acct (counting ign) x (record_all_sinc_regs P) (\<lambda>_. x)"
  unfolding record_all_sinc_regs_def
  by (rule acct_for_each [where f = "\<lambda>_. x"]) (rule acct_intros acct_return | simp)+

lemma acct_check_all_sinc_regs [acct_intros]:
  "acct (counting register_message) x (check_all_sinc_regs P arr) (\<lambda>_. x)"
proof -
  have reg: "acct (counting register_message) x (add_errors e (check_sinc_reg P a b)) (\<lambda>_. x)" for e a b
    unfolding add_errors_def check_sinc_reg_def
    by (rule acct_bind [where f = "\<lambda>_. x"])
      (auto intro!: acct_return acct_if acct_bind [OF acct_errmsg_ignored] simp: register_message_def)
  show ?thesis
    unfolding check_all_sinc_regs_def
    by (rule acct_for_each [where f = "\<lambda>_. x"]) (rule acct_bind [OF acct_ext_silent] reg | simp)+
qed

lemma acct_disable [acct_intros]:
  "acct (counting register_message) x (disable_cmd cfg P c b x) (\<lambda>v. v)"
  unfolding disable_cmd_def by (rule acct_intros | simp add: register_message_def)+

lemma acct_disable_randomly [acct_intros]:
  "acct (counting register_message) x (disable_randomly cfg P d x) (\<lambda>v. v)"
  unfolding disable_randomly_def by (rule acct_intros | simp)+

lemma acct_check_disabled [acct_intros]:
  "acct (counting register_message) x (check_disabled cfg P d x) (\<lambda>v. v)"
  unfolding check_disabled_def by (rule acct_intros | simp add: register_message_def)+

lemma acct_gate_and_check [acct_intros]:
  assumes "\<And>x. acct (counting register_message) x (new_key x) (\<lambda>v. v)"
  shows "acct (counting register_message) x (gate_and_check cfg P params new_key x) (\<lambda>v. v)"
  unfolding gate_and_check_def
  by (rule acct_intros assms acct_check_mpu_pages | simp add: register_message_def)+

lemma acct_modify_key [acct_intros]:
  "acct (counting register_message) x (modify_key P k a x) (\<lambda>v. v)"
  unfolding modify_key_def by (rule acct_intros | simp add: register_message_def)+

lemma acct_onoff_start [acct_intros]: "acct (counting ign) x (onoff_start cfg P) (\<lambda>_. x)"
  unfolding onoff_start_def by (rule acct_intros | simp)+

lemma acct_onoff_key:
  "acct (counting register_message) 0 (onoff_key cfg P) (\<lambda>k. snd (snd k))"
  unfolding onoff_key_def by (rule acct_intros acct_return | simp add: register_message_def)+

lemma acct_pick_list [acct_intros]:
  "acct (counting ign) x (for_each is (\<lambda>i xs. pick_fresh cfg P f xs) ys) (\<lambda>_. x)"
  by (rule acct_for_each [where f = "\<lambda>_. x"]) (rule acct_pick_fresh)

lemma acct_ciram_sets [acct_intros]:
  "acct (counting ign) x (pick_11_sets cfg P) (\<lambda>_. x)"
  "acct (counting ign) x (write_ciram_sets cfg P ss v) (\<lambda>_. x)"
  "acct (counting register_message) x (check_ciram_sets cfg P ss v x) (\<lambda>v. v)"
  unfolding pick_11_sets_def write_ciram_sets_def check_ciram_sets_def
  by (rule acct_intros | simp add: register_message_def)+

lemma acct_onoff_disabled:
  "acct_done (counting register_message) 0 (onoff_disabled_RUN_TEST cfg P params)"
  unfolding onoff_disabled_RUN_TEST_def by (rule acct_intros | simp add: register_message_def)+

lemma acct_access_rand_word_initialized:
  "acct (counting register_message) x (access_rand_word_initialized cfg P st t v) (\<lambda>v. x + v)"
  unfolding access_rand_word_initialized_def
  by (rule acct_sub_start) (rule acct_sub_intros | simp add: register_message_def)+

lemma acct_encrypt_tags [acct_intros]:
  "acct (counting register_message) x (encrypt_tags cfg P st ts v x) (\<lambda>v. v)"
  unfolding encrypt_tags_def by (rule acct_intros | simp add: register_message_def)+

lemma acct_onoff_initialized:
  "acct_done (counting register_message) 0 (onoff_initialized_RUN_TEST cfg P params)"
  unfolding onoff_initialized_RUN_TEST_def
  by (rule acct_intros acct_done_bind [OF acct_onoff_key] acct_access_rand_word_initialized
      | simp add: register_message_def)+

lemma acct_access_rand_word:
  "acct (counting register_message) (on_errors s) (access_rand_word cfg P st bs v i s) on_errors"
proof -
  have hit: "acct (counting register_message) (on_errors s) (case check_hit_onoff bs (on_row s) i of
         None \<Rightarrow> do { halt Undefined; State_Monad.return s }
       | Some (hit, row) \<Rightarrow> State_Monad.return
           (if hit \<noteq> 0 then s\<lparr>on_row := row, on_hit := on_hit s + 1\<rparr>
            else s\<lparr>on_row := row, on_miss := on_miss s + 1\<rparr>)) on_errors"
    by (auto intro!: acct_return acct_bind [OF acct_halt_Undefined [where f = "\<lambda>_. on_errors s"]]
        split: option.split)
  show ?thesis
    unfolding access_rand_word_def
    by (rule acct_intros hit acct_return | simp add: register_message_def)+
qed

lemma acct_access_30:
  "acct (counting register_message) (on_errors (snd s)) (access_30 cfg P st bs v n s)
     (\<lambda>s. on_errors (snd s))"
  unfolding access_30_def
  by (rule acct_bind [OF acct_ext_silent] acct_for_each [where f = "\<lambda>s. on_errors (snd s)"] acct_let
      acct_bind [OF acct_access_rand_word] acct_return | simp)+

lemma acct_accesses_after_gate:
  "acct (counting register_message) (on_errors (snd s)) (accesses_after_gate cfg P st bs v s)
     (\<lambda>s. on_errors (snd s))"
proof -
  have last: "acct (counting register_message) (on_errors t) (access_30 cfg P st bs v n (i, t))
      (\<lambda>s. on_errors (snd s))" for t n i
    using acct_access_30 [where s = "(i, t)"] by simp
  show ?thesis
    unfolding accesses_after_gate_def
    by (rule acct_bind [OF acct_access_rand_word acct_bind [OF acct_access_rand_word last]])
qed

lemma acct_pick_tags [acct_intros]: "acct (counting ign) x (pick_tags cfg P) (\<lambda>_. x)"
  unfolding pick_tags_def by (rule acct_intros)

lemma acct_onoff_active:
  "acct_done (counting register_message) 0 (onoff_active_RUN_TEST cfg P params)"
  unfolding onoff_active_RUN_TEST_def
  by (rule acct_intros acct_done_bind [OF acct_onoff_key]
      acct_done_bind [OF acct_access_30 [where s = "(0, \<lparr>on_row = empty_row, on_miss = 0, on_hit = 0, on_errors = e\<rparr>)" for e, simplified]]
      acct_done_bind [OF acct_accesses_after_gate [where s = "(i, r\<lparr>on_miss := 0, on_hit := 0, on_errors := e\<rparr>)" for i r e, simplified]]
      | simp add: register_message_def)+

section \<open>The attribute pages\<close>

lemma triple_runD: "triple A p B \<Longrightarrow> A m \<Longrightarrow> run_state p m = (r, m') \<Longrightarrow> B r m'"
  by (auto simp: triple_def)

text \<open>The page registers: \<open>False\<close> for the privilege, \<open>True\<close> for the user attributes.\<close>

definition page :: "config \<Rightarrow> bool \<Rightarrow> nat \<Rightarrow> u32" where
  "page cfg user i = (if user then K cfg SSY_HSP_MPU_SPCIRAM_USER_ATTRIB_0
     else K cfg SSY_HSP_MPU_SPCIRAM_PRIVILEGE_ATTRIB_0) + word_of_nat i * 4"

text \<open>A register holds the attributes of eight pages; the highest bit of each is a lock.\<close>

definition unlocked :: "u32 \<Rightarrow> bool" where
  "unlocked v \<longleftrightarrow> v AND 0x88888888 = 0"

text \<open>
  What the tests rely on: as long as no page is locked, a write that locks no page changes the register
  it addresses and no other, and a read returns the register.
\<close>

locale attribute_pages =
  fixes P :: "'s platform" and cfg :: config and attr :: "'s \<Rightarrow> bool \<Rightarrow> nat \<Rightarrow> u32"
  assumes write_page: "i < 512 \<Longrightarrow> j < 512 \<Longrightarrow> \<forall>t. \<forall>k < 512. unlocked (attr d t k) \<Longrightarrow> unlocked v \<Longrightarrow>
      attr (snd (reply P (Hw_write32 (page cfg s i) v) d)) t j = (if t = s \<and> j = i then v else attr d t j)"
    and read_page: "i < 512 \<Longrightarrow> fst (reply P (Hw_read32 (page cfg s i)) d) = attr d s i"
    and read_keeps: "i < 512 \<Longrightarrow> j < 512 \<Longrightarrow>
      attr (snd (reply P (Hw_read32 (page cfg s i)) d)) t j = attr d t j"
begin

definition paged :: "(bool \<Rightarrow> nat \<Rightarrow> u32) \<Rightarrow> 's mach \<Rightarrow> bool" where
  "paged g m \<longleftrightarrow> status m = Running \<and> (\<forall>s. \<forall>i < 512. attr (dev m) s i = g s i \<and> unlocked (g s i))"

lemma paged_write:
  assumes "i < 512" and "a = page cfg s i" and "unlocked v"
    and "\<And>r. triple (paged (g(s := (g s)(i := v)))) (q r) B"
  shows "triple (paged g) (State_Monad.bind (ext P (Hw_write32 a v)) q) B"
  by (rule triple_bind [OF triple_ext [where B = "\<lambda>_. paged (g(s := (g s)(i := v)))"]])
    (use assms in \<open>auto simp: paged_def write_page\<close>)

lemma paged_read:
  assumes "i < 512" and "a = page cfg s i" and "triple (paged g) (q (g s i)) B"
  shows "triple (paged g) (State_Monad.bind (ext P (Hw_read32 a)) q) B"
proof (rule triple_bind_value [where c = "g s i" and B = "paged g"])
  show "triple (paged g) (ext P (Hw_read32 a)) (\<lambda>v m. v = g s i \<and> paged g m)"
    by (rule triple_ext) (use assms(1,2) in \<open>auto simp: paged_def read_page read_keeps\<close>)
qed (rule assms(3))

lemma page_0: "K cfg SSY_HSP_MPU_SPCIRAM_PRIVILEGE_ATTRIB_0 + word_of_nat i * 4 = page cfg False i"
  and page_1: "K cfg SSY_HSP_MPU_SPCIRAM_USER_ATTRIB_0 + word_of_nat i * 4 = page cfg True i"
  by (simp_all add: page_def)

text \<open>The attributes that the test writes for the initial value \<open>v\<close>.\<close>

definition attribs :: "u32 \<Rightarrow> bool \<Rightarrow> nat \<Rightarrow> u32" where
  "attribs v user i = mpu_attrib (if user then 0x12341234 else 0xabcdabcd) (word_of_nat i) v"

lemma unlocked_attribs: "unlocked (attribs v s i)" "unlocked 0x77777777"
  by (simp_all add: unlocked_def attribs_def mpu_attrib_def and.assoc)

lemma modify_mpu_pages_ok:
  "triple (paged g) (modify_mpu_pages cfg P v) (\<lambda>_. paged (\<lambda>s i. if i < 512 then attribs v s i else g s i))"
proof -
  let ?J = "\<lambda>k (_ :: unit). paged (\<lambda>s i. if i < k then attribs v s i else g s i)"
  have upd: "(\<lambda>s i. if i < k then attribs v s i else g s i)
      (False := (\<lambda>i. if i < k then attribs v False i else g False i)(k := attribs v False k),
       True := (\<lambda>i. if i < k then attribs v True i else g True i)(k := attribs v True k)) =
    (\<lambda>s i. if i < Suc k then attribs v s i else g s i)" for k
    by (auto simp: fun_eq_iff less_Suc_eq)
  define body :: "u32 \<Rightarrow> unit \<Rightarrow> ('s, unit) prog" where "body = (\<lambda>i u. do {
      ext P (Hw_write32 (K cfg SSY_HSP_MPU_SPCIRAM_PRIVILEGE_ATTRIB_0 + i * 4) (mpu_attrib 0xabcdabcd i v));
      ext P (Hw_write32 (K cfg SSY_HSP_MPU_SPCIRAM_USER_ATTRIB_0 + i * 4) (mpu_attrib 0x12341234 i v));
      State_Monad.return u })"
  have "triple (?J k u) (body (idx 512 ! k) u) (?J (Suc k))" if "k < length (idx 512)" for k u
    unfolding body_def using that upd [of k] unlocked_attribs(1) [of v False k] unlocked_attribs(1) [of v True k]
    by (intro paged_write [where i = k and s = False] paged_write [where i = k and s = True] triple_return)
      (simp_all add: page_0 page_1 attribs_def)
  from triple_for_each [of "idx 512" ?J body "()", OF this] show ?thesis
    by (simp add: modify_mpu_pages_def body_def)
qed

text \<open>A check finds the attributes and leaves the page open.\<close>

lemma check_mpu_page_ok:
  assumes "i < 512" and "\<And>s. g s i = attribs v s i"
  shows "triple (paged g) (check_mpu_page cfg P v (word_of_nat i) e)
    (\<lambda>r m. r = e \<and> paged (\<lambda>s. (g s)(i := 0x77777777)) m)"
proof -
  have exp: "mpu_attrib 0xabcdabcd (word_of_nat i) v = g False i" "mpu_attrib 0x12341234 (word_of_nat i) v = g True i"
    by (simp_all add: assms(2) attribs_def)
  have upd: "g(False := (g False)(i := 0x77777777), True := (g True)(i := 0x77777777)) = (\<lambda>s. (g s)(i := 0x77777777))"
    by (auto simp: fun_eq_iff)
  show ?thesis
    unfolding check_mpu_page_def Let_def page_0 page_1 exp
    by (intro paged_read [OF assms(1) refl], simp,
        intro paged_write [OF assms(1) refl unlocked_attribs(2)] triple_return) (simp add: upd)
qed

lemma check_mpu_pages_ok:
  assumes "\<And>s i. i < 512 \<Longrightarrow> g s i = attribs v s i"
  shows "triple (paged g) (check_mpu_pages cfg P v)
    (\<lambda>r m. r = 0 \<and> paged (\<lambda>s i. if i < 512 then 0x77777777 else g s i) m)"
proof -
  let ?g = "\<lambda>k s i. if i < k then 0x77777777 else g s i"
  let ?J = "\<lambda>k (e :: u32) m. e = 0 \<and> paged (?g k) m"
  have "triple (?J k e) (check_mpu_page cfg P v (idx 512 ! k) e) (?J (Suc k))" if "k < length (idx 512)" for k e
  proof (rule triple_fact [where phi = "e = 0"])
    assume "e = 0"
    have "(\<lambda>s. (?g k s)(k := 0x77777777)) = ?g (Suc k)" by (auto simp: fun_eq_iff less_Suc_eq)
    with check_mpu_page_ok [of k "?g k" v e] that assms \<open>e = 0\<close>
    show "triple (?J k e) (check_mpu_page cfg P v (idx 512 ! k) e) (?J (Suc k))" by simp
  qed simp
  from triple_for_each [of "idx 512" ?J "check_mpu_page cfg P v" 0, OF this] show ?thesis
    by (simp add: check_mpu_pages_def)
qed

lemma pages_round_trip:
  assumes "\<forall>s. \<forall>i < 512. unlocked (attr d s i)"
  shows "case run_state (do { modify_mpu_pages cfg P v; check_mpu_pages cfg P v })
      \<lparr>dev = d, log = [], status = Running\<rparr> of (errors, m) \<Rightarrow>
    status m = Running \<and> errors = 0 \<and> (\<forall>s. \<forall>i < 512. attr (dev m) s i = 0x77777777)"
proof -
  let ?m = "\<lparr>dev = d, log = [], status = Running\<rparr>"
  have "paged (attr d) ?m" using assms by (simp add: paged_def)
  moreover have "triple (paged (attr d)) (do { modify_mpu_pages cfg P v; check_mpu_pages cfg P v })
      (\<lambda>r m. r = 0 \<and> paged (\<lambda>s i. if i < 512 then 0x77777777 else
        (if i < 512 then attribs v s i else attr d s i)) m)"
    by (rule triple_bind [OF modify_mpu_pages_ok check_mpu_pages_ok]) simp
  moreover obtain r m where run: "run_state (do { modify_mpu_pages cfg P v; check_mpu_pages cfg P v }) ?m = (r, m)"
    by fastforce
  ultimately show ?thesis
    unfolding run by (auto simp: paged_def dest: triple_runD [OF _ _ run])
qed

end

section \<open>Accesses to the retained cache\<close>

text \<open>The words of the blocks of one set hold their offset plus a constant.\<close>

definition stored_in_set :: "u32 \<Rightarrow> u32 list \<Rightarrow> u32 \<Rightarrow> (u32 \<Rightarrow> u32) \<Rightarrow> bool" where
  "stored_in_set st blocks v f \<longleftrightarrow> (\<forall>t \<in> set blocks. \<forall>w < 128.
     f (offset_addr t st + w * 4) = offset_addr t st + w * 4 + v)"

context cached_memory
begin

definition on_phase where
  "on_phase V f e st s m \<longleftrightarrow> on_errors s = e \<and>
     cached V f (row_agrees st (on_row s)) (on_hit s) (on_miss s) m"

lemma on_phase_quiet:
  "c = Rand \<or> c = Hw_status args \<Longrightarrow> triple (on_phase V f e st s) (ext P c) (\<lambda>_. on_phase V f e st s)"
  unfolding on_phase_def
  using cached_quiet [of c args V f "row_agrees st (on_row s)" "on_hit s" "on_miss s"]
  by (auto simp: triple_def split_beta)

lemma access_rand_word_ok:
  assumes "unat i < length blocks" and "list_all (\<lambda>t. t < 256) blocks" and "stored_in_set st blocks v f"
  shows "triple (on_phase V f e st s) (access_rand_word cfg P st blocks v i s) (on_phase V f e st)"
proof (rule triple_fact [where phi = "row_wf (on_row s) \<and> on_errors s = e"])
  fix m
  assume "on_phase V f e st s m"
  then show "row_wf (on_row s) \<and> on_errors s = e"
    by (simp add: on_phase_def cached_def row_agrees_def)
next
  assume "row_wf (on_row s) \<and> on_errors s = e"
  then have wf: "row_wf (on_row s)" and e: "on_errors s = e" by simp_all
  then have pre: "on_phase V f e st s = cached V f (row_agrees st (on_row s)) (on_hit s) (on_miss s)"
    by (simp add: on_phase_def fun_eq_iff)
  let ?t = "blocks ! unat i"
  have t: "?t < 256" "?t \<in> set blocks" using assms(1,2) by (simp_all add: list_all_length)
  obtain h row where a: "row_access (on_row s) ?t = (h, row)" by fastforce
  have hit: "check_hit_onoff blocks (on_row s) i = Some (of_bool h, row)"
    using check_hit_onoff_access [OF wf assms(1)] by (simp add: a)
  define h' where "h' = on_hit s + of_bool h"
  define n' where "n' = on_miss s + of_bool (\<not> h)"
  let ?s = "s\<lparr>on_row := row, on_hit := h', on_miss := n'\<rparr>"
  let ?C = "cached V f (row_agrees st row) h' n'"
  have next_s: "(case check_hit_onoff blocks (on_row s) i of
         None \<Rightarrow> do { halt Undefined; State_Monad.return s }
       | Some (hit, row) \<Rightarrow> State_Monad.return
           (if hit \<noteq> 0 then s\<lparr>on_row := row, on_hit := on_hit s + 1\<rparr>
            else s\<lparr>on_row := row, on_miss := on_miss s + 1\<rparr>)) = State_Monad.return ?s"
    unfolding hit by (cases h; cases s) (simp_all add: h'_def n'_def)
  have read: "triple (on_phase V f e st s) (ext P (Hw_read32
      (K cfg SSY_CPU0_MEMORY_DEF_HSP_CIRAM_ADDRESS + (offset_addr ?t st + r mod 128 * 4))))
      (\<lambda>x m. x = offset_addr ?t st + r mod 128 * 4 + v \<and> ?C m)" for r
  proof -
    have w: "r mod 128 < 128" by (simp add: word_less_nat_alt unat_mod)
    have "fst (cache_read c (word_addr (offset_addr ?t st + r mod 128 * 4))) = h \<and>
        row_agrees st row (snd (cache_read c (word_addr (offset_addr ?t st + r mod 128 * 4))))"
      if "row_agrees st (on_row s) c" for c
      using row_agrees_step [OF that t(1) w refl a] by blast
    from cached_read [OF w refl this, where V = V and f = f and h = "on_hit s" and n = "on_miss s"]
    show ?thesis
      unfolding pre h'_def n'_def using assms(3) t(2) w by (simp add: stored_in_set_def)
  qed
  have check: "triple ?C (tally_sinc P e (Check_perf_counters n' h')) (\<lambda>r m. r = e \<and> ?C m)"
    by (rule cached_check)
  show "triple (on_phase V f e st s) (access_rand_word cfg P st blocks v i s) (on_phase V f e st)"
    unfolding access_rand_word_def next_s Let_def State_Monad.bind_left_identity
    apply (rule triple_bind [OF on_phase_quiet], simp)
    apply (rule triple_bind_value [OF read])
    apply (simp add: e)
    apply (rule triple_bind_value [OF check])
    by (rule triple_return) (simp add: on_phase_def)
qed

lemma access_30_ok:
  assumes "0 < n" and "unat n \<le> length blocks" and "list_all (\<lambda>t. t < 256) blocks"
    and "stored_in_set st blocks v f"
  shows "triple (on_phase V f e st (snd s)) (access_30 cfg P st blocks v n s)
    (\<lambda>s. on_phase V f e st (snd s))"
proof -
  have "unat (r mod n) < length blocks" for r
    using assms(1,2) by (simp add: unat_mod unat_gt_0 order.strict_trans2 [OF mod_less_divisor])
  note word = access_rand_word_ok [OF this assms(3,4)]
  define body where "body = (\<lambda>(i :: u32) (s :: u32 \<times> onoff_run). do {
       r \<leftarrow> ext P Rand;
       let block_table_index = r mod n;
       s \<leftarrow> access_rand_word cfg P st blocks v block_table_index (snd s);
       State_Monad.return (block_table_index, s)
     })"
  have "triple (on_phase V f e st (snd y)) (body i y) (\<lambda>s. on_phase V f e st (snd s))" for i y
    unfolding body_def Let_def
    by (rule triple_bind [OF on_phase_quiet], simp)
      (rule triple_bind [OF word], rule triple_return, simp)
  then have "triple (on_phase V f e st (snd s)) (for_each (idx 30) body s) (\<lambda>s. on_phase V f e st (snd s))"
    using triple_for_each [of "idx 30" "\<lambda>_ s. on_phase V f e st (snd s)" body s] by simp
  then show ?thesis
    unfolding access_30_def body_def by (rule triple_bind [OF on_phase_quiet, rotated]) simp
qed

lemma accesses_after_gate_ok:
  assumes "unat (fst s) < 10" and "length blocks = 10" and "list_all (\<lambda>t. t < 256) blocks"
    and "stored_in_set st blocks v f"
  shows "triple (on_phase V f e st (snd s)) (accesses_after_gate cfg P st blocks v s)
    (\<lambda>s. on_phase V f e st (snd s))"
proof -
  have rest: "triple (on_phase V f e st t) (access_30 cfg P st blocks v 10 (i, t))
      (\<lambda>s. on_phase V f e st (snd s))" for i t
    using access_30_ok [of 10 blocks st v f V e "(i, t)"] assms(2-4) by simp
  show ?thesis
    unfolding accesses_after_gate_def
    by (rule triple_bind [OF access_rand_word_ok triple_bind [OF access_rand_word_ok rest]])
      (simp_all add: assms)
qed

end

section \<open>Properties\<close>

text \<open>C11: with the cache active, the accesses of \<open>sinc_onoff_ret_check_active\<close> behind the power gate find
  what a retained cache gives them: if the row of the prediction agrees with the set of the tag
  store and the expected counts equal the counters, then no check fails, no array is left, and the
  row, the tag store and the counts still belong together at the end.\<close>

theorem onoff_accesses_pass:
  assumes "cached_memory cfg P tags hits misses content" and "status m = Running"
    and "row_agrees st row (tags (dev m))" and "length blocks = 10" and "list_all (\<lambda>t. t < 256) blocks"
    and "stored_in_set st blocks v (content (dev m))" and "unat i < 10"
  shows "case run_state (accesses_after_gate cfg P st blocks v
      (i, \<lparr>on_row = row, on_miss = misses (dev m), on_hit = hits (dev m), on_errors = e\<rparr>)) m of (s, m') \<Rightarrow>
    status m' = Running \<and> on_errors (snd s) = e \<and> on_hit (snd s) = hits (dev m') \<and>
    on_miss (snd s) = misses (dev m') \<and> row_agrees st (on_row (snd s)) (tags (dev m'))"
proof -
  let ?s = "\<lparr>on_row = row, on_miss = misses (dev m), on_hit = hits (dev m), on_errors = e\<rparr>"
  note defs = cached_memory.on_phase_def [OF assms(1)] cached_memory.cached_def [OF assms(1)]
  have "cached_memory.on_phase tags hits misses content (verdicts (log m)) (content (dev m)) e st ?s m"
    using assms(2,3) by (simp add: defs)
  with cached_memory.accesses_after_gate_ok [OF assms(1), of "(i, ?s)" blocks st v "content (dev m)"
      "verdicts (log m)" e] assms(4-7)
  show ?thesis by (auto simp: triple_def defs)
qed

theorem onoff_accesses_pass_witness:
  "case run_state (accesses_after_gate sample_cfg (with_tag_store sample_cfg idle) 77 (idx 10) 7
      (8, \<lparr>on_row = empty_row, on_miss = 0, on_hit = 0, on_errors = 0\<rparr>)) erased_mach of (s, m') \<Rightarrow>
    status m' = Running \<and> on_errors (snd s) = 0 \<and> on_miss (snd s) = miss_count (dev m')"
proof -
  have "row_agrees 77 empty_row (\<lambda>_. erased_set 0)"
    by (simp add: row_agrees_def erased_set_wf) (simp add: row_wf_def row_content_def empty_row_def all_less_4)
  moreover have "list_all (\<lambda>t. t < 256) (idx 10)" by (simp add: idx_def upt_rec)
  ultimately show ?thesis
    using onoff_accesses_pass [OF tag_store.cached_memory_axioms [of sample_cfg idle],
        of erased_mach 77 empty_row "idx 10" 7 8 0]
    by (simp add: erased_mach_def stored_in_set_def split_beta)
qed

text \<open>The three retention tests are honest about everything except the registers: they report PASS
  only when no other check failed and FAIL only when one did. The messages of \<open>check_sinc_reg\<close> are
  left out because the result of \<open>check_all_sinc_regs\<close> is dropped.\<close>

lemma onoff_tests_honest:
  "test_ok (counting register_message) (onoff_disabled_RUN_TEST cfg P params) \<and>
   test_ok (counting register_message) (onoff_initialized_RUN_TEST cfg P params) \<and>
   test_ok (counting register_message) (onoff_active_RUN_TEST cfg P params)"
  using acct_done_test_ok [OF acct_onoff_disabled] acct_done_test_ok [OF acct_onoff_initialized]
    acct_done_test_ok [OF acct_onoff_active] by blast

end
