(* ===== verification/Suite.thy ===== *)
theory Suite
  imports TestsMem TestsState TestsReset TestsPerf TestsCache TestsAes TestsOnOff
begin

text \<open>
  The suite as the framework sees it: every test file under \<open>src/verif/l3\<close> provides the three entry
  points \<open>INIT_TEST\<close>, \<open>RUN_TEST\<close> and \<open>CLEANUP_TEST\<close>. One definition per file puts them together; the
  parameters are those of \<open>params.h\<close>, where the file uses any. The verdicts of all tests but
  \<open>sinc_reinit\<close>, whose counting changes from boot to boot, are settled in one statement.
\<close>

section \<open>The programs\<close>

record 's test_program =
  init_test :: "('s, unit) prog"
  run_test :: "('s, unit) prog"
  cleanup_test :: "('s, unit) prog"

definition iram_mem_access_program :: "config \<Rightarrow> 's platform \<Rightarrow> 's test_program" where
  "iram_mem_access_program cfg P = \<lparr>init_test = INIT_TEST P,
     run_test = iram_mem_access_RUN_TEST cfg P,
     cleanup_test = CLEANUP_TEST P\<rparr>"

definition partial_word_mem_access_iram_program :: "config \<Rightarrow> 's platform \<Rightarrow> 's test_program" where
  "partial_word_mem_access_iram_program cfg P = \<lparr>init_test = INIT_TEST P,
     run_test = partial_word_mem_access_iram_RUN_TEST cfg P,
     cleanup_test = CLEANUP_TEST P\<rparr>"

definition sinc_cache_disabled_mem_access_program :: "config \<Rightarrow> 's platform \<Rightarrow> 's test_program" where
  "sinc_cache_disabled_mem_access_program cfg P = \<lparr>init_test = INIT_TEST P,
     run_test = cache_disabled_mem_access_RUN_TEST cfg P,
     cleanup_test = CLEANUP_TEST P\<rparr>"

definition sinc_cache_disabled_mem_access_byte_program :: "config \<Rightarrow> 's platform \<Rightarrow> 's test_program" where
  "sinc_cache_disabled_mem_access_byte_program cfg P = \<lparr>init_test = INIT_TEST P,
     run_test = cache_disabled_mem_access_byte_RUN_TEST cfg P,
     cleanup_test = CLEANUP_TEST P\<rparr>"

definition sinc_cache_initialized_mem_access_program :: "config \<Rightarrow> 's platform \<Rightarrow> 's test_program" where
  "sinc_cache_initialized_mem_access_program cfg P = \<lparr>init_test = INIT_TEST P,
     run_test = cache_initialized_mem_access_RUN_TEST cfg P,
     cleanup_test = CLEANUP_TEST P\<rparr>"

definition sinc_axi_mgr_toggle_program :: "config \<Rightarrow> 's platform \<Rightarrow> 's test_program" where
  "sinc_axi_mgr_toggle_program cfg P = \<lparr>init_test = INIT_TEST P,
     run_test = axi_mgr_toggle_RUN_TEST cfg P,
     cleanup_test = CLEANUP_TEST P\<rparr>"

definition sinc_cache_failed_state_rng_program :: "config \<Rightarrow> 's platform \<Rightarrow> 's test_program" where
  "sinc_cache_failed_state_rng_program cfg P = \<lparr>init_test = INIT_TEST P,
     run_test = cache_failed_state_rng_RUN_TEST cfg P,
     cleanup_test = CLEANUP_TEST P\<rparr>"

definition sinc_cache_transition_initialized_runtime_program :: "config \<Rightarrow> 's platform \<Rightarrow> 's test_program" where
  "sinc_cache_transition_initialized_runtime_program cfg P = \<lparr>init_test = INIT_TEST P,
     run_test = cache_transition_initialized_runtime_RUN_TEST cfg P,
     cleanup_test = CLEANUP_TEST P\<rparr>"

definition sinc_cache_active_mem_access_short_program :: "config \<Rightarrow> 's platform \<Rightarrow> 's test_program" where
  "sinc_cache_active_mem_access_short_program cfg P = \<lparr>init_test = INIT_TEST P,
     run_test = cache_active_mem_access_short_RUN_TEST cfg P,
     cleanup_test = CLEANUP_TEST P\<rparr>"

definition sinc_command_err_program :: "config \<Rightarrow> 's platform \<Rightarrow> 's test_program" where
  "sinc_command_err_program cfg P = \<lparr>init_test = INIT_TEST P,
     run_test = command_err_RUN_TEST cfg P,
     cleanup_test = CLEANUP_TEST P\<rparr>"

definition sinc_bus_err_program :: "config \<Rightarrow> 's platform \<Rightarrow> 's test_program" where
  "sinc_bus_err_program cfg P = \<lparr>init_test = INIT_TEST P,
     run_test = bus_err_RUN_TEST cfg P,
     cleanup_test = CLEANUP_TEST P\<rparr>"

definition sinc_ksu_access_program :: "config \<Rightarrow> 's platform \<Rightarrow> 's test_program" where
  "sinc_ksu_access_program cfg P = \<lparr>init_test = INIT_TEST P,
     run_test = ksu_access_RUN_TEST cfg P,
     cleanup_test = CLEANUP_TEST P\<rparr>"

definition sinc_non_severe_err_program :: "config \<Rightarrow> 's platform \<Rightarrow> 's test_program" where
  "sinc_non_severe_err_program cfg P = \<lparr>init_test = INIT_TEST P,
     run_test = non_severe_err_RUN_TEST cfg P,
     cleanup_test = CLEANUP_TEST P\<rparr>"

definition sinc_reg_access_by_state_program :: "config \<Rightarrow> 's platform \<Rightarrow> 's test_program" where
  "sinc_reg_access_by_state_program cfg P = \<lparr>init_test = INIT_TEST P,
     run_test = reg_access_by_state_RUN_TEST cfg P,
     cleanup_test = CLEANUP_TEST P\<rparr>"

definition sinc_reset_program :: "config \<Rightarrow> 's platform \<Rightarrow> 's test_program" where
  "sinc_reset_program cfg P = \<lparr>init_test = INIT_TEST P,
     run_test = reset_RUN_TEST cfg P,
     cleanup_test = CLEANUP_TEST P\<rparr>"

definition sinc_erase_busy_program :: "config \<Rightarrow> 's platform \<Rightarrow> 's test_program" where
  "sinc_erase_busy_program cfg P = \<lparr>init_test = INIT_TEST P,
     run_test = erase_busy_RUN_TEST cfg P,
     cleanup_test = CLEANUP_TEST P\<rparr>"

definition sinc_intr_program :: "config \<Rightarrow> 's platform \<Rightarrow> 's test_program" where
  "sinc_intr_program cfg P = \<lparr>init_test = INIT_TEST P,
     run_test = intr_RUN_TEST cfg P,
     cleanup_test = CLEANUP_TEST P\<rparr>"

definition sinc_restore_after_reset_program :: "config \<Rightarrow> 's platform \<Rightarrow> 's test_program" where
  "sinc_restore_after_reset_program cfg P = \<lparr>init_test = INIT_TEST P,
     run_test = restore_after_reset_RUN_TEST cfg P,
     cleanup_test = CLEANUP_TEST P\<rparr>"

definition sinc_reset_after_gate_program :: "config \<Rightarrow> 's platform \<Rightarrow> test_params \<Rightarrow> 's test_program" where
  "sinc_reset_after_gate_program cfg P params = \<lparr>init_test = INIT_TEST_gate cfg P params,
     run_test = reset_after_gate_RUN_TEST cfg P params,
     cleanup_test = CLEANUP_TEST P\<rparr>"

definition sinc_reinit_after_gate_program :: "config \<Rightarrow> 's platform \<Rightarrow> test_params \<Rightarrow> 's test_program" where
  "sinc_reinit_after_gate_program cfg P params = \<lparr>init_test = INIT_TEST_gate cfg P params,
     run_test = reinit_after_gate_RUN_TEST cfg P params,
     cleanup_test = CLEANUP_TEST P\<rparr>"

definition sinc_performance_counter_check_program :: "config \<Rightarrow> 's platform \<Rightarrow> 's test_program" where
  "sinc_performance_counter_check_program cfg P = \<lparr>init_test = INIT_TEST P,
     run_test = performance_counter_check_RUN_TEST cfg P,
     cleanup_test = CLEANUP_TEST P\<rparr>"

definition sinc_performance_counter_check_simple_program :: "config \<Rightarrow> 's platform \<Rightarrow> 's test_program" where
  "sinc_performance_counter_check_simple_program cfg P = \<lparr>init_test = INIT_TEST P,
     run_test = do { globals \<leftarrow> performance_counter_check_simple_RUN_TEST cfg P (0, 0); State_Monad.return () },
     cleanup_test = CLEANUP_TEST P\<rparr>"

definition sinc_cache_initialized_encrypt_program :: "config \<Rightarrow> 's platform \<Rightarrow> test_params \<Rightarrow> 's test_program" where
  "sinc_cache_initialized_encrypt_program cfg P params = \<lparr>init_test = INIT_TEST_gate cfg P params,
     run_test = initialized_encrypt_RUN_TEST cfg P params,
     cleanup_test = CLEANUP_TEST P\<rparr>"

definition sinc_cache_active_mem_access_program :: "config \<Rightarrow> 's platform \<Rightarrow> test_params \<Rightarrow> 's test_program" where
  "sinc_cache_active_mem_access_program cfg P params = \<lparr>init_test = INIT_TEST_gate cfg P params,
     run_test = active_mem_access_RUN_TEST cfg P params,
     cleanup_test = CLEANUP_TEST P\<rparr>"

definition sinc_cache_failed_state_program :: "config \<Rightarrow> 's platform \<Rightarrow> 's test_program" where
  "sinc_cache_failed_state_program cfg P = \<lparr>init_test = INIT_TEST P,
     run_test = cache_failed_state_RUN_TEST cfg P,
     cleanup_test = CLEANUP_TEST P\<rparr>"

definition sinc_auth_tag_mismatch_program :: "config \<Rightarrow> 's platform \<Rightarrow> test_params \<Rightarrow> 's test_program" where
  "sinc_auth_tag_mismatch_program cfg P params = \<lparr>init_test = INIT_TEST P,
     run_test = auth_tag_mismatch_RUN_TEST cfg P params,
     cleanup_test = CLEANUP_TEST P\<rparr>"

definition sinc_aes_test_mode_program :: "config \<Rightarrow> 's platform \<Rightarrow> 's test_program" where
  "sinc_aes_test_mode_program cfg P = \<lparr>init_test = INIT_TEST P,
     run_test = aes_test_mode_RUN_TEST cfg P,
     cleanup_test = CLEANUP_TEST P\<rparr>"

definition sinc_aes_test_mode_reuse_key_program :: "config \<Rightarrow> 's platform \<Rightarrow> 's test_program" where
  "sinc_aes_test_mode_reuse_key_program cfg P = \<lparr>init_test = INIT_TEST P,
     run_test = aes_reuse_key_RUN_TEST cfg P,
     cleanup_test = CLEANUP_TEST P\<rparr>"

definition sinc_aes_test_mode_reuse_key_gcm_program :: "config \<Rightarrow> 's platform \<Rightarrow> 's test_program" where
  "sinc_aes_test_mode_reuse_key_gcm_program cfg P = \<lparr>init_test = INIT_TEST P,
     run_test = aes_reuse_key_gcm_RUN_TEST cfg P,
     cleanup_test = CLEANUP_TEST P\<rparr>"

definition sinc_aes_test_mode_l1_debug_program :: "config \<Rightarrow> 's platform \<Rightarrow> 's test_program" where
  "sinc_aes_test_mode_l1_debug_program cfg P = \<lparr>init_test = INIT_TEST P,
     run_test = aes_l1_debug_RUN_TEST cfg P,
     cleanup_test = CLEANUP_TEST P\<rparr>"

definition sinc_onoff_ret_check_disabled_program :: "config \<Rightarrow> 's platform \<Rightarrow> test_params \<Rightarrow> 's test_program" where
  "sinc_onoff_ret_check_disabled_program cfg P params = \<lparr>init_test = onoff_INIT_TEST cfg P,
     run_test = onoff_disabled_RUN_TEST cfg P params,
     cleanup_test = CLEANUP_TEST P\<rparr>"

definition sinc_onoff_ret_check_initialized_program :: "config \<Rightarrow> 's platform \<Rightarrow> test_params \<Rightarrow> 's test_program" where
  "sinc_onoff_ret_check_initialized_program cfg P params = \<lparr>init_test = onoff_INIT_TEST cfg P,
     run_test = onoff_initialized_RUN_TEST cfg P params,
     cleanup_test = CLEANUP_TEST P\<rparr>"

definition sinc_onoff_ret_check_active_program :: "config \<Rightarrow> 's platform \<Rightarrow> test_params \<Rightarrow> 's test_program" where
  "sinc_onoff_ret_check_active_program cfg P params = \<lparr>init_test = onoff_INIT_TEST cfg P,
     run_test = onoff_active_RUN_TEST cfg P params,
     cleanup_test = CLEANUP_TEST P\<rparr>"

definition sinc_reinit_program :: "config \<Rightarrow> 's platform \<Rightarrow> 's test_program" where
  "sinc_reinit_program cfg P = \<lparr>init_test = INIT_TEST P,
     run_test = reinit_RUN_TEST cfg P,
     cleanup_test = CLEANUP_TEST P\<rparr>"

section \<open>The suite\<close>

text \<open>What \<open>iram_mem_access\<close> announces and does not count.\<close>

definition iram_message :: "call \<Rightarrow> bool" where
  "iram_message c = (case c of Hw_errmsg args \<Rightarrow> length args = 3 | _ \<Rightarrow> False)"

text \<open>
  The tests with the calls whose failures their verdict leaves out: none, or those of the checks whose
  results the test drops.
\<close>

definition suite ::
  "config \<Rightarrow> 's platform \<Rightarrow> test_params \<Rightarrow> (string \<times> (call \<Rightarrow> bool) \<times> 's test_program) list" where
  "suite cfg P params = [
     (''iram_mem_access'', iram_message, iram_mem_access_program cfg P),
     (''partial_word_mem_access_iram'', nothing_ignored, partial_word_mem_access_iram_program cfg P),
     (''sinc_cache_disabled_mem_access'', above_ciram_message, sinc_cache_disabled_mem_access_program cfg P),
     (''sinc_cache_disabled_mem_access_byte'', nothing_ignored, sinc_cache_disabled_mem_access_byte_program cfg P),
     (''sinc_cache_initialized_mem_access'', above_ciram_message, sinc_cache_initialized_mem_access_program cfg P),
     (''sinc_axi_mgr_toggle'', nothing_ignored, sinc_axi_mgr_toggle_program cfg P),
     (''sinc_cache_failed_state_rng'', nothing_ignored, sinc_cache_failed_state_rng_program cfg P),
     (''sinc_cache_transition_initialized_runtime'', nothing_ignored, sinc_cache_transition_initialized_runtime_program cfg P),
     (''sinc_cache_active_mem_access_short'', nothing_ignored, sinc_cache_active_mem_access_short_program cfg P),
     (''sinc_command_err'', nothing_ignored, sinc_command_err_program cfg P),
     (''sinc_bus_err'', nothing_ignored, sinc_bus_err_program cfg P),
     (''sinc_ksu_access'', nothing_ignored, sinc_ksu_access_program cfg P),
     (''sinc_non_severe_err'', count_message, sinc_non_severe_err_program cfg P),
     (''sinc_reg_access_by_state'', reg_message, sinc_reg_access_by_state_program cfg P),
     (''sinc_reset'', status_bits_read, sinc_reset_program cfg P),
     (''sinc_erase_busy'', nothing_ignored, sinc_erase_busy_program cfg P),
     (''sinc_intr'', nothing_ignored, sinc_intr_program cfg P),
     (''sinc_restore_after_reset'', nothing_ignored, sinc_restore_after_reset_program cfg P),
     (''sinc_reset_after_gate'', nothing_ignored, sinc_reset_after_gate_program cfg P params),
     (''sinc_reinit_after_gate'', nothing_ignored, sinc_reinit_after_gate_program cfg P params),
     (''sinc_performance_counter_check'', nothing_ignored, sinc_performance_counter_check_program cfg P),
     (''sinc_performance_counter_check_simple'', nothing_ignored, sinc_performance_counter_check_simple_program cfg P),
     (''sinc_cache_initialized_encrypt'', nothing_ignored, sinc_cache_initialized_encrypt_program cfg P params),
     (''sinc_cache_active_mem_access'', nothing_ignored, sinc_cache_active_mem_access_program cfg P params),
     (''sinc_cache_failed_state'', nothing_ignored, sinc_cache_failed_state_program cfg P),
     (''sinc_auth_tag_mismatch'', nothing_ignored, sinc_auth_tag_mismatch_program cfg P params),
     (''sinc_aes_test_mode'', nothing_ignored, sinc_aes_test_mode_program cfg P),
     (''sinc_aes_test_mode_reuse_key'', nothing_ignored, sinc_aes_test_mode_reuse_key_program cfg P),
     (''sinc_aes_test_mode_reuse_key_gcm'', nothing_ignored, sinc_aes_test_mode_reuse_key_gcm_program cfg P),
     (''sinc_aes_test_mode_l1_debug'', nothing_ignored, sinc_aes_test_mode_l1_debug_program cfg P),
     (''sinc_onoff_ret_check_disabled'', register_message, sinc_onoff_ret_check_disabled_program cfg P params),
     (''sinc_onoff_ret_check_initialized'', register_message, sinc_onoff_ret_check_initialized_program cfg P params),
     (''sinc_onoff_ret_check_active'', register_message, sinc_onoff_ret_check_active_program cfg P params)]"

text \<open>A program that logs no failure and gives no verdict.\<close>

definition quiet :: "('s, 'a) prog \<Rightarrow> bool" where
  "quiet p \<longleftrightarrow> (\<forall>d. status (exec p d) = Running \<and> verdicts (log (exec p d)) = [] \<and>
     failures (counting nothing_ignored) (log (exec p d)) = 0)"

lemmas program_defs = iram_mem_access_program_def partial_word_mem_access_iram_program_def
    sinc_cache_disabled_mem_access_program_def sinc_cache_disabled_mem_access_byte_program_def
    sinc_cache_initialized_mem_access_program_def sinc_axi_mgr_toggle_program_def
    sinc_cache_failed_state_rng_program_def sinc_cache_transition_initialized_runtime_program_def
    sinc_cache_active_mem_access_short_program_def sinc_command_err_program_def sinc_bus_err_program_def
    sinc_ksu_access_program_def sinc_non_severe_err_program_def sinc_reg_access_by_state_program_def
    sinc_reset_program_def sinc_erase_busy_program_def sinc_intr_program_def
    sinc_restore_after_reset_program_def sinc_reset_after_gate_program_def
    sinc_reinit_after_gate_program_def sinc_performance_counter_check_program_def
    sinc_performance_counter_check_simple_program_def sinc_cache_initialized_encrypt_program_def
    sinc_cache_active_mem_access_program_def sinc_cache_failed_state_program_def
    sinc_auth_tag_mismatch_program_def sinc_aes_test_mode_program_def
    sinc_aes_test_mode_reuse_key_program_def sinc_aes_test_mode_reuse_key_gcm_program_def
    sinc_aes_test_mode_l1_debug_program_def sinc_onoff_ret_check_disabled_program_def
    sinc_onoff_ret_check_initialized_program_def sinc_onoff_ret_check_active_program_def

section \<open>Entry points around the tests\<close>

lemma quiet_inits:
  "quiet (INIT_TEST P)" "quiet (CLEANUP_TEST P)" "quiet (INIT_TEST_gate cfg P params)" "quiet (onoff_INIT_TEST cfg P)"
  by (auto simp: quiet_def INIT_TEST_def CLEANUP_TEST_def INIT_TEST_gate_def onoff_INIT_TEST_def exec_def
    run_state_ext counting_silent split_beta)

lemma test_ok_return:
  "test_ok w p \<Longrightarrow> test_ok w (do { x \<leftarrow> p; State_Monad.return () })"
  by (simp add: test_ok_def exec_def State_Monad.bind_def State_Monad.return_def split_beta)

lemma iram_mem_access_honest: "test_ok (counting iram_message) (iram_mem_access_RUN_TEST cfg P)"
  unfolding iram_mem_access_RUN_TEST_def iram_fill_word_def iram_check_word_def
  by (rule acct_done_test_ok) (rule acct_errmsg_ignored acct_intros acct_return | simp add: iram_message_def)+

section \<open>Properties\<close>

text \<open>C22: every test of the suite is honest. Whatever the platform does and whatever the parameters are,
  \<open>RUN_TEST\<close> reports \<open>HW_TEST_FAIL\<close> only after a failure and \<open>HW_TEST_PASS\<close> only when the number of
  failures is zero modulo \<open>2 ^ 32\<close>, and it does not end without a verdict; failures are those of the
  log except for the calls listed with the test. \<open>INIT_TEST\<close> and \<open>CLEANUP_TEST\<close> run to their end, fail
  nothing and report nothing.\<close>

theorem suite_honest:
  "list_all (\<lambda>(name, dropped, t). test_ok (counting dropped) (run_test t) \<and>
     quiet (init_test t) \<and> quiet (cleanup_test t)) (suite cfg P params)"
  unfolding suite_def list.pred_inject(2) prod.case program_defs test_program.simps
  by (simp only: quiet_inits iram_mem_access_honest sub_word_tests_honest cache_mem_access_tests_honest
    state_tests_honest dropped_results_tests_honest reset_test_honest reset_family_tests_honest
    perf_tests_honest cache_tests_honest aes_tests_honest onoff_tests_honest test_ok_return
    list.pred_inject simp_thms)

end
