(* ===== verification/CmuRegs.thy ===== *)
theory CmuRegs
  imports TestsState
begin

text \<open>
  The registers of the SInC as the hardware keeps them (\<open>sinc_regs.sv\<close>, \<open>sinc_cmu_reg_ctrl.sv\<close> and
  \<open>sinc_cmu_reg_ctrl_ret.sv\<close> under \<open>src/src/sinc/rtl\<close>): the configuration registers with their
  write conditions, the command filter and the performance counters. The configuration registers
  are an instance of the contract on which the register check of \<open>TestsState\<close> relies.
\<close>

section \<open>States of the SInC\<close>

definition DISABLED :: u8 where "DISABLED = 0x00"
definition INITIALIZATION :: u8 where "INITIALIZATION = 0x0F"
definition CACHE_ACTIVE :: u8 where "CACHE_ACTIVE = 0xF0"
definition CACHE_FAILED :: u8 where "CACHE_FAILED = 0xFF"

lemmas sinc_state_defs = DISABLED_def INITIALIZATION_def CACHE_ACTIVE_def CACHE_FAILED_def

definition sinc_states :: "u8 list" where
  "sinc_states = [DISABLED, INITIALIZATION, CACHE_ACTIVE, CACHE_FAILED]"

definition is_state_dis :: "u8 \<Rightarrow> bool" where
  "is_state_dis st \<longleftrightarrow> st = DISABLED"

definition is_state_init :: "u8 \<Rightarrow> bool" where
  "is_state_init st \<longleftrightarrow> st = INITIALIZATION"

definition is_state_dis_or_init :: "u8 \<Rightarrow> bool" where
  "is_state_dis_or_init st \<longleftrightarrow> is_state_dis st \<or> is_state_init st"

section \<open>Configuration registers\<close>

record conf_regs =
  block_encr_num :: "24 word"
  num_of_blocks :: "12 word"
  block_encr_addr :: u32
  block_encr_key :: "16 word"
  aes_iv_nonce_0 :: u32
  aes_iv_nonce_1 :: u32
  aes_iv_nonce_2 :: u32
  ext_block_base_addr :: u32
  ext_auth_tag_base_addr :: u32

text \<open>The byte offsets of the registers in the window of the register file.\<close>

definition csr_offset :: "sinc_reg \<Rightarrow> 10 word" where
  "csr_offset r = (case r of
      R_cmd \<Rightarrow> 0x0 | R_block_encr_num \<Rightarrow> 0x4 | R_num_of_blocks \<Rightarrow> 0x8 | R_block_encr_addr \<Rightarrow> 0xc
    | R_block_encr_key \<Rightarrow> 0x10 | R_aes_iv_nonce_0 \<Rightarrow> 0x14 | R_aes_iv_nonce_1 \<Rightarrow> 0x18
    | R_aes_iv_nonce_2 \<Rightarrow> 0x1c | R_ext_block_base_addr \<Rightarrow> 0x20 | R_ext_auth_tag_base_addr \<Rightarrow> 0x24
    | R_status \<Rightarrow> 0x28 | R_hit_cntr_lower \<Rightarrow> 0x2c | R_hit_cntr_upper \<Rightarrow> 0x30
    | R_miss_cntr_lower \<Rightarrow> 0x34 | R_miss_cntr_upper \<Rightarrow> 0x38 | R_lat_cntr_lower \<Rightarrow> 0x3c
    | R_lat_cntr_upper \<Rightarrow> 0x40 | R_perf_cntr_ctrl \<Rightarrow> 0x44 | R_aes_test_data_in_0 \<Rightarrow> 0x48
    | R_aes_test_data_in_1 \<Rightarrow> 0x4c | R_aes_test_data_in_2 \<Rightarrow> 0x50 | R_aes_test_data_in_3 \<Rightarrow> 0x54
    | R_aes_test_data_out_0 \<Rightarrow> 0x58 | R_aes_test_data_out_1 \<Rightarrow> 0x5c | R_aes_test_data_out_2 \<Rightarrow> 0x60
    | R_aes_test_data_out_3 \<Rightarrow> 0x64 | R_aes_test_ctrl \<Rightarrow> 0x68 | R_aes_test_status \<Rightarrow> 0x6c
    | R_encr_block_status \<Rightarrow> 0x70)"

text \<open>One clock of the registers that \<open>sinc_regs\<close> keeps itself, with an optional write on its bus.\<close>

definition sinc_regs_clock :: "u8 \<Rightarrow> (10 word \<times> u32) option \<Rightarrow> conf_regs \<Rightarrow> conf_regs" where
  "sinc_regs_clock st wr g = (case wr of None \<Rightarrow> g | Some (csr_addr, csr_wdata) \<Rightarrow>
     g\<lparr>block_encr_num := (if csr_addr = 0x4 \<and> is_state_dis_or_init st then ucast csr_wdata else block_encr_num g),
       num_of_blocks := (if csr_addr = 0x8 \<and> is_state_dis_or_init st then ucast csr_wdata else num_of_blocks g),
       block_encr_addr := (if csr_addr = 0xc \<and> is_state_dis_or_init st then csr_wdata else block_encr_addr g),
       block_encr_key := (if csr_addr = 0x10 \<and> is_state_dis st then ucast csr_wdata else block_encr_key g)\<rparr>)"

text \<open>
  One clock of the registers in the retention domain, which \<open>sinc_regs\<close> sees as external registers:
  a severe error clears the nonce, and takes precedence over a write.
\<close>

definition nonce_clock :: "u8 \<Rightarrow> bool \<Rightarrow> (10 word \<times> u32) option \<Rightarrow> conf_regs \<Rightarrow> conf_regs" where
  "nonce_clock st severe_err wr g =
     (if severe_err then g\<lparr>aes_iv_nonce_0 := 0, aes_iv_nonce_1 := 0, aes_iv_nonce_2 := 0\<rparr>
      else if is_state_dis st
      then (case wr of None \<Rightarrow> g | Some (csr_addr, csr_wdata) \<Rightarrow>
        g\<lparr>aes_iv_nonce_0 := (if csr_addr = 0x14 then csr_wdata else aes_iv_nonce_0 g),
          aes_iv_nonce_1 := (if csr_addr = 0x18 then csr_wdata else aes_iv_nonce_1 g),
          aes_iv_nonce_2 := (if csr_addr = 0x1c then csr_wdata else aes_iv_nonce_2 g)\<rparr>)
      else g)"

definition base_addr_clock :: "u8 \<Rightarrow> (10 word \<times> u32) option \<Rightarrow> conf_regs \<Rightarrow> conf_regs" where
  "base_addr_clock st wr g =
     (if is_state_dis st \<or> is_state_init st
      then (case wr of None \<Rightarrow> g | Some (csr_addr, csr_wdata) \<Rightarrow>
        g\<lparr>ext_block_base_addr := (if csr_addr = 0x20 then csr_wdata else ext_block_base_addr g),
          ext_auth_tag_base_addr := (if csr_addr = 0x24 then csr_wdata else ext_auth_tag_base_addr g)\<rparr>)
      else g)"

definition conf_clock :: "u8 \<Rightarrow> bool \<Rightarrow> (10 word \<times> u32) option \<Rightarrow> conf_regs \<Rightarrow> conf_regs" where
  "conf_clock st severe_err wr g =
     base_addr_clock st wr (nonce_clock st severe_err wr (sinc_regs_clock st wr g))"

text \<open>The read multiplexer, for the configuration registers.\<close>

definition conf_read :: "conf_regs \<Rightarrow> 10 word \<Rightarrow> u32" where
  "conf_read g csr_addr =
     (if csr_addr = 0x4 then ucast (block_encr_num g) else 0) OR
     (if csr_addr = 0x8 then ucast (num_of_blocks g) else 0) OR
     (if csr_addr = 0xc then block_encr_addr g else 0) OR
     (if csr_addr = 0x10 then ucast (block_encr_key g) else 0) OR
     (if csr_addr = 0x14 then aes_iv_nonce_0 g else 0) OR
     (if csr_addr = 0x18 then aes_iv_nonce_1 g else 0) OR
     (if csr_addr = 0x1c then aes_iv_nonce_2 g else 0) OR
     (if csr_addr = 0x20 then ext_block_base_addr g else 0) OR
     (if csr_addr = 0x24 then ext_auth_tag_base_addr g else 0)"

text \<open>The bits of a register that can be written, as the register headers define them.\<close>

definition csr_write_mask :: "sinc_reg \<Rightarrow> u32" where
  "csr_write_mask r = (case r of
      R_cmd \<Rightarrow> 0x000000ff | R_block_encr_num \<Rightarrow> 0x00ffffff | R_num_of_blocks \<Rightarrow> 0x00000fff
    | R_block_encr_addr \<Rightarrow> 0xffffffff | R_block_encr_key \<Rightarrow> 0x0000ffff
    | R_aes_iv_nonce_0 \<Rightarrow> 0xffffffff | R_aes_iv_nonce_1 \<Rightarrow> 0xffffffff | R_aes_iv_nonce_2 \<Rightarrow> 0xffffffff
    | R_ext_block_base_addr \<Rightarrow> 0xffffffff | R_ext_auth_tag_base_addr \<Rightarrow> 0xffffffff
    | R_perf_cntr_ctrl \<Rightarrow> 0x0000c183
    | R_aes_test_data_in_0 \<Rightarrow> 0xffffffff | R_aes_test_data_in_1 \<Rightarrow> 0xffffffff
    | R_aes_test_data_in_2 \<Rightarrow> 0xffffffff | R_aes_test_data_in_3 \<Rightarrow> 0xffffffff
    | R_aes_test_ctrl \<Rightarrow> 0x0003ffff
    | _ \<Rightarrow> 0)"

section \<open>Command filter\<close>

definition valid_cmd_enc :: "u8 \<Rightarrow> bool" where
  "valid_cmd_enc cmd \<longleftrightarrow> cmd \<in> {0x00, 0x01, 0x02, 0x04, 0x08, 0x10, 0x20, 0x40, 0x80}"

definition cmd_state_ok :: "u8 \<Rightarrow> u8 \<Rightarrow> bool" where
  "cmd_state_ok st cmd =
     (if st = DISABLED then (bit cmd 7 \<or> bit cmd 0 \<or> bit cmd 5 \<or> bit cmd 6) \<or> cmd = 0
      else if st = INITIALIZATION then bit cmd 1 \<or> bit cmd 2 \<or> bit cmd 4 \<or> bit cmd 5 \<or> bit cmd 6
      else if st = CACHE_ACTIVE then bit cmd 2 \<or> bit cmd 3 \<or> bit cmd 5 \<or> bit cmd 6
      else if st = CACHE_FAILED then bit cmd 2
      else False)"

text \<open>\<open>cmd_vld\<close>: the command fits the state, and the controller is idle or in the AES test mode.\<close>

definition cmd_vld :: "u8 \<Rightarrow> bool \<Rightarrow> bool \<Rightarrow> u8 \<Rightarrow> bool" where
  "cmd_vld st cmu_ctrl_active_cmd aes_test_busy cmd \<longleftrightarrow>
     (cmd_state_ok st cmd \<and> valid_cmd_enc cmd) \<and> (\<not> cmu_ctrl_active_cmd \<or> aes_test_busy)"

section \<open>Performance counters\<close>

record perf_cntrs =
  hit_cntr :: "48 word"
  miss_cntr :: "48 word"
  lat_cntr :: "48 word"
  lat_cntr_run :: bool

record perf_in =
  perf_cntr_ctrl :: "16 word"
  perf_cntr_ctrl_written :: bool
  ciu_cache_hit :: bool
  perf_block_fetch_req :: bool
  perf_block_fetch_comp :: bool

text \<open>A counter is cleared, or counts an event while it is enabled, and stays at its maximum.\<close>

definition cntr_next :: "bool \<Rightarrow> bool \<Rightarrow> 48 word \<Rightarrow> 48 word" where
  "cntr_next clr event c = (if clr then 0 else if event then (if c \<noteq> - 1 then c + 1 else c) else c)"

definition perf_clock :: "perf_in \<Rightarrow> perf_cntrs \<Rightarrow> perf_cntrs" where
  "perf_clock i c = (let ctrl = perf_cntr_ctrl i; written = perf_cntr_ctrl_written i in
     c\<lparr>hit_cntr := cntr_next (written \<and> bit ctrl 1) (bit ctrl 0 \<and> ciu_cache_hit i) (hit_cntr c),
       miss_cntr := cntr_next (written \<and> bit ctrl 8) (bit ctrl 7 \<and> perf_block_fetch_req i) (miss_cntr c),
       lat_cntr := cntr_next (written \<and> bit ctrl 15) (bit ctrl 14 \<and> lat_cntr_run c) (lat_cntr c),
       lat_cntr_run := (if perf_block_fetch_req i then True
         else if perf_block_fetch_comp i then False else lat_cntr_run c)\<rparr>)"

section \<open>The registers behind the bus\<close>

text \<open>Which configuration register the hardware lets firmware write in a state.\<close>

definition conf_writable :: "u8 \<Rightarrow> sinc_reg \<Rightarrow> bool" where
  "conf_writable st r =
     (if r \<in> {R_block_encr_key, R_aes_iv_nonce_0, R_aes_iv_nonce_1, R_aes_iv_nonce_2}
      then is_state_dis st else is_state_dis_or_init st)"

lemma ucast_mask_id:
  "(v :: u32) AND 0xffffff = v \<Longrightarrow> ucast (ucast v :: 24 word) = v"
  "(v :: u32) AND 0xfff = v \<Longrightarrow> ucast (ucast v :: 12 word) = v"
  "(v :: u32) AND 0xffff = v \<Longrightarrow> ucast (ucast v :: 16 word) = v"
proof -
  have m: "(0xffffff :: u32) = mask 24" "(0xfff :: u32) = mask 12" "(0xffff :: u32) = mask 16"
    by (simp_all add: mask_eq_exp_minus_1)
  show "v AND 0xffffff = v \<Longrightarrow> ucast (ucast v :: 24 word) = v"
    "v AND 0xfff = v \<Longrightarrow> ucast (ucast v :: 12 word) = v"
    "v AND 0xffff = v \<Longrightarrow> ucast (ucast v :: 16 word) = v"
    unfolding m take_bit_eq_mask [symmetric] by (simp_all add: unsigned_ucast_eq)
qed

lemma conf_write_read:
  assumes "r \<in> set checked_regs" and "v AND csr_write_mask r = v"
  shows "conf_read (conf_clock st False (Some (csr_offset r, v)) g) (csr_offset r') =
    (if r' = r \<and> conf_writable st r then v else conf_read g (csr_offset r'))"
  using assms ucast_mask_id [of v]
  by (cases r; cases r') (auto simp: checked_regs_def csr_offset_def conf_read_def conf_clock_def
    sinc_regs_clock_def nonce_clock_def base_addr_clock_def conf_writable_def is_state_dis_or_init_def
    csr_write_mask_def is_state_dis_def is_state_init_def)

text \<open>
  The register file in its window of 1024 bytes of the address space, for a state of the SInC that
  the accesses do not change; every other call is left to the platform \<open>Q\<close>. The constants of the
  firmware's headers that concern the registers are taken from the hardware.
\<close>

record 's regs_dev =
  regs_rest :: 's
  regs_state :: u8
  regs :: conf_regs

definition sinc_cfg :: "u32 \<Rightarrow> config \<Rightarrow> config" where
  "sinc_cfg base cfg = cfg\<lparr>K := (\<lambda>m. case m of
       Sinc_regs_ptr r \<Rightarrow> base + ucast (csr_offset r)
     | SINC_REGS_WRITE_MASK r \<Rightarrow> csr_write_mask r
     | _ \<Rightarrow> K cfg m)\<rparr>"

definition with_sinc_regs :: "u32 \<Rightarrow> 's platform \<Rightarrow> 's regs_dev platform" where
  "with_sinc_regs base Q = (
     let other = (\<lambda>c d. let (r, s) = reply Q c (regs_rest d) in (r, d\<lparr>regs_rest := s\<rparr>))
     in \<lparr>reply = (\<lambda>c d. case c of
           Hw_read32 a \<Rightarrow> if a - base < 0x400 then (conf_read (regs d) (ucast (a - base)), d) else other c d
         | Hw_write32 a v \<Rightarrow> if a - base < 0x400
             then (0, d\<lparr>regs := conf_clock (regs_state d) False (Some (ucast (a - base), v)) (regs d)\<rparr>)
             else other c d
         | _ \<Rightarrow> other c d),
       fill = (\<lambda>d. fill Q (regs_rest d))\<rparr>)"

lemma csr_in_window: "ucast (csr_offset r) < (0x400 :: u32)" "ucast (ucast (csr_offset r) :: u32) = csr_offset r"
  by (cases r; simp add: csr_offset_def)+

lemma sinc_cfg_simps [simp]:
  "K (sinc_cfg base cfg) (Sinc_regs_ptr r) = base + ucast (csr_offset r)"
  "K (sinc_cfg base cfg) (SINC_REGS_WRITE_MASK r) = csr_write_mask r"
  "K (sinc_cfg base cfg) SINC_STATE_DISABLED = K cfg SINC_STATE_DISABLED"
  "K (sinc_cfg base cfg) SINC_STATE_INITIALIZED = K cfg SINC_STATE_INITIALIZED"
  "K (sinc_cfg base cfg) SINC_STATE_CACHE_ACTIVE = K cfg SINC_STATE_CACHE_ACTIVE"
  "K (sinc_cfg base cfg) SINC_STATE_CACHE_FAILED = K cfg SINC_STATE_CACHE_FAILED"
  "fuel (sinc_cfg base cfg) = fuel cfg"
  by (simp_all add: sinc_cfg_def)

interpretation rtl_regs: register_file "sinc_cfg base cfg" "with_sinc_regs base Q"
    "\<lambda>d r. conf_read (regs d) (csr_offset r)" "\<lambda>d. conf_writable (regs_state d)"
  for base cfg Q
proof
  fix r :: sinc_reg assume r: "r \<in> set checked_regs"
  then show "K (sinc_cfg base cfg) (SINC_REGS_WRITE_MASK r) \<noteq> 0"
    by (auto simp: checked_regs_def csr_write_mask_def)
  fix v :: u32 and d :: "'a regs_dev"
  assume "v AND K (sinc_cfg base cfg) (SINC_REGS_WRITE_MASK r) = v"
  with r show "(\<lambda>r'. conf_read (regs (snd (reply (with_sinc_regs base Q)
        (Hw_write32 (K (sinc_cfg base cfg) (Sinc_regs_ptr r)) v) d))) (csr_offset r')) =
      (if conf_writable (regs_state d) r then (\<lambda>r. conf_read (regs d) (csr_offset r))(r := v)
       else (\<lambda>r. conf_read (regs d) (csr_offset r)))"
    by (auto simp: with_sinc_regs_def csr_in_window conf_write_read)
qed (auto simp: with_sinc_regs_def csr_in_window split_beta)

text \<open>The conditions that the test expects are the conditions of the hardware.\<close>

lemma wallowed_is_writable:
  assumes "distinct (map (K cfg) [SINC_STATE_DISABLED, SINC_STATE_INITIALIZED, SINC_STATE_CACHE_ACTIVE, SINC_STATE_CACHE_FAILED])"
    and "(st, m) \<in> {(DISABLED, SINC_STATE_DISABLED), (INITIALIZATION, SINC_STATE_INITIALIZED),
      (CACHE_ACTIVE, SINC_STATE_CACHE_ACTIVE), (CACHE_FAILED, SINC_STATE_CACHE_FAILED)}"
    and "r \<in> set checked_regs"
  shows "conf_writable st r \<longleftrightarrow> wallowed cfg (K cfg m) r"
  using assms
  by (auto simp: conf_writable_def wallowed_def checked_regs_def is_state_dis_or_init_def
    is_state_dis_def is_state_init_def sinc_state_defs)

text \<open>Consecutive numbers differ in bit 0, which every writable register has.\<close>

lemma counting_rand_differs:
  assumes "r \<in> set checked_regs"
  shows "\<exists>k \<le> 1. draw (with_sinc_regs base counting_rand) k d AND csr_write_mask r \<noteq> x"
proof -
  let ?d = "regs_rest d"
  have bit0: "bit (csr_write_mask r) 0" using assms by (auto simp: checked_regs_def csr_write_mask_def)
  have "draw (with_sinc_regs base counting_rand) 0 d = ?d" "draw (with_sinc_regs base counting_rand) 1 d = ?d + 1"
    by (simp_all add: draw_def with_sinc_regs_def counting_rand_def)
  moreover have "bit (?d AND csr_write_mask r) 0 \<noteq> bit ((?d + 1) AND csr_write_mask r) 0"
    using bit0 by (simp add: bit_0 even_and_iff)
  ultimately show ?thesis by (metis le_numeral_extra(4) zero_le_one)
qed

section \<open>Counting\<close>

lemma unat_less_48: "unat (c :: 48 word) < 2 ^ 48"
  using unsigned_less [of c] by simp

lemma unat_max_48: "unat (- 1 :: 48 word) = 2 ^ 48 - 1"
  by (simp add: unsigned_minus_1_eq_mask mask_eq_exp_minus_1)

lemma unat_cntr_next:
  "unat (cntr_next False e c) = min (unat c + of_bool e) (2 ^ 48 - 1)"
proof (cases "c = - 1")
  case False
  then have "unat c + 1 < 2 ^ 48"
    using unat_less_48 [of c] by (auto simp: word_unat_eq_iff unat_max_48)
  then show ?thesis using False by (simp add: cntr_next_def unat_word_ariths)
qed (simp add: cntr_next_def unat_max_48)

definition hit_event :: "perf_in \<Rightarrow> bool" where
  "hit_event i \<longleftrightarrow> bit (perf_cntr_ctrl i) 0 \<and> ciu_cache_hit i"

definition miss_event :: "perf_in \<Rightarrow> bool" where
  "miss_event i \<longleftrightarrow> bit (perf_cntr_ctrl i) 7 \<and> perf_block_fetch_req i"

section \<open>Properties\<close>

text \<open>C12: the register check of \<open>sinc_reg_access_by_state\<close> is right about the hardware. In each of the
  four states, with random numbers that eventually differ from a register's value, the check ends
  and finds no register that can be written where the test expects it not to be, or the other way
  round.\<close>

theorem write_read_all_regs_on_rtl:
  assumes "status m = Running"
    and "distinct (map (K cfg) [SINC_STATE_DISABLED, SINC_STATE_INITIALIZED, SINC_STATE_CACHE_ACTIVE, SINC_STATE_CACHE_FAILED])"
    and "(regs_state (dev m), mac) \<in> {(DISABLED, SINC_STATE_DISABLED), (INITIALIZATION, SINC_STATE_INITIALIZED),
      (CACHE_ACTIVE, SINC_STATE_CACHE_ACTIVE), (CACHE_FAILED, SINC_STATE_CACHE_FAILED)}"
    and "\<And>r d x. r \<in> set checked_regs \<Longrightarrow>
      \<exists>k \<le> fuel cfg. draw (with_sinc_regs base Q) k d AND csr_write_mask r \<noteq> x"
  shows "case run_state (write_read_all_regs (sinc_cfg base cfg) (with_sinc_regs base Q) (K cfg mac)) m of
    (errors, m') \<Rightarrow> status m' = Running \<and> errors = 0"
proof -
  have "wallowed (sinc_cfg base cfg) = wallowed cfg"
    by (simp add: wallowed_def fun_eq_iff cong: sinc_reg.case_cong)
  then have fit: "filter (\<lambda>r. conf_writable (regs_state (dev m)) r \<noteq> wallowed (sinc_cfg base cfg) (K cfg mac) r)
      checked_regs = []"
    using wallowed_is_writable [OF assms(2,3)] by (simp add: filter_empty_conv)
  have draws: "\<exists>k \<le> fuel (sinc_cfg base cfg). draw (with_sinc_regs base Q) k d AND
      K (sinc_cfg base cfg) (SINC_REGS_WRITE_MASK r) \<noteq> x" if "r \<in> set checked_regs" for r d x
    using assms(4) [OF that, of d x] by simp
  show ?thesis
    using write_read_all_regs_exact [OF rtl_regs.register_file_axioms assms(1) draws, of "K cfg mac"]
    unfolding fit by simp
qed

definition sample_regs_mach :: "u32 regs_dev mach" where
  "sample_regs_mach = \<lparr>dev = \<lparr>regs_rest = 0, regs_state = INITIALIZATION, regs =
     \<lparr>block_encr_num = 0, num_of_blocks = 0, block_encr_addr = 0, block_encr_key = 0, aes_iv_nonce_0 = 0,
      aes_iv_nonce_1 = 0, aes_iv_nonce_2 = 0, ext_block_base_addr = 0, ext_auth_tag_base_addr = 0\<rparr>\<rparr>,
     log = [], status = Running\<rparr>"

theorem write_read_all_regs_on_rtl_witness:
  "fst (run_state (write_read_all_regs (sinc_cfg 0x80000000 sample_cfg)
      (with_sinc_regs 0x80000000 counting_rand) (K sample_cfg SINC_STATE_INITIALIZED)) sample_regs_mach) = 0"
proof -
  have "\<exists>k \<le> fuel sample_cfg. draw (with_sinc_regs 0x80000000 counting_rand) k d AND csr_write_mask r \<noteq> x"
    if r: "r \<in> set checked_regs" for r d x
  proof -
    obtain k where "k \<le> 1" "draw (with_sinc_regs 0x80000000 counting_rand) k d AND csr_write_mask r \<noteq> x"
      using counting_rand_differs [OF r] by blast
    then show ?thesis by (intro exI [of _ k]) (simp add: sample_cfg_def)
  qed
  from write_read_all_regs_on_rtl [where m = sample_regs_mach and mac = SINC_STATE_INITIALIZED,
      OF _ _ _ this]
  show ?thesis by (simp add: sample_regs_mach_def split_beta) (simp add: sample_cfg_def)
qed

text \<open>C31: the hit and miss counters are exact until they saturate. Over any number of clocks in which
  they are not cleared, each of them grows by the number of clocks in which it is enabled and its
  event occurs, and stops at \<open>2 ^ 48 - 1\<close> instead of wrapping.\<close>

theorem counters_saturate:
  assumes "list_all (\<lambda>i. \<not> perf_cntr_ctrl_written i) ins"
  shows "unat (hit_cntr (fold perf_clock ins c)) =
      min (unat (hit_cntr c) + length (filter hit_event ins)) (2 ^ 48 - 1) \<and>
    unat (miss_cntr (fold perf_clock ins c)) =
      min (unat (miss_cntr c) + length (filter miss_event ins)) (2 ^ 48 - 1)"
  using assms
proof (induction ins arbitrary: c)
  case Nil
  then show ?case using unat_less_48 [of "hit_cntr c"] unat_less_48 [of "miss_cntr c"] by simp
next
  case (Cons i ins)
  have "unat (hit_cntr (perf_clock i c)) = min (unat (hit_cntr c) + of_bool (hit_event i)) (2 ^ 48 - 1)"
    "unat (miss_cntr (perf_clock i c)) = min (unat (miss_cntr c) + of_bool (miss_event i)) (2 ^ 48 - 1)"
    using Cons.prems by (simp_all add: perf_clock_def Let_def unat_cntr_next hit_event_def miss_event_def)
  with Cons.IH [of "perf_clock i c"] Cons.prems show ?case by (auto simp: min_def)
qed

definition sample_hit :: perf_in where
  "sample_hit = \<lparr>perf_cntr_ctrl = 1, perf_cntr_ctrl_written = False, ciu_cache_hit = True,
     perf_block_fetch_req = False, perf_block_fetch_comp = False\<rparr>"

theorem counters_saturate_witness:
  "unat (hit_cntr (fold perf_clock (replicate 3 sample_hit)
    \<lparr>hit_cntr = 0xFFFFFFFFFFFE, miss_cntr = 0, lat_cntr = 0, lat_cntr_run = False\<rparr>)) = 2 ^ 48 - 1"
  using counters_saturate [of "replicate 3 sample_hit"
    "\<lparr>hit_cntr = 0xFFFFFFFFFFFE, miss_cntr = 0, lat_cntr = 0, lat_cntr_run = False\<rparr>"]
  by (simp add: list_all_iff hit_event_def sample_hit_def)

end
