(* ===== verification/CmuCtrl.thy ===== *)
theory CmuCtrl
  imports CmuRegs
begin

text \<open>
  The controller of the cache management unit (\<open>sinc_cmu_ctrl.sv\<close>, \<open>sinc_cmu_ctrl_ret.sv\<close> under
  \<open>src/src/sinc/rtl\<close>) and the path of a command through the register control
  (\<open>sinc_cmu_reg_ctrl.sv\<close>) into it. State registers are words with the encodings of \<open>sinc_pkg.sv\<close>,
  so that values outside the enumerations can occur and the default branches of the hardware are
  part of the model. One application of \<open>ctrl_clock\<close> or \<open>cmu_clock\<close> is one clock edge.
\<close>

section \<open>Encodings\<close>

definition SINC_IDLE :: "7 word" where "SINC_IDLE = 0x00"
definition FETCH_BLOCK :: "7 word" where "FETCH_BLOCK = 0x07"
definition SET_INIT :: "7 word" where "SET_INIT = 0x19"
definition SET_CACHE_ACTIVE :: "7 word" where "SET_CACHE_ACTIVE = 0x1E"
definition SINC_RESET :: "7 word" where "SINC_RESET = 0x2A"
definition SINC_REINIT :: "7 word" where "SINC_REINIT = 0x2D"
definition ENCR_BLOCK :: "7 word" where "ENCR_BLOCK = 0x33"
definition DIS_RESET :: "7 word" where "DIS_RESET = 0x34"
definition DIS_REINIT :: "7 word" where "DIS_REINIT = 0x4B"
definition AES_TEST :: "7 word" where "AES_TEST = 0x4C"
definition AES_SEED :: "7 word" where "AES_SEED = 0x55"

lemmas ctrl_state_defs = SINC_IDLE_def FETCH_BLOCK_def SET_INIT_def SET_CACHE_ACTIVE_def
  SINC_RESET_def SINC_REINIT_def ENCR_BLOCK_def DIS_RESET_def DIS_REINIT_def AES_TEST_def AES_SEED_def

definition ctrl_states :: "7 word list" where
  "ctrl_states = [SINC_IDLE, FETCH_BLOCK, SET_INIT, SET_CACHE_ACTIVE, SINC_RESET, SINC_REINIT,
     ENCR_BLOCK, DIS_RESET, DIS_REINIT, AES_TEST, AES_SEED]"

definition CMD_NONE :: "10 word" where "CMD_NONE = 0x000"
definition CMD_SET_INIT :: "10 word" where "CMD_SET_INIT = 0x001"
definition CMD_SET_CACHE_ACT :: "10 word" where "CMD_SET_CACHE_ACT = 0x002"
definition CMD_SINC_RESET :: "10 word" where "CMD_SINC_RESET = 0x004"
definition CMD_SINC_REINIT :: "10 word" where "CMD_SINC_REINIT = 0x008"
definition CMD_ENCR_BLOCK :: "10 word" where "CMD_ENCR_BLOCK = 0x010"
definition CMD_DIS_RESET :: "10 word" where "CMD_DIS_RESET = 0x020"
definition CMD_DIS_REINIT :: "10 word" where "CMD_DIS_REINIT = 0x040"
definition CMD_AES_TEST :: "10 word" where "CMD_AES_TEST = 0x080"
definition CMD_FETCH_BLOCK :: "10 word" where "CMD_FETCH_BLOCK = 0x100"
definition CMD_AES_SEED :: "10 word" where "CMD_AES_SEED = 0x200"

lemmas cmd_defs = CMD_NONE_def CMD_SET_INIT_def CMD_SET_CACHE_ACT_def CMD_SINC_RESET_def
  CMD_SINC_REINIT_def CMD_ENCR_BLOCK_def CMD_DIS_RESET_def CMD_DIS_REINIT_def CMD_AES_TEST_def
  CMD_FETCH_BLOCK_def CMD_AES_SEED_def

definition STS_NONE :: "13 word" where "STS_NONE = 0x0000"
definition STS_CMD_IN_PROG :: "13 word" where "STS_CMD_IN_PROG = 0x0001"
definition STS_CMD_SUC :: "13 word" where "STS_CMD_SUC = 0x0002"
definition STS_INV_CMD :: "13 word" where "STS_INV_CMD = 0x000C"
definition STS_RNG_SEED_ERR :: "13 word" where "STS_RNG_SEED_ERR = 0x0014"
definition STS_KEY_FET_ERR :: "13 word" where "STS_KEY_FET_ERR = 0x0024"
definition STS_CAC_BLK_R_ERR :: "13 word" where "STS_CAC_BLK_R_ERR = 0x0044"
definition STS_CAC_BLK_W_ENC_BLK_ERR :: "13 word" where "STS_CAC_BLK_W_ENC_BLK_ERR = 0x0084"
definition STS_CAC_BLK_W_FET_BLK_ERR :: "13 word" where "STS_CAC_BLK_W_FET_BLK_ERR = 0x0104"
definition STS_AUTH_TAG_R_ERR :: "13 word" where "STS_AUTH_TAG_R_ERR = 0x0204"
definition STS_AUTH_TAG_CHK_ERR :: "13 word" where "STS_AUTH_TAG_CHK_ERR = 0x0404"
definition STS_AUTH_TAG_W_ERR :: "13 word" where "STS_AUTH_TAG_W_ERR = 0x0804"
definition STS_AES_ERR :: "13 word" where "STS_AES_ERR = 0x1004"

lemmas sts_defs = STS_NONE_def STS_CMD_IN_PROG_def STS_CMD_SUC_def STS_INV_CMD_def
  STS_RNG_SEED_ERR_def STS_KEY_FET_ERR_def STS_CAC_BLK_R_ERR_def STS_CAC_BLK_W_ENC_BLK_ERR_def
  STS_CAC_BLK_W_FET_BLK_ERR_def STS_AUTH_TAG_R_ERR_def STS_AUTH_TAG_CHK_ERR_def
  STS_AUTH_TAG_W_ERR_def STS_AES_ERR_def

section \<open>Registers and signals of the controller\<close>

record ctrl_in =
  ciu_fault_err :: bool
  reg_ctrl_cmd_vld :: bool
  reg_ctrl_cmd :: "10 word"
  in_reset_dis :: bool
  in_reinit_dis :: bool
  reg_ctrl_invld_cmd_err :: bool
  ciu_block_fetch_req :: bool
  ciu_addr :: "22 word"
  ciu_reset_reinit_completed :: bool
  aes_seeded :: bool
  c_wrap_sts_upd :: bool
  c_wrap_sts :: "13 word"
  c_wrap_cmd_comp :: bool
  c_wrap_cmd_err :: bool
  c_wrap_fault_err :: bool
  dma_fault_err :: bool
  sinc_erase_done :: bool

record ctrl_flops =
  ctrl_state :: "7 word"
  cmu_sinc_state :: u8
  fetch_block_state :: bool
  cmu_sinc_reset :: bool
  ciu_addr_q :: "15 word"
  c_wrap_cmd_comp_q :: bool
  ciu_reset_reinit_comp_q :: bool
  severe_err :: bool
  sinc_fault_err_pulse :: bool
  hw_fault_q :: bool
  pend_cmd_req :: "10 word"

text \<open>The signals that the state machine drives.\<close>

record ctrl_out =
  next_state :: "7 word"
  cmu_ctrl_cmd :: "10 word"
  cmu_ctrl_cmd_vld :: bool
  stall_cpu_req :: bool
  aes_test_busy :: bool
  cmu_ctrl_active_cmd :: bool
  set_state_to_init :: bool
  set_state_to_cache_active :: bool
  set_state_to_disabled :: bool
  sts :: "13 word"
  sts_upd :: bool
  assert_soft_reset :: bool
  cmu_sinc_reinit :: bool
  cmu_ctrl_fetch_block_num :: "24 word"
  rst_ctrl_signals :: bool
  cmu_ctrl_fw_cmd_done :: bool
  fw_cmd_suc :: bool
  invld_state :: bool
  set_sinc_reset_dis :: bool
  set_sinc_reinit_dis :: bool
  set_c_wrap_cmd_comp :: bool
  clr_c_wrap_cmd_comp :: bool
  set_ciu_reset_reinit_comp :: bool
  clr_ciu_reset_reinit_comp :: bool
  clr_hw_fault :: bool
  set_pend_cmd_req :: bool
  clr_pend_cmd_req :: bool
  c_wrap_block_fetch_comp :: bool

definition ctrl_defaults :: "ctrl_flops \<Rightarrow> ctrl_out" where
  "ctrl_defaults s = \<lparr>next_state = ctrl_state s, cmu_ctrl_cmd = CMD_NONE, cmu_ctrl_cmd_vld = False,
     stall_cpu_req = False, aes_test_busy = False, cmu_ctrl_active_cmd = True,
     set_state_to_init = False, set_state_to_cache_active = False, set_state_to_disabled = False,
     sts = STS_NONE, sts_upd = False, assert_soft_reset = False, cmu_sinc_reinit = False,
     cmu_ctrl_fetch_block_num = 0, rst_ctrl_signals = False, cmu_ctrl_fw_cmd_done = False,
     fw_cmd_suc = False, invld_state = False, set_sinc_reset_dis = False, set_sinc_reinit_dis = False,
     set_c_wrap_cmd_comp = False, clr_c_wrap_cmd_comp = False, set_ciu_reset_reinit_comp = False,
     clr_ciu_reset_reinit_comp = False, clr_hw_fault = False, set_pend_cmd_req = False,
     clr_pend_cmd_req = False, c_wrap_block_fetch_comp = False\<rparr>"

section \<open>The state machine\<close>

text \<open>A command starts: the unit is busy with it and says so in the status.\<close>

definition cmd_started :: "ctrl_out \<Rightarrow> ctrl_out" where
  "cmd_started x = x\<lparr>cmu_ctrl_active_cmd := True, sts_upd := True, sts := STS_CMD_IN_PROG\<rparr>"

definition idle_fetch :: "ctrl_flops \<Rightarrow> ctrl_in \<Rightarrow> ctrl_out \<Rightarrow> ctrl_out" where
  "idle_fetch s i x = (let x = (cmd_started x)\<lparr>cmu_ctrl_cmd_vld := True, stall_cpu_req := True\<rparr> in
     if ciu_block_fetch_req i
     then if aes_seeded i
       then x\<lparr>cmu_ctrl_cmd := CMD_FETCH_BLOCK, cmu_ctrl_fetch_block_num := ucast (drop_bit 7 (ciu_addr i)),
              next_state := FETCH_BLOCK\<rparr>
       else x\<lparr>cmu_ctrl_cmd := CMD_AES_SEED, set_pend_cmd_req := True, next_state := AES_SEED\<rparr>
     else x\<lparr>cmu_ctrl_cmd := CMD_FETCH_BLOCK, cmu_ctrl_fetch_block_num := ucast (ciu_addr_q s),
            clr_pend_cmd_req := True, next_state := FETCH_BLOCK\<rparr>)"

definition idle_reset :: "ctrl_in \<Rightarrow> ctrl_out \<Rightarrow> ctrl_out" where
  "idle_reset i x = (let x = x\<lparr>cmu_ctrl_active_cmd := True, stall_cpu_req := True, sts_upd := True\<rparr> in
     if in_reset_dis i then x\<lparr>cmu_ctrl_fw_cmd_done := True, sts := STS_INV_CMD\<rparr>
     else x\<lparr>cmu_ctrl_cmd_vld := True, cmu_ctrl_cmd := CMD_SINC_RESET, assert_soft_reset := True,
            sts := STS_CMD_IN_PROG, next_state := SINC_RESET\<rparr>)"

definition idle_reinit :: "ctrl_in \<Rightarrow> ctrl_out \<Rightarrow> ctrl_out" where
  "idle_reinit i x = (let x = x\<lparr>cmu_ctrl_active_cmd := True, stall_cpu_req := True, sts_upd := True\<rparr> in
     if in_reinit_dis i then x\<lparr>cmu_ctrl_fw_cmd_done := True, sts := STS_INV_CMD\<rparr>
     else x\<lparr>cmu_ctrl_cmd_vld := True, cmu_ctrl_cmd := CMD_SINC_REINIT, cmu_sinc_reinit := True,
            sts := STS_CMD_IN_PROG, next_state := SINC_REINIT\<rparr>)"

definition idle_encr_block :: "ctrl_in \<Rightarrow> ctrl_out \<Rightarrow> ctrl_out" where
  "idle_encr_block i x = (let x = (cmd_started x)\<lparr>cmu_ctrl_cmd_vld := True\<rparr> in
     if reg_ctrl_cmd_vld i
     then if aes_seeded i
       then x\<lparr>cmu_ctrl_cmd := CMD_ENCR_BLOCK, next_state := ENCR_BLOCK\<rparr>
       else x\<lparr>cmu_ctrl_cmd := CMD_AES_SEED, set_pend_cmd_req := True, next_state := AES_SEED\<rparr>
     else x\<lparr>cmu_ctrl_cmd := CMD_ENCR_BLOCK, clr_pend_cmd_req := True, next_state := ENCR_BLOCK\<rparr>)"

definition in_sinc_idle :: "ctrl_flops \<Rightarrow> ctrl_in \<Rightarrow> ctrl_out \<Rightarrow> ctrl_out" where
  "in_sinc_idle s i x = (
     let x = x\<lparr>rst_ctrl_signals := True, cmu_ctrl_active_cmd := False\<rparr>;
         fw = (\<lambda>c. reg_ctrl_cmd_vld i \<and> reg_ctrl_cmd i = c)
     in if ciu_block_fetch_req i \<or> pend_cmd_req s = CMD_FETCH_BLOCK then idle_fetch s i x
     else if fw CMD_SET_INIT
       then (cmd_started x)\<lparr>cmu_ctrl_cmd_vld := True, cmu_ctrl_cmd := CMD_SET_INIT, next_state := SET_INIT\<rparr>
     else if fw CMD_SET_CACHE_ACT then (cmd_started x)\<lparr>stall_cpu_req := True, next_state := SET_CACHE_ACTIVE\<rparr>
     else if fw CMD_SINC_RESET then idle_reset i x
     else if fw CMD_SINC_REINIT then idle_reinit i x
     else if fw CMD_ENCR_BLOCK \<or> pend_cmd_req s = CMD_ENCR_BLOCK then idle_encr_block i x
     else if fw CMD_DIS_RESET then (cmd_started x)\<lparr>stall_cpu_req := True, next_state := DIS_RESET\<rparr>
     else if fw CMD_DIS_REINIT then (cmd_started x)\<lparr>stall_cpu_req := True, next_state := DIS_REINIT\<rparr>
     else if fw CMD_AES_TEST
       then (cmd_started x)\<lparr>cmu_ctrl_cmd_vld := True, cmu_ctrl_cmd := CMD_AES_TEST, aes_test_busy := True,
              next_state := AES_TEST\<rparr>
     else x)"

text \<open>A firmware command ends; a successful one is reported.\<close>

definition fw_done :: "ctrl_out \<Rightarrow> ctrl_out" where
  "fw_done x = x\<lparr>next_state := SINC_IDLE, cmu_ctrl_fw_cmd_done := True\<rparr>"

definition fw_success :: "ctrl_out \<Rightarrow> ctrl_out" where
  "fw_success x = (fw_done x)\<lparr>fw_cmd_suc := True, sts_upd := True, sts := STS_CMD_SUC\<rparr>"

definition in_fetch_block :: "ctrl_flops \<Rightarrow> ctrl_in \<Rightarrow> ctrl_out \<Rightarrow> ctrl_out" where
  "in_fetch_block s i x = (
     let x = x\<lparr>cmu_ctrl_fetch_block_num := ucast (ciu_addr_q s), stall_cpu_req := True\<rparr>
     in if c_wrap_cmd_comp i then x\<lparr>c_wrap_block_fetch_comp := True, next_state := SINC_IDLE\<rparr> else x)"

definition in_set_init :: "ctrl_in \<Rightarrow> ctrl_out \<Rightarrow> ctrl_out" where
  "in_set_init i x =
     (if c_wrap_cmd_comp i
      then if \<not> c_wrap_cmd_err i then (fw_success x)\<lparr>set_state_to_init := True\<rparr> else fw_done x
      else x)"

definition in_set_cache_active :: "ctrl_out \<Rightarrow> ctrl_out" where
  "in_set_cache_active x = (fw_success x)\<lparr>stall_cpu_req := True, set_state_to_cache_active := True\<rparr>"

text \<open>\<open>SINC_RESET\<close> and \<open>SINC_REINIT\<close> wait for the crypto wrapper and for the cache interface unit.\<close>

definition both_complete :: "ctrl_flops \<Rightarrow> bool" where
  "both_complete s \<longleftrightarrow> c_wrap_cmd_comp_q s \<and> ciu_reset_reinit_comp_q s"

definition collect_completions :: "ctrl_in \<Rightarrow> ctrl_out \<Rightarrow> ctrl_out" where
  "collect_completions i x = x\<lparr>stall_cpu_req := True, set_c_wrap_cmd_comp := c_wrap_cmd_comp i,
     set_ciu_reset_reinit_comp := ciu_reset_reinit_completed i\<rparr>"

definition in_sinc_reset :: "ctrl_flops \<Rightarrow> ctrl_in \<Rightarrow> ctrl_out \<Rightarrow> ctrl_out" where
  "in_sinc_reset s i x = (let x = (collect_completions i x)\<lparr>clr_hw_fault := True\<rparr> in
     if both_complete s
     then (fw_success x)\<lparr>clr_c_wrap_cmd_comp := True, clr_ciu_reset_reinit_comp := True,
            set_state_to_disabled := True\<rparr>
     else x)"

definition in_sinc_reinit :: "ctrl_flops \<Rightarrow> ctrl_in \<Rightarrow> ctrl_out \<Rightarrow> ctrl_out" where
  "in_sinc_reinit s i x = (let x = collect_completions i x in
     if both_complete s
     then (fw_success x)\<lparr>clr_c_wrap_cmd_comp := True, clr_ciu_reset_reinit_comp := True,
            set_state_to_init := True\<rparr>
     else x)"

definition in_encr_block :: "ctrl_in \<Rightarrow> ctrl_out \<Rightarrow> ctrl_out" where
  "in_encr_block i x =
     (if c_wrap_cmd_comp i then if \<not> c_wrap_cmd_err i then fw_success x else fw_done x else x)"

definition in_aes_test :: "ctrl_in \<Rightarrow> ctrl_out \<Rightarrow> ctrl_out" where
  "in_aes_test i x = (
     let x = x\<lparr>cmu_ctrl_cmd_vld := reg_ctrl_cmd_vld i, cmu_ctrl_cmd := reg_ctrl_cmd i, aes_test_busy := True\<rparr>
     in if c_wrap_cmd_comp i then if \<not> c_wrap_cmd_err i then fw_success x else fw_done x else x)"

definition in_aes_seed :: "ctrl_flops \<Rightarrow> ctrl_in \<Rightarrow> ctrl_out \<Rightarrow> ctrl_out" where
  "in_aes_seed s i x = (let x = x\<lparr>stall_cpu_req := (pend_cmd_req s = CMD_FETCH_BLOCK)\<rparr> in
     if c_wrap_cmd_comp i
     then if c_wrap_cmd_err i
       then x\<lparr>next_state := SINC_IDLE, clr_pend_cmd_req := True, cmu_ctrl_fw_cmd_done := True\<rparr>
       else x\<lparr>next_state := SINC_IDLE\<rparr>
     else x)"

definition ctrl_comb :: "ctrl_flops \<Rightarrow> ctrl_in \<Rightarrow> ctrl_out" where
  "ctrl_comb s i = (let x = ctrl_defaults s; st = ctrl_state s in
     if st = SINC_IDLE then in_sinc_idle s i x
     else if st = FETCH_BLOCK then in_fetch_block s i x
     else if st = SET_INIT then in_set_init i x
     else if st = SET_CACHE_ACTIVE then in_set_cache_active x
     else if st = SINC_RESET then in_sinc_reset s i x
     else if st = SINC_REINIT then in_sinc_reinit s i x
     else if st = ENCR_BLOCK then in_encr_block i x
     else if st = DIS_RESET then (fw_success x)\<lparr>stall_cpu_req := True, set_sinc_reset_dis := True\<rparr>
     else if st = DIS_REINIT then (fw_success x)\<lparr>stall_cpu_req := True, set_sinc_reinit_dis := True\<rparr>
     else if st = AES_TEST then in_aes_test i x
     else if st = AES_SEED then in_aes_seed s i x
     else x\<lparr>invld_state := True, cmu_ctrl_fw_cmd_done := True, next_state := SINC_IDLE\<rparr>)"

section \<open>State of the SInC, faults and errors\<close>

definition next_cmu_sinc_state :: "u8 \<Rightarrow> ctrl_out \<Rightarrow> u8" where
  "next_cmu_sinc_state st x =
     (if st = DISABLED then if set_state_to_init x then INITIALIZATION else st
      else if st = INITIALIZATION
        then if set_state_to_cache_active x then CACHE_ACTIVE
             else if set_state_to_disabled x then DISABLED else st
      else if st = CACHE_ACTIVE
        then if set_state_to_disabled x then DISABLED
             else if set_state_to_init x then INITIALIZATION else st
      else if st = CACHE_FAILED then if set_state_to_disabled x then DISABLED else st
      else CACHE_FAILED)"

definition invld_cmu_sinc_state :: "u8 \<Rightarrow> bool" where
  "invld_cmu_sinc_state st \<longleftrightarrow> st \<notin> set sinc_states"

definition hw_fault :: "ctrl_flops \<Rightarrow> ctrl_in \<Rightarrow> bool" where
  "hw_fault s i \<longleftrightarrow> ciu_fault_err i \<or> c_wrap_fault_err i \<or> dma_fault_err i \<or>
     invld_state (ctrl_comb s i) \<or> invld_cmu_sinc_state (cmu_sinc_state s)"

text \<open>The tracking of a block fetch from the request to its completion.\<close>

definition cmu_block_fetch_comp :: "ctrl_flops \<Rightarrow> ctrl_in \<Rightarrow> bool" where
  "cmu_block_fetch_comp s i \<longleftrightarrow> fetch_block_state s \<and>
     (c_wrap_block_fetch_comp (ctrl_comb s i) \<or> hw_fault s i \<or> hw_fault_q s)"

definition cmu_block_fetch_err :: "ctrl_flops \<Rightarrow> ctrl_in \<Rightarrow> bool" where
  "cmu_block_fetch_err s i \<longleftrightarrow> fetch_block_state s \<and>
     ((c_wrap_block_fetch_comp (ctrl_comb s i) \<and> c_wrap_cmd_err i) \<or> hw_fault s i \<or> hw_fault_q s)"

definition fetch_block_sts_upd :: "ctrl_flops \<Rightarrow> ctrl_in \<Rightarrow> bool" where
  "fetch_block_sts_upd s i \<longleftrightarrow> fetch_block_state s \<and>
     ((c_wrap_block_fetch_comp (ctrl_comb s i) \<and> \<not> c_wrap_cmd_err i) \<or> hw_fault s i \<or> hw_fault_q s)"

definition next_fetch_block_state :: "ctrl_flops \<Rightarrow> ctrl_in \<Rightarrow> bool" where
  "next_fetch_block_state s i =
     (if fetch_block_state s then \<not> cmu_block_fetch_comp s i else ciu_block_fetch_req i)"

definition cmu_ctrl_sts_upd :: "ctrl_flops \<Rightarrow> ctrl_in \<Rightarrow> bool" where
  "cmu_ctrl_sts_upd s i \<longleftrightarrow> sts_upd (ctrl_comb s i) \<or> c_wrap_sts_upd i \<or> fetch_block_sts_upd s i"

definition cmu_ctrl_sts :: "ctrl_flops \<Rightarrow> ctrl_in \<Rightarrow> 13 word" where
  "cmu_ctrl_sts s i = sts (ctrl_comb s i) OR c_wrap_sts i OR STS_NONE"

definition severe_err_din :: "ctrl_flops \<Rightarrow> ctrl_in \<Rightarrow> bool" where
  "severe_err_din s i =
     (if hw_fault s i then True
      else if cmu_ctrl_sts_upd s i
      then cmu_ctrl_sts s i \<in> {STS_KEY_FET_ERR, STS_CAC_BLK_R_ERR, STS_AUTH_TAG_CHK_ERR,
        STS_AUTH_TAG_R_ERR, STS_RNG_SEED_ERR, STS_CAC_BLK_W_FET_BLK_ERR, STS_AES_ERR}
      else False)"

definition non_severe_err :: "ctrl_flops \<Rightarrow> ctrl_in \<Rightarrow> bool" where
  "non_severe_err s i =
     (if reg_ctrl_invld_cmd_err i then True
      else if cmu_ctrl_sts_upd s i
      then cmu_ctrl_sts s i \<in> {STS_INV_CMD, STS_CAC_BLK_W_ENC_BLK_ERR, STS_AUTH_TAG_W_ERR}
      else False)"

definition sinc_done_o :: "ctrl_flops \<Rightarrow> ctrl_in \<Rightarrow> bool" where
  "sinc_done_o s i \<longleftrightarrow> fw_cmd_suc (ctrl_comb s i) \<or> sinc_erase_done i"

definition sinc_err_o :: "ctrl_flops \<Rightarrow> ctrl_in \<Rightarrow> bool" where
  "sinc_err_o s i \<longleftrightarrow> severe_err s \<or> non_severe_err s i"

section \<open>One clock of the controller\<close>

definition ctrl_clock :: "ctrl_in \<Rightarrow> ctrl_flops \<Rightarrow> ctrl_flops" where
  "ctrl_clock i s = (let x = ctrl_comb s i in \<lparr>
     ctrl_state = (if hw_fault s i then SINC_IDLE else next_state x),
     cmu_sinc_state = (if severe_err s then CACHE_FAILED else next_cmu_sinc_state (cmu_sinc_state s) x),
     fetch_block_state = next_fetch_block_state s i,
     cmu_sinc_reset = assert_soft_reset x,
     ciu_addr_q = (if cmu_block_fetch_comp s i then 0
       else if ciu_block_fetch_req i then ucast (drop_bit 7 (ciu_addr i)) else ciu_addr_q s),
     c_wrap_cmd_comp_q = (if set_c_wrap_cmd_comp x then True
       else if clr_c_wrap_cmd_comp x \<or> rst_ctrl_signals x then False else c_wrap_cmd_comp_q s),
     ciu_reset_reinit_comp_q = (if set_ciu_reset_reinit_comp x then True
       else if clr_ciu_reset_reinit_comp x \<or> rst_ctrl_signals x then False else ciu_reset_reinit_comp_q s),
     severe_err = severe_err_din s i,
     sinc_fault_err_pulse = (hw_fault s i \<and> \<not> hw_fault_q s),
     hw_fault_q = (if clr_hw_fault x then False else if hw_fault s i then True else hw_fault_q s),
     pend_cmd_req = (if clr_pend_cmd_req x then CMD_NONE
       else if set_pend_cmd_req x
       then if ciu_block_fetch_req i then CMD_FETCH_BLOCK else CMD_ENCR_BLOCK
       else pend_cmd_req s)\<rparr>)"

text \<open>The reset of the power domain keeps the state of the SInC, which is in the retention domain.\<close>

definition ctrl_lp_reset :: "ctrl_flops \<Rightarrow> ctrl_flops" where
  "ctrl_lp_reset s = \<lparr>ctrl_state = SINC_IDLE, cmu_sinc_state = cmu_sinc_state s,
     fetch_block_state = False, cmu_sinc_reset = False, ciu_addr_q = 0, c_wrap_cmd_comp_q = False,
     ciu_reset_reinit_comp_q = False, severe_err = False, sinc_fault_err_pulse = False,
     hw_fault_q = False, pend_cmd_req = CMD_NONE\<rparr>"

section \<open>Status register\<close>

text \<open>
  The fourteen fields of the status register above bit 9, from \<open>cmd_in_progress\<close> to \<open>sinc_hw_fault\<close>.
  A field is loaded when its load enable is set; otherwise a read of the register clears it.
\<close>

definition status_field_next :: "bool \<Rightarrow> 13 word \<Rightarrow> bool \<Rightarrow> bool \<Rightarrow> bool \<Rightarrow> bool \<Rightarrow> nat \<Rightarrow> bool" where
  "status_field_next load v fault_err_pulse invld_cmd_err rd field k = (
     let kept = (if rd then False else field) in
     if k = 0 then (if fault_err_pulse \<or> load then (if fault_err_pulse then False else bit v 0) else kept)
     else if k = 2 \<or> k = 3 then (if invld_cmd_err \<or> load then invld_cmd_err \<or> bit v k else kept)
     else if k = 13 then (if fault_err_pulse then fault_err_pulse else kept)
     else if load then bit v k else kept)"

definition status_next :: "bool \<Rightarrow> 13 word \<Rightarrow> bool \<Rightarrow> bool \<Rightarrow> bool \<Rightarrow> bool list \<Rightarrow> bool list" where
  "status_next load v fault_err_pulse invld_cmd_err rd fs =
     map (\<lambda>k. status_field_next load v fault_err_pulse invld_cmd_err rd (fs ! k) k) [0..<14]"

section \<open>The path of a command\<close>

text \<open>
  The command register with its pulse \<open>cmd_written\<close>, the two flops behind the filter, the two sticky
  bits, the status fields, the configuration registers and the counters, around the controller. The
  fields of the input that the register control drives are replaced by what it drives.
\<close>

record cmu =
  ctrl :: ctrl_flops
  cmd :: u8
  cmd_written :: bool
  cmd_vld_pass_1 :: bool
  invld_cmd_err_pass_1 :: bool
  sinc_reset_dis :: bool
  sinc_reinit_dis :: bool
  sts_fields :: "bool list"
  conf :: conf_regs
  cntrs :: perf_cntrs

record cmu_in =
  outside :: ctrl_in
  csr_write :: "(10 word \<times> u32) option"
  csr_read :: "10 word option"
  perf :: perf_in

definition reg_ctrl_drives :: "cmu \<Rightarrow> ctrl_in \<Rightarrow> ctrl_in" where
  "reg_ctrl_drives u i = i\<lparr>
     reg_ctrl_cmd_vld := cmd_vld_pass_1 u \<and> \<not> ciu_block_fetch_req i,
     reg_ctrl_cmd := ucast (cmd u),
     in_reset_dis := sinc_reset_dis u,
     in_reinit_dis := sinc_reinit_dis u,
     reg_ctrl_invld_cmd_err := invld_cmd_err_pass_1 u \<or> (cmd_vld_pass_1 u \<and> ciu_block_fetch_req i)\<rparr>"

definition writes_cmd :: "cmu_in \<Rightarrow> bool" where
  "writes_cmd inp = (case csr_write inp of None \<Rightarrow> False | Some (a, v) \<Rightarrow> a = csr_offset R_cmd)"

definition next_cmd :: "cmu_in \<Rightarrow> bool \<Rightarrow> u8 \<Rightarrow> u8" where
  "next_cmd inp cmd_clear c = (case csr_write inp of
       Some (a, v) \<Rightarrow> if a = csr_offset R_cmd then ucast v else if cmd_clear then 0 else c
     | None \<Rightarrow> if cmd_clear then 0 else c)"

definition cmu_clock :: "cmu_in \<Rightarrow> cmu \<Rightarrow> cmu" where
  "cmu_clock inp u = (
     let i = reg_ctrl_drives u (outside inp);
         x = ctrl_comb (ctrl u) i;
         st = cmu_sinc_state (ctrl u);
         vld = cmd_vld st (cmu_ctrl_active_cmd x) (aes_test_busy x) (cmd u)
     in \<lparr>ctrl = ctrl_clock i (ctrl u),
         cmd = next_cmd inp (cmu_ctrl_fw_cmd_done x \<or> reg_ctrl_invld_cmd_err i) (cmd u),
         cmd_written = writes_cmd inp,
         cmd_vld_pass_1 = (cmd_written u \<and> vld),
         invld_cmd_err_pass_1 = (cmd_written u \<and> \<not> vld),
         sinc_reset_dis = (if set_sinc_reset_dis x then True else sinc_reset_dis u),
         sinc_reinit_dis = (if set_sinc_reinit_dis x then True else sinc_reinit_dis u),
         sts_fields = status_next (cmu_ctrl_sts_upd (ctrl u) i) (cmu_ctrl_sts (ctrl u) i)
           (sinc_fault_err_pulse (ctrl u)) (reg_ctrl_invld_cmd_err i)
           (csr_read inp = Some (csr_offset R_status)) (sts_fields u),
         conf = conf_clock st (severe_err (ctrl u)) (csr_write inp) (conf u),
         cntrs = perf_clock ((perf inp)\<lparr>perf_block_fetch_req := ciu_block_fetch_req i,
           perf_block_fetch_comp := cmu_block_fetch_comp (ctrl u) i\<rparr>) (cntrs u)\<rparr>)"

definition zero_conf :: conf_regs where
  "zero_conf = \<lparr>block_encr_num = 0, num_of_blocks = 0, block_encr_addr = 0, block_encr_key = 0,
     aes_iv_nonce_0 = 0, aes_iv_nonce_1 = 0, aes_iv_nonce_2 = 0, ext_block_base_addr = 0,
     ext_auth_tag_base_addr = 0\<rparr>"

definition zero_cntrs :: perf_cntrs where
  "zero_cntrs = \<lparr>hit_cntr = 0, miss_cntr = 0, lat_cntr = 0, lat_cntr_run = False\<rparr>"

text \<open>
  The reset of the power domain. The flop behind \<open>cmd_written\<close> has no reset; its value is the
  parameter \<open>w\<close>.
\<close>

definition cmu_lp_reset :: "bool \<Rightarrow> cmu \<Rightarrow> cmu" where
  "cmu_lp_reset w u = u\<lparr>ctrl := ctrl_lp_reset (ctrl u), cmd := 0, cmd_written := w,
     cmd_vld_pass_1 := False, invld_cmd_err_pass_1 := False, sts_fields := replicate 14 False,
     conf := (conf u)\<lparr>block_encr_num := 0, num_of_blocks := 0, block_encr_addr := 0, block_encr_key := 0\<rparr>,
     cntrs := zero_cntrs\<rparr>"

text \<open>After the power-on reset, which resets both domains.\<close>

definition cmu_reset :: "bool \<Rightarrow> cmu" where
  "cmu_reset w = \<lparr>
     ctrl = \<lparr>ctrl_state = SINC_IDLE, cmu_sinc_state = DISABLED, fetch_block_state = False,
       cmu_sinc_reset = False, ciu_addr_q = 0, c_wrap_cmd_comp_q = False, ciu_reset_reinit_comp_q = False,
       severe_err = False, sinc_fault_err_pulse = False, hw_fault_q = False, pend_cmd_req = CMD_NONE\<rparr>,
     cmd = 0, cmd_written = w, cmd_vld_pass_1 = False, invld_cmd_err_pass_1 = False,
     sinc_reset_dis = False, sinc_reinit_dis = False, sts_fields = replicate 14 False,
     conf = zero_conf, cntrs = zero_cntrs\<rparr>"

text \<open>The read value of the registers that are part of the model.\<close>

definition status_read :: "cmu \<Rightarrow> u32" where
  "status_read u = push_bit 10 (horner_sum of_bool 2 (sts_fields u)) OR
     push_bit 9 (of_bool (sinc_reinit_dis u)) OR push_bit 8 (of_bool (sinc_reset_dis u)) OR
     ucast (cmu_sinc_state (ctrl u))"

definition csr_rdata :: "cmu \<Rightarrow> sinc_reg \<Rightarrow> u32" where
  "csr_rdata u r = (case r of
      R_status \<Rightarrow> status_read u
    | R_hit_cntr_lower \<Rightarrow> ucast (hit_cntr (cntrs u))
    | R_hit_cntr_upper \<Rightarrow> ucast (drop_bit 32 (hit_cntr (cntrs u)))
    | R_miss_cntr_lower \<Rightarrow> ucast (miss_cntr (cntrs u))
    | R_miss_cntr_upper \<Rightarrow> ucast (drop_bit 32 (miss_cntr (cntrs u)))
    | R_lat_cntr_lower \<Rightarrow> ucast (lat_cntr (cntrs u))
    | R_lat_cntr_upper \<Rightarrow> ucast (drop_bit 32 (lat_cntr (cntrs u)))
    | _ \<Rightarrow> conf_read (conf u) (csr_offset r))"

section \<open>What the state machine drives\<close>

text \<open>What starting a command and ending one leave alone.\<close>

lemmas idle_defs = in_sinc_idle_def idle_fetch_def idle_reset_def idle_reinit_def idle_encr_block_def
  cmd_started_def Let_def

lemma idle_keeps [simp]:
  "set_state_to_init (in_sinc_idle s i x) = set_state_to_init x"
  "set_state_to_disabled (in_sinc_idle s i x) = set_state_to_disabled x"
  "set_state_to_cache_active (in_sinc_idle s i x) = set_state_to_cache_active x"
  "set_sinc_reset_dis (in_sinc_idle s i x) = set_sinc_reset_dis x"
  "set_sinc_reinit_dis (in_sinc_idle s i x) = set_sinc_reinit_dis x"
  "invld_state (in_sinc_idle s i x) = invld_state x"
  by (simp_all add: idle_defs)

lemmas busy_defs = in_fetch_block_def in_set_init_def in_set_cache_active_def in_sinc_reset_def
  in_sinc_reinit_def in_encr_block_def in_aes_test_def in_aes_seed_def collect_completions_def
  fw_success_def fw_done_def ctrl_defaults_def Let_def

lemma ctrl_states_distinct: "distinct ctrl_states"
  by (simp add: ctrl_states_def ctrl_state_defs)

lemmas ctrl_states_differ [simp] = ctrl_states_distinct [unfolded ctrl_states_def distinct.simps list.set insert_iff de_Morgan_disj]

lemma comb_sets [simp]:
  "set_state_to_disabled (ctrl_comb s i) \<longleftrightarrow> ctrl_state s = SINC_RESET \<and> both_complete s"
  "set_state_to_cache_active (ctrl_comb s i) \<longleftrightarrow> ctrl_state s = SET_CACHE_ACTIVE"
  "set_state_to_init (ctrl_comb s i) \<longleftrightarrow> ctrl_state s = SET_INIT \<and> c_wrap_cmd_comp i \<and> \<not> c_wrap_cmd_err i \<or>
     ctrl_state s = SINC_REINIT \<and> both_complete s"
  "set_sinc_reset_dis (ctrl_comb s i) \<longleftrightarrow> ctrl_state s = DIS_RESET"
  "set_sinc_reinit_dis (ctrl_comb s i) \<longleftrightarrow> ctrl_state s = DIS_REINIT"
  by (simp_all add: ctrl_comb_def busy_defs)

lemma comb_invld [simp]: "invld_state (ctrl_comb s i) \<longleftrightarrow> ctrl_state s \<notin> set ctrl_states"
  by (simp add: ctrl_comb_def busy_defs ctrl_states_def)

text \<open>The state that follows an idle clock.\<close>

lemma idle_next_state:
  "ctrl_state s = SINC_IDLE \<Longrightarrow> next_state (ctrl_comb s i) =
    (if ciu_block_fetch_req i \<or> pend_cmd_req s = CMD_FETCH_BLOCK
     then if ciu_block_fetch_req i \<and> \<not> aes_seeded i then AES_SEED else FETCH_BLOCK
     else let fw = (\<lambda>c. reg_ctrl_cmd_vld i \<and> reg_ctrl_cmd i = c) in
       if fw CMD_SET_INIT then SET_INIT
       else if fw CMD_SET_CACHE_ACT then SET_CACHE_ACTIVE
       else if fw CMD_SINC_RESET then if in_reset_dis i then SINC_IDLE else SINC_RESET
       else if fw CMD_SINC_REINIT then if in_reinit_dis i then SINC_IDLE else SINC_REINIT
       else if fw CMD_ENCR_BLOCK \<or> pend_cmd_req s = CMD_ENCR_BLOCK
         then if reg_ctrl_cmd_vld i \<and> \<not> aes_seeded i then AES_SEED else ENCR_BLOCK
       else if fw CMD_DIS_RESET then DIS_RESET
       else if fw CMD_DIS_REINIT then DIS_REINIT
       else if fw CMD_AES_TEST then AES_TEST else SINC_IDLE)"
  by (simp add: ctrl_comb_def idle_defs ctrl_defaults_def)

lemma idle_next:
  assumes "ctrl_state s = SINC_IDLE"
  shows "next_state (ctrl_comb s i) \<in> set ctrl_states"
    and "next_state (ctrl_comb s i) = SET_INIT \<Longrightarrow> reg_ctrl_cmd_vld i \<and> reg_ctrl_cmd i = CMD_SET_INIT"
    and "next_state (ctrl_comb s i) = SET_CACHE_ACTIVE \<Longrightarrow> reg_ctrl_cmd_vld i \<and> reg_ctrl_cmd i = CMD_SET_CACHE_ACT"
    and "next_state (ctrl_comb s i) = SINC_RESET \<Longrightarrow>
      reg_ctrl_cmd_vld i \<and> reg_ctrl_cmd i = CMD_SINC_RESET \<and> \<not> in_reset_dis i"
    and "next_state (ctrl_comb s i) = SINC_REINIT \<Longrightarrow>
      reg_ctrl_cmd_vld i \<and> reg_ctrl_cmd i = CMD_SINC_REINIT \<and> \<not> in_reinit_dis i"
  unfolding idle_next_state [OF assms] Let_def
  by (simp_all add: ctrl_states_def ctrl_state_defs split: if_split_asm)

text \<open>A busy state is kept or left for the idle one.\<close>

lemma busy_next:
  assumes "ctrl_state s \<noteq> SINC_IDLE"
  shows "next_state (ctrl_comb s i) \<in> {ctrl_state s, SINC_IDLE}"
  using assms by (simp add: ctrl_comb_def busy_defs)

lemma reset_next:
  "ctrl_state s = SINC_RESET \<Longrightarrow> next_state (ctrl_comb s i) = (if both_complete s then SINC_IDLE else SINC_RESET)"
  "ctrl_state s = SINC_REINIT \<Longrightarrow> next_state (ctrl_comb s i) = (if both_complete s then SINC_IDLE else SINC_REINIT)"
  "ctrl_state s = SET_CACHE_ACTIVE \<Longrightarrow> next_state (ctrl_comb s i) = SINC_IDLE"
  "ctrl_state s = SET_INIT \<Longrightarrow> next_state (ctrl_comb s i) = (if c_wrap_cmd_comp i then SINC_IDLE else SET_INIT)"
  by (simp_all add: ctrl_comb_def busy_defs) (simp_all add: ctrl_state_defs)

text \<open>When the filter lets a command through, the controller stays idle or is in the AES test mode.\<close>

lemma busy_refuses:
  "ctrl_state s \<notin> {SINC_IDLE, AES_TEST} \<Longrightarrow>
    cmu_ctrl_active_cmd (ctrl_comb s i) \<and> \<not> aes_test_busy (ctrl_comb s i)"
  by (simp add: ctrl_comb_def busy_defs)

lemma idle_accepts:
  "ctrl_state s = SINC_IDLE \<Longrightarrow>
    cmu_ctrl_active_cmd (ctrl_comb s i) \<and> \<not> aes_test_busy (ctrl_comb s i) \<or>
    next_state (ctrl_comb s i) \<in> {SINC_IDLE, AES_TEST}"
  by (simp add: ctrl_comb_def idle_defs ctrl_defaults_def)

lemma accepting_next:
  assumes "\<not> cmu_ctrl_active_cmd (ctrl_comb s i) \<or> aes_test_busy (ctrl_comb s i)"
  shows "next_state (ctrl_comb s i) \<in> {SINC_IDLE, AES_TEST} \<and> ctrl_state s \<in> {SINC_IDLE, AES_TEST}"
  using assms busy_refuses [of s i] idle_accepts [of s i] busy_next [of s i]
  by (cases "ctrl_state s = SINC_IDLE"; cases "ctrl_state s = AES_TEST") auto

section \<open>Reachable states\<close>

text \<open>
  What happens to the unit: clocks and power gates. The filter looks at the command register one
  clock before the controller does, so the bus must not write that register in the clock after a
  write of it. This is assumed of the bus adapter, which is not part of the model: a sequence of
  events in which it happens is not considered.
\<close>

datatype cmu_event = Clock cmu_in | Power_gate bool

fun cmu_step :: "cmu_event \<Rightarrow> cmu \<Rightarrow> cmu" where
  "cmu_step (Clock inp) u = cmu_clock inp u"
| "cmu_step (Power_gate w) u = cmu_lp_reset w u"

fun spaced :: "cmu_event \<Rightarrow> cmu \<Rightarrow> bool" where
  "spaced (Clock inp) u = (\<not> (cmd_written u \<and> writes_cmd inp))"
| "spaced (Power_gate w) u = True"

inductive reachable :: "cmu \<Rightarrow> bool" where
  power_on: "reachable (cmu_reset w)"
| step: "reachable u \<Longrightarrow> spaced e u \<Longrightarrow> reachable (cmu_step e u)"

text \<open>Which states of the SInC go together with a busy state of the controller.\<close>

definition fits :: "cmu \<Rightarrow> bool" where
  "fits u = (let c = ctrl_state (ctrl u); st = cmu_sinc_state (ctrl u) in
     (c = SET_INIT \<longrightarrow> st \<in> {DISABLED, CACHE_FAILED}) \<and>
     (c = SET_CACHE_ACTIVE \<longrightarrow> st \<in> {INITIALIZATION, CACHE_FAILED}) \<and>
     (c = SINC_RESET \<longrightarrow> st \<noteq> DISABLED \<and> \<not> sinc_reset_dis u) \<and>
     (c = SINC_REINIT \<longrightarrow> st \<in> {CACHE_ACTIVE, CACHE_FAILED} \<and> \<not> sinc_reinit_dis u))"

definition cmu_inv :: "cmu \<Rightarrow> bool" where
  "cmu_inv u \<longleftrightarrow> cmu_sinc_state (ctrl u) \<in> set sinc_states \<and> ctrl_state (ctrl u) \<in> set ctrl_states \<and>
     fits u \<and>
     (cmd_vld_pass_1 u \<longrightarrow> ctrl_state (ctrl u) \<in> {SINC_IDLE, AES_TEST} \<and>
       (cmd_state_ok (cmu_sinc_state (ctrl u)) (cmd u) \<or> cmd u = 0 \<or> cmu_sinc_state (ctrl u) = CACHE_FAILED))"

lemma inv_reset: "cmu_inv (cmu_reset w)"
  by (simp add: cmu_inv_def cmu_reset_def fits_def sinc_states_def ctrl_states_def)

lemma inv_power_gate: "cmu_inv u \<Longrightarrow> cmu_inv (cmu_lp_reset w u)"
  by (simp add: cmu_inv_def cmu_lp_reset_def ctrl_lp_reset_def fits_def ctrl_states_def)

lemma after_clock [simp]:
  "cmu_sinc_state (ctrl_clock i s) =
    (if severe_err s then CACHE_FAILED else next_cmu_sinc_state (cmu_sinc_state s) (ctrl_comb s i))"
  "ctrl_state (ctrl_clock i s) = (if hw_fault s i then SINC_IDLE else next_state (ctrl_comb s i))"
  by (simp_all add: ctrl_clock_def Let_def)

lemma after_cmu_clock [simp]:
  "ctrl (cmu_clock inp u) = ctrl_clock (reg_ctrl_drives u (outside inp)) (ctrl u)"
  "sinc_reset_dis (cmu_clock inp u) \<longleftrightarrow> ctrl_state (ctrl u) = DIS_RESET \<or> sinc_reset_dis u"
  "sinc_reinit_dis (cmu_clock inp u) \<longleftrightarrow> ctrl_state (ctrl u) = DIS_REINIT \<or> sinc_reinit_dis u"
  by (simp_all add: cmu_clock_def Let_def)

lemma driven [simp]:
  "reg_ctrl_cmd_vld (reg_ctrl_drives u i) \<longleftrightarrow> cmd_vld_pass_1 u \<and> \<not> ciu_block_fetch_req i"
  "reg_ctrl_cmd (reg_ctrl_drives u i) = ucast (cmd u)"
  "in_reset_dis (reg_ctrl_drives u i) = sinc_reset_dis u"
  "in_reinit_dis (reg_ctrl_drives u i) = sinc_reinit_dis u"
  "c_wrap_cmd_comp (reg_ctrl_drives u i) = c_wrap_cmd_comp i"
  "c_wrap_cmd_err (reg_ctrl_drives u i) = c_wrap_cmd_err i"
  "ciu_reset_reinit_completed (reg_ctrl_drives u i) = ciu_reset_reinit_completed i"
  by (simp_all add: reg_ctrl_drives_def)

lemma next_state_valid:
  "ctrl_state s \<in> set ctrl_states \<Longrightarrow> next_state (ctrl_comb s i) \<in> set ctrl_states"
  using idle_next(1) [of s i] busy_next [of s i] by (cases "ctrl_state s = SINC_IDLE") (auto simp: ctrl_states_def)

lemma next_sinc_state_valid: "next_cmu_sinc_state st x \<in> set sinc_states"
  by (simp add: next_cmu_sinc_state_def sinc_states_def)

text \<open>A clock that does not complete a transition keeps the state of the SInC, or a fault ends it.\<close>

lemma sinc_state_kept:
  assumes "cmu_sinc_state s \<in> set sinc_states"
    and "ctrl_state s \<notin> {SET_INIT, SET_CACHE_ACTIVE, SINC_RESET, SINC_REINIT} \<or>
      next_state (ctrl_comb s i) = ctrl_state s"
  shows "cmu_sinc_state (ctrl_clock i s) \<in> {cmu_sinc_state s, CACHE_FAILED}"
proof -
  have "\<not> set_state_to_init (ctrl_comb s i) \<and> \<not> set_state_to_cache_active (ctrl_comb s i) \<and>
      \<not> set_state_to_disabled (ctrl_comb s i)"
    using assms(2) reset_next [of s i] by (auto simp: ctrl_state_defs split: if_splits)
  then show ?thesis using assms(1) by (auto simp: next_cmu_sinc_state_def sinc_states_def)
qed

lemma cmd_is_byte:
  "ucast (c :: u8) = CMD_SET_INIT \<longleftrightarrow> c = 0x01" "ucast (c :: u8) = CMD_SET_CACHE_ACT \<longleftrightarrow> c = 0x02"
  "ucast (c :: u8) = CMD_SINC_RESET \<longleftrightarrow> c = 0x04" "ucast (c :: u8) = CMD_SINC_REINIT \<longleftrightarrow> c = 0x08"
proof -
  have "take_bit 10 (unat c) = unat c" using unsigned_less [of c, where 'a = nat] by (simp add: take_bit_nat_eq_self)
  then show "ucast c = CMD_SET_INIT \<longleftrightarrow> c = 0x01" "ucast c = CMD_SET_CACHE_ACT \<longleftrightarrow> c = 0x02"
    "ucast c = CMD_SINC_RESET \<longleftrightarrow> c = 0x04" "ucast c = CMD_SINC_REINIT \<longleftrightarrow> c = 0x08"
    by (simp_all add: cmd_defs word_unat_eq_iff unsigned_ucast_eq)
qed

lemma accepted_states:
  "cmd_state_ok st 0x01 \<Longrightarrow> st = DISABLED"
  "cmd_state_ok st 0x02 \<Longrightarrow> st = INITIALIZATION"
  "cmd_state_ok st 0x04 \<Longrightarrow> st \<noteq> DISABLED"
  "cmd_state_ok st 0x08 \<Longrightarrow> st = CACHE_ACTIVE"
  by (simp_all add: cmd_state_ok_def split: if_split_asm)

text \<open>The filter and the flop behind it: what is true of a command when it reaches the controller.\<close>

lemma pass_1_kept:
  assumes inv: "cmu_inv u" and "\<not> (cmd_written u \<and> writes_cmd inp)" and "cmd_vld_pass_1 (cmu_clock inp u)"
  shows "ctrl_state (ctrl (cmu_clock inp u)) \<in> {SINC_IDLE, AES_TEST} \<and>
    (cmd_state_ok (cmu_sinc_state (ctrl (cmu_clock inp u))) (cmd (cmu_clock inp u)) \<or>
     cmd (cmu_clock inp u) = 0 \<or> cmu_sinc_state (ctrl (cmu_clock inp u)) = CACHE_FAILED)"
proof -
  let ?i = "reg_ctrl_drives u (outside inp)"
  let ?x = "ctrl_comb (ctrl u) ?i"
  from assms(3) have vld: "cmd_written u" "cmd_state_ok (cmu_sinc_state (ctrl u)) (cmd u)"
    "\<not> cmu_ctrl_active_cmd ?x \<or> aes_test_busy ?x"
    by (auto simp: cmu_clock_def Let_def cmd_vld_def)
  note acc = accepting_next [OF vld(3)]
  have "cmu_sinc_state (ctrl_clock ?i (ctrl u)) \<in> {cmu_sinc_state (ctrl u), CACHE_FAILED}"
    using inv acc by (intro sinc_state_kept) (auto simp: cmu_inv_def ctrl_state_defs)
  moreover have "cmd (cmu_clock inp u) \<in> {cmd u, 0}"
    using vld(1) assms(2)
    by (auto simp: cmu_clock_def Let_def next_cmd_def writes_cmd_def split: option.splits if_splits)
  ultimately show ?thesis using acc vld(2) by auto
qed

text \<open>A busy state of the controller is entered only with a fitting state of the SInC.\<close>

lemma fits_kept:
  assumes inv: "cmu_inv u"
  shows "fits (cmu_clock inp u)"
proof -
  define s i where "s = ctrl u" and "i = reg_ctrl_drives u (outside inp)"
  define c n st where "c = ctrl_state s" and "n = next_state (ctrl_comb s i)" and "st = cmu_sinc_state s"
  define st' where "st' = cmu_sinc_state (ctrl_clock i s)"
  note defs = s_def i_def c_def n_def st_def st'_def
  have old: "c = SET_INIT \<Longrightarrow> st \<in> {DISABLED, CACHE_FAILED}"
    "c = SET_CACHE_ACTIVE \<Longrightarrow> st \<in> {INITIALIZATION, CACHE_FAILED}"
    "c = SINC_RESET \<Longrightarrow> st \<noteq> DISABLED \<and> \<not> sinc_reset_dis u"
    "c = SINC_REINIT \<Longrightarrow> st \<in> {CACHE_ACTIVE, CACHE_FAILED} \<and> \<not> sinc_reinit_dis u"
    using inv by (simp_all add: cmu_inv_def fits_def c_def st_def s_def Let_def)
  have pass: "cmd_vld_pass_1 u \<Longrightarrow> cmd_state_ok st (cmd u) \<or> cmd u = 0 \<or> st = CACHE_FAILED"
    using inv by (simp add: cmu_inv_def st_def s_def)
  have stay: "c = SINC_IDLE \<or> n = c" if "n \<noteq> SINC_IDLE"
    using busy_next [of s i] that unfolding c_def n_def by blast
  have kept: "st' \<in> {st, CACHE_FAILED}" if "c = SINC_IDLE \<or> n = c"
    unfolding st'_def st_def
    by (rule sinc_state_kept) (use inv that in \<open>auto simp: cmu_inv_def c_def n_def s_def ctrl_state_defs\<close>)
  have cmds: "c = SINC_IDLE \<Longrightarrow> n = SET_INIT \<Longrightarrow> cmd_vld_pass_1 u \<and> cmd u = 0x01"
    "c = SINC_IDLE \<Longrightarrow> n = SET_CACHE_ACTIVE \<Longrightarrow> cmd_vld_pass_1 u \<and> cmd u = 0x02"
    "c = SINC_IDLE \<Longrightarrow> n = SINC_RESET \<Longrightarrow> cmd_vld_pass_1 u \<and> cmd u = 0x04 \<and> \<not> sinc_reset_dis u"
    "c = SINC_IDLE \<Longrightarrow> n = SINC_REINIT \<Longrightarrow> cmd_vld_pass_1 u \<and> cmd u = 0x08 \<and> \<not> sinc_reinit_dis u"
    using idle_next(2-5) [of s i] by (simp_all add: c_def n_def i_def cmd_is_byte)
  have differ: "SINC_RESET \<noteq> DIS_RESET" "SINC_REINIT \<noteq> DIS_REINIT" "SINC_IDLE \<noteq> DIS_RESET" "SINC_IDLE \<noteq> DIS_REINIT"
    "SET_INIT \<noteq> SINC_IDLE" "SET_CACHE_ACTIVE \<noteq> SINC_IDLE" "SINC_RESET \<noteq> SINC_IDLE" "SINC_REINIT \<noteq> SINC_IDLE"
    "CACHE_FAILED \<noteq> DISABLED"
    by (simp_all add: ctrl_state_defs sinc_state_defs)
  have "n = SET_INIT \<Longrightarrow> st' \<in> {DISABLED, CACHE_FAILED}"
    using stay kept old(1) cmds(1) pass accepted_states(1) [of st] differ by fastforce
  moreover have "n = SET_CACHE_ACTIVE \<Longrightarrow> st' \<in> {INITIALIZATION, CACHE_FAILED}"
    using stay kept old(2) cmds(2) pass accepted_states(2) [of st] differ by fastforce
  moreover have "n = SINC_RESET \<Longrightarrow> st' \<noteq> DISABLED \<and> \<not> sinc_reset_dis u \<and> c \<noteq> DIS_RESET"
    using stay kept old(3) cmds(3) pass accepted_states(3) [of st] differ by fastforce
  moreover have "n = SINC_REINIT \<Longrightarrow> st' \<in> {CACHE_ACTIVE, CACHE_FAILED} \<and> \<not> sinc_reinit_dis u \<and> c \<noteq> DIS_REINIT"
    using stay kept old(4) cmds(4) pass accepted_states(4) [of st] differ by fastforce
  ultimately show ?thesis
    unfolding fits_def Let_def after_cmu_clock after_clock(2) defs [symmetric]
    using differ by (simp del: after_clock)
qed

lemma inv_clock:
  assumes "cmu_inv u" and "\<not> (cmd_written u \<and> writes_cmd inp)"
  shows "cmu_inv (cmu_clock inp u)"
proof -
  have valid: "cmu_sinc_state (ctrl u) \<in> set sinc_states" "ctrl_state (ctrl u) \<in> set ctrl_states"
    using assms(1) by (simp_all add: cmu_inv_def)
  have "cmu_sinc_state (ctrl (cmu_clock inp u)) \<in> set sinc_states"
    by (simp add: next_sinc_state_valid) (simp add: sinc_states_def)
  moreover have "ctrl_state (ctrl (cmu_clock inp u)) \<in> set ctrl_states"
    by (simp add: next_state_valid [OF valid(2)]) (simp add: ctrl_states_def)
  ultimately show ?thesis
    using fits_kept [OF assms(1)] pass_1_kept [OF assms] unfolding cmu_inv_def [of "cmu_clock inp u"] by blast
qed

lemma inv_step: "cmu_inv u \<Longrightarrow> spaced e u \<Longrightarrow> cmu_inv (cmu_step e u)"
  by (cases e) (simp_all add: inv_clock inv_power_gate)

lemma inv_reachable: "reachable u \<Longrightarrow> cmu_inv u"
  by (induction rule: reachable.induct) (simp_all add: inv_reset inv_step)

section \<open>Specification of the states\<close>

text \<open>
  What the unit promises about its states, without clocks and encodings. The reset leads to the
  disabled state unless it is disabled, the re-initialization from the active to the initialized one
  unless it is disabled, and a severe error from every state to the failed one.
\<close>

datatype mode = Disabled | Initialized | Active | Failed

inductive mode_step :: "bool \<Rightarrow> bool \<Rightarrow> mode \<Rightarrow> mode \<Rightarrow> bool" for reset_dis reinit_dis where
  stay: "mode_step reset_dis reinit_dis m m"
| fail: "mode_step reset_dis reinit_dis m Failed"
| initialize: "mode_step reset_dis reinit_dis Disabled Initialized"
| activate: "mode_step reset_dis reinit_dis Initialized Active"
| reset: "\<not> reset_dis \<Longrightarrow> mode_step reset_dis reinit_dis m Disabled"
| reinit: "\<not> reinit_dis \<Longrightarrow> mode_step reset_dis reinit_dis Active Initialized"

inductive_cases failed_stepE: "mode_step True reinit_dis Failed m"

definition mode_of :: "u8 \<Rightarrow> mode option" where
  "mode_of st =
     (if st = DISABLED then Some Disabled else if st = INITIALIZATION then Some Initialized
      else if st = CACHE_ACTIVE then Some Active else if st = CACHE_FAILED then Some Failed else None)"

definition abs_mode :: "cmu \<Rightarrow> mode" where
  "abs_mode u = the (mode_of (cmu_sinc_state (ctrl u)))"

lemma mode_of_codes [simp]:
  "mode_of DISABLED = Some Disabled" "mode_of INITIALIZATION = Some Initialized"
  "mode_of CACHE_ACTIVE = Some Active" "mode_of CACHE_FAILED = Some Failed"
  by (simp_all add: mode_of_def sinc_state_defs)

lemma next_of_code:
  "next_cmu_sinc_state DISABLED x = (if set_state_to_init x then INITIALIZATION else DISABLED)"
  "next_cmu_sinc_state INITIALIZATION x = (if set_state_to_cache_active x then CACHE_ACTIVE
     else if set_state_to_disabled x then DISABLED else INITIALIZATION)"
  "next_cmu_sinc_state CACHE_ACTIVE x = (if set_state_to_disabled x then DISABLED
     else if set_state_to_init x then INITIALIZATION else CACHE_ACTIVE)"
  "next_cmu_sinc_state CACHE_FAILED x = (if set_state_to_disabled x then DISABLED else CACHE_FAILED)"
  by (simp_all add: next_cmu_sinc_state_def sinc_state_defs)

lemma clock_mode_step:
  assumes inv: "cmu_inv u"
  shows "mode_step (sinc_reset_dis u) (sinc_reinit_dis u) (abs_mode u) (abs_mode (cmu_clock inp u))"
proof -
  define s i where "s = ctrl u" and "i = reg_ctrl_drives u (outside inp)"
  define st where "st = cmu_sinc_state s"
  define x where "x = ctrl_comb s i"
  have st: "st \<in> {DISABLED, INITIALIZATION, CACHE_ACTIVE, CACHE_FAILED}" and fit: "fits u"
    using inv by (auto simp: cmu_inv_def sinc_states_def st_def s_def)
  have reset: "set_state_to_disabled x \<Longrightarrow> \<not> sinc_reset_dis u"
    and reinit: "set_state_to_init x \<Longrightarrow> st = CACHE_ACTIVE \<Longrightarrow> \<not> sinc_reinit_dis u"
    using fit by (auto simp: fits_def x_def st_def s_def Let_def sinc_state_defs)
  have "mode_step (sinc_reset_dis u) (sinc_reinit_dis u) (the (mode_of st)) (the (mode_of (next_cmu_sinc_state st x)))"
    using st by (elim insertE emptyE) (simp_all add: next_of_code mode_step.intros reset reinit)
  then show ?thesis
    by (simp add: abs_mode_def mode_step.fail s_def [symmetric] i_def [symmetric] st_def [symmetric] x_def [symmetric])
qed

section \<open>Encodings under upsets\<close>

text \<open>Two different codes are at least four, and for the controller three, bits apart.\<close>

lemma sinc_states_apart:
  "list_all (\<lambda>a. list_all (\<lambda>b. a = b \<or> 4 \<le> flipped (a XOR b)) sinc_states) sinc_states"
  by code_simp

lemma ctrl_states_apart:
  "list_all (\<lambda>a. list_all (\<lambda>b. a = b \<or> 3 \<le> flipped (a XOR b)) ctrl_states) ctrl_states"
  by code_simp

lemma severe_clears_nonce:
  "aes_iv_nonce_0 (conf_clock st True wr g) = 0" "aes_iv_nonce_1 (conf_clock st True wr g) = 0"
  "aes_iv_nonce_2 (conf_clock st True wr g) = 0"
  by (simp_all add: conf_clock_def nonce_clock_def base_addr_clock_def split: option.splits prod.splits)

section \<open>Waiting for a reset to complete\<close>

definition undisturbed :: "ctrl_in \<Rightarrow> bool" where
  "undisturbed i \<longleftrightarrow> \<not> ciu_fault_err i \<and> \<not> c_wrap_fault_err i \<and> \<not> dma_fault_err i \<and> c_wrap_sts i = STS_NONE"

definition resetting :: "ctrl_flops \<Rightarrow> bool" where
  "resetting s \<longleftrightarrow> ctrl_state s = SINC_RESET \<and> cmu_sinc_state s \<in> set sinc_states \<and> \<not> severe_err s"

lemma reset_drives:
  assumes "ctrl_state s = SINC_RESET"
  shows "sts (ctrl_comb s i) = (if both_complete s then STS_CMD_SUC else STS_NONE)"
    and "set_c_wrap_cmd_comp (ctrl_comb s i) = c_wrap_cmd_comp i"
    and "set_ciu_reset_reinit_comp (ctrl_comb s i) = ciu_reset_reinit_completed i"
    and "\<not> rst_ctrl_signals (ctrl_comb s i)"
    and "clr_c_wrap_cmd_comp (ctrl_comb s i) = both_complete s"
    and "clr_ciu_reset_reinit_comp (ctrl_comb s i) = both_complete s"
  using assms by (simp_all add: ctrl_comb_def busy_defs) (simp_all add: ctrl_state_defs)

lemma resetting_no_fault:
  assumes "resetting s" and "undisturbed i"
  shows "\<not> hw_fault s i" and "\<not> severe_err (ctrl_clock i s)"
proof -
  have st: "ctrl_state s = SINC_RESET" and valid: "cmu_sinc_state s \<in> set sinc_states"
    using assms(1) by (simp_all add: resetting_def)
  show quiet: "\<not> hw_fault s i"
    using assms(2) st valid by (simp add: hw_fault_def undisturbed_def invld_cmu_sinc_state_def ctrl_states_def)
  have "cmu_ctrl_sts s i \<in> {STS_NONE, STS_CMD_SUC}"
    using assms(2) reset_drives(1) [OF st, of i] by (simp add: cmu_ctrl_sts_def undisturbed_def STS_NONE_def)
  then show "\<not> severe_err (ctrl_clock i s)"
    using quiet by (auto simp: ctrl_clock_def Let_def severe_err_din_def sts_defs)
qed

lemma resetting_step:
  assumes "resetting s" and "undisturbed i" and "\<not> both_complete s"
  shows "resetting (ctrl_clock i s)"
    and "c_wrap_cmd_comp_q (ctrl_clock i s) \<longleftrightarrow> c_wrap_cmd_comp i \<or> c_wrap_cmd_comp_q s"
    and "ciu_reset_reinit_comp_q (ctrl_clock i s) \<longleftrightarrow> ciu_reset_reinit_completed i \<or> ciu_reset_reinit_comp_q s"
proof -
  have st: "ctrl_state s = SINC_RESET" using assms(1) by (simp add: resetting_def)
  note quiet = resetting_no_fault [OF assms(1,2)] and drives = reset_drives [OF st, of i]
  show "resetting (ctrl_clock i s)"
    using assms(1,3) quiet reset_next(1) [OF st, of i]
    by (simp add: resetting_def next_sinc_state_valid)
  show "c_wrap_cmd_comp_q (ctrl_clock i s) \<longleftrightarrow> c_wrap_cmd_comp i \<or> c_wrap_cmd_comp_q s"
    "ciu_reset_reinit_comp_q (ctrl_clock i s) \<longleftrightarrow> ciu_reset_reinit_completed i \<or> ciu_reset_reinit_comp_q s"
    using assms(3) drives by (simp_all add: ctrl_clock_def Let_def)
qed

lemma resetting_done:
  assumes "resetting s" and "undisturbed i" and "both_complete s"
  shows "ctrl_state (ctrl_clock i s) = SINC_IDLE \<and> cmu_sinc_state (ctrl_clock i s) = DISABLED"
proof -
  have st: "ctrl_state s = SINC_RESET" and sev: "\<not> severe_err s"
    and "cmu_sinc_state s \<in> {DISABLED, INITIALIZATION, CACHE_ACTIVE, CACHE_FAILED}"
    using assms(1) by (simp_all add: resetting_def sinc_states_def)
  then have "next_cmu_sinc_state (cmu_sinc_state s) (ctrl_comb s i) = DISABLED"
    using assms(3) by (elim insertE emptyE) (simp_all add: next_of_code ctrl_state_defs)
  then show ?thesis
    using resetting_no_fault(1) [OF assms(1,2)] reset_next(1) [OF st, of i] assms(3) sev by simp
qed

section \<open>Sample inputs\<close>

definition quiet_ctrl :: ctrl_in where
  "quiet_ctrl = \<lparr>ciu_fault_err = False, reg_ctrl_cmd_vld = False, reg_ctrl_cmd = 0, in_reset_dis = False,
     in_reinit_dis = False, reg_ctrl_invld_cmd_err = False, ciu_block_fetch_req = False, ciu_addr = 0,
     ciu_reset_reinit_completed = False, aes_seeded = True, c_wrap_sts_upd = False, c_wrap_sts = 0,
     c_wrap_cmd_comp = False, c_wrap_cmd_err = False, c_wrap_fault_err = False, dma_fault_err = False,
     sinc_erase_done = False\<rparr>"

definition quiet_in :: cmu_in where
  "quiet_in = \<lparr>outside = quiet_ctrl, csr_write = None, csr_read = None,
     perf = \<lparr>perf_cntr_ctrl = 0, perf_cntr_ctrl_written = False, ciu_cache_hit = False,
       perf_block_fetch_req = False, perf_block_fetch_comp = False\<rparr>\<rparr>"

section \<open>Properties\<close>

text \<open>C4: the hardware implements the specification of the states. In every state that it can reach
  from the power-on reset through clocks and power gates, the state register and the register of the
  controller hold codes of their enumerations, no clock changes the state other than the
  specification allows it, with the reset and the re-initialization only while they are not
  disabled, and no power gate changes the state at all.\<close>

theorem cmu_refines_modes:
  assumes "reachable u"
  shows "cmu_sinc_state (ctrl u) \<in> set sinc_states \<and> ctrl_state (ctrl u) \<in> set ctrl_states \<and>
    mode_step (sinc_reset_dis u) (sinc_reinit_dis u) (abs_mode u) (abs_mode (cmu_clock inp u)) \<and>
    abs_mode (cmu_lp_reset w u) = abs_mode u"
  using inv_reachable [OF assms] clock_mode_step [of u inp]
  by (simp add: cmu_inv_def) (simp add: abs_mode_def cmu_lp_reset_def ctrl_lp_reset_def)

theorem cmu_refines_modes_witness:
  "mode_step False False (abs_mode (cmu_reset False)) (abs_mode (cmu_clock quiet_in (cmu_reset False)))"
  using cmu_refines_modes [OF reachable.power_on, of False quiet_in False] by (simp add: cmu_reset_def)

text \<open>C14: a fault leads to the failed state within two clocks, from any state of the registers and
  whatever the inputs are: the controller is idle after the first clock, and after the second the
  state is \<open>CACHE_FAILED\<close> and the nonce is erased.\<close>

theorem fault_fails:
  assumes "hw_fault (ctrl u) (reg_ctrl_drives u (outside inp))"
  shows "let u1 = cmu_clock inp u; u2 = cmu_clock inp' u1 in
    ctrl_state (ctrl u1) = SINC_IDLE \<and> severe_err (ctrl u1) \<and> cmu_sinc_state (ctrl u2) = CACHE_FAILED \<and>
    aes_iv_nonce_0 (conf u2) = 0 \<and> aes_iv_nonce_1 (conf u2) = 0 \<and> aes_iv_nonce_2 (conf u2) = 0"
proof -
  define u1 where "u1 = cmu_clock inp u"
  have severe: "severe_err (ctrl u1)" and idle: "ctrl_state (ctrl u1) = SINC_IDLE"
    using assms by (simp_all add: u1_def) (simp add: ctrl_clock_def severe_err_din_def Let_def)
  then have "cmu_sinc_state (ctrl (cmu_clock inp' u1)) = CACHE_FAILED"
    "conf (cmu_clock inp' u1) = conf_clock (cmu_sinc_state (ctrl u1)) True (csr_write inp') (conf u1)"
    by (simp_all add: cmu_clock_def Let_def)
  with severe idle show ?thesis by (simp add: u1_def [symmetric] Let_def severe_clears_nonce)
qed

theorem fault_fails_witness:
  "cmu_sinc_state (ctrl (cmu_clock quiet_in (cmu_clock (quiet_in\<lparr>outside := quiet_ctrl\<lparr>dma_fault_err := True\<rparr>\<rparr>)
     (cmu_reset False)))) = CACHE_FAILED"
  using fault_fails [of "cmu_reset False" "quiet_in\<lparr>outside := quiet_ctrl\<lparr>dma_fault_err := True\<rparr>\<rparr>" quiet_in]
  by (simp add: hw_fault_def reg_ctrl_drives_def Let_def)

text \<open>Upsets of the state registers are detected. When at most three bits of the state of the SInC,
  or at most two bits of the register of the controller, are flipped, the clock that follows sees a
  fault; in the first case it also leads to \<open>CACHE_FAILED\<close> at once.\<close>

lemma upset_is_fault:
  assumes "cmu_sinc_state s \<in> set sinc_states" and "ctrl_state s \<in> set ctrl_states"
    and "m \<noteq> 0" and "flipped m \<le> 3" and "m' \<noteq> 0" and "flipped m' \<le> 2"
  shows "hw_fault (s\<lparr>cmu_sinc_state := cmu_sinc_state s XOR m\<rparr>) i \<and>
    cmu_sinc_state (ctrl_clock i (s\<lparr>cmu_sinc_state := cmu_sinc_state s XOR m\<rparr>)) = CACHE_FAILED \<and>
    hw_fault (s\<lparr>ctrl_state := ctrl_state s XOR m'\<rparr>) i"
proof -
  have "cmu_sinc_state s XOR m \<notin> set sinc_states"
    using xor_leaves [OF sinc_states_apart assms(1,3)] assms(4) by simp
  moreover have "ctrl_state s XOR m' \<notin> set ctrl_states"
    using xor_leaves [OF ctrl_states_apart assms(2,5)] assms(6) by simp
  ultimately show ?thesis
    by (simp add: hw_fault_def invld_cmu_sinc_state_def next_cmu_sinc_state_def) (simp add: sinc_states_def)
qed

text \<open>C19: a reset comes to an end. From the waiting state, if no fault or error intervenes and both the
  crypto wrapper and the cache interface unit report completion at some clock, in whichever order,
  then one clock after the later of them at the latest the controller is idle and the state of the
  SInC is \<open>DISABLED\<close>.\<close>

theorem reset_completes:
  assumes "resetting s" and "list_all undisturbed (ins @ [i])"
    and "c_wrap_cmd_comp_q s \<or> list_ex c_wrap_cmd_comp ins"
    and "ciu_reset_reinit_comp_q s \<or> list_ex ciu_reset_reinit_completed ins"
  shows "\<exists>k \<le> length ins + 1. let s' = fold ctrl_clock (take k (ins @ [i])) s in
    ctrl_state s' = SINC_IDLE \<and> cmu_sinc_state s' = DISABLED"
  using assms
proof (induction ins arbitrary: s)
  case Nil
  then show ?case using resetting_done [of s i] by (intro exI [of _ 1]) (simp add: both_complete_def)
next
  case (Cons j ins)
  show ?case
  proof (cases "both_complete s")
    case True
    then show ?thesis using resetting_done [OF Cons.prems(1), of j] Cons.prems(2) by (intro exI [of _ 1]) simp
  next
    case False
    have "undisturbed j" using Cons.prems(2) by simp
    note step = resetting_step [OF Cons.prems(1) this False]
    obtain k where "k \<le> length ins + 1" "let s' = fold ctrl_clock (take k (ins @ [i])) (ctrl_clock j s) in
        ctrl_state s' = SINC_IDLE \<and> cmu_sinc_state s' = DISABLED"
      using Cons.IH [OF step(1)] Cons.prems(2-4) step(2,3) by auto
    then show ?thesis by (intro exI [of _ "Suc k"]) simp
  qed
qed

theorem reset_completes_witness:
  "\<exists>k \<le> 3. let s' = fold ctrl_clock (take k [quiet_ctrl\<lparr>ciu_reset_reinit_completed := True\<rparr>,
        quiet_ctrl\<lparr>c_wrap_cmd_comp := True\<rparr>, quiet_ctrl])
      ((ctrl (cmu_reset False))\<lparr>ctrl_state := SINC_RESET, cmu_sinc_state := CACHE_FAILED\<rparr>) in
    ctrl_state s' = SINC_IDLE \<and> cmu_sinc_state s' = DISABLED"
  using reset_completes [of "(ctrl (cmu_reset False))\<lparr>ctrl_state := SINC_RESET, cmu_sinc_state := CACHE_FAILED\<rparr>"
      "[quiet_ctrl\<lparr>ciu_reset_reinit_completed := True\<rparr>, quiet_ctrl\<lparr>c_wrap_cmd_comp := True\<rparr>]" quiet_ctrl]
  by (simp add: resetting_def cmu_reset_def sinc_states_def undisturbed_def quiet_ctrl_def STS_NONE_def numeral_3_eq_3)

text \<open>C15: with the reset disabled, a failure is final. Once the state is \<open>CACHE_FAILED\<close>, the reset is
  disabled and none is in progress, no sequence of clocks with any inputs and of power gates leads out
  of that state, and the reset stays disabled.\<close>

theorem failed_is_final:
  assumes "cmu_sinc_state (ctrl u) = CACHE_FAILED" and "sinc_reset_dis u" and "ctrl_state (ctrl u) \<noteq> SINC_RESET"
  shows "cmu_sinc_state (ctrl (fold cmu_step es u)) = CACHE_FAILED \<and> sinc_reset_dis (fold cmu_step es u)"
  using assms
proof (induction es arbitrary: u)
  case (Cons e es)
  have "cmu_sinc_state (ctrl (cmu_step e u)) = CACHE_FAILED \<and> sinc_reset_dis (cmu_step e u) \<and>
      ctrl_state (ctrl (cmu_step e u)) \<noteq> SINC_RESET"
  proof (cases e)
    case (Clock inp)
    define i where "i = reg_ctrl_drives u (outside inp)"
    have "in_reset_dis i" using Cons.prems(2) by (simp add: i_def)
    then have "next_state (ctrl_comb (ctrl u) i) \<noteq> SINC_RESET"
      using idle_next(4) [of "ctrl u" i] busy_next [of "ctrl u" i] Cons.prems(3)
      by (cases "ctrl_state (ctrl u) = SINC_IDLE") (auto simp: ctrl_state_defs)
    then show ?thesis
      using Clock Cons.prems by (simp add: i_def [symmetric] next_of_code)
  next
    case (Power_gate w)
    then show ?thesis
      using Cons.prems by (simp add: cmu_lp_reset_def ctrl_lp_reset_def)
  qed
  then show ?case using Cons.IH [of "cmu_step e u"] by simp
qed simp

theorem failed_is_final_witness:
  "cmu_sinc_state (ctrl (fold cmu_step [Clock quiet_in, Power_gate True, Clock quiet_in]
     ((cmu_reset False)\<lparr>ctrl := (ctrl (cmu_reset False))\<lparr>cmu_sinc_state := CACHE_FAILED\<rparr>,
       sinc_reset_dis := True\<rparr>))) = CACHE_FAILED"
  using failed_is_final [of "(cmu_reset False)\<lparr>ctrl := (ctrl (cmu_reset False))\<lparr>cmu_sinc_state := CACHE_FAILED\<rparr>,
       sinc_reset_dis := True\<rparr>" "[Clock quiet_in, Power_gate True, Clock quiet_in]"]
  by (simp add: cmu_reset_def del: fold.simps)

end
