(* ===== verification/RamEcc.thy ===== *)
theory RamEcc
  imports Prelude
begin

text \<open>
  The error codes of the cache memory (\<open>src/src/ram_wrapper/rtl/secded_enc.sv\<close>, \<open>secded_dec.sv\<close> and
  \<open>edc_gen.sv\<close>). A word of 32 bits is stored with check bits over the word and its address; the
  decoder corrects one flipped bit and reports two (SECDED), or reports both (EDC). The width of the
  address is the parameter \<open>ADDR_WIDTH\<close> of the modules and the length of the type \<open>'a\<close> here.
\<close>

section \<open>SECDED\<close>

text \<open>\<open>{{(25-ADDR_WIDTH){~addr[ADDR_WIDTH-1]}},addr}\<close>\<close>

definition padded_addr :: "'a::len word \<Rightarrow> 25 word" where
  "padded_addr addr =
     cat_bits (part 0 LENGTH('a) addr @ replicate (25 - LENGTH('a)) (\<not> bit addr (LENGTH('a) - 1)))"

definition input_vec :: "25 word \<Rightarrow> u32 \<Rightarrow> 57 word" where
  "input_vec padded data_in = cat_bits (part 0 32 data_in @ part 0 25 padded)"

text \<open>The positions of \<open>input_vec\<close> that each check bit covers.\<close>

definition check_rows :: "nat list list" where
  "check_rows =
    [[0, 1, 3, 4, 6, 8, 10, 11, 13, 15, 17, 19, 21, 23, 25, 26, 28, 30, 32, 34, 36, 38, 40, 42, 44,
      46, 48, 50, 52, 54, 56],
     [0, 2, 3, 5, 6, 9, 10, 12, 13, 16, 17, 20, 21, 24, 25, 27, 28, 31, 32, 35, 36, 39, 40, 43, 44,
      47, 48, 51, 52, 55, 56],
     [1, 2, 3, 7, 8, 9, 10, 14, 15, 16, 17, 22, 23, 24, 25, 29, 30, 31, 32, 37, 38, 39, 40, 45, 46,
      47, 48, 53, 54, 55, 56],
     [4, 5, 6, 7, 8, 9, 10, 18, 19, 20, 21, 22, 23, 24, 25, 33, 34, 35, 36, 37, 38, 39, 40, 49, 50,
      51, 52, 53, 54, 55, 56],
     [11, 12, 13, 14, 15, 16, 17, 18, 19, 20, 21, 22, 23, 24, 25, 41, 42, 43, 44, 45, 46, 47, 48, 49,
      50, 51, 52, 53, 54, 55, 56],
     [26, 27, 28, 29, 30, 31, 32, 33, 34, 35, 36, 37, 38, 39, 40, 41, 42, 43, 44, 45, 46, 47, 48, 49,
      50, 51, 52, 53, 54, 55, 56],
     [0, 1, 2, 4, 5, 7, 10, 11, 12, 14, 17, 18, 21, 23, 24, 26, 27, 29, 32, 33, 36, 38, 39, 41, 44,
      46, 47, 50, 51, 53, 56]]"

definition check_bits :: "57 word \<Rightarrow> 7 word" where
  "check_bits v = cat_bits (map (\<lambda>r. red_xor (map (bit v) r)) check_rows)"

definition interleave :: "7 word \<Rightarrow> u32 \<Rightarrow> 39 word" where
  "interleave c data_in = cat_bits
     (part 0 5 data_in @ [bit c 0] @ part 5 4 data_in @ [bit c 1] @
      part 9 5 data_in @ [bit c 2] @ part 14 4 data_in @ [bit c 3] @
      part 18 5 data_in @ [bit c 4] @ part 23 4 data_in @ [bit c 5] @
      part 27 5 data_in @ [bit c 6])"

definition secded_enc :: "'a::len word \<Rightarrow> u32 \<Rightarrow> 39 word" where
  "secded_enc addr data_in =
     interleave (check_bits (input_vec (padded_addr addr) data_in)) data_in"

definition dec_data_in :: "39 word \<Rightarrow> u32" where
  "dec_data_in code_in = cat_bits
     (part 0 5 code_in @ part 6 4 code_in @ part 11 5 code_in @ part 17 4 code_in @
      part 22 5 code_in @ part 28 4 code_in @ part 33 5 code_in)"

definition expected_check_bits :: "39 word \<Rightarrow> 7 word" where
  "expected_check_bits code_in = cat_bits (map (bit code_in) [5, 10, 16, 21, 27, 32, 38])"

text \<open>The syndrome: six check bits against the expected ones, and the parity of everything.\<close>

definition syn_vec :: "25 word \<Rightarrow> 39 word \<Rightarrow> 7 word" where
  "syn_vec padded code_in =
    (let v = input_vec padded (dec_data_in code_in); ecb = expected_check_bits code_in in
     cat_bits (map (\<lambda>i. red_xor (bit ecb i # map (bit v) (check_rows ! i))) [0..<6] @
       [red_xor (part 0 7 ecb @ part 0 57 v)]))"

definition syn_low :: "7 word \<Rightarrow> 6 word" where
  "syn_low s = ucast s"

text \<open>The syndromes of the cases of \<open>corrected_data\<close>, in the order of the bits they flip.\<close>

definition corrected_syndromes :: "6 word list" where
  "corrected_syndromes =
    [0x03, 0x05, 0x06, 0x07, 0x09, 0x0a, 0x0b, 0x0c, 0x0d, 0x0e, 0x0f, 0x11, 0x12, 0x13, 0x14, 0x15,
     0x16, 0x17, 0x18, 0x19, 0x1a, 0x1b, 0x1c, 0x1d, 0x1e, 0x1f, 0x21, 0x22, 0x23, 0x24, 0x25, 0x26]"

definition corrected_data :: "6 word \<Rightarrow> u32 \<Rightarrow> u32" where
  "corrected_data s data_in = (case map_of (zip corrected_syndromes [0..<32]) s of
     Some i \<Rightarrow> flip_bit i data_in | None \<Rightarrow> data_in)"

definition c_ERRDATA :: u32 where "c_ERRDATA = 0xDEADBEEF"

record decoded =
  data_out :: u32
  err_corr :: bool
  err_uncorr :: bool

definition secded_dec :: "'a::len word \<Rightarrow> 39 word \<Rightarrow> bool \<Rightarrow> decoded" where
  "secded_dec addr code_in err_chk_disable =
    (let s = syn_vec (padded_addr addr) code_in;
         data_in = dec_data_in code_in;
         uncorr = (if err_chk_disable then False
                   else syn_low s > 0x26 \<or> (s \<noteq> 0 \<and> \<not> bit s 6));
         corr = (if err_chk_disable then False else bit s 6 \<and> \<not> syn_low s > 0x26)
     in \<lparr>data_out = (if err_chk_disable then data_in
                     else if uncorr then c_ERRDATA else corrected_data (syn_low s) data_in),
         err_corr = corr, err_uncorr = uncorr\<rparr>)"

section \<open>EDC\<close>

definition edc_padded_addr :: "'a::len word \<Rightarrow> 24 word" where
  "edc_padded_addr addr =
     cat_bits (part 0 LENGTH('a) addr @ replicate (24 - LENGTH('a)) (\<not> bit addr (LENGTH('a) - 1)))"

definition edc_input_vec :: "24 word \<Rightarrow> u32 \<Rightarrow> 56 word" where
  "edc_input_vec padded data_in = cat_bits (part 0 32 data_in @ part 0 24 padded)"

definition edc_check_rows :: "nat list list" where
  "edc_check_rows =
    [[0, 1, 3, 4, 6, 8, 10, 11, 13, 15, 17, 19, 21, 23, 25, 26, 28, 30, 32, 34, 36, 38, 40, 42, 44,
      46, 48, 50, 52, 54],
     [0, 2, 3, 5, 6, 9, 10, 12, 13, 16, 17, 20, 21, 24, 25, 27, 28, 31, 32, 35, 36, 39, 40, 43, 44,
      47, 48, 51, 52, 55],
     [1, 2, 3, 7, 8, 9, 10, 14, 15, 16, 17, 22, 23, 24, 25, 29, 30, 31, 32, 37, 38, 39, 40, 45, 46,
      47, 48, 53, 54, 55],
     [4, 5, 6, 7, 8, 9, 10, 18, 19, 20, 21, 22, 23, 24, 25, 33, 34, 35, 36, 37, 38, 39, 40, 49, 50,
      51, 52, 53, 54, 55],
     [11, 12, 13, 14, 15, 16, 17, 18, 19, 20, 21, 22, 23, 24, 25, 41, 42, 43, 44, 45, 46, 47, 48, 49,
      50, 51, 52, 53, 54, 55],
     [26, 27, 28, 29, 30, 31, 32, 33, 34, 35, 36, 37, 38, 39, 40, 41, 42, 43, 44, 45, 46, 47, 48, 49,
      50, 51, 52, 53, 54, 55]]"

definition edc_check_bits :: "56 word \<Rightarrow> 6 word" where
  "edc_check_bits v = cat_bits (map (\<lambda>r. red_xor (map (bit v) r)) edc_check_rows)"

definition edc_interleave :: "6 word \<Rightarrow> u32 \<Rightarrow> 38 word" where
  "edc_interleave c data_in = cat_bits
     (part 0 5 data_in @ [bit c 0] @ part 5 6 data_in @ [bit c 1] @
      part 11 5 data_in @ [bit c 2] @ part 16 5 data_in @ [bit c 3] @
      part 21 6 data_in @ [bit c 4] @ part 27 5 data_in @ [bit c 5])"

text \<open>The instance with \<open>EDC_GEN = 1\<close>.\<close>

definition edc_gen :: "'a::len word \<Rightarrow> u32 \<Rightarrow> 38 word" where
  "edc_gen addr data_in =
     edc_interleave (edc_check_bits (edc_input_vec (edc_padded_addr addr) data_in)) data_in"

definition check_data_in :: "38 word \<Rightarrow> u32" where
  "check_data_in code_in = cat_bits
     (part 0 5 code_in @ part 6 6 code_in @ part 13 5 code_in @ part 19 5 code_in @
      part 25 6 code_in @ part 32 5 code_in)"

definition edc_expected_check_bits :: "38 word \<Rightarrow> 6 word" where
  "edc_expected_check_bits code_in = cat_bits (map (bit code_in) [5, 12, 18, 24, 31, 37])"

text \<open>The instance with \<open>EDC_GEN = 0\<close>.\<close>

definition edc_chk :: "'a::len word \<Rightarrow> 38 word \<Rightarrow> bool \<Rightarrow> decoded" where
  "edc_chk addr code_in err_chk_disable =
    (let d = check_data_in code_in;
         uncorr = (if err_chk_disable then False
           else edc_expected_check_bits code_in \<noteq>
             edc_check_bits (edc_input_vec (edc_padded_addr addr) d))
     in \<lparr>data_out = (if err_chk_disable then d else if uncorr then c_ERRDATA else d),
         err_corr = False, err_uncorr = uncorr\<rparr>)"

section \<open>Linear codes\<close>

text \<open>
  What both codes promise: the syndrome is linear in the address and the code word, it is zero on
  what the encoder writes, and the syndromes of the single flips are distinct and not zero.
\<close>

locale linear_code =
  fixes enc :: "'p::len word \<Rightarrow> u32 \<Rightarrow> 'c::len word"
    and syn :: "'p word \<Rightarrow> 'c word \<Rightarrow> 's::len word"
  assumes syn_enc: "syn p (enc p d) = 0"
    and syn_xor: "syn (p XOR q) (c XOR e) = syn p c XOR syn q e"
    and unit_nonzero: "k < LENGTH('c) \<Longrightarrow> syn 0 (2 ^ k) \<noteq> 0"
    and unit_inj: "inj_on (\<lambda>k. syn 0 (2 ^ k)) {..<LENGTH('c)}"
begin

lemma syn_flip: "syn p (flip_bit k (enc p d)) = syn 0 (2 ^ k)"
  using syn_xor [of p 0 "enc p d" "2 ^ k"] by (simp add: syn_enc flip_bit_eq_xor)

lemma syn_flip2: "syn p (flip_bit j (flip_bit k (enc p d))) = syn 0 (2 ^ j) XOR syn 0 (2 ^ k)"
  using syn_xor [of p 0 "flip_bit k (enc p d)" "2 ^ j"]
  by (simp only: syn_flip flip_bit_eq_xor [of j]) (simp add: xor.commute)

lemma syn_address: "syn q (enc p d) = syn (p XOR q) 0"
  using syn_xor [of p "p XOR q" "enc p d" 0] by (simp add: syn_enc xor.left_commute flip: xor.assoc)

lemma zero_syn: "syn 0 0 = 0"
  using syn_xor [of 0 0 0 0] by simp

text \<open>The syndrome of an address difference in all positions from \<open>m\<close> on.\<close>

lemma tail_syn:
  "m \<le> LENGTH('p) \<Longrightarrow> syn (NOT (mask m)) 0 = foldr (\<lambda>j s. syn (2 ^ j) 0 XOR s) [m..<LENGTH('p)] 0"
proof (induction "LENGTH('p) - m" arbitrary: m)
  case 0
  then have "NOT (mask m) = (0 :: 'p word)" by (intro bit_word_eqI) (auto simp: bit_simps)
  with 0 show ?case by (simp add: zero_syn)
next
  case (Suc x)
  then have m: "m < LENGTH('p)" by simp
  have "NOT (mask m) = (2 ^ m XOR NOT (mask (Suc m)) :: 'p word)"
    using m by (intro bit_word_eqI) (auto simp: bit_simps less_Suc_eq)
  then have "syn (NOT (mask m)) 0 = syn (2 ^ m) 0 XOR syn (NOT (mask (Suc m))) 0"
    using syn_xor [of "2 ^ m" "NOT (mask (Suc m))" 0 0] by simp
  with Suc m show ?case by (simp add: upt_conv_Cons)
qed

lemma double_nonzero:
  assumes "j < LENGTH('c)" "k < LENGTH('c)" "j \<noteq> k"
  shows "syn 0 (2 ^ j) XOR syn 0 (2 ^ k) \<noteq> 0"
proof
  assume "syn 0 (2 ^ j) XOR syn 0 (2 ^ k) = 0"
  then have "syn 0 (2 ^ j) = syn 0 (2 ^ k)"
    by (rule xor_zeroD)
  with unit_inj assms show False by (auto simp: inj_on_def)
qed

end

section \<open>The codes are linear\<close>

lemma bit_input_vec:
  "bit (input_vec p d) i \<longleftrightarrow> i < 57 \<and> (if i < 32 then bit d i else bit p (i - 32))"
  by (auto simp: input_vec_def bit_simps nth_append)

lemma bit_edc_input_vec:
  "bit (edc_input_vec p d) i \<longleftrightarrow> i < 56 \<and> (if i < 32 then bit d i else bit p (i - 32))"
  by (auto simp: edc_input_vec_def bit_simps nth_append)

lemma input_vec_xor: "input_vec (p XOR q) (d XOR e) = input_vec p d XOR input_vec q e"
  by (rule bit_word_eqI) (auto simp: bit_input_vec bit_simps)

lemma edc_input_vec_xor:
  "edc_input_vec (p XOR q) (d XOR e) = edc_input_vec p d XOR edc_input_vec q e"
  by (rule bit_word_eqI) (auto simp: bit_edc_input_vec bit_simps)

lemma bit_xor_fun: "bit (v XOR w) = (\<lambda>i. bit v i \<noteq> bit (w :: 'a::len word) i)"
  by (simp add: fun_eq_iff bit_xor_iff)

lemma parts_xor:
  "dec_data_in (c XOR e) = dec_data_in c XOR dec_data_in e"
  "expected_check_bits (c XOR e) = expected_check_bits c XOR expected_check_bits e"
  "check_data_in (b XOR f) = check_data_in b XOR check_data_in f"
  "edc_expected_check_bits (b XOR f) = edc_expected_check_bits b XOR edc_expected_check_bits f"
  unfolding dec_data_in_def expected_check_bits_def check_data_in_def edc_expected_check_bits_def
    part_def by (simp_all only: map_append [symmetric] cat_xor bit_xor_fun)

lemma check_bits_xor:
  "check_bits (v XOR w) = check_bits v XOR check_bits w"
  "edc_check_bits (x XOR y) = edc_check_bits x XOR edc_check_bits y"
  unfolding check_bits_def edc_check_bits_def by (simp_all only: cat_xor bit_xor_fun red_xor_sum)

lemma extract_interleave:
  "dec_data_in (interleave c d) = d" "expected_check_bits (interleave c d) = c"
proof -
  have "dec_data_in (interleave c d) = cat_bits (part 0 LENGTH(32) d)"
    by (simp add: dec_data_in_def interleave_def part_def bit_cat_bits upt_rec_numeral upt_from_0)
  then show "dec_data_in (interleave c d) = d" by (simp only: cat_part)
  have "expected_check_bits (interleave c d) = cat_bits (part 0 LENGTH(7) c)"
    by (simp add: expected_check_bits_def interleave_def part_def bit_cat_bits upt_rec_numeral upt_from_0)
  then show "expected_check_bits (interleave c d) = c" by (simp only: cat_part)
qed

lemma extract_edc_interleave:
  "check_data_in (edc_interleave c d) = d" "edc_expected_check_bits (edc_interleave c d) = c"
proof -
  have "check_data_in (edc_interleave c d) = cat_bits (part 0 LENGTH(32) d)"
    by (simp add: check_data_in_def edc_interleave_def part_def bit_cat_bits upt_rec_numeral upt_from_0)
  then show "check_data_in (edc_interleave c d) = d" by (simp only: cat_part)
  have "edc_expected_check_bits (edc_interleave c d) = cat_bits (part 0 LENGTH(6) c)"
    by (simp add: edc_expected_check_bits_def edc_interleave_def part_def bit_cat_bits upt_rec_numeral
      upt_from_0)
  then show "edc_expected_check_bits (edc_interleave c d) = c" by (simp only: cat_part)
qed

text \<open>The seventh check bit makes the parity of the whole code word and its address even.\<close>

lemma rows_cancel: "foldr symdiff check_rows [0..<57] = []"
  by (simp add: check_rows_def upt_rec_numeral upt_from_0)

lemma total_parity:
  "red_xor (map (\<lambda>r. red_xor (map f r)) check_rows) = red_xor (map f [0..<57])"
proof -
  have "red_xor (map f (foldr symdiff rs is)) =
      (red_xor (map (\<lambda>r. red_xor (map f r)) rs) \<noteq> red_xor (map f is))" for rs "is"
    by (induction rs) (auto simp: red_xor_symdiff)
  from this [of check_rows "[0..<57]"] show ?thesis by (simp add: rows_cancel)
qed

lemma length_check_rows: "length check_rows = 7"
  by (simp add: check_rows_def)

lemma bit_check_bits: "bit (check_bits v) n \<longleftrightarrow> n < 7 \<and> red_xor (map (bit v) (check_rows ! n))"
  by (auto simp: check_bits_def bit_cat_bits length_check_rows)

lemma red_xor_part_check_bits: "red_xor (part 0 7 (check_bits v)) = red_xor (part 0 57 v)"
proof -
  have "part 0 7 (check_bits v) = map (\<lambda>r. red_xor (map (bit v) r)) check_rows"
    by (rule nth_equalityI) (simp_all add: bit_check_bits length_check_rows)
  then show ?thesis by (simp add: total_parity) (simp add: part_def)
qed

lemma bit_syn_vec:
  "bit (syn_vec p c) n \<longleftrightarrow> n < 7 \<and>
    (let v = input_vec p (dec_data_in c); ecb = expected_check_bits c in
     if n < 6 then bit ecb n \<noteq> red_xor (map (bit v) (check_rows ! n))
     else red_xor (part 0 7 ecb) \<noteq> red_xor (part 0 57 v))"
  by (auto simp: syn_vec_def Let_def bit_cat_bits nth_append)

lemma red_xor_bits_xor:
  "red_xor (map (bit (v XOR w :: 'a::len word)) is) = (red_xor (map (bit v) is) \<noteq> red_xor (map (bit w) is))"
  unfolding bit_xor_fun by (rule red_xor_sum)

lemma syn_enc_zero: "syn_vec p (interleave (check_bits (input_vec p d)) d) = 0"
  by (rule bit_word_eqI)
    (simp add: bit_syn_vec Let_def extract_interleave bit_check_bits red_xor_part_check_bits)

lemma syn_vec_xor: "syn_vec (p XOR q) (c XOR e) = syn_vec p c XOR syn_vec q e"
  by (rule bit_word_eqI)
    (auto simp: bit_syn_vec Let_def bit_xor_iff parts_xor input_vec_xor red_xor_bits_xor part_def)

section \<open>The syndromes of single flips\<close>

text \<open>The positions of the data and of the check bits in the code words.\<close>

definition data_pos :: "nat list" where
  "data_pos = [0..<5] @ [6..<10] @ [11..<16] @ [17..<21] @ [22..<27] @ [28..<32] @ [33..<38]"

definition check_pos :: "nat list" where
  "check_pos = [5, 10, 16, 21, 27, 32, 38]"

definition edc_data_pos :: "nat list" where
  "edc_data_pos = [0..<5] @ [6..<12] @ [13..<18] @ [19..<24] @ [25..<31] @ [32..<37]"

definition edc_check_pos :: "nat list" where
  "edc_check_pos = [5, 12, 18, 24, 31, 37]"

lemmas pos_defs = data_pos_def check_pos_def edc_data_pos_def edc_check_pos_def

lemma select_pos:
  "dec_data_in c = cat_bits (map (bit c) data_pos)"
  "expected_check_bits c = cat_bits (map (bit c) check_pos)"
  "check_data_in b = cat_bits (map (bit b) edc_data_pos)"
  "edc_expected_check_bits b = cat_bits (map (bit b) edc_check_pos)"
  by (simp_all add: dec_data_in_def expected_check_bits_def check_data_in_def
    edc_expected_check_bits_def pos_defs part_def)

lemma pos_lists:
  "length data_pos = 32" "length check_pos = 7" "length edc_data_pos = 32" "length edc_check_pos = 6"
  "distinct (data_pos @ check_pos)" "distinct (edc_data_pos @ edc_check_pos)"
  by (simp_all add: pos_defs)

lemma pos_cover:
  "k < 39 \<Longrightarrow> k \<in> set data_pos \<or> k \<in> set check_pos"
  "k < 38 \<Longrightarrow> k \<in> set edc_data_pos \<or> k \<in> set edc_check_pos"
  unfolding pos_defs set_append set_upt list.set Un_iff atLeastLessThan_iff insert_iff empty_iff
  by presburger+

lemma select_unit:
  assumes "distinct ps" "j < length ps" "length ps \<le> LENGTH('b)" "\<forall>p\<in>set ps. p < LENGTH('a)"
  shows "(cat_bits (map (bit (2 ^ (ps ! j) :: 'a::len word)) ps) :: 'b::len word) = 2 ^ j"
  using assms by (intro bit_word_eqI) (auto simp: bit_simps nth_eq_iff_index_eq)

lemma select_none:
  "k \<notin> set ps \<Longrightarrow> (cat_bits (map (bit (2 ^ k :: 'a::len word)) ps) :: 'b::len word) = 0"
  by (intro bit_word_eqI) (auto simp: bit_simps)

lemma red_xor_unit: "distinct r \<Longrightarrow> red_xor (map (\<lambda>i. i = j) r) \<longleftrightarrow> j \<in> set r"
proof -
  have none: "red_xor (map (\<lambda>i. i = j) r) = False" if "j \<notin> set r" for r :: "'a list"
    using that by (induction r) auto
  show "distinct r \<Longrightarrow> ?thesis"
    by (induction r) (auto simp: none)
qed

lemma unit_vectors:
  "j < 32 \<Longrightarrow> bit (input_vec 0 (2 ^ j)) = (\<lambda>i. i = j)"
  "j < 25 \<Longrightarrow> bit (input_vec (2 ^ j) 0) = (\<lambda>i. i = j + 32)"
  "j < 32 \<Longrightarrow> bit (edc_input_vec 0 (2 ^ j)) = (\<lambda>i. i = j)"
  "j < 24 \<Longrightarrow> bit (edc_input_vec (2 ^ j) 0) = (\<lambda>i. i = j + 32)"
  by (auto simp: bit_input_vec bit_edc_input_vec bit_simps fun_eq_iff)

lemma zero_vector: "input_vec 0 0 = 0" "edc_input_vec 0 0 = 0"
  by (auto simp: bit_eq_iff bit_input_vec bit_edc_input_vec)

text \<open>The column of a position: the check bits that cover it.\<close>

definition col :: "nat list list \<Rightarrow> nat \<Rightarrow> bool list" where
  "col rows j = map (\<lambda>r. j \<in> set r) rows"

lemma rows_distinct: "\<forall>r\<in>set check_rows. distinct r" "\<forall>r\<in>set edc_check_rows. distinct r"
  by (simp_all add: check_rows_def edc_check_rows_def)

lemma parities_unit:
  "\<forall>r\<in>set rows. distinct r \<Longrightarrow> map (\<lambda>r. red_xor (map (\<lambda>i. i = j) r)) rows = col rows j"
  by (simp add: col_def red_xor_unit)

lemma flips:
  "j < 32 \<Longrightarrow> dec_data_in (2 ^ (data_pos ! j)) = 2 ^ j"
  "j < 32 \<Longrightarrow> expected_check_bits (2 ^ (data_pos ! j)) = 0"
  "i < 7 \<Longrightarrow> dec_data_in (2 ^ (check_pos ! i)) = 0"
  "i < 7 \<Longrightarrow> expected_check_bits (2 ^ (check_pos ! i)) = 2 ^ i"
  "j < 32 \<Longrightarrow> check_data_in (2 ^ (edc_data_pos ! j)) = 2 ^ j"
  "j < 32 \<Longrightarrow> edc_expected_check_bits (2 ^ (edc_data_pos ! j)) = 0"
  "i < 6 \<Longrightarrow> check_data_in (2 ^ (edc_check_pos ! i)) = 0"
  "i < 6 \<Longrightarrow> edc_expected_check_bits (2 ^ (edc_check_pos ! i)) = 2 ^ i"
proof -
  have d: "distinct data_pos" "distinct check_pos" "distinct edc_data_pos" "distinct edc_check_pos"
    and n: "j < 32 \<Longrightarrow> data_pos ! j \<notin> set check_pos" "i < 7 \<Longrightarrow> check_pos ! i \<notin> set data_pos"
      "j < 32 \<Longrightarrow> edc_data_pos ! j \<notin> set edc_check_pos"
      "i < 6 \<Longrightarrow> edc_check_pos ! i \<notin> set edc_data_pos"
    using pos_lists by (auto simp: disjoint_iff in_set_conv_nth)
  have b: "\<forall>p\<in>set data_pos. p < 39" "\<forall>p\<in>set check_pos. p < 39" "\<forall>p\<in>set edc_data_pos. p < 38"
    "\<forall>p\<in>set edc_check_pos. p < 38"
    by (auto simp: pos_defs)
  note l = pos_lists(1-4)
  show "j < 32 \<Longrightarrow> dec_data_in (2 ^ (data_pos ! j)) = 2 ^ j"
    unfolding select_pos by (intro select_unit) (simp_all add: d b l)
  show "j < 32 \<Longrightarrow> check_data_in (2 ^ (edc_data_pos ! j)) = 2 ^ j"
    unfolding select_pos by (intro select_unit) (simp_all add: d b l)
  show "i < 7 \<Longrightarrow> expected_check_bits (2 ^ (check_pos ! i)) = 2 ^ i"
    unfolding select_pos by (intro select_unit) (simp_all add: d b l)
  show "i < 6 \<Longrightarrow> edc_expected_check_bits (2 ^ (edc_check_pos ! i)) = 2 ^ i"
    unfolding select_pos by (intro select_unit) (simp_all add: d b l)
  show "j < 32 \<Longrightarrow> expected_check_bits (2 ^ (data_pos ! j)) = 0"
    "i < 7 \<Longrightarrow> dec_data_in (2 ^ (check_pos ! i)) = 0"
    "j < 32 \<Longrightarrow> edc_expected_check_bits (2 ^ (edc_data_pos ! j)) = 0"
    "i < 6 \<Longrightarrow> check_data_in (2 ^ (edc_check_pos ! i)) = 0"
    by (simp_all add: select_pos select_none n)
qed

lemma no_parity [simp]: "\<not> red_xor (map bot xs)"
  by (induction xs) auto

lemma syn_unit_data:
  assumes "j < 32"
  shows "syn_vec 0 (2 ^ (data_pos ! j)) = cat_bits (col (take 6 check_rows) j @ [True])"
  using assms rows_distinct(1)
  by (intro bit_word_eqI)
    (auto simp: bit_syn_vec flips unit_vectors red_xor_unit Let_def bit_cat_bits nth_append col_def
      length_check_rows part_def)

lemma syn_unit_check:
  assumes "i < 7"
  shows "bit (syn_vec 0 (2 ^ (check_pos ! i))) n \<longleftrightarrow> n = i \<or> n = 6"
proof -
  have u: "bit (2 ^ i :: 7 word) = (\<lambda>n. n = i)"
    using assms by (auto simp: bit_simps fun_eq_iff)
  have "n < 7 \<Longrightarrow> \<not> n < 6 \<Longrightarrow> n = 6" by simp
  then show ?thesis
    using assms by (auto simp: bit_syn_vec flips zero_vector Let_def part_def u red_xor_unit)
qed

lemma zero_code: "dec_data_in 0 = 0" "expected_check_bits 0 = 0" "check_data_in 0 = 0"
  "edc_expected_check_bits 0 = 0"
  by (auto simp: select_pos bit_eq_iff bit_cat_bits)

lemma syn_unit_addr:
  assumes "j < 25"
  shows "syn_vec (2 ^ j) 0 = cat_bits (col (take 6 check_rows) (j + 32) @ [True])"
  using assms rows_distinct(1)
  by (intro bit_word_eqI)
    (auto simp: bit_syn_vec unit_vectors red_xor_unit Let_def bit_cat_bits nth_append col_def
      length_check_rows part_def zero_code)

lemma edc_unit:
  assumes "j < 32"
  shows "edc_check_bits (edc_input_vec 0 (2 ^ j)) = cat_bits (col edc_check_rows j)"
  using rows_distinct(2) by (simp add: edc_check_bits_def unit_vectors assms parities_unit)

lemma edc_unit_addr:
  assumes "j < 24"
  shows "edc_check_bits (edc_input_vec (2 ^ j) 0) = cat_bits (col edc_check_rows (j + 32))"
  using rows_distinct(2) by (simp add: edc_check_bits_def unit_vectors assms parities_unit)

text \<open>The columns of the positions are the numbers with at least two bits set, in ascending order.\<close>

lemma columns:
  "map (\<lambda>j. cat_bits (col (take 6 check_rows) j) :: 6 word) [0..<57] =
    corrected_syndromes @ map (\<lambda>k. 0x27 + word_of_nat k) [0..<25]"
  by (simp add: col_def cat_bits_def check_rows_def corrected_syndromes_def upt_rec_numeral upt_from_0)

lemma edc_columns:
  "map (\<lambda>j. cat_bits (col edc_check_rows j) :: 6 word) [0..<56] =
    corrected_syndromes @ map (\<lambda>k. 0x27 + word_of_nat k) [0..<24]"
  by (simp add: col_def cat_bits_def edc_check_rows_def corrected_syndromes_def upt_rec_numeral upt_from_0)

lemma syn_split:
  assumes "length c = 6"
  shows "syn_low (cat_bits (c @ [True])) = cat_bits c" and "bit (cat_bits (c @ [True]) :: 7 word) 6"
proof -
  show "syn_low (cat_bits (c @ [True])) = cat_bits c"
    using assms by (intro bit_word_eqI) (simp add: syn_low_def bit_simps nth_append)
qed (simp add: bit_cat_bits nth_append assms)

lemma columns_at:
  "j < 32 \<Longrightarrow> cat_bits (col (take 6 check_rows) j) = corrected_syndromes ! j"
  "j < 25 \<Longrightarrow> cat_bits (col (take 6 check_rows) (j + 32)) = (0x27 + word_of_nat j :: 6 word)"
proof -
  show "j < 32 \<Longrightarrow> cat_bits (col (take 6 check_rows) j) = corrected_syndromes ! j"
    using arg_cong [OF columns, of "\<lambda>xs. xs ! j"]
    by (simp add: nth_append) (simp add: corrected_syndromes_def)
  show "j < 25 \<Longrightarrow> cat_bits (col (take 6 check_rows) (j + 32)) = (0x27 + word_of_nat j :: 6 word)"
    using arg_cong [OF columns, of "\<lambda>xs. xs ! (j + 32)"]
    by (simp add: nth_append) (simp add: corrected_syndromes_def)
qed

lemma corrected_syndromes_facts:
  "distinct corrected_syndromes" "length corrected_syndromes = 32"
  "\<forall>s\<in>set corrected_syndromes. s \<le> 0x26"
  by (simp_all add: corrected_syndromes_def)

text \<open>The low part of the syndrome of a single flip; its parity bit is set.\<close>

lemma syn_single:
  "j < 32 \<Longrightarrow> syn_low (syn_vec 0 (2 ^ (data_pos ! j))) = corrected_syndromes ! j"
  "i < 7 \<Longrightarrow> syn_low (syn_vec 0 (2 ^ (check_pos ! i))) = (if i = 6 then 0 else 2 ^ i)"
  "j < 25 \<Longrightarrow> syn_low (syn_vec (2 ^ j) 0) = 0x27 + word_of_nat j"
  "k < 39 \<Longrightarrow> bit (syn_vec 0 (2 ^ k)) 6"
  "j < 25 \<Longrightarrow> bit (syn_vec (2 ^ j) 0) 6"
proof -
  have l: "length (col (take 6 check_rows) x) = 6" for x
    by (simp add: col_def length_check_rows)
  show "j < 32 \<Longrightarrow> syn_low (syn_vec 0 (2 ^ (data_pos ! j))) = corrected_syndromes ! j"
    by (simp add: syn_unit_data syn_split l columns_at)
  show "j < 25 \<Longrightarrow> syn_low (syn_vec (2 ^ j) 0) = 0x27 + word_of_nat j"
    by (simp add: syn_unit_addr syn_split l columns_at)
  show "j < 25 \<Longrightarrow> bit (syn_vec (2 ^ j) 0) 6"
    by (simp add: syn_unit_addr syn_split l)
  show "i < 7 \<Longrightarrow> syn_low (syn_vec 0 (2 ^ (check_pos ! i))) = (if i = 6 then 0 else 2 ^ i)"
    by (intro bit_word_eqI) (auto simp: syn_low_def syn_unit_check bit_simps)
  assume "k < 39"
  then consider j where "j < 32" "k = data_pos ! j" | i where "i < 7" "k = check_pos ! i"
    using pos_cover(1) [of k] pos_lists(1,2) by (auto simp: in_set_conv_nth)
  then show "bit (syn_vec 0 (2 ^ k)) 6"
    by cases (simp_all add: syn_unit_data syn_unit_check syn_split l)
qed

lemma corrected_not_check: "i < 6 \<Longrightarrow> 2 ^ i \<notin> set corrected_syndromes" "0 \<notin> set corrected_syndromes"
proof -
  assume "i < 6"
  then have "i \<in> {0, 1, 2, 3, 4, 5}" by auto
  then show "2 ^ i \<notin> set corrected_syndromes"
    by (elim insertE emptyE) (simp_all add: corrected_syndromes_def)
qed (simp add: corrected_syndromes_def)

lemma nth_corrected [simp]: "j < 32 \<Longrightarrow> corrected_syndromes ! j \<in> set corrected_syndromes"
  by (simp add: corrected_syndromes_facts)

lemma corrected_inj:
  "j < 32 \<Longrightarrow> i < 32 \<Longrightarrow> corrected_syndromes ! j = corrected_syndromes ! i \<longleftrightarrow> j = i"
  by (simp add: corrected_syndromes_facts nth_eq_iff_index_eq)

lemma pow_inj6:
  assumes "i < 6"
  shows "(2 :: 6 word) ^ i = 2 ^ j \<longleftrightarrow> i = j" and "(2 :: 6 word) ^ i \<noteq> 0"
proof -
  have i: "bit ((2 :: 6 word) ^ i) i" using assms by (simp add: bit_exp_iff)
  show "(2 :: 6 word) ^ i = 2 ^ j \<longleftrightarrow> i = j"
  proof
    assume "(2 :: 6 word) ^ i = 2 ^ j"
    with i have "bit ((2 :: 6 word) ^ j) i" by simp
    then show "i = j" by (simp add: bit_exp_iff)
  qed simp
  show "(2 :: 6 word) ^ i \<noteq> 0" using i by (metis bit_0_eq bot_apply bot_bool_def)
qed

lemma data_not_check:
  assumes "j < 32" "i < 7"
  shows "corrected_syndromes ! j \<noteq> (if i = 6 then 0 else 2 ^ i)"
  using corrected_not_check(1) [of i] corrected_not_check(2) nth_corrected [OF assms(1)] assms(2)
  by (cases "i = 6") (metis, fastforce)

lemma position_cases:
  assumes "k < 39"
  obtains j where "j < 32" "k = data_pos ! j" | i where "i < 7" "k = check_pos ! i"
  using pos_cover(1) [of k] pos_lists(1,2) assms by (auto simp: in_set_conv_nth)

lemma edc_position_cases:
  assumes "k < 38"
  obtains j where "j < 32" "k = edc_data_pos ! j" | i where "i < 6" "k = edc_check_pos ! i"
  using pos_cover(2) [of k] pos_lists(3,4) assms by (auto simp: in_set_conv_nth)

lemma syn_inj: "inj_on (\<lambda>k. syn_vec 0 (2 ^ k)) {..<39}"
proof (rule inj_onI, simp only: lessThan_iff)
  fix k l
  assume kl: "k < 39" "l < 39" and "syn_vec 0 (2 ^ k) = syn_vec 0 (2 ^ l)"
  then have e: "syn_low (syn_vec 0 (2 ^ k)) = syn_low (syn_vec 0 (2 ^ l))" by simp
  from kl show "k = l"
    by (elim position_cases)
      (use e data_not_check data_not_check [symmetric] in
        \<open>auto simp: syn_single corrected_inj pow_inj6 split: if_splits\<close>)
qed

interpretation secded: linear_code "\<lambda>p d. interleave (check_bits (input_vec p d)) d" syn_vec
proof
  fix p q :: "25 word" and c e :: "39 word" and k
  show "syn_vec p (interleave (check_bits (input_vec p d)) d) = 0" for d
    by (rule syn_enc_zero)
  show "syn_vec (p XOR q) (c XOR e) = syn_vec p c XOR syn_vec q e"
    by (rule syn_vec_xor)
  show "syn_vec 0 (2 ^ k) \<noteq> 0" if "k < LENGTH(39)"
    using syn_single(4) [of k] that by auto
  show "inj_on (\<lambda>k. syn_vec 0 (2 ^ k)) {..<LENGTH(39)}"
    using syn_inj by simp
qed

definition edc_syn :: "24 word \<Rightarrow> 38 word \<Rightarrow> 6 word" where
  "edc_syn p c = edc_expected_check_bits c XOR edc_check_bits (edc_input_vec p (check_data_in c))"

lemma edc_columns_at:
  "j < 32 \<Longrightarrow> cat_bits (col edc_check_rows j) = corrected_syndromes ! j"
  "j < 24 \<Longrightarrow> cat_bits (col edc_check_rows (j + 32)) = (0x27 + word_of_nat j :: 6 word)"
proof -
  show "j < 32 \<Longrightarrow> cat_bits (col edc_check_rows j) = corrected_syndromes ! j"
    using arg_cong [OF edc_columns, of "\<lambda>xs. xs ! j"]
    by (simp add: nth_append) (simp add: corrected_syndromes_def)
  show "j < 24 \<Longrightarrow> cat_bits (col edc_check_rows (j + 32)) = (0x27 + word_of_nat j :: 6 word)"
    using arg_cong [OF edc_columns, of "\<lambda>xs. xs ! (j + 32)"]
    by (simp add: nth_append) (simp add: corrected_syndromes_def)
qed

lemma edc_check_zero: "edc_check_bits 0 = 0"
  by (auto simp: edc_check_bits_def bit_eq_iff bit_cat_bits)

lemma edc_single:
  "j < 32 \<Longrightarrow> edc_syn 0 (2 ^ (edc_data_pos ! j)) = corrected_syndromes ! j"
  "i < 6 \<Longrightarrow> edc_syn 0 (2 ^ (edc_check_pos ! i)) = 2 ^ i"
  "j < 24 \<Longrightarrow> edc_syn (2 ^ j) 0 = 0x27 + word_of_nat j"
  by (simp_all add: edc_syn_def flips edc_unit edc_unit_addr edc_columns_at zero_vector edc_check_zero
    zero_code)

interpretation edc: linear_code "\<lambda>p d. edc_interleave (edc_check_bits (edc_input_vec p d)) d" edc_syn
proof
  fix p q :: "24 word" and c e :: "38 word" and k
  show "edc_syn p (edc_interleave (edc_check_bits (edc_input_vec p d)) d) = 0" for d
    by (simp add: edc_syn_def extract_edc_interleave)
  show "edc_syn (p XOR q) (c XOR e) = edc_syn p c XOR edc_syn q e"
    by (simp add: edc_syn_def parts_xor edc_input_vec_xor check_bits_xor xor.assoc xor.left_commute)
  have n: "j < 32 \<Longrightarrow> i < 6 \<Longrightarrow> corrected_syndromes ! j \<noteq> 2 ^ i" for i j
    using data_not_check [of j i] by simp
  show "edc_syn 0 (2 ^ k) \<noteq> 0" if "k < LENGTH(38)"
    using that data_not_check [of _ 6]
    by (auto elim!: edc_position_cases simp: edc_single pow_inj6)
  show "inj_on (\<lambda>k. edc_syn 0 (2 ^ k)) {..<LENGTH(38)}"
    using n n [symmetric]
    by (auto intro!: inj_onI elim!: edc_position_cases simp: edc_single corrected_inj pow_inj6)
qed

section \<open>Correction and detection\<close>

lemma correct_data:
  "j < 32 \<Longrightarrow> corrected_data (corrected_syndromes ! j) d = flip_bit j d"
  "s \<notin> set corrected_syndromes \<Longrightarrow> corrected_data s d = d"
  by (simp_all add: corrected_data_def map_of_zip_nth corrected_syndromes_facts split: option.split)
    (auto dest!: map_of_SomeD set_zip_leftD)

lemma flip_twice: "flip_bit j (flip_bit j d) = (d :: 'a::len word)"
  by (rule bit_word_eqI) (auto simp: bit_simps)

lemma flipped_data:
  "j < 32 \<Longrightarrow> dec_data_in (flip_bit (data_pos ! j) (interleave c d)) = flip_bit j d"
  "i < 7 \<Longrightarrow> dec_data_in (flip_bit (check_pos ! i) (interleave c d)) = d"
  by (simp_all add: flip_bit_eq_xor parts_xor flips extract_interleave)

lemma check_not_high: "i < 7 \<Longrightarrow> \<not> (if i = 6 then 0 else 2 ^ i :: 6 word) > 0x26"
proof -
  assume "i < 7"
  then have "i \<in> {0, 1, 2, 3, 4, 5, 6}" by auto
  then show ?thesis by (elim insertE emptyE) simp_all
qed

text \<open>The decoder by the syndrome alone.\<close>

lemma dec_uncorr:
  assumes "syn_vec (padded_addr addr) c = s" "s \<noteq> 0" "\<not> bit s 6 \<or> syn_low s > 0x26"
  shows "secded_dec addr c False = \<lparr>data_out = c_ERRDATA, err_corr = False, err_uncorr = True\<rparr>"
  using assms by (auto simp: secded_dec_def Let_def)

lemma dec_corr:
  assumes "syn_vec (padded_addr addr) c = s" "bit s 6" "\<not> syn_low s > 0x26"
  shows "secded_dec addr c False =
    \<lparr>data_out = corrected_data (syn_low s) (dec_data_in c), err_corr = True, err_uncorr = False\<rparr>"
  using assms by (simp add: secded_dec_def Let_def)

lemma dec_clean:
  assumes "syn_vec (padded_addr addr) c = 0"
  shows "secded_dec addr c False = \<lparr>data_out = dec_data_in c, err_corr = False, err_uncorr = False\<rparr>"
  using assms by (simp add: secded_dec_def Let_def syn_low_def correct_data corrected_not_check)

lemma secded_intact:
  "secded_dec addr (secded_enc addr d) False = \<lparr>data_out = d, err_corr = False, err_uncorr = False\<rparr>"
  by (subst dec_clean) (simp_all add: secded_enc_def syn_enc_zero extract_interleave)

lemma secded_double:
  assumes "j < 39" "k < 39" "j \<noteq> k"
  shows "secded_dec addr (flip_bit j (flip_bit k (secded_enc addr d))) False =
    \<lparr>data_out = c_ERRDATA, err_corr = False, err_uncorr = True\<rparr>"
proof -
  have "\<not> bit (syn_vec 0 (2 ^ j) XOR syn_vec 0 (2 ^ k)) 6"
    using syn_single(4) [OF assms(1)] syn_single(4) [OF assms(2)] by (simp add: bit_xor_iff)
  then show ?thesis
    using secded.double_nonzero [of j k] assms
    by (subst dec_uncorr) (auto simp: secded_enc_def secded.syn_flip2)
qed

lemma secded_single:
  assumes "k < 39"
  shows "secded_dec addr (flip_bit k (secded_enc addr d)) False =
    \<lparr>data_out = d, err_corr = True, err_uncorr = False\<rparr>"
proof -
  let ?s = "syn_vec 0 (2 ^ k)"
  have s: "syn_vec (padded_addr addr) (flip_bit k (secded_enc addr d)) = ?s"
    unfolding secded_enc_def by (rule secded.syn_flip)
  from assms show ?thesis
  proof (cases rule: position_cases)
    case (1 j)
    moreover have "\<not> corrected_syndromes ! j > 0x26"
      using corrected_syndromes_facts(3) nth_corrected [OF 1(1)] by (auto simp: not_less)
    ultimately show ?thesis
      using dec_corr [OF s] syn_single(4) [OF assms]
      by (simp add: syn_single correct_data secded_enc_def flipped_data flip_twice)
  next
    case (2 i)
    moreover have "(if i = 6 then 0 else 2 ^ i) \<notin> set corrected_syndromes"
      using 2(1) corrected_not_check(1) [of i] corrected_not_check(2) by auto
    ultimately show ?thesis
      using dec_corr [OF s] syn_single(4) [OF assms] check_not_high [OF 2(1)]
      by (simp only: syn_single correct_data secded_enc_def flipped_data if_False simp_thms)
  qed
qed

text \<open>C16: the SECDED code corrects one and detects two. What was written at an address, with at most
  one bit of the code word flipped, is read at that address as it was written, and the flip is
  reported as corrected; with two bits flipped the decoder reports an uncorrectable error and
  delivers \<open>0xDEADBEEF\<close>. This holds for every data word and every width of the address.\<close>

theorem secded_corrects_and_detects:
  assumes "j < 39" "k < 39" "j \<noteq> k"
  shows "secded_dec addr (secded_enc addr d) False = \<lparr>data_out = d, err_corr = False, err_uncorr = False\<rparr> \<and>
    secded_dec addr (flip_bit k (secded_enc addr d)) False =
      \<lparr>data_out = d, err_corr = True, err_uncorr = False\<rparr> \<and>
    secded_dec addr (flip_bit j (flip_bit k (secded_enc addr d))) False =
      \<lparr>data_out = 0xDEADBEEF, err_corr = False, err_uncorr = True\<rparr>"
  using secded_intact [of addr d] secded_single [OF assms(2), of addr d] secded_double [OF assms, of addr d]
  by (simp add: c_ERRDATA_def)

theorem secded_corrects_and_detects_witness:
  "secded_dec (0x2aaaa :: 18 word) (flip_bit 38 (secded_enc (0x2aaaa :: 18 word) 0x12345678)) False =
     \<lparr>data_out = 0x12345678, err_corr = True, err_uncorr = False\<rparr>"
  using secded_corrects_and_detects [of 5 38 "0x2aaaa :: 18 word" "0x12345678"] by simp

section \<open>Addresses\<close>

text \<open>
  The address is covered by the check bits, to detect a word that was read at another address. Where
  the flipped bit is the most significant one, the padding flips with it.
\<close>

lemma padded_addr_bit:
  fixes addr :: "'a::len word"
  shows "bit (padded_addr addr) n \<longleftrightarrow>
    n < 25 \<and> (if n < LENGTH('a) then bit addr n else \<not> bit addr (LENGTH('a) - 1))"
  by (auto simp: padded_addr_def bit_cat_bits nth_append)

lemma padded_addr_flip:
  fixes addr :: "'a::len word"
  assumes "k < LENGTH('a)" "LENGTH('a) \<le> 25"
  shows "padded_addr addr XOR padded_addr (flip_bit k addr) =
    (if k = LENGTH('a) - 1 then NOT (mask k) else 2 ^ k)"
  using assms
  by (intro bit_word_eqI) (auto simp: padded_addr_bit bit_simps)

lemma addr_columns:
  "map (\<lambda>j. cat_bits (col (take 6 check_rows) (j + 32) @ [True]) :: 7 word) [0..<25] =
    map (\<lambda>j. 0x67 + word_of_nat j) [0..<25]"
  by (simp add: col_def cat_bits_def check_rows_def upt_rec_numeral upt_from_0)

lemma syn_addr_unit: "j < 25 \<Longrightarrow> syn_vec (2 ^ j) 0 = 0x67 + word_of_nat j"
  using arg_cong [OF addr_columns, of "\<lambda>xs. xs ! j"] by (simp add: syn_unit_addr)

lemma syn_padding:
  "m \<le> 25 \<Longrightarrow> syn_vec (NOT (mask m)) 0 = foldr (\<lambda>j s. (0x67 + word_of_nat j) XOR s) [m..<25] 0"
  using secded.tail_syn [of m] by (simp, intro foldr_cong) (auto simp: syn_addr_unit)

text \<open>The syndromes of the flips of the padding, from its first position on.\<close>

lemma padding_values:
  "map (\<lambda>m. foldr (\<lambda>j s. (0x67 + word_of_nat j) XOR s) [m..<25] (0 :: 7 word)) [0..<25] =
    [0x67, 0, 0x68, 0x01, 0x6b, 0, 0x6c, 0x01, 0x6f, 0, 0x70, 0x01, 0x73, 0, 0x74, 0x01, 0x77,
     0, 0x78, 0x01, 0x7b, 0, 0x7c, 0x01, 0x7f]"
  by code_simp

lemma padding_syndrome:
  assumes "m < 25"
  shows "syn_vec (NOT (mask m)) 0 = 0 \<longleftrightarrow> m mod 4 = 1"
    and "syn_vec (NOT (mask m)) 0 \<noteq> 0 \<Longrightarrow>
      \<not> bit (syn_vec (NOT (mask m)) 0) 6 \<or> syn_low (syn_vec (NOT (mask m)) 0) > 0x26"
proof -
  define s where "s = syn_vec (NOT (mask m)) 0"
  have "s = map (\<lambda>m. foldr (\<lambda>j s. (0x67 + word_of_nat j) XOR s) [m..<25] 0) [0..<25] ! m"
    using assms by (simp add: s_def syn_padding)
  then have s: "s = [0x67, 0, 0x68, 0x01, 0x6b, 0, 0x6c, 0x01, 0x6f, 0, 0x70, 0x01, 0x73, 0, 0x74, 0x01, 0x77,
     0, 0x78, 0x01, 0x7b, 0, 0x7c, 0x01, 0x7f] ! m"
    by (simp only: padding_values)
  have "m \<in> {0, 1, 2, 3, 4, 5, 6, 7, 8, 9, 10, 11, 12, 13, 14, 15, 16, 17, 18, 19, 20, 21, 22, 23, 24}"
    unfolding insert_iff empty_iff using assms by presburger
  then have "(s = 0 \<longleftrightarrow> m mod 4 = 1) \<and> (s \<noteq> 0 \<longrightarrow> \<not> bit s 6 \<or> syn_low s > 0x26)"
    by (elim insertE emptyE) (simp_all add: s syn_low_def)
  then show "syn_vec (NOT (mask m)) 0 = 0 \<longleftrightarrow> m mod 4 = 1"
    and "syn_vec (NOT (mask m)) 0 \<noteq> 0 \<Longrightarrow>
      \<not> bit (syn_vec (NOT (mask m)) 0) 6 \<or> syn_low (syn_vec (NOT (mask m)) 0) > 0x26"
    by (simp_all add: s_def)
qed

lemma edc_err_iff:
  "err_uncorr (edc_chk addr c False) \<longleftrightarrow> edc_syn (edc_padded_addr addr) c \<noteq> 0"
  by (auto simp: edc_chk_def Let_def edc_syn_def dest: xor_zeroD)

lemma edc_padded_addr_flip:
  fixes addr :: "'a::len word"
  assumes "k < LENGTH('a)" "LENGTH('a) \<le> 24"
  shows "edc_padded_addr addr XOR edc_padded_addr (flip_bit k addr) =
    (if k = LENGTH('a) - 1 then NOT (mask k) else 2 ^ k)"
  using assms
  by (intro bit_word_eqI) (auto simp: edc_padded_addr_def bit_simps nth_append)

lemma edc_padding_sum:
  "m \<le> 24 \<Longrightarrow> edc_syn (NOT (mask m)) 0 = foldr (\<lambda>j s. (0x27 + word_of_nat j) XOR s) [m..<24] 0"
  using edc.tail_syn [of m] by (simp, intro foldr_cong) (auto simp: edc_single)

lemma edc_padding_values:
  "0 \<notin> set (map (\<lambda>m. foldr (\<lambda>j s. (0x27 + word_of_nat j) XOR s) [m..<24] (0 :: 6 word)) [0..<24])"
  by code_simp

lemma edc_padding: "m < 24 \<Longrightarrow> edc_syn (NOT (mask m)) 0 \<noteq> 0"
  using edc_padding_values by (auto simp: edc_padding_sum image_iff)

lemma low_addr_high: "k < 25 \<Longrightarrow> (0x27 + word_of_nat k :: 6 word) > 0x26"
  by (simp add: word_less_nat_alt unat_word_ariths unat_of_nat)

text \<open>C40: a read at an address that differs in one bit from the address of the write is reported as
  uncorrectable, with one exception: where the width of the address is two modulo four, a flip of
  its most significant bit is not noticed, and the word of the other address is delivered without
  any report. The cache memory is such a case, its addresses have 18 bits.\<close>

theorem secded_address_flip:
  fixes addr :: "'a::len word"
  assumes "k < LENGTH('a)" "LENGTH('a) \<le> 25"
  shows "secded_dec (flip_bit k addr) (secded_enc addr d) False =
    (if k = LENGTH('a) - 1 \<and> LENGTH('a) mod 4 = 2
     then \<lparr>data_out = d, err_corr = False, err_uncorr = False\<rparr>
     else \<lparr>data_out = 0xDEADBEEF, err_corr = False, err_uncorr = True\<rparr>)"
proof -
  define e :: "25 word" where "e = (if k = LENGTH('a) - 1 then NOT (mask k) else 2 ^ k)"
  have s: "syn_vec (padded_addr (flip_bit k addr)) (secded_enc addr d) = syn_vec e 0"
    unfolding secded_enc_def secded.syn_address padded_addr_flip [OF assms] e_def ..
  have k: "k < 25" using assms by simp
  have mod: "0 < n \<Longrightarrow> (n - 1) mod 4 = 1 \<longleftrightarrow> n mod 4 = 2" for n :: nat
    by (cases n) (auto simp: mod_Suc)
  show ?thesis
  proof (cases "k = LENGTH('a) - 1 \<and> LENGTH('a) mod 4 = 2")
    case True
    then have "k mod 4 = 1" using mod [of "LENGTH('a)"] by simp
    with True k have "syn_vec e 0 = 0" by (simp add: e_def padding_syndrome)
    from dec_clean [OF trans [OF s this]] True show ?thesis
      by (simp only: secded_enc_def extract_interleave simp_thms if_True)
  next
    case False
    have "syn_vec e 0 \<noteq> 0 \<and> (\<not> bit (syn_vec e 0) 6 \<or> syn_low (syn_vec e 0) > 0x26)"
    proof (cases "k = LENGTH('a) - 1")
      case True
      with False have "k mod 4 \<noteq> 1" using mod [of "LENGTH('a)"] by simp
      with True k padding_syndrome [OF k] show ?thesis by (simp add: e_def)
    next
      case False
      then have e: "e = 2 ^ k" by (simp add: e_def)
      show ?thesis unfolding e using syn_single(3,5) [OF k] low_addr_high [OF k] by auto
    qed
    then show ?thesis
      using dec_uncorr [OF s] unfolding c_ERRDATA_def if_not_P [OF False] by blast
  qed
qed

theorem secded_address_flip_witness:
  "secded_dec (0x20010 :: 18 word) (secded_enc (0x00010 :: 18 word) 0xcafe) False =
     \<lparr>data_out = 0xcafe, err_corr = False, err_uncorr = False\<rparr> \<and>
   secded_dec (0x00030 :: 18 word) (secded_enc (0x00010 :: 18 word) 0xcafe) False =
     \<lparr>data_out = 0xDEADBEEF, err_corr = False, err_uncorr = True\<rparr>"
  using secded_address_flip [of 17 "0x00010 :: 18 word" "0xcafe"]
    secded_address_flip [of 5 "0x00010 :: 18 word" "0xcafe"]
  by (simp add: flip_bit_eq_xor)

text \<open>The padding of the address is meant to make code words of all zeros and of all ones
  impossible. It does not: at the address \<open>0x22c\<close> of the cache memory the word of all ones has the
  code word of all ones, so that a word stuck at one is read there without any report.\<close>

lemma secded_all_ones_code:
  "secded_enc (0x22c :: 18 word) 0xFFFFFFFF = NOT 0 \<and>
   secded_dec (0x22c :: 18 word) (NOT 0) False =
     \<lparr>data_out = 0xFFFFFFFF, err_corr = False, err_uncorr = False\<rparr>"
  by code_simp

text \<open>The EDC code detects what it promises: a code word with one or two flipped bits, and a code
  word read at an address that differs in one bit, are reported, whatever the data; an intact one is
  delivered without a report.\<close>

lemma edc_detects:
  fixes addr :: "'a::len word"
  assumes "j < 38" "k < 38" "j \<noteq> k" and "i < LENGTH('a)" "LENGTH('a) \<le> 24"
  shows "edc_chk addr (edc_gen addr d) False = \<lparr>data_out = d, err_corr = False, err_uncorr = False\<rparr> \<and>
    err_uncorr (edc_chk addr (flip_bit k (edc_gen addr d)) False) \<and>
    err_uncorr (edc_chk addr (flip_bit j (flip_bit k (edc_gen addr d))) False) \<and>
    err_uncorr (edc_chk (flip_bit i addr) (edc_gen addr d) False)"
proof -
  note enc = edc_gen_def and err = edc_err_iff
  have "edc_syn (NOT (mask m)) 0 \<noteq> 0" if "m < 24" for m
    using that by (rule edc_padding)
  with assms(4,5) have "edc_syn (if i = LENGTH('a) - 1 then NOT (mask i) else 2 ^ i) 0 \<noteq> 0"
    using low_addr_high [of i] by (auto simp: edc_single)
  then show ?thesis
    using assms edc.unit_nonzero [of k] edc.double_nonzero [of j k]
    by (simp add: err enc edc.syn_flip edc.syn_flip2 edc.syn_address edc_padded_addr_flip)
      (simp add: edc_chk_def extract_edc_interleave)
qed

end
