(* ===== verification/RamWrapper.thy ===== *)
theory RamWrapper
  imports RamEcc
begin

text \<open>
  The memory of the cache behind its wrapper (\<open>src/src/ram_wrapper/rtl/ram_wrapper.sv\<close> with \<open>mem_rmw.sv\<close>
  and \<open>mem_erase.sv\<close>), with the parameters of its only instance in \<open>sinc_ciu.sv\<close>: 16384 lines of
  128 bits, SECDED, read-modify-write, error injection, erase and engine erase, no write-back, no
  pipeline stage, no parity, bits neither shuffled nor inverted. Without parity and write-back the
  registers \<open>en_q\<close>, \<open>en_q2\<close>, \<open>addr_chk_q\<close>, \<open>addr_chk_q2\<close> and \<open>non_rmw_wr_q\<close> have no reader and are left out. The memory macro is not part of
  the repository: it is the parameter of the locale \<open>sync_ram\<close>.
\<close>

section \<open>Lines of four words\<close>

definition lane :: "nat \<Rightarrow> nat \<Rightarrow> 'a::len word \<Rightarrow> 'b::len word" where
  "lane k j w = cat_bits (part (k * j) k w)"

definition join_lanes :: "nat \<Rightarrow> nat \<Rightarrow> (nat \<Rightarrow> 'b::len word) \<Rightarrow> 'a::len word" where
  "join_lanes k n f = cat_bits (map (\<lambda>i. bit (f (i div k)) (i mod k)) [0..<k * n])"

text \<open>\<open>{iedc_addr,iedc_addr_lsbs}\<close>\<close>

definition lane_addr :: "14 word \<Rightarrow> nat \<Rightarrow> 18 word" where
  "lane_addr a j = cat_bits (part 0 4 (word_of_nat (4 * j) :: 4 word) @ part 0 14 a)"

definition encode_line :: "14 word \<Rightarrow> 128 word \<Rightarrow> 156 word" where
  "encode_line a d = join_lanes 39 4 (\<lambda>i. secded_enc (lane_addr a i) (lane 32 i d))"

definition decode_lane :: "14 word \<Rightarrow> bool \<Rightarrow> 156 word \<Rightarrow> nat \<Rightarrow> decoded" where
  "decode_lane a err_chk_disable_i code j =
     secded_dec (lane_addr a j) (lane 39 j code) err_chk_disable_i"

definition oedc_data :: "14 word \<Rightarrow> bool \<Rightarrow> 156 word \<Rightarrow> 128 word" where
  "oedc_data a dis code = join_lanes 32 4 (\<lambda>j. data_out (decode_lane a dis code j))"

definition any_uncorr :: "14 word \<Rightarrow> bool \<Rightarrow> 156 word \<Rightarrow> bool" where
  "any_uncorr a dis code = list_ex (\<lambda>j. err_uncorr (decode_lane a dis code j)) [0..<4]"

definition err_corr_total :: "14 word \<Rightarrow> bool \<Rightarrow> 156 word \<Rightarrow> 3 word" where
  "err_corr_total a dis code =
     fold (\<lambda>k t. t + of_bool (err_corr (decode_lane a dis code k))) [0..<4] 0"

section \<open>Erase\<close>

record erase_regs =
  erase_addr :: "18 word"
  erase_we :: bool
  erase_done :: bool
  engn_erase_done :: bool
  full_erase_in_progress :: bool

definition ERASE_NBYTES :: "18 word" where "ERASE_NBYTES = 16"
definition ERASE_END_ADDR :: "18 word" where "ERASE_END_ADDR = 0x3fff0"

definition new_engn_erase_done :: "erase_regs \<Rightarrow> bool" where
  "new_engn_erase_done s = (\<not> full_erase_in_progress s \<and> erase_addr s = ERASE_END_ADDR)"

definition new_erase_done :: "erase_regs \<Rightarrow> bool" where
  "new_erase_done s = (full_erase_in_progress s \<and> erase_addr s = ERASE_END_ADDR)"

definition mem_erase_clock :: "bool \<Rightarrow> bool \<Rightarrow> erase_regs \<Rightarrow> erase_regs" where
  "mem_erase_clock erase_start engn_erase_start s =
    (let s' =
      (if erase_we s then
        (if new_engn_erase_done s then s\<lparr>erase_we := False, erase_addr := 0\<rparr>
         else if new_erase_done s
         then s\<lparr>erase_we := False, erase_addr := 0, full_erase_in_progress := False\<rparr>
         else s\<lparr>erase_we := True, erase_addr := erase_addr s + ERASE_NBYTES\<rparr>)
       else if engn_erase_start then s\<lparr>erase_addr := 0, erase_we := True\<rparr>
       else if erase_start \<and> \<not> full_erase_in_progress s
       then s\<lparr>erase_addr := 0, erase_we := True, full_erase_in_progress := True\<rparr>
       else s)
     in s'\<lparr>erase_done := new_erase_done s, engn_erase_done := new_engn_erase_done s\<rparr>)"

section \<open>Read-modify-write\<close>

record rmw_regs =
  rmw_busy :: bool
  rmw_phase :: "2 word"
  we_q :: "16 word"
  wdata_q :: "128 word"
  rmw_addr_q :: "14 word"

definition RMW_PHASE_RD :: "2 word" where "RMW_PHASE_RD = 0"
definition RMW_PHASE_PIPELINE :: "2 word" where "RMW_PHASE_PIPELINE = 1"
definition RMW_PHASE_WR :: "2 word" where "RMW_PHASE_WR = 2"

definition mod_wdata :: "16 word \<Rightarrow> 128 word \<Rightarrow> 128 word \<Rightarrow> 128 word" where
  "mod_wdata we wdata rdata =
     cat_bits (map (\<lambda>i. if bit we (i div 8) then bit wdata i else bit rdata i) [0..<128])"

record rmw_out =
  non_rmw_en :: bool
  rmw_en :: bool
  rmw_we :: bool
  rmw_wdata :: "128 word"
  rmw_addr :: "14 word"
  next_rmw_busy :: bool
  next_rmw_phase :: "2 word"

definition mem_rmw_comb ::
  "bool \<Rightarrow> 16 word \<Rightarrow> 128 word \<Rightarrow> 14 word \<Rightarrow> 128 word \<Rightarrow> bool \<Rightarrow> rmw_regs \<Rightarrow> rmw_out" where
  "mem_rmw_comb en we wdata addr rdata rmw_error s =
    (let o0 = \<lparr>non_rmw_en = False, rmw_en = False, rmw_we = False, rmw_wdata = 0, rmw_addr = addr,
               next_rmw_busy = rmw_busy s, next_rmw_phase = rmw_phase s\<rparr>
     in if \<not> rmw_busy s then
          (if en \<and> we = 0 then o0\<lparr>non_rmw_en := True\<rparr>
           else if en \<and> we = NOT 0 then o0\<lparr>non_rmw_en := True, rmw_we := True, rmw_wdata := wdata\<rparr>
           else if en then o0\<lparr>rmw_en := True, next_rmw_busy := True\<rparr>
           else o0)
        else
          (let o1 = o0\<lparr>rmw_addr := rmw_addr_q s\<rparr> in
           if rmw_phase s = RMW_PHASE_RD then o1\<lparr>next_rmw_phase := RMW_PHASE_WR\<rparr>
           else if rmw_phase s = RMW_PHASE_PIPELINE then o1\<lparr>next_rmw_phase := RMW_PHASE_WR\<rparr>
           else if rmw_phase s = RMW_PHASE_WR then
             (if \<not> rmw_error
              then o1\<lparr>rmw_en := True, rmw_we := True, rmw_wdata := mod_wdata (we_q s) (wdata_q s) rdata\<rparr>
              else o1)\<lparr>next_rmw_busy := False, next_rmw_phase := RMW_PHASE_RD\<rparr>
           else o1\<lparr>next_rmw_busy := False, next_rmw_phase := RMW_PHASE_RD\<rparr>))"

definition mem_rmw_clock ::
  "16 word \<Rightarrow> 128 word \<Rightarrow> 14 word \<Rightarrow> rmw_out \<Rightarrow> rmw_regs \<Rightarrow> rmw_regs" where
  "mem_rmw_clock we wdata addr ro s =
    (let s' = s\<lparr>rmw_busy := next_rmw_busy ro, rmw_phase := next_rmw_phase ro\<rparr> in
     if \<not> rmw_busy s \<and> next_rmw_busy ro
     then s'\<lparr>we_q := we, wdata_q := wdata, rmw_addr_q := addr\<rparr> else s')"

section \<open>The wrapper\<close>

record wrap_in =
  wdata_i :: "128 word"
  addr_i :: "14 word"
  en_i :: bool
  we_i :: "16 word"
  engn_erase_start_i :: bool
  erase_start_i :: bool
  erase_wdata_i :: "128 word"
  inject_i :: bool
  inject_addr_i :: "14 word"
  inject_mask_i :: "156 word"
  err_chk_disable_i :: bool

record wrap_regs =
  eras :: erase_regs
  rmw :: rmw_regs
  inject_in_progress :: bool
  inject_q :: bool
  oedc_code :: "156 word"
  addr_q :: "14 word"
  addr_q2 :: "14 word"
  non_rmw_rd_q :: bool
  non_rmw_rd_vld :: bool
  rmw_rd_q :: bool
  rmw_rd_vld :: bool

definition wrap_reset :: wrap_regs where
  "wrap_reset =
    \<lparr>eras = \<lparr>erase_addr = 0, erase_we = False, erase_done = False, engn_erase_done = False,
             full_erase_in_progress = False\<rparr>,
     rmw = \<lparr>rmw_busy = False, rmw_phase = RMW_PHASE_RD, we_q = 0, wdata_q = 0, rmw_addr_q = 0\<rparr>,
     inject_in_progress = False, inject_q = False, oedc_code = 0, addr_q = 0, addr_q2 = 0,
     non_rmw_rd_q = False, non_rmw_rd_vld = False, rmw_rd_q = False, rmw_rd_vld = False\<rparr>"

text \<open>The read side: what the registers and the check input determine.\<close>

definition edc_failed :: "wrap_in \<Rightarrow> wrap_regs \<Rightarrow> bool" where
  "edc_failed i s = ((non_rmw_rd_vld s \<or> rmw_rd_vld s) \<and>
     any_uncorr (addr_q2 s) (err_chk_disable_i i) (oedc_code s))"

definition read_data :: "wrap_in \<Rightarrow> wrap_regs \<Rightarrow> 128 word" where
  "read_data i s = oedc_data (addr_q2 s) (err_chk_disable_i i) (oedc_code s)"

definition err_rdata :: "128 word" where
  "err_rdata = join_lanes 32 4 (\<lambda>_. c_ERRDATA)"

definition rdata_o :: "wrap_in \<Rightarrow> wrap_regs \<Rightarrow> 128 word" where
  "rdata_o i s = (if edc_failed i s then err_rdata else read_data i s)"

definition rdata_valid_o :: "wrap_in \<Rightarrow> wrap_regs \<Rightarrow> bool" where
  "rdata_valid_o i s = (non_rmw_rd_vld s \<and> \<not> edc_failed i s)"

definition err_corr_o :: "wrap_in \<Rightarrow> wrap_regs \<Rightarrow> 3 word" where
  "err_corr_o i s = (if non_rmw_rd_vld s \<or> rmw_rd_vld s
     then err_corr_total (addr_q2 s) (err_chk_disable_i i) (oedc_code s) else 0)"

definition err_addr_o :: "wrap_in \<Rightarrow> wrap_regs \<Rightarrow> 14 word" where
  "err_addr_o i s = (if edc_failed i s \<or> err_corr_o i s \<noteq> 0 then addr_q2 s else 0)"

definition err_erase_busy_o :: "wrap_in \<Rightarrow> wrap_regs \<Rightarrow> bool" where
  "err_erase_busy_o i s = (erase_we (eras s) \<and> (rmw_busy (rmw s) \<or> en_i i))"

definition busy_o :: "wrap_regs \<Rightarrow> bool" where
  "busy_o s = (rmw_busy (rmw s) \<and> \<not> erase_we (eras s))"

text \<open>The write side: the arbitration of erase, access and injection for the port of the memory.\<close>

definition qualified_en :: "wrap_in \<Rightarrow> wrap_regs \<Rightarrow> bool" where
  "qualified_en i s = (if erase_we (eras s) \<or> rmw_busy (rmw s) then False else en_i i)"

definition rmw_signals :: "wrap_in \<Rightarrow> wrap_regs \<Rightarrow> rmw_out" where
  "rmw_signals i s = mem_rmw_comb (qualified_en i s) (we_i i) (wdata_i i) (addr_i i) (read_data i s)
     (edc_failed i s \<and> rmw_busy (rmw s)) (rmw s)"

definition iedc_addr :: "wrap_in \<Rightarrow> wrap_regs \<Rightarrow> 14 word" where
  "iedc_addr i s = (let ro = rmw_signals i s in
     if erase_we (eras s) then cat_bits (part 4 14 (erase_addr (eras s)))
     else if non_rmw_en ro \<or> rmw_en ro then rmw_addr ro else 0)"

definition iedc_data :: "wrap_in \<Rightarrow> wrap_regs \<Rightarrow> 128 word" where
  "iedc_data i s = (let ro = rmw_signals i s in
     if erase_we (eras s) then erase_wdata_i i
     else if non_rmw_en ro \<or> rmw_en ro then rmw_wdata ro else 0)"

record ram_port =
  ram_me :: bool
  ram_we :: bool
  ram_adr :: "14 word"
  ram_di :: "156 word"

definition ram_out :: "wrap_in \<Rightarrow> wrap_regs \<Rightarrow> ram_port" where
  "ram_out i s = (let ro = rmw_signals i s; code = encode_line (iedc_addr i s) (iedc_data i s) in
     if erase_we (eras s) \<or> rmw_en ro \<or> non_rmw_en ro
     then \<lparr>ram_me = True, ram_we = (erase_we (eras s) \<or> rmw_we ro), ram_adr = iedc_addr i s, ram_di = code\<rparr>
     else if inject_in_progress s
     then \<lparr>ram_me = True, ram_we = True, ram_adr = inject_addr_i i, ram_di = inject_mask_i i\<rparr>
     else \<lparr>ram_me = False, ram_we = False, ram_adr = iedc_addr i s, ram_di = code\<rparr>)"

definition inject_done_o :: "wrap_in \<Rightarrow> wrap_regs \<Rightarrow> bool" where
  "inject_done_o i s = (let ro = rmw_signals i s in
     inject_in_progress s \<and> \<not> (erase_we (eras s) \<or> rmw_en ro \<or> non_rmw_en ro))"

definition wrap_clock :: "wrap_in \<Rightarrow> 156 word \<Rightarrow> wrap_regs \<Rightarrow> wrap_regs" where
  "wrap_clock i ram_qi s = (let ro = rmw_signals i s in
    \<lparr>eras = mem_erase_clock (erase_start_i i) (engn_erase_start_i i) (eras s),
     rmw = mem_rmw_clock (we_i i) (wdata_i i) (addr_i i) ro (rmw s),
     inject_in_progress =
       (if \<not> inject_in_progress s \<and> inject_i i \<and> \<not> inject_q s then True
        else if inject_in_progress s \<and> inject_done_o i s then False
        else inject_in_progress s),
     inject_q = inject_i i,
     oedc_code = ram_qi,
     addr_q = ram_adr (ram_out i s),
     addr_q2 = addr_q s,
     non_rmw_rd_q = (non_rmw_en ro \<and> \<not> rmw_we ro),
     non_rmw_rd_vld = non_rmw_rd_q s,
     rmw_rd_q = (rmw_en ro \<and> \<not> rmw_we ro),
     rmw_rd_vld = rmw_rd_q s\<rparr>)"

section \<open>Lanes\<close>

lemma bit_lane:
  "bit (lane k j w :: 'b::len word) n \<longleftrightarrow> n < LENGTH('b) \<and> n < k \<and> bit w (k * j + n)"
  by (auto simp: lane_def bit_cat_bits)

lemma bit_join_lanes:
  "bit (join_lanes k n f :: 'a::len word) i \<longleftrightarrow>
    i < LENGTH('a) \<and> i < k * n \<and> bit (f (i div k)) (i mod k)"
  by (auto simp: join_lanes_def bit_cat_bits)

lemma lane_join:
  fixes f :: "nat \<Rightarrow> 'b::len word"
  assumes "j < n" "LENGTH('b) = k" "k * n \<le> LENGTH('a::len)"
  shows "lane k j (join_lanes k n f :: 'a word) = f j"
proof (rule bit_word_eqI)
  fix i assume i: "i < LENGTH('b)"
  have "k * j + i < k * n" using assms i by (metis add_less_mono1 mult_le_mono2 Suc_leI mult_Suc_right
    add.commute less_le_trans)
  then show "bit (lane k j (join_lanes k n f :: 'a word) :: 'b word) i = bit (f j) i"
    using assms i by (simp add: bit_lane bit_join_lanes)
qed

lemma join_lane:
  fixes w :: "'a::len word"
  assumes "LENGTH('a) = k * n" "LENGTH('b::len) = k"
  shows "join_lanes k n (\<lambda>j. lane k j w :: 'b word) = w"
  using assms by (intro bit_word_eqI) (auto simp: bit_lane bit_join_lanes)

section \<open>The memory and the wrapper together\<close>

definition sys_clock ::
  "(ram_port \<Rightarrow> 'm \<Rightarrow> 'm) \<Rightarrow> ('m \<Rightarrow> 156 word) \<Rightarrow> wrap_in \<Rightarrow> wrap_regs \<times> 'm \<Rightarrow> wrap_regs \<times> 'm" where
  "sys_clock ram_clock ram_q i sm =
    (case sm of (s, m) \<Rightarrow> (wrap_clock i (ram_q m) s, ram_clock (ram_out i s) m))"

primrec sys_run ::
  "(ram_port \<Rightarrow> 'm \<Rightarrow> 'm) \<Rightarrow> ('m \<Rightarrow> 156 word) \<Rightarrow> (nat \<Rightarrow> wrap_in) \<Rightarrow> nat \<Rightarrow> wrap_regs \<times> 'm \<Rightarrow> wrap_regs \<times> 'm" where
  "sys_run ram_clock ram_q i 0 sm = sm"
| "sys_run ram_clock ram_q i (Suc n) sm = sys_clock ram_clock ram_q (i n) (sys_run ram_clock ram_q i n sm)"

text \<open>A line that holds \<open>d\<close> with at most one flipped bit in each of its words, and one with two flipped
  bits in some word.\<close>

definition near :: "14 word \<Rightarrow> 156 word \<Rightarrow> 128 word \<Rightarrow> bool" where
  "near a c d = (\<forall>j<4. let e = secded_enc (lane_addr a j) (lane 32 j d) in
     lane 39 j c = e \<or> (\<exists>k<39. lane 39 j c = flip_bit k e))"

definition damaged :: "14 word \<Rightarrow> 156 word \<Rightarrow> 128 word \<Rightarrow> bool" where
  "damaged a c d = (\<exists>j<4. \<exists>k<39. \<exists>l<39. k \<noteq> l \<and>
     lane 39 j c = flip_bit k (flip_bit l (secded_enc (lane_addr a j) (lane 32 j d))))"

lemma upt_4': "[0..<4] = [0, 1, 2, 3]"
  by (simp add: upt_rec_numeral upt_from_0)

lemma decode_near:
  assumes "near a c d"
  shows "oedc_data a False c = d" and "\<not> any_uncorr a False c"
proof -
  have l: "data_out (decode_lane a False c j) = lane 32 j d \<and> \<not> err_uncorr (decode_lane a False c j)"
    if "j < 4" for j
  proof -
    from assms that consider "lane 39 j c = secded_enc (lane_addr a j) (lane 32 j d)"
      | k where "k < 39" "lane 39 j c = flip_bit k (secded_enc (lane_addr a j) (lane 32 j d))"
      by (auto simp: near_def Let_def)
    then show ?thesis
      by cases (simp_all add: decode_lane_def secded_single secded_intact)
  qed
  have "oedc_data a False c = join_lanes 32 4 (\<lambda>j. lane 32 j d :: u32)"
    by (rule bit_word_eqI) (simp add: oedc_data_def bit_join_lanes l div_less_iff_less_mult)
  then show "oedc_data a False c = d" by (simp add: join_lane)
  show "\<not> any_uncorr a False c" using l by (simp add: any_uncorr_def list_ex_iff)
qed

lemma decode_damaged: "damaged a c d \<Longrightarrow> any_uncorr a False c"
  unfolding damaged_def any_uncorr_def list_ex_iff decode_lane_def
  by (metis atLeastLessThan_iff decoded.select_convs(3) le0 secded_double set_upt)

lemma near_encode: "near a (encode_line a d) d"
  by (simp add: near_def encode_line_def lane_join)

text \<open>No erase runs, no injection waits and the read-modify-write machine is at rest.\<close>

definition ready :: "wrap_regs \<Rightarrow> bool" where
  "ready s = (\<not> erase_we (eras s) \<and> \<not> rmw_busy (rmw s) \<and> rmw_phase (rmw s) = RMW_PHASE_RD \<and>
     \<not> inject_in_progress s \<and> \<not> full_erase_in_progress (eras s))"

definition calm :: "wrap_in \<Rightarrow> bool" where
  "calm i = (\<not> erase_start_i i \<and> \<not> engn_erase_start_i i \<and> \<not> inject_i i)"

text \<open>The states of the machine during a partial write of the line \<open>a\<close>.\<close>

definition writing :: "2 word \<Rightarrow> 14 word \<Rightarrow> 16 word \<Rightarrow> 128 word \<Rightarrow> wrap_regs \<Rightarrow> bool" where
  "writing ph a we d s = (\<not> erase_we (eras s) \<and> \<not> inject_in_progress s \<and>
     \<not> full_erase_in_progress (eras s) \<and>
     rmw s = \<lparr>rmw_busy = True, rmw_phase = ph, we_q = we, wdata_q = d, rmw_addr_q = a\<rparr>)"

lemmas wrap_defs = wrap_clock_def ram_out_def rmw_signals_def qualified_en_def iedc_addr_def iedc_data_def
  mem_rmw_comb_def mem_rmw_clock_def mem_erase_clock_def inject_done_o_def Let_def

lemma access_idle:
  assumes "ready s" "\<not> en_i i"
  shows "\<not> ram_we (ram_out i s)" and "calm i \<Longrightarrow> ready (wrap_clock i q s)"
  using assms by (simp_all add: wrap_defs ready_def calm_def)

lemma access_read:
  assumes "ready s" "en_i i" "we_i i = 0"
  shows "ram_me (ram_out i s)" "\<not> ram_we (ram_out i s)" "ram_adr (ram_out i s) = addr_i i"
    "addr_q (wrap_clock i q s) = addr_i i" "non_rmw_rd_q (wrap_clock i q s)"
    "calm i \<Longrightarrow> ready (wrap_clock i q s)"
  using assms by (simp_all add: wrap_defs ready_def calm_def)

lemma access_full:
  assumes "ready s" "en_i i" "we_i i = NOT 0"
  shows "ram_me (ram_out i s)" "ram_we (ram_out i s)" "ram_adr (ram_out i s) = addr_i i"
    "ram_di (ram_out i s) = encode_line (addr_i i) (wdata_i i)" "calm i \<Longrightarrow> ready (wrap_clock i q s)"
  using assms by (simp_all add: wrap_defs ready_def calm_def)

lemma access_partial:
  assumes "ready s" "en_i i" "we_i i \<noteq> 0" "we_i i \<noteq> NOT 0"
  shows "ram_me (ram_out i s)" "\<not> ram_we (ram_out i s)" "ram_adr (ram_out i s) = addr_i i"
    "addr_q (wrap_clock i q s) = addr_i i" "rmw_rd_q (wrap_clock i q s)"
    "calm i \<Longrightarrow> writing RMW_PHASE_RD (addr_i i) (we_i i) (wdata_i i) (wrap_clock i q s)"
  using assms by (simp_all add: wrap_defs ready_def calm_def writing_def)

lemma access_second:
  assumes "writing RMW_PHASE_RD a we d s"
  shows "\<not> ram_we (ram_out i s)" "calm i \<Longrightarrow> writing RMW_PHASE_WR a we d (wrap_clock i q s)"
  using assms by (simp_all add: wrap_defs calm_def writing_def RMW_PHASE_RD_def)

lemma phase_neq: "RMW_PHASE_WR \<noteq> RMW_PHASE_RD" "RMW_PHASE_WR \<noteq> RMW_PHASE_PIPELINE"
  by (simp_all add: RMW_PHASE_WR_def RMW_PHASE_RD_def RMW_PHASE_PIPELINE_def)

lemma access_third:
  assumes "writing RMW_PHASE_WR a we d s"
  shows "edc_failed i s \<Longrightarrow> \<not> ram_we (ram_out i s)"
    "\<not> edc_failed i s \<Longrightarrow> ram_me (ram_out i s) \<and> ram_we (ram_out i s) \<and> ram_adr (ram_out i s) = a \<and>
       ram_di (ram_out i s) = encode_line a (mod_wdata we d (read_data i s))"
    "calm i \<Longrightarrow> ready (wrap_clock i q s)"
  using assms by (simp_all add: wrap_defs calm_def writing_def ready_def phase_neq)

lemma pipeline:
  "oedc_code (wrap_clock i q s) = q" "addr_q2 (wrap_clock i q s) = addr_q s"
  "non_rmw_rd_vld (wrap_clock i q s) = non_rmw_rd_q s" "rmw_rd_vld (wrap_clock i q s) = rmw_rd_q s"
  by (simp_all add: wrap_clock_def Let_def)

lemma mod_wdata_none [simp]: "mod_wdata 0 w d = d"
  by (rule bit_word_eqI) (simp add: mod_wdata_def bit_cat_bits)

lemma mod_wdata_all [simp]: "mod_wdata (- 1) w d = w"
  by (rule bit_word_eqI) (simp add: mod_wdata_def bit_cat_bits div_less_iff_less_mult)

text \<open>The states of an erase, \<open>n\<close> lines done; nothing that the inputs request disturbs it.\<close>

definition erasing :: "bool \<Rightarrow> nat \<Rightarrow> wrap_regs \<Rightarrow> bool" where
  "erasing engn n s = (erase_we (eras s) \<and> erase_addr (eras s) = word_of_nat (16 * n) \<and>
     full_erase_in_progress (eras s) = (\<not> engn))"

lemma erasing_start:
  assumes "ready s" "engn_erase_start_i i \<or> erase_start_i i"
  shows "erasing (engn_erase_start_i i) 0 (wrap_clock i q s)"
  using assms by (auto simp: erasing_def wrap_clock_def mem_erase_clock_def ready_def Let_def)

lemma erase_line: "n < 16384 \<Longrightarrow> (cat_bits (part 4 14 (word_of_nat (16 * n) :: 18 word)) :: 14 word) = word_of_nat n"
proof (rule bit_word_eqI)
  fix k assume "n < 16384" and k: "k < LENGTH(14)"
  have "16 * n = push_bit 4 n" by (simp add: push_bit_eq_mult)
  then show "bit (cat_bits (part 4 14 (word_of_nat (16 * n) :: 18 word)) :: 14 word) k = bit (word_of_nat n :: 14 word) k"
    using k by (simp add: bit_cat_bits bit_of_nat_iff bit_push_bit_iff_nat)
qed

lemma erasing_clock:
  assumes "erasing engn n s" "n < 16384"
  shows "ram_me (ram_out i s)" "ram_we (ram_out i s)" "ram_adr (ram_out i s) = word_of_nat n"
    "ram_di (ram_out i s) = encode_line (word_of_nat n) (erase_wdata_i i)"
    "Suc n < 16384 \<Longrightarrow> erasing engn (Suc n) (wrap_clock i q s) \<and>
       \<not> erase_done (eras (wrap_clock i q s)) \<and> \<not> engn_erase_done (eras (wrap_clock i q s))"
    "Suc n = 16384 \<Longrightarrow> \<not> erase_we (eras (wrap_clock i q s)) \<and>
       erase_done (eras (wrap_clock i q s)) = (\<not> engn) \<and> engn_erase_done (eras (wrap_clock i q s)) = engn \<and>
       \<not> full_erase_in_progress (eras (wrap_clock i q s))"
proof -
  have e: "(word_of_nat (16 * n) = (ERASE_END_ADDR :: 18 word)) \<longleftrightarrow> n = 16383"
  proof -
    have "unat (word_of_nat (16 * n) :: 18 word) = 16 * n" using assms(2)
      by (simp add: unsigned_of_nat take_bit_nat_eq_self del: of_nat_mult)
    then show ?thesis by (auto simp: ERASE_END_ADDR_def word_unat_eq_iff)
  qed
  show "ram_me (ram_out i s)" "ram_we (ram_out i s)" "ram_adr (ram_out i s) = word_of_nat n"
    "ram_di (ram_out i s) = encode_line (word_of_nat n) (erase_wdata_i i)"
    using assms erase_line [OF assms(2)]
    by (simp_all add: erasing_def ram_out_def Let_def iedc_addr_def iedc_data_def)
  show "Suc n < 16384 \<Longrightarrow> erasing engn (Suc n) (wrap_clock i q s) \<and>
       \<not> erase_done (eras (wrap_clock i q s)) \<and> \<not> engn_erase_done (eras (wrap_clock i q s))"
    using assms e
    by (auto simp: erasing_def wrap_clock_def mem_erase_clock_def Let_def new_engn_erase_done_def
      new_erase_done_def ERASE_NBYTES_def)
  show "Suc n = 16384 \<Longrightarrow> \<not> erase_we (eras (wrap_clock i q s)) \<and>
       erase_done (eras (wrap_clock i q s)) = (\<not> engn) \<and> engn_erase_done (eras (wrap_clock i q s)) = engn \<and>
       \<not> full_erase_in_progress (eras (wrap_clock i q s))"
    using assms e
    by (auto simp: erasing_def wrap_clock_def mem_erase_clock_def Let_def new_engn_erase_done_def
      new_erase_done_def)
qed

lemma unat_eq_line: "n < 16384 \<Longrightarrow> word_of_nat n = (a :: 14 word) \<longleftrightarrow> unat a = n"
  by (auto simp: unsigned_of_nat take_bit_nat_eq_self)

section \<open>The memory macro\<close>

text \<open>The behaviour of a synchronous single-port memory: a write changes the addressed line only,
  anything else changes none, and the clock after a read delivers the line.\<close>

locale sync_ram =
  fixes ram_clock :: "ram_port \<Rightarrow> 'm \<Rightarrow> 'm"
    and ram_q :: "'m \<Rightarrow> 156 word"
    and cells :: "'m \<Rightarrow> 14 word \<Rightarrow> 156 word"
  assumes ram_write: "ram_me p \<Longrightarrow> ram_we p \<Longrightarrow> cells (ram_clock p m) = (cells m)(ram_adr p := ram_di p)"
    and ram_keep: "\<not> ram_we p \<Longrightarrow> cells (ram_clock p m) = cells m"
    and ram_read: "ram_me p \<Longrightarrow> \<not> ram_we p \<Longrightarrow> ram_q (ram_clock p m) = cells m (ram_adr p)"
begin

lemma second_clock:
  assumes "ready s" "en_i i0" "we_i i0 \<noteq> NOT 0"
    and sm: "(s2, m2) = sys_clock ram_clock ram_q i1 (sys_clock ram_clock ram_q i0 (s, m))"
  shows "oedc_code s2 = cells m (addr_i i0)" "addr_q2 s2 = addr_i i0" "non_rmw_rd_vld s2 \<or> rmw_rd_vld s2"
    "we_i i0 = 0 \<Longrightarrow> non_rmw_rd_vld s2"
  using access_read [OF assms(1,2)] access_partial [OF assms(1,2) _ assms(3)] sm
  by (cases "we_i i0 = 0"; simp add: sys_clock_def pipeline ram_read)+

lemma partial_slot:
  assumes "ready s" "en_i i0" "we_i i0 \<noteq> 0" "we_i i0 \<noteq> NOT 0" "calm i0" "calm i1" "calm i2"
    and s2: "(s2, m2) = sys_clock ram_clock ram_q i1 (sys_clock ram_clock ram_q i0 (s, m))"
    and s3: "(s3, m3) = sys_clock ram_clock ram_q i2 (s2, m2)"
  shows "ready s3" "edc_failed i2 s2 \<Longrightarrow> cells m3 = cells m"
    "\<not> edc_failed i2 s2 \<Longrightarrow> cells m3 = (cells m)(addr_i i0 :=
       encode_line (addr_i i0) (mod_wdata (we_i i0) (wdata_i i0) (read_data i2 s2)))"
proof -
  note p = access_partial [OF assms(1-4)]
  obtain s1 m1 where 1: "sys_clock ram_clock ram_q i0 (s, m) = (s1, m1)" by (cases rule: prod.exhaust)
  then have w1: "writing RMW_PHASE_RD (addr_i i0) (we_i i0) (wdata_i i0) s1" and c1: "cells m1 = cells m"
    using p(6) [OF assms(5)] p(2) by (auto simp: sys_clock_def ram_keep)
  note q = access_second [OF w1]
  have w2: "writing RMW_PHASE_WR (addr_i i0) (we_i i0) (wdata_i i0) s2" and c2: "cells m2 = cells m1"
    using s2 q(2) [OF assms(6)] q(1) unfolding 1 by (auto simp: sys_clock_def ram_keep)
  note r = access_third [OF w2, of i2]
  show "ready s3" using s3 r(3) [OF assms(7)] by (simp add: sys_clock_def)
  show "edc_failed i2 s2 \<Longrightarrow> cells m3 = cells m"
    using s3 r(1) by (simp add: sys_clock_def ram_keep c1 c2)
  show "\<not> edc_failed i2 s2 \<Longrightarrow> cells m3 = (cells m)(addr_i i0 :=
       encode_line (addr_i i0) (mod_wdata (we_i i0) (wdata_i i0) (read_data i2 s2)))"
    using s3 r(2) by (simp add: sys_clock_def ram_write c1 c2)
qed

lemma idle_clock:
  assumes "ready s" "\<not> en_i i" "calm i" "(s', m') = sys_clock ram_clock ram_q i (s, m)"
  shows "ready s'" "cells m' = cells m"
  using assms access_idle [OF assms(1,2)] by (auto simp: sys_clock_def ram_keep)

lemma whole_slot:
  assumes "ready s" "en_i i0" "we_i i0 = 0 \<or> we_i i0 = NOT 0" "calm i0"
    "calm i1" "calm i2" "\<not> en_i i1" "\<not> en_i i2"
    and s2: "(s2, m2) = sys_clock ram_clock ram_q i1 (sys_clock ram_clock ram_q i0 (s, m))"
    and s3: "(s3, m3) = sys_clock ram_clock ram_q i2 (s2, m2)"
  shows "ready s3"
    "cells m3 = (if we_i i0 = 0 then cells m
       else (cells m)(addr_i i0 := encode_line (addr_i i0) (wdata_i i0)))"
proof -
  obtain s1 m1 where 1: "sys_clock ram_clock ram_q i0 (s, m) = (s1, m1)" by (cases rule: prod.exhaust)
  have 10: "ready s1" "cells m1 = (if we_i i0 = 0 then cells m
       else (cells m)(addr_i i0 := encode_line (addr_i i0) (wdata_i i0)))"
    using 1 assms(3) access_read [OF assms(1,2)] access_full [OF assms(1,2)] assms(4)
    by (auto simp: sys_clock_def ram_keep ram_write)
  have 2: "ready s2" "cells m2 = cells m1"
    using idle_clock [OF 10(1) assms(7,5)] s2 unfolding 1 by auto
  from idle_clock [OF this(1) assms(8,6) s3] 2 10 show "ready s3"
    "cells m3 = (if we_i i0 = 0 then cells m
       else (cells m)(addr_i i0 := encode_line (addr_i i0) (wdata_i i0)))" by auto
qed

lemma slot:
  assumes "ready s" and f: "\<And>a. near a (cells m a) (f a)" and "en_i i0" "calm i0" "calm i1" "calm i2"
    "\<not> en_i i1" "\<not> en_i i2" "\<not> err_chk_disable_i i2"
    and s2: "(s2, m2) = sys_clock ram_clock ram_q i1 (sys_clock ram_clock ram_q i0 (s, m))"
    and s3: "(s3, m3) = sys_clock ram_clock ram_q i2 (s2, m2)"
  shows "ready s3"
    "near a (cells m3 a) ((f(addr_i i0 := mod_wdata (we_i i0) (wdata_i i0) (f (addr_i i0)))) a)"
    "we_i i0 = 0 \<Longrightarrow> rdata_valid_o i2 s2 \<and> rdata_o i2 s2 = f (addr_i i0)"
proof -
  have rd: "\<not> edc_failed i2 s2" "read_data i2 s2 = f (addr_i i0)" if "we_i i0 \<noteq> NOT 0"
    using second_clock [OF assms(1,3) that s2] decode_near [OF f [of "addr_i i0"]] assms(9)
    by (simp_all add: edc_failed_def read_data_def)
  have "ready s3 \<and> near a (cells m3 a)
      ((f(addr_i i0 := mod_wdata (we_i i0) (wdata_i i0) (f (addr_i i0)))) a)"
  proof (cases "we_i i0 = 0 \<or> we_i i0 = NOT 0")
    case True
    from whole_slot [OF assms(1,3) True assms(4-8) s2 s3] True f show ?thesis
      by (auto simp: near_encode mod_wdata_none mod_wdata_all)
  next
    case False
    with partial_slot [OF assms(1,3) _ _ assms(4-6) s2 s3] rd f show ?thesis
      by (auto simp: near_encode)
  qed
  then show "ready s3"
    "near a (cells m3 a) ((f(addr_i i0 := mod_wdata (we_i i0) (wdata_i i0) (f (addr_i i0)))) a)" by auto
  show "we_i i0 = 0 \<Longrightarrow> rdata_valid_o i2 s2 \<and> rdata_o i2 s2 = f (addr_i i0)"
    using rd second_clock(4) [OF assms(1,3) _ s2] by (simp add: rdata_valid_o_def rdata_o_def)
qed

lemma failed_slot:
  assumes "ready s" "damaged (addr_i i0) (cells m (addr_i i0)) d" "en_i i0" "we_i i0 \<noteq> NOT 0" "calm i0"
    "calm i1" "calm i2" "\<not> en_i i1" "\<not> en_i i2" "\<not> err_chk_disable_i i2"
    and s2: "(s2, m2) = sys_clock ram_clock ram_q i1 (sys_clock ram_clock ram_q i0 (s, m))"
    and s3: "(s3, m3) = sys_clock ram_clock ram_q i2 (s2, m2)"
  shows "edc_failed i2 s2" "\<not> rdata_valid_o i2 s2" "rdata_o i2 s2 = err_rdata"
    "err_addr_o i2 s2 = addr_i i0" "cells m3 = cells m" "ready s3"
proof -
  note c = second_clock [OF assms(1,3,4) s2]
  show e: "edc_failed i2 s2"
    using c decode_damaged [OF assms(2)] assms(10) by (auto simp: edc_failed_def)
  then show "\<not> rdata_valid_o i2 s2" "rdata_o i2 s2 = err_rdata" "err_addr_o i2 s2 = addr_i i0"
    using c by (simp_all add: rdata_valid_o_def rdata_o_def err_addr_o_def)
  have "cells m3 = cells m \<and> ready s3"
  proof (cases "we_i i0 = 0")
    case True
    from whole_slot [OF assms(1,3) _ assms(5-9) s2 s3] True show ?thesis by simp
  next
    case False
    from partial_slot [OF assms(1,3) False assms(4-7) s2 s3] e show ?thesis by simp
  qed
  then show "cells m3 = cells m" "ready s3" by auto
qed

lemma erase_run:
  assumes "ready s" "engn_erase_start_i (i 0) \<or> erase_start_i (i 0)"
  shows "n < 16384 \<Longrightarrow> erasing (engn_erase_start_i (i 0)) n (fst (sys_run ram_clock ram_q i (Suc n) (s, m))) \<and>
    (\<forall>a. unat a < n \<longrightarrow>
      cells (snd (sys_run ram_clock ram_q i (Suc n) (s, m))) a = encode_line a (erase_wdata_i (i (Suc (unat a)))))"
proof (induction n)
  case 0
  then show ?case using erasing_start [OF assms] by (simp add: sys_clock_def)
next
  case (Suc n)
  obtain t u where tu: "sys_run ram_clock ram_q i (Suc n) (s, m) = (t, u)" by (cases rule: prod.exhaust)
  with Suc have e: "erasing (engn_erase_start_i (i 0)) n t" and c: "\<And>a. unat a < n \<Longrightarrow>
      cells u a = encode_line a (erase_wdata_i (i (Suc (unat a))))" by auto
  have n: "n < 16384" "Suc n < 16384" using Suc.prems by auto
  note k = erasing_clock [OF e n(1), where i = "i (Suc n)"]
  have "cells (ram_clock (ram_out (i (Suc n)) t) u) a = encode_line a (erase_wdata_i (i (Suc (unat a))))"
    if "unat a < Suc n" for a
    using that c [of a] unat_eq_line [of n a] n(1) by (auto simp: ram_write k(1-4) less_Suc_eq)
  with k(5) [OF n(2)] tu show ?case by (simp add: sys_clock_def)
qed

lemma erase_ends:
  assumes "ready s" "engn_erase_start_i (i 0) \<or> erase_start_i (i 0)"
    and tu: "sys_run ram_clock ram_q i 16385 (s, m) = (t, u)"
  shows "\<not> erase_we (eras t)" "erase_done (eras t) = (\<not> engn_erase_start_i (i 0))"
    "engn_erase_done (eras t) = engn_erase_start_i (i 0)"
    "cells u a = encode_line a (erase_wdata_i (i (Suc (unat a))))"
proof -
  obtain t' u' where tu': "sys_run ram_clock ram_q i (Suc 16383) (s, m) = (t', u')"
    by (cases rule: prod.exhaust)
  with erase_run [where n = 16383 and i = i and m = m, OF assms(1,2)] have e: "erasing (engn_erase_start_i (i 0)) 16383 t'"
    and c: "\<And>a. unat a < 16383 \<Longrightarrow> cells u' a = encode_line a (erase_wdata_i (i (Suc (unat a))))" by auto
  have n: "(16385 :: nat) = Suc (Suc 16383)" "Suc 16383 = 16384" by simp_all
  from tu have tu2: "sys_clock ram_clock ram_q (i 16384) (t', u') = (t, u)"
    using sys_run.simps(2) [of ram_clock ram_q i "Suc 16383" "(s, m)"] unfolding tu' by (simp only: n)
  note k = erasing_clock [OF e, where i = "i 16384"]
  show "\<not> erase_we (eras t)" "erase_done (eras t) = (\<not> engn_erase_start_i (i 0))"
    "engn_erase_done (eras t) = engn_erase_start_i (i 0)"
    using tu2 k(6) by (auto simp: sys_clock_def)
  have "unat a < 16384" using unsigned_less [of a] by simp
  then show "cells u a = encode_line a (erase_wdata_i (i (Suc (unat a))))"
    using tu2 c [of a] unat_eq_line [of 16383 a] k(1-4)
    by (cases "unat a = 16383") (auto simp: sys_clock_def ram_write)
qed

end

section \<open>What the wrapper guarantees\<close>

text \<open>A memory macro, to show that the requirements of the locale can be met.\<close>

definition simple_clock :: "ram_port \<Rightarrow> (14 word \<Rightarrow> 156 word) \<times> 156 word \<Rightarrow> (14 word \<Rightarrow> 156 word) \<times> 156 word" where
  "simple_clock p m = (case m of (cs, q) \<Rightarrow>
     if \<not> ram_me p then m else if ram_we p then (cs(ram_adr p := ram_di p), q) else (cs, cs (ram_adr p)))"

interpretation simple: sync_ram simple_clock snd fst
  by unfold_locales (auto simp: simple_clock_def split: prod.splits)

text \<open>C7: in front of any synchronous memory, the wrapper implements a memory of 128-bit lines
  that can be written by bytes. With every line intact up to one flipped bit in each of its four
  words, an access of three clocks (request, two clocks without a request) leaves every line intact
  up to one flipped bit, with the enabled bytes of the addressed line replaced and all others kept,
  and a read delivers the line, corrected, with the valid signal; the wrapper is then ready again.\<close>

theorem ram_refines_memory:
  assumes "sync_ram ram_clock ram_q cells" and "ready s" and "\<And>a. near a (cells m a) (f a)"
    and "en_i i0" "calm i0" "calm i1" "calm i2" "\<not> en_i i1" "\<not> en_i i2" "\<not> err_chk_disable_i i2"
    and "(s2, m2) = sys_clock ram_clock ram_q i1 (sys_clock ram_clock ram_q i0 (s, m))"
    and "(s3, m3) = sys_clock ram_clock ram_q i2 (s2, m2)"
  shows "ready s3 \<and>
    near a (cells m3 a) ((f(addr_i i0 := mod_wdata (we_i i0) (wdata_i i0) (f (addr_i i0)))) a) \<and>
    (we_i i0 = 0 \<longrightarrow> rdata_valid_o i2 s2 \<and> rdata_o i2 s2 = f (addr_i i0))"
  using sync_ram.slot [OF assms(1,2) assms(3) assms(4-12)] by blast

definition idle_in :: wrap_in where
  "idle_in = \<lparr>wdata_i = 0, addr_i = 0, en_i = False, we_i = 0, engn_erase_start_i = False, erase_start_i = False,
     erase_wdata_i = 0, inject_i = False, inject_addr_i = 0, inject_mask_i = 0, err_chk_disable_i = False\<rparr>"

lemma idle_in_facts: "calm idle_in" "\<not> en_i idle_in" "\<not> err_chk_disable_i idle_in" "ready wrap_reset"
  by (simp_all add: calm_def idle_in_def ready_def wrap_reset_def)

theorem ram_refines_memory_witness:
  "\<exists>s3 m3. (s3, m3) = sys_clock simple_clock snd idle_in (sys_clock simple_clock snd idle_in
     (sys_clock simple_clock snd (idle_in\<lparr>en_i := True, we_i := 1, wdata_i := 0xab, addr_i := 7\<rparr>)
       (wrap_reset, (\<lambda>a. encode_line a 0, 0)))) \<and>
     ready s3 \<and> near 7 (fst m3 7) (mod_wdata 1 0xab 0)"
proof -
  let ?i = "idle_in\<lparr>en_i := True, we_i := 1, wdata_i := 0xab, addr_i := 7\<rparr>"
  obtain s2 m2 where 2: "(s2, m2) = sys_clock simple_clock snd idle_in
      (sys_clock simple_clock snd ?i (wrap_reset, (\<lambda>a. encode_line a 0, 0)))"
    by (metis surj_pair)
  obtain s3 m3 where 3: "(s3, m3) = sys_clock simple_clock snd idle_in (s2, m2)" by (metis surj_pair)
  have "calm ?i" by (simp add: calm_def idle_in_def)
  with ram_refines_memory [OF simple.sync_ram_axioms idle_in_facts(4) _ _ _ idle_in_facts(1,1,2,2,3) 2 3,
      where f = "\<lambda>_. 0" and a = 7] have "ready s3 \<and> near 7 (fst m3 7) (mod_wdata 1 0xab 0)"
    by (auto simp: near_encode)
  with 3 show ?thesis unfolding 2 by blast
qed

text \<open>C24: a line with two flipped bits in one of its words is neither delivered nor used. A read and
  a partial write of it report an uncorrectable error with its address, the read delivers \<open>0xDEADBEEF\<close>
  in each word without the valid signal, the partial write does not write, and the wrapper is ready
  again after three clocks.\<close>

theorem ram_refuses_damaged_line:
  assumes "sync_ram ram_clock ram_q cells" and "ready s"
    and "damaged (addr_i i0) (cells m (addr_i i0)) d" and "en_i i0" "we_i i0 \<noteq> NOT 0" "calm i0"
    "calm i1" "calm i2" "\<not> en_i i1" "\<not> en_i i2" "\<not> err_chk_disable_i i2"
    and "(s2, m2) = sys_clock ram_clock ram_q i1 (sys_clock ram_clock ram_q i0 (s, m))"
    and "(s3, m3) = sys_clock ram_clock ram_q i2 (s2, m2)"
  shows "edc_failed i2 s2 \<and> \<not> rdata_valid_o i2 s2 \<and> rdata_o i2 s2 = err_rdata \<and>
    err_addr_o i2 s2 = addr_i i0 \<and> cells m3 = cells m \<and> ready s3"
  using sync_ram.failed_slot [OF assms] by blast

theorem ram_refuses_damaged_line_witness:
  "\<exists>s2 m2. (s2, m2) = sys_clock simple_clock snd idle_in
     (sys_clock simple_clock snd (idle_in\<lparr>en_i := True\<rparr>)
       (wrap_reset, (\<lambda>a. flip_bit 0 (flip_bit 1 (encode_line a 0)), 0))) \<and>
     edc_failed idle_in s2 \<and> rdata_o idle_in s2 = err_rdata"
proof -
  let ?i = "idle_in\<lparr>en_i := True\<rparr>" and ?c = "\<lambda>a. flip_bit 0 (flip_bit 1 (encode_line a 0))"
  obtain s2 m2 where 2: "(s2, m2) = sys_clock simple_clock snd idle_in
      (sys_clock simple_clock snd ?i (wrap_reset, (?c, 0)))"
    by (metis surj_pair)
  obtain s3 m3 where 3: "(s3, m3) = sys_clock simple_clock snd idle_in (s2, m2)" by (metis surj_pair)
  have "lane 39 0 (?c 0) = flip_bit 0 (flip_bit 1 (lane 39 0 (encode_line 0 0) :: 39 word))"
    by (rule bit_word_eqI) (auto simp: bit_lane bit_simps)
  then have "damaged 0 (?c 0) 0"
    unfolding damaged_def by (intro exI [of _ 0] conjI exI [of _ 1]) (simp_all add: encode_line_def lane_join)
  moreover have "calm ?i" "en_i ?i" "we_i ?i \<noteq> NOT 0" "addr_i ?i = 0"
    by (simp_all add: calm_def idle_in_def)
  ultimately have "edc_failed idle_in s2 \<and> rdata_o idle_in s2 = err_rdata"
    using ram_refuses_damaged_line [OF simple.sync_ram_axioms idle_in_facts(4) _ _ _ _ idle_in_facts(1,1,2,2,3) 2 3,
      where d = 0] by auto
  with 2 show ?thesis by blast
qed

text \<open>C32: an erase takes 16384 clocks after the clock of the request, whatever is requested
  meanwhile; then every line is the code word of the data that was driven in its clock, and the
  completion is signalled to the side that asked, to the engine or to the registers.\<close>

theorem ram_erase_completes:
  assumes "sync_ram ram_clock ram_q cells" and "ready s"
    and "engn_erase_start_i (i 0) \<or> erase_start_i (i 0)"
    and "sys_run ram_clock ram_q i 16385 (s, m) = (t, u)"
  shows "\<not> erase_we (eras t) \<and> erase_done (eras t) = (\<not> engn_erase_start_i (i 0)) \<and>
    engn_erase_done (eras t) = engn_erase_start_i (i 0) \<and>
    (\<forall>a. cells u a = encode_line a (erase_wdata_i (i (Suc (unat a)))))"
  using sync_ram.erase_ends [OF assms] by blast

theorem ram_erase_completes_witness:
  "fst (snd (sys_run simple_clock snd (\<lambda>_. idle_in\<lparr>erase_start_i := True, erase_wdata_i := 0x55\<rparr>) 16385
     (wrap_reset, (\<lambda>_. 0, 0)))) 9 = encode_line 9 0x55"
proof -
  let ?i = "idle_in\<lparr>erase_start_i := True, erase_wdata_i := 0x55\<rparr>"
  obtain t u where tu: "sys_run simple_clock snd (\<lambda>_. ?i) 16385 (wrap_reset, (\<lambda>_. 0, 0)) = (t, u)"
    by (metis surj_pair)
  from ram_erase_completes [OF simple.sync_ram_axioms idle_in_facts(4) _ this] show ?thesis
    unfolding tu by simp
qed

end
