(* ===== verification/AesField.thy ===== *)
theory AesField
  imports Prelude
begin

text \<open>
  The arithmetic of the AES core (\<open>src/src/aes/rtl\<close>): the core computes in the tower field
  GF(((2^2)^2)^2), built from XOR and NAND gates, and converts bytes on the way in and out. A byte of
  the core is a vector of eight bits, here nested pairs as the modules split it: the high half first.
  The theory relates this arithmetic to the field and the S-box of FIPS 197.
\<close>

type_synonym gf2 = "bool \<times> bool"
type_synonym gf4 = "gf2 \<times> gf2"
type_synonym gf8 = "gf4 \<times> gf4"

section \<open>Gates\<close>

definition aes_mtech_xor2 :: "bool \<Rightarrow> bool \<Rightarrow> bool" where "aes_mtech_xor2 A B = (A \<noteq> B)"
definition aes_mtech_nand2 :: "bool \<Rightarrow> bool \<Rightarrow> bool" where "aes_mtech_nand2 A B = (\<not> (A \<and> B))"
definition aes_gf1_and :: "bool \<Rightarrow> bool \<Rightarrow> bool" where "aes_gf1_and a b = (aes_mtech_nand2 a b \<noteq> True)"

section \<open>GF(4)\<close>

fun aes_gf2_add :: "gf2 \<Rightarrow> gf2 \<Rightarrow> gf2" where
  "aes_gf2_add (a1, a0) (b1, b0) = (aes_mtech_xor2 a1 b1, aes_mtech_xor2 a0 b0)"

fun aes_gf2_inv :: "gf2 \<Rightarrow> gf2" where
  "aes_gf2_inv (a1, a0) = (a1, aes_mtech_xor2 a0 a1)"

fun aes_gf2_squ :: "gf2 \<Rightarrow> gf2" where
  "aes_gf2_squ (a1, a0) = (a1, aes_mtech_xor2 a0 a1)"

fun aes_gf2_mulc :: "gf2 \<Rightarrow> gf2" where
  "aes_gf2_mulc (a1, a0) = (aes_mtech_xor2 a0 a1, a1)"

fun aes_gf2_mul :: "gf2 \<Rightarrow> gf2 \<Rightarrow> gf2" where
  "aes_gf2_mul (a1, a0) (b1, b0) =
    (let a0b0 = aes_gf1_and a0 b0;
         a1b1 = aes_gf1_and a1 b1;
         a1_a0 = aes_mtech_xor2 a1 a0;
         b1_b0 = aes_mtech_xor2 b1 b0;
         a1_a0b1_b0 = aes_gf1_and a1_a0 b1_b0
     in (aes_mtech_xor2 a1_a0b1_b0 a0b0, aes_mtech_xor2 a1b1 a0b0))"

section \<open>GF(16)\<close>

fun aes_gf4_add :: "gf4 \<Rightarrow> gf4 \<Rightarrow> gf4" where
  "aes_gf4_add (ah, al) (bh, bl) = (aes_gf2_add ah bh, aes_gf2_add al bl)"

fun aes_gf4_mulc :: "gf4 \<Rightarrow> gf4" where
  "aes_gf4_mulc ((a3, a2), (a1, a0)) =
    (let a0a1 = aes_mtech_xor2 a0 a1; a2a3 = aes_mtech_xor2 a2 a3
     in ((aes_mtech_xor2 a0a1 a2a3, aes_mtech_xor2 a1 a3), (a2, a2a3)))"

fun aes_gf4_squ :: "gf4 \<Rightarrow> gf4" where
  "aes_gf4_squ (ah, al) =
    (let bh = aes_gf2_squ ah; al2 = aes_gf2_squ al; bhmbeta = aes_gf2_mulc bh
     in (bh, aes_gf2_add bhmbeta al2))"

fun aes_gf4_mul :: "gf4 \<Rightarrow> gf4 \<Rightarrow> gf4" where
  "aes_gf4_mul (ah, al) (bh, bl) =
    (let albl = aes_gf2_mul al bl;
         ah_al = aes_gf2_add ah al;
         bh_bl = aes_gf2_add bh bl;
         ah_albh_bl = aes_gf2_mul ah_al bh_bl;
         ahbh = aes_gf2_mul ah bh;
         ahbhmbeta = aes_gf2_mulc ahbh
     in (aes_gf2_add ah_albh_bl albl, aes_gf2_add albl ahbhmbeta))"

fun aes_gf4_inv :: "gf4 \<Rightarrow> gf4" where
  "aes_gf4_inv (ah, al) =
    (let ah2 = aes_gf2_squ ah;
         ah2mbeta = aes_gf2_mulc ah2;
         ah_al = aes_gf2_add ah al;
         alah_al = aes_gf2_mul al ah_al;
         theta = aes_gf2_add ah2mbeta alah_al;
         inv_theta = aes_gf2_inv theta
     in (aes_gf2_mul inv_theta ah, aes_gf2_mul inv_theta ah_al))"

section \<open>GF(256)\<close>

fun aes_gf8_mul :: "gf8 \<Rightarrow> gf8 \<Rightarrow> gf8" where
  "aes_gf8_mul (ah, al) (bh, bl) =
    (let albl = aes_gf4_mul al bl;
         ah_al = aes_gf4_add ah al;
         bh_bl = aes_gf4_add bh bl;
         ah_albh_bl = aes_gf4_mul ah_al bh_bl;
         ahbh = aes_gf4_mul ah bh;
         ahbhmalpha = aes_gf4_mulc ahbh
     in (aes_gf4_add ah_albh_bl albl, aes_gf4_add albl ahbhmalpha))"

fun aes_gf8_inv :: "gf8 \<Rightarrow> gf8" where
  "aes_gf8_inv (ah, al) =
    (let ah2 = aes_gf4_squ ah;
         ah2malpha = aes_gf4_mulc ah2;
         ah_al = aes_gf4_add ah al;
         alah_al = aes_gf4_mul al ah_al;
         theta = aes_gf4_add ah2malpha alah_al;
         inv_theta = aes_gf4_inv theta
     in (aes_gf4_mul inv_theta ah, aes_gf4_mul inv_theta ah_al))"

text \<open>The operator \<open>^\<close> on bytes.\<close>

definition gf8_xor :: "gf8 \<Rightarrow> gf8 \<Rightarrow> gf8" where
  "gf8_xor a b = (aes_gf4_add (fst a) (fst b), aes_gf4_add (snd a) (snd b))"

section \<open>Affine maps\<close>

text \<open>The bits of a byte, \<open>a[0]\<close> first.\<close>

fun bits8 :: "gf8 \<Rightarrow> bool list" where
  "bits8 (((a7, a6), (a5, a4)), ((a3, a2), (a1, a0))) = [a0, a1, a2, a3, a4, a5, a6, a7]"

definition vec8 :: "bool list \<Rightarrow> gf8" where
  "vec8 b = (((b ! 7, b ! 6), (b ! 5, b ! 4)), ((b ! 3, b ! 2), (b ! 1, b ! 0)))"

definition byte :: "u8 \<Rightarrow> gf8" where "byte w = vec8 (part 0 8 w)"
definition unbyte :: "gf8 \<Rightarrow> u8" where "unbyte a = cat_bits (bits8 a)"

definition aes_affine_mul :: "u8 list \<Rightarrow> gf8 \<Rightarrow> gf8" where
  "aes_affine_mul m a = vec8 (map (\<lambda>r. red_xor (map2 (\<and>) (part 0 8 r) (bits8 a))) m)"

definition TM :: "u8 list" where
  "TM = [0x03, 0x34, 0x9c, 0x68, 0x70, 0x0c, 0xde, 0xa0]"

definition TMI :: "u8 list" where
  "TMI = [0xf1, 0xf0, 0xa6, 0x86, 0x9e, 0x3a, 0xb4, 0xba]"

definition AFM :: "u8 list" where
  "AFM = [0x6e, 0x62, 0xa1, 0xdf, 0xfb, 0x32, 0xa4, 0x58]"

definition AFMI :: "u8 list" where
  "AFMI = [0xe5, 0x94, 0xa1, 0xa2, 0x0d, 0xb9, 0x2f, 0x58]"

definition aes_affine_mul_t :: "gf8 \<Rightarrow> gf8" where "aes_affine_mul_t a = aes_affine_mul TM a"
definition aes_affine_mul_ti :: "gf8 \<Rightarrow> gf8" where "aes_affine_mul_ti a = aes_affine_mul TMI a"

definition aes_basic_affine_mul_m :: "gf8 \<Rightarrow> gf8" where
  "aes_basic_affine_mul_m a = gf8_xor (aes_affine_mul AFM a) (byte 0x82)"

definition aes_basic_affine_mul_mi :: "gf8 \<Rightarrow> gf8" where
  "aes_basic_affine_mul_mi a = gf8_xor (aes_affine_mul AFMI a) (byte 0x67)"

section \<open>The S-box\<close>

text \<open>The logic before the register \<open>invi_mdpl_r\<close> and the logic behind it; \<open>dir_i\<close> is encryption.\<close>

definition sbox_in :: "bool \<Rightarrow> gf8 \<Rightarrow> gf8" where
  "sbox_in dir_i sbox_i = (if dir_i then sbox_i else aes_basic_affine_mul_mi sbox_i)"

definition sbox_out :: "bool \<Rightarrow> gf8 \<Rightarrow> gf8" where
  "sbox_out dir_i invi = (let invo = aes_gf8_inv invi in
     if dir_i then aes_basic_affine_mul_m invo else invo)"

section \<open>FIPS 197\<close>

definition xtime :: "u8 \<Rightarrow> u8" where
  "xtime x = push_bit 1 x XOR (if bit x 7 then 0x1b else 0)"

text \<open>The product of the field, by the bits of the first factor.\<close>

definition gmul :: "u8 \<Rightarrow> u8 \<Rightarrow> u8" where
  "gmul a b = fold (\<lambda>i r. r XOR (if bit a i then (xtime ^^ i) b else 0)) [0..<8] 0"

text \<open>The substitution table of the standard (figure 7).\<close>

definition sbox_table :: "u8 list" where
  "sbox_table =
    [0x63, 0x7c, 0x77, 0x7b, 0xf2, 0x6b, 0x6f, 0xc5, 0x30, 0x01, 0x67, 0x2b, 0xfe, 0xd7, 0xab, 0x76,
     0xca, 0x82, 0xc9, 0x7d, 0xfa, 0x59, 0x47, 0xf0, 0xad, 0xd4, 0xa2, 0xaf, 0x9c, 0xa4, 0x72, 0xc0,
     0xb7, 0xfd, 0x93, 0x26, 0x36, 0x3f, 0xf7, 0xcc, 0x34, 0xa5, 0xe5, 0xf1, 0x71, 0xd8, 0x31, 0x15,
     0x04, 0xc7, 0x23, 0xc3, 0x18, 0x96, 0x05, 0x9a, 0x07, 0x12, 0x80, 0xe2, 0xeb, 0x27, 0xb2, 0x75,
     0x09, 0x83, 0x2c, 0x1a, 0x1b, 0x6e, 0x5a, 0xa0, 0x52, 0x3b, 0xd6, 0xb3, 0x29, 0xe3, 0x2f, 0x84,
     0x53, 0xd1, 0x00, 0xed, 0x20, 0xfc, 0xb1, 0x5b, 0x6a, 0xcb, 0xbe, 0x39, 0x4a, 0x4c, 0x58, 0xcf,
     0xd0, 0xef, 0xaa, 0xfb, 0x43, 0x4d, 0x33, 0x85, 0x45, 0xf9, 0x02, 0x7f, 0x50, 0x3c, 0x9f, 0xa8,
     0x51, 0xa3, 0x40, 0x8f, 0x92, 0x9d, 0x38, 0xf5, 0xbc, 0xb6, 0xda, 0x21, 0x10, 0xff, 0xf3, 0xd2,
     0xcd, 0x0c, 0x13, 0xec, 0x5f, 0x97, 0x44, 0x17, 0xc4, 0xa7, 0x7e, 0x3d, 0x64, 0x5d, 0x19, 0x73,
     0x60, 0x81, 0x4f, 0xdc, 0x22, 0x2a, 0x90, 0x88, 0x46, 0xee, 0xb8, 0x14, 0xde, 0x5e, 0x0b, 0xdb,
     0xe0, 0x32, 0x3a, 0x0a, 0x49, 0x06, 0x24, 0x5c, 0xc2, 0xd3, 0xac, 0x62, 0x91, 0x95, 0xe4, 0x79,
     0xe7, 0xc8, 0x37, 0x6d, 0x8d, 0xd5, 0x4e, 0xa9, 0x6c, 0x56, 0xf4, 0xea, 0x65, 0x7a, 0xae, 0x08,
     0xba, 0x78, 0x25, 0x2e, 0x1c, 0xa6, 0xb4, 0xc6, 0xe8, 0xdd, 0x74, 0x1f, 0x4b, 0xbd, 0x8b, 0x8a,
     0x70, 0x3e, 0xb5, 0x66, 0x48, 0x03, 0xf6, 0x0e, 0x61, 0x35, 0x57, 0xb9, 0x86, 0xc1, 0x1d, 0x9e,
     0xe1, 0xf8, 0x98, 0x11, 0x69, 0xd9, 0x8e, 0x94, 0x9b, 0x1e, 0x87, 0xe9, 0xce, 0x55, 0x28, 0xdf,
     0x8c, 0xa1, 0x89, 0x0d, 0xbf, 0xe6, 0x42, 0x68, 0x41, 0x99, 0x2d, 0x0f, 0xb0, 0x54, 0xbb, 0x16]"

definition sub_byte :: "u8 \<Rightarrow> u8" where "sub_byte x = sbox_table ! unat x"

section \<open>Evaluation\<close>

text \<open>The affine maps as formulas, for the evaluation over all bytes.\<close>

lemmas affine_defs = aes_affine_mul_def vec8_def part_def upt_from_0 upt_rec_numeral

lemma affine_t [code]: "aes_affine_mul_t (((a7, a6), (a5, a4)), ((a3, a2), (a1, a0))) =
  ((((a5 \<noteq> a7),
    (a1 \<noteq> (a2 \<noteq> (a3 \<noteq> (a4 \<noteq> (a6 \<noteq> a7)))))),
    ((a2 \<noteq> a3),
    (a4 \<noteq> (a5 \<noteq> a6)))),
    (((a3 \<noteq> (a5 \<noteq> a6)),
    (a2 \<noteq> (a3 \<noteq> (a4 \<noteq> a7)))),
    ((a2 \<noteq> (a4 \<noteq> a5)),
    (a0 \<noteq> a1))))"
  by (simp add: aes_affine_mul_t_def TM_def affine_defs)

lemma affine_ti [code]: "aes_affine_mul_ti (((a7, a6), (a5, a4)), ((a3, a2), (a1, a0))) =
  ((((a1 \<noteq> (a3 \<noteq> (a4 \<noteq> (a5 \<noteq> a7)))),
    (a2 \<noteq> (a4 \<noteq> (a5 \<noteq> a7)))),
    ((a1 \<noteq> (a3 \<noteq> (a4 \<noteq> a5))),
    (a1 \<noteq> (a2 \<noteq> (a3 \<noteq> (a4 \<noteq> a7)))))),
    (((a1 \<noteq> (a2 \<noteq> a7)),
    (a1 \<noteq> (a2 \<noteq> (a5 \<noteq> a7)))),
    ((a4 \<noteq> (a5 \<noteq> (a6 \<noteq> a7))),
    (a0 \<noteq> (a4 \<noteq> (a5 \<noteq> (a6 \<noteq> a7)))))))"
  by (simp add: aes_affine_mul_ti_def TMI_def affine_defs)

lemma affine_m [code]: "aes_basic_affine_mul_m (((a7, a6), (a5, a4)), ((a3, a2), (a1, a0))) =
  (((\<not> (a3 \<noteq> (a4 \<noteq> a6)),
    (a2 \<noteq> (a5 \<noteq> a7))),
    ((a1 \<noteq> (a4 \<noteq> a5)),
    (a0 \<noteq> (a1 \<noteq> (a3 \<noteq> (a4 \<noteq> (a5 \<noteq> (a6 \<noteq> a7)))))))),
    (((a0 \<noteq> (a1 \<noteq> (a2 \<noteq> (a3 \<noteq> (a4 \<noteq> (a6 \<noteq> a7)))))),
    (a0 \<noteq> (a5 \<noteq> a7))),
    (\<not> (a1 \<noteq> (a5 \<noteq> a6)),
    (a1 \<noteq> (a2 \<noteq> (a3 \<noteq> (a5 \<noteq> a6)))))))"
  by (simp add: aes_basic_affine_mul_m_def AFM_def affine_defs gf8_xor_def byte_def aes_mtech_xor2_def)

lemma affine_mi [code]: "aes_basic_affine_mul_mi (((a7, a6), (a5, a4)), ((a3, a2), (a1, a0))) =
  ((((a3 \<noteq> (a4 \<noteq> a6)),
    \<not> (a0 \<noteq> (a1 \<noteq> (a2 \<noteq> (a3 \<noteq> a5))))),
    (\<not> (a0 \<noteq> (a3 \<noteq> (a4 \<noteq> (a5 \<noteq> a7)))),
    (a0 \<noteq> (a2 \<noteq> a3)))),
    (((a1 \<noteq> (a5 \<noteq> a7)),
    \<not> (a0 \<noteq> (a5 \<noteq> a7))),
    (\<not> (a2 \<noteq> (a4 \<noteq> a7)),
    \<not> (a0 \<noteq> (a2 \<noteq> (a5 \<noteq> (a6 \<noteq> a7)))))))"
  by (simp add: aes_basic_affine_mul_mi_def AFMI_def affine_defs gf8_xor_def byte_def aes_mtech_xor2_def)

text \<open>What is checked on every byte; the enumeration of the type is in ascending order.\<close>

definition t_inverse :: "gf8 \<Rightarrow> bool" where
  "t_inverse v = (aes_affine_mul_ti (aes_affine_mul_t v) = v \<and> aes_affine_mul_t (aes_affine_mul_ti v) = v)"

definition m_inverse :: "gf8 \<Rightarrow> bool" where
  "m_inverse v = (aes_basic_affine_mul_mi (aes_basic_affine_mul_m v) = v \<and>
     aes_basic_affine_mul_m (aes_basic_affine_mul_mi v) = v)"

definition inv_inverse :: "gf8 \<Rightarrow> bool" where
  "inv_inverse v = (aes_gf8_inv (aes_gf8_inv v) = v)"

definition inv_reciprocal :: "gf8 \<Rightarrow> bool" where
  "inv_reciprocal v = (v = byte 0 \<or> aes_gf8_mul v (aes_gf8_inv v) = aes_affine_mul_t (byte 1))"

definition encryption_sbox :: "gf8 \<Rightarrow> gf8" where
  "encryption_sbox v = aes_affine_mul_ti (sbox_out True (aes_affine_mul_t v))"

lemma enum_checks:
  "list_all t_inverse Enum.enum" "list_all m_inverse Enum.enum" "list_all inv_inverse Enum.enum"
  "list_all inv_reciprocal Enum.enum" "map encryption_sbox Enum.enum = map byte sbox_table"
  "Enum.enum = map (byte \<circ> word_of_nat) [0..<256]"
  by code_simp+

lemma enumI: "list_all P Enum.enum \<Longrightarrow> P (v :: gf8)"
  unfolding list_all_iff UNIV_enum [symmetric] by blast

text \<open>The double of a byte, on the bits.\<close>

fun xt8 :: "gf8 \<Rightarrow> gf8" where
  "xt8 (((a7, a6), (a5, a4)), ((a3, a2), (a1, a0))) =
    (((a6, a5), (a4, a3 \<noteq> a7)), ((a2 \<noteq> a7, a1), (a0 \<noteq> a7, a7)))"

section \<open>Linearity\<close>

lemmas gate_defs = aes_mtech_xor2_def aes_mtech_nand2_def aes_gf1_and_def

lemma gf2_simps:
  "aes_gf2_add a b = aes_gf2_add b a"
  "aes_gf2_add (aes_gf2_add a b) c = aes_gf2_add a (aes_gf2_add b c)"
  "aes_gf2_add a (aes_gf2_add b c) = aes_gf2_add b (aes_gf2_add a c)"
  by (cases a; cases b; cases c; auto simp: gate_defs)+

lemma gf2_linear:
  "aes_gf2_mul (aes_gf2_add a b) c = aes_gf2_add (aes_gf2_mul a c) (aes_gf2_mul b c)"
  "aes_gf2_mul c (aes_gf2_add a b) = aes_gf2_add (aes_gf2_mul c a) (aes_gf2_mul c b)"
  "aes_gf2_mulc (aes_gf2_add a b) = aes_gf2_add (aes_gf2_mulc a) (aes_gf2_mulc b)"
  by (cases a; cases b; cases c; auto simp: gate_defs Let_def)+

declare aes_gf2_add.simps [simp del] aes_gf2_mul.simps [simp del] aes_gf2_mulc.simps [simp del]

lemma gf4_simps:
  "aes_gf4_add a b = aes_gf4_add b a"
  "aes_gf4_add (aes_gf4_add a b) c = aes_gf4_add a (aes_gf4_add b c)"
  "aes_gf4_add a (aes_gf4_add b c) = aes_gf4_add b (aes_gf4_add a c)"
  by (cases a rule: prod.exhaust; cases b rule: prod.exhaust; cases c rule: prod.exhaust; simp add: gf2_simps)+

lemma gf4_linear:
  "aes_gf4_mul (aes_gf4_add a b) c = aes_gf4_add (aes_gf4_mul a c) (aes_gf4_mul b c)"
  "aes_gf4_mul c (aes_gf4_add a b) = aes_gf4_add (aes_gf4_mul c a) (aes_gf4_mul c b)"
  "aes_gf4_mulc (aes_gf4_add a b) = aes_gf4_add (aes_gf4_mulc a) (aes_gf4_mulc b)"
  subgoal by (cases a rule: prod.exhaust; cases b rule: prod.exhaust; cases c rule: prod.exhaust; simp add: gf2_simps gf2_linear Let_def)
  subgoal by (cases a rule: prod.exhaust; cases b rule: prod.exhaust; cases c rule: prod.exhaust; simp add: gf2_simps gf2_linear Let_def)
  subgoal by (cases a rule: aes_gf4_mulc.cases; cases b rule: aes_gf4_mulc.cases; auto simp: gate_defs Let_def aes_gf2_add.simps)
  done

declare aes_gf4_add.simps [simp del] aes_gf4_mul.simps [simp del] aes_gf4_mulc.simps [simp del]

lemma gf8_add: "gf8_xor (ah, al) (bh, bl) = (aes_gf4_add ah bh, aes_gf4_add al bl)"
  by (simp add: gf8_xor_def)

lemma gf8_simps:
  "gf8_xor a b = gf8_xor b a"
  "gf8_xor (gf8_xor a b) c = gf8_xor a (gf8_xor b c)"
  "gf8_xor a (gf8_xor b c) = gf8_xor b (gf8_xor a c)"
  by (cases a rule: prod.exhaust; cases b rule: prod.exhaust; cases c rule: prod.exhaust; simp add: gf4_simps gf8_add)+

lemma gf8_linear:
  "aes_gf8_mul (gf8_xor a b) c = gf8_xor (aes_gf8_mul a c) (aes_gf8_mul b c)"
  "aes_gf8_mul c (gf8_xor a b) = gf8_xor (aes_gf8_mul c a) (aes_gf8_mul c b)"
  by (cases a rule: prod.exhaust; cases b rule: prod.exhaust; cases c rule: prod.exhaust; simp add: gf4_simps gf4_linear gf8_add Let_def)+

text \<open>A linear map is determined by its values on the powers of two.\<close>

definition additive :: "(gf8 \<Rightarrow> gf8) \<Rightarrow> bool" where
  "additive f = (\<forall>a b. f (gf8_xor a b) = gf8_xor (f a) (f b))"

lemma additiveD: "additive f \<Longrightarrow> f (gf8_xor a b) = gf8_xor (f a) (f b)"
  unfolding additive_def by blast

definition powers :: "gf8 list" where
  "powers = map (\<lambda>i. vec8 ((replicate 8 False)[i := True])) [0..<8]"

fun combine :: "bool list \<Rightarrow> gf8 list \<Rightarrow> gf8" where
  "combine (b # bs) (p # ps) = (if b then gf8_xor p (combine bs ps) else combine bs ps)"
| "combine _ _ = byte 0"

definition combine_ok :: "gf8 \<Rightarrow> bool" where
  "combine_ok v = (combine (bits8 v) powers = v)"

lemma combine_powers_all: "list_all combine_ok Enum.enum"
  by code_simp

lemma additive_zero: "additive f \<Longrightarrow> f (byte 0) = byte 0"
proof -
  assume "additive f"
  then have "f (gf8_xor (byte 0) (byte 0)) = gf8_xor (f (byte 0)) (f (byte 0))" by (rule additiveD)
  moreover have "gf8_xor a a = byte 0" for a
    by (cases a rule: xt8.cases) (simp add: gf8_xor_def gate_defs aes_gf4_add.simps aes_gf2_add.simps byte_def vec8_def)
  ultimately show ?thesis by simp
qed

lemma additive_combine: "additive f \<Longrightarrow> f (combine bs ps) = combine bs (map f ps)"
  by (induction bs ps rule: combine.induct) (simp_all add: additive_zero additiveD)

lemma additive_eqI:
  assumes "additive f" "additive g" "map f powers = map g powers"
  shows "f v = g v"
  using additive_combine [OF assms(1), of "bits8 v" powers] additive_combine [OF assms(2), of "bits8 v" powers]
    assms(3) enumI [OF combine_powers_all, of v] by (simp add: combine_ok_def)

lemma bits8_xor: "bits8 (gf8_xor a b) = map2 (\<noteq>) (bits8 a) (bits8 b)"
  by (cases a rule: bits8.cases; cases b rule: bits8.cases)
    (simp add: gf8_xor_def gate_defs aes_gf4_add.simps aes_gf2_add.simps)

lemma vec8_xor:
  "length xs = 8 \<Longrightarrow> length ys = 8 \<Longrightarrow> vec8 (map2 (\<noteq>) xs ys) = gf8_xor (vec8 xs) (vec8 ys)"
  by (simp add: vec8_def gf8_xor_def gate_defs aes_gf4_add.simps aes_gf2_add.simps)

lemma red_xor_and_sum:
  "length r = length xs \<Longrightarrow> length xs = length ys \<Longrightarrow>
    red_xor (map2 (\<and>) r (map2 (\<noteq>) xs ys)) = (red_xor (map2 (\<and>) r xs) \<noteq> red_xor (map2 (\<and>) r ys))"
  by (induction r xs ys rule: list_induct3) auto

lemma affine_mul_additive:
  assumes "length m = 8"
  shows "aes_affine_mul m (gf8_xor a b) = gf8_xor (aes_affine_mul m a) (aes_affine_mul m b)"
proof -
  have "length (bits8 v) = 8" for v by (cases v rule: bits8.cases) simp
  then have r: "red_xor (map2 (\<and>) (part 0 8 r) (bits8 (gf8_xor a b))) =
      (red_xor (map2 (\<and>) (part 0 8 r) (bits8 a)) \<noteq> red_xor (map2 (\<and>) (part 0 8 r) (bits8 b)))" for r :: u8
    unfolding bits8_xor by (intro red_xor_and_sum) simp_all
  have "map (\<lambda>r. red_xor (map2 (\<and>) (part 0 8 r) (bits8 (gf8_xor a b)))) m =
      map2 (\<noteq>) (map (\<lambda>r. red_xor (map2 (\<and>) (part 0 8 r) (bits8 a))) m)
        (map (\<lambda>r. red_xor (map2 (\<and>) (part 0 8 r) (bits8 b))) m)"
    by (intro nth_equalityI) (simp_all add: r)
  then show ?thesis by (simp add: aes_affine_mul_def assms flip: vec8_xor)
qed

lemma affine_additive:
  "aes_affine_mul_t (gf8_xor a b) = gf8_xor (aes_affine_mul_t a) (aes_affine_mul_t b)"
  "aes_affine_mul_ti (gf8_xor a b) = gf8_xor (aes_affine_mul_ti a) (aes_affine_mul_ti b)"
  by (simp_all add: aes_affine_mul_t_def aes_affine_mul_ti_def affine_mul_additive TM_def TMI_def)

lemma xt8_additive: "xt8 (gf8_xor a b) = gf8_xor (xt8 a) (xt8 b)"
  by (cases a rule: xt8.cases; cases b rule: xt8.cases; auto simp: gf8_xor_def gate_defs aes_gf4_add.simps aes_gf2_add.simps)

definition power_product :: "gf8 \<Rightarrow> gf8 \<Rightarrow> gf8" where
  "power_product p v = aes_gf8_mul (aes_affine_mul_t p) (aes_affine_mul_t v)"

definition iterated_double :: "nat \<Rightarrow> gf8 \<Rightarrow> gf8" where
  "iterated_double i v = aes_affine_mul_t ((xt8 ^^ i) v)"

definition power_row_ok :: "nat \<Rightarrow> bool" where
  "power_row_ok i = (map (power_product (powers ! i)) powers = map (iterated_double i) powers)"

lemma power_rows: "list_all power_row_ok [0..<8]"
  by code_simp

section \<open>The tower field is the field of the standard\<close>

lemma t_ti [simp]: "aes_affine_mul_t (aes_affine_mul_ti v) = v"
  and ti_t [simp]: "aes_affine_mul_ti (aes_affine_mul_t v) = v"
  using enumI [OF enum_checks(1), of v] by (simp_all add: t_inverse_def)

lemma m_mi [simp]: "aes_basic_affine_mul_m (aes_basic_affine_mul_mi v) = v"
  and mi_m [simp]: "aes_basic_affine_mul_mi (aes_basic_affine_mul_m v) = v"
  using enumI [OF enum_checks(2), of v] by (simp_all add: m_inverse_def)

lemma inv_inv [simp]: "aes_gf8_inv (aes_gf8_inv v) = v"
  using enumI [OF enum_checks(3), of v] by (simp add: inv_inverse_def)

lemma bits8_vec8: "length bs = 8 \<Longrightarrow> bits8 (vec8 bs) = bs"
  by (auto simp: vec8_def numeral_eq_Suc length_Suc_conv)

lemma vec8_bits8: "vec8 (bits8 v) = v"
  by (cases v rule: bits8.cases) (simp add: vec8_def)

lemma bits8_byte: "bits8 (byte w) = part 0 8 w"
  by (simp add: byte_def bits8_vec8)

lemma unbyte_byte [simp]: "unbyte (byte w) = w"
  using cat_part [of w] by (simp add: unbyte_def bits8_byte)

lemma length_bits8 [simp]: "length (bits8 v) = 8"
  by (cases v rule: bits8.cases) simp

lemma byte_unbyte [simp]: "byte (unbyte v) = v"
proof -
  have "part 0 8 (cat_bits (bits8 v) :: u8) = bits8 v"
    by (rule nth_equalityI) (simp_all add: bit_cat_bits)
  then show ?thesis by (simp add: byte_def unbyte_def vec8_bits8)
qed

lemma byte_xor: "byte (x XOR y) = gf8_xor (byte x) (byte y)"
  by (simp add: byte_def vec8_def gf8_xor_def aes_gf4_add.simps aes_gf2_add.simps aes_mtech_xor2_def
    bit_xor_iff)

lemma byte_xtime: "byte (xtime x) = xt8 (byte x)"
proof -
  define y where "y = push_bit 1 x"
  have "bit y n \<longleftrightarrow> n < 8 \<and> 0 < n \<and> bit x (n - 1)" for n
    unfolding y_def bit_push_bit_iff by auto
  then have b: "bit y 0 = False" "bit y 1 = bit x 0" "bit y 2 = bit x 1" "bit y 3 = bit x 2"
    "bit y 4 = bit x 3" "bit y 5 = bit x 4" "bit y 6 = bit x 5" "bit y 7 = bit x 6" by simp_all
  have x: "xtime x = y XOR (if bit x 7 then 0x1b else 0)" unfolding xtime_def y_def ..
  show ?thesis
    unfolding byte_def vec8_def x
    by (cases "bit x 7") (simp_all add: bit_xor_iff b b [unfolded numeral_2_eq_2 One_nat_def] numeral_2_eq_2)
qed

lemma byte_xtime_pow: "byte ((xtime ^^ i) x) = (xt8 ^^ i) (byte x)"
  by (induction i) (simp_all add: byte_xtime)

lemma xor_zero [simp]: "gf8_xor (byte 0) v = v" "gf8_xor v (byte 0) = v"
  by (cases v rule: bits8.cases; simp add: byte_def vec8_def gf8_xor_def aes_gf4_add.simps aes_gf2_add.simps
    aes_mtech_xor2_def)+

lemma combine_Cons: "combine (b # bs) (p # ps) = gf8_xor (if b then p else byte 0) (combine bs ps)"
  by simp

lemma byte_gmul:
  "byte (gmul a b) = combine (part 0 8 a) (map (\<lambda>i. (xt8 ^^ i) (byte b)) [0..<8])"
proof -
  have "byte (if c then (xtime ^^ i) b else 0) = (if c then (xt8 ^^ i) (byte b) else byte 0)" for c i
    by (simp add: byte_xtime_pow)
  then show ?thesis
    by (simp add: gmul_def part_def upt_from_0 upt_rec_numeral byte_xor combine_Cons gf8_simps
      del: combine.simps(1))
qed

lemma power_at:
  assumes "i < 8"
  shows "aes_gf8_mul (aes_affine_mul_t (powers ! i)) (aes_affine_mul_t v) = aes_affine_mul_t ((xt8 ^^ i) v)"
proof -
  have "power_row_ok i" using power_rows assms by (simp add: list_all_iff)
  then have m: "map (power_product (powers ! i)) powers = map (iterated_double i) powers"
    by (simp add: power_row_ok_def)
  have x: "(xt8 ^^ i) (gf8_xor a b) = gf8_xor ((xt8 ^^ i) a) ((xt8 ^^ i) b)" for a b
    by (induction i) (simp_all add: xt8_additive)
  have "additive (power_product (powers ! i))" "additive (iterated_double i)"
    unfolding additive_def power_product_def iterated_double_def
    by (auto simp only: affine_additive gf8_linear x)
  from additive_eqI [OF this m, of v] show ?thesis by (simp add: power_product_def iterated_double_def)
qed

lemma length_powers: "length powers = 8"
  by (simp add: powers_def)

lemma tower_product:
  "aes_gf8_mul (aes_affine_mul_t (byte a)) (aes_affine_mul_t (byte b)) = aes_affine_mul_t (byte (gmul a b))"
proof -
  let ?f = "\<lambda>u. aes_gf8_mul (aes_affine_mul_t u) (aes_affine_mul_t (byte b))"
  have f: "additive ?f" and t: "additive aes_affine_mul_t"
    unfolding additive_def by (auto simp only: affine_additive gf8_linear)
  have "byte a = combine (part 0 8 a) powers"
    using enumI [OF combine_powers_all, of "byte a"] by (simp add: combine_ok_def bits8_byte)
  then have "?f (byte a) = combine (part 0 8 a) (map ?f powers)"
    using additive_combine [OF f] by metis
  also have "map ?f powers = map aes_affine_mul_t (map (\<lambda>i. (xt8 ^^ i) (byte b)) [0..<8])"
    by (rule nth_equalityI) (simp_all add: length_powers power_at)
  also have "combine (part 0 8 a) \<dots> = aes_affine_mul_t (byte (gmul a b))"
    by (simp only: byte_gmul additive_combine [OF t])
  finally show ?thesis .
qed

lemma sbox_encrypts: "sbox_out True (aes_affine_mul_t (byte x)) = aes_affine_mul_t (byte (sub_byte x))"
proof -
  have x: "unat x < 256" using unsigned_less [of x] by simp
  have l: "length sbox_table = 256" by (simp add: sbox_table_def)
  have "encryption_sbox (byte x) = map encryption_sbox Enum.enum ! unat x"
    using x by (simp add: enum_checks(6))
  also have "\<dots> = byte (sub_byte x)"
    unfolding enum_checks(5) using x by (simp add: l sub_byte_def)
  finally show ?thesis unfolding encryption_sbox_def by (metis t_ti)
qed

lemma sbox_decrypts: "sbox_out False (sbox_in False (sbox_out True v)) = v"
  by (simp add: sbox_out_def sbox_in_def)

text \<open>The arithmetic of the AES core is that of FIPS 197. The conversion of bytes into the tower
  field and back are inverse to each other, the conversion takes sums to sums and products to
  products, and the inverter delivers the multiplicative inverse of every byte that is not zero.\<close>

lemma tower_field_is_aes_field:
  assumes "a \<noteq> 0"
  shows "aes_gf8_mul (aes_affine_mul_t (byte a)) (aes_affine_mul_t (byte b)) = aes_affine_mul_t (byte (gmul a b)) \<and>
    gf8_xor (aes_affine_mul_t (byte a)) (aes_affine_mul_t (byte b)) = aes_affine_mul_t (byte (a XOR b)) \<and>
    unbyte (aes_affine_mul_ti (aes_affine_mul_t (byte b))) = b \<and>
    gmul a (unbyte (aes_affine_mul_ti (aes_gf8_inv (aes_affine_mul_t (byte a))))) = 1"
proof -
  let ?v = "aes_affine_mul_t (byte a)"
  have "?v \<noteq> byte 0"
  proof
    assume "?v = byte 0"
    also have "byte 0 = aes_affine_mul_t (byte 0)" by code_simp
    finally have "unbyte (aes_affine_mul_ti ?v) = unbyte (aes_affine_mul_ti (aes_affine_mul_t (byte 0)))" by simp
    with assms show False by simp
  qed
  with enumI [OF enum_checks(4), of ?v]
  have "aes_gf8_mul ?v (aes_affine_mul_t (byte (unbyte (aes_affine_mul_ti (aes_gf8_inv ?v))))) = aes_affine_mul_t (byte 1)"
    by (simp add: inv_reciprocal_def)
  then have "aes_affine_mul_ti (aes_affine_mul_t (byte (gmul a (unbyte (aes_affine_mul_ti (aes_gf8_inv ?v)))))) =
      aes_affine_mul_ti (aes_affine_mul_t (byte 1))"
    unfolding tower_product by simp
  then have "unbyte (byte (gmul a (unbyte (aes_affine_mul_ti (aes_gf8_inv ?v))))) = unbyte (byte 1)"
    unfolding ti_t by simp
  then show ?thesis by (simp add: tower_product byte_xor affine_additive)
qed

end
