(* ===== verification/AesDatapath.thy ===== *)
theory AesDatapath
  imports AesField
begin

text \<open>
  The data path of the AES core (\<open>src/src/aes/rtl/aes_datapath.v\<close>, \<open>aes_round.v\<close> and the modules they use).
  One round takes one clock: the register sits in the middle of the S-boxes. The round keys come
  from \<open>aes_keyexp.v\<close>, which is not modelled: they are inputs here, in the tower field as that module
  delivers them. The reference is the cipher and the inverse cipher of FIPS 197 over given round keys.
\<close>

section \<open>Matrices\<close>

definition mat :: "(nat \<Rightarrow> nat \<Rightarrow> 'a) \<Rightarrow> 'a list list" where
  "mat f = map (\<lambda>i. map (f i) [0..<4]) [0..<4]"

lemma mat_nth [simp]: "i < 4 \<Longrightarrow> j < 4 \<Longrightarrow> mat f ! i ! j = f i j"
  by (simp add: mat_def)

lemma mat_cong: "(\<And>i j. i < 4 \<Longrightarrow> j < 4 \<Longrightarrow> f i j = g i j) \<Longrightarrow> mat f = mat g"
  by (simp add: mat_def)

definition wf_mat :: "'a list list \<Rightarrow> bool" where
  "wf_mat a = (length a = 4 \<and> (\<forall>i<4. length (a ! i) = 4))"

lemma wf_mat_mat [simp]: "wf_mat (mat f)"
  by (simp add: wf_mat_def mat_def)

lemma mat_of: "wf_mat a \<Longrightarrow> mat (\<lambda>i j. a ! i ! j) = a"
  by (auto simp: wf_mat_def mat_def intro!: nth_equalityI)

definition mmap :: "('a \<Rightarrow> 'b) \<Rightarrow> 'a list list \<Rightarrow> 'b list list" where
  "mmap f a = mat (\<lambda>i j. f (a ! i ! j))"

section \<open>The data path\<close>

definition aes_basic_shiftrows :: "bool \<Rightarrow> gf8 list list \<Rightarrow> gf8 list list" where
  "aes_basic_shiftrows dir_i a_i =
     mat (\<lambda>i j. if dir_i then a_i ! i ! ((j + i) mod 4) else a_i ! i ! ((j + 4 - i) mod 4))"

definition mix_comp :: "bool \<Rightarrow> gf8 list list" where
  "mix_comp dir_i =
    (let c0 = aes_affine_mul TM (byte (if dir_i then 0x2 else 0xe));
         c1 = aes_affine_mul TM (byte (if dir_i then 0x3 else 0xb));
         c2 = aes_affine_mul TM (byte (if dir_i then 0x1 else 0xd));
         c3 = aes_affine_mul TM (byte (if dir_i then 0x1 else 0x9))
     in [[c0, c1, c2, c3], [c3, c0, c1, c2], [c2, c3, c0, c1], [c1, c2, c3, c0]])"

definition aes_basic_mixcolumns :: "bool \<Rightarrow> gf8 list list \<Rightarrow> gf8 list list" where
  "aes_basic_mixcolumns dir_i a_i = (let comp = mix_comp dir_i in
     mat (\<lambda>j i. gf8_xor (gf8_xor (gf8_xor
       (aes_gf8_mul (comp ! j ! 0) (a_i ! 0 ! i)) (aes_gf8_mul (comp ! j ! 1) (a_i ! 1 ! i)))
       (aes_gf8_mul (comp ! j ! 2) (a_i ! 2 ! i))) (aes_gf8_mul (comp ! j ! 3) (a_i ! 3 ! i))))"

definition aes_addroundkey :: "gf8 list list \<Rightarrow> gf8 list list \<Rightarrow> gf8 list list" where
  "aes_addroundkey a_i key_i = mat (\<lambda>i j. gf8_xor (a_i ! i ! j) (key_i ! j ! i))"

definition zero_mat :: "gf8 list list" where "zero_mat = mat (\<lambda>_ _. byte 0)"

text \<open>The output \<open>b_o\<close> of \<open>aes_round\<close> from its inputs and the registers of the S-boxes.\<close>

definition aes_round ::
  "bool \<Rightarrow> 4 word \<Rightarrow> 4 word \<Rightarrow> gf8 list list \<Rightarrow> gf8 list list \<Rightarrow> gf8 list list \<Rightarrow> gf8 list list" where
  "aes_round dir_i round_i nr_i a_i key_i invi_r =
    (let subbyteso = mmap (sbox_out dir_i) invi_r;
         shiftrowso = aes_basic_shiftrows dir_i subbyteso;
         key0 = (if dir_i then zero_mat else key_i);
         key1 = (if dir_i \<or> round_i = 0 then key_i else zero_mat);
         addroundkeyo0 = aes_addroundkey shiftrowso key0;
         mixcolumnso = aes_basic_mixcolumns dir_i addroundkeyo0;
         addroundkeyi1 = (if round_i = 0 then a_i
                          else if dir_i \<and> round_i = nr_i then shiftrowso else mixcolumnso);
         addroundkeyo1 = aes_addroundkey addroundkeyi1 key1
     in if \<not> dir_i \<and> round_i = nr_i then addroundkeyo0 else addroundkeyo1)"

record dp_regs =
  invi_mdpl_r :: "gf8 list list"
  b_r :: "gf8 list list"

definition aes_datapath_clock ::
  "bool \<Rightarrow> 4 word \<Rightarrow> 4 word \<Rightarrow> bool \<Rightarrow> bool \<Rightarrow> gf8 list list \<Rightarrow> gf8 list list \<Rightarrow> dp_regs \<Rightarrow> dp_regs" where
  "aes_datapath_clock dir_i round_i nr_i dp_en_i last_round_i a_i key_i s =
    (let roundi = mat (\<lambda>i j. aes_affine_mul_t (a_i ! j ! i));
         roundo = aes_round dir_i round_i nr_i roundi key_i (invi_mdpl_r s)
     in \<lparr>invi_mdpl_r = (if dp_en_i then mmap (sbox_in dir_i) roundo else invi_mdpl_r s),
         b_r = (if last_round_i then roundo else b_r s)\<rparr>)"

definition aes_datapath_out :: "dp_regs \<Rightarrow> gf8 list list" where
  "aes_datapath_out s = mat (\<lambda>i j. aes_affine_mul_ti (b_r s ! j ! i))"

text \<open>The clocks of one block: the rounds \<open>0\<close> to \<open>n - 1\<close> with the round keys \<open>rk\<close>.\<close>

primrec aes_rounds ::
  "bool \<Rightarrow> nat \<Rightarrow> (nat \<Rightarrow> gf8 list list) \<Rightarrow> gf8 list list \<Rightarrow> nat \<Rightarrow> dp_regs \<Rightarrow> dp_regs" where
  "aes_rounds dir nr rk a 0 s = s"
| "aes_rounds dir nr rk a (Suc n) s =
     aes_datapath_clock dir (word_of_nat n) (word_of_nat nr) True (n = nr) a (rk n) (aes_rounds dir nr rk a n s)"

section \<open>FIPS 197\<close>

definition shift_rows :: "u8 list list \<Rightarrow> u8 list list" where
  "shift_rows s = mat (\<lambda>r c. s ! r ! ((c + r) mod 4))"

definition inv_shift_rows :: "u8 list list \<Rightarrow> u8 list list" where
  "inv_shift_rows s = mat (\<lambda>r c. s ! r ! ((c + 4 - r) mod 4))"

text \<open>The matrix of the coefficients, given by its first row.\<close>

definition mix_with :: "u8 list \<Rightarrow> u8 list list \<Rightarrow> u8 list list" where
  "mix_with co s = mat (\<lambda>r c.
     gmul (co ! ((4 - r) mod 4)) (s ! 0 ! c) XOR gmul (co ! ((5 - r) mod 4)) (s ! 1 ! c) XOR
     gmul (co ! ((6 - r) mod 4)) (s ! 2 ! c) XOR gmul (co ! ((7 - r) mod 4)) (s ! 3 ! c))"

definition mix_columns :: "u8 list list \<Rightarrow> u8 list list" where
  "mix_columns = mix_with [2, 3, 1, 1]"

definition inv_mix_columns :: "u8 list list \<Rightarrow> u8 list list" where
  "inv_mix_columns = mix_with [0xe, 0xb, 0xd, 9]"

text \<open>A round key is a list of four words, the columns of the state.\<close>

definition add_round_key :: "u8 list list \<Rightarrow> u8 list list \<Rightarrow> u8 list list" where
  "add_round_key k s = mat (\<lambda>r c. s ! r ! c XOR k ! c ! r)"

definition inv_sub_byte :: "u8 \<Rightarrow> u8" where
  "inv_sub_byte y = word_of_nat (length (takeWhile (\<lambda>s. s \<noteq> y) sbox_table))"

primrec cipher_rounds :: "(nat \<Rightarrow> u8 list list) \<Rightarrow> u8 list list \<Rightarrow> nat \<Rightarrow> u8 list list" where
  "cipher_rounds rk s 0 = add_round_key (rk 0) s"
| "cipher_rounds rk s (Suc n) =
     add_round_key (rk (Suc n)) (mix_columns (shift_rows (mmap sub_byte (cipher_rounds rk s n))))"

definition cipher :: "nat \<Rightarrow> (nat \<Rightarrow> u8 list list) \<Rightarrow> u8 list list \<Rightarrow> u8 list list" where
  "cipher nr rk s = add_round_key (rk nr) (shift_rows (mmap sub_byte (cipher_rounds rk s (nr - 1))))"

text \<open>The inverse cipher, with the round keys in the order in which it uses them.\<close>

primrec inv_cipher_rounds :: "(nat \<Rightarrow> u8 list list) \<Rightarrow> u8 list list \<Rightarrow> nat \<Rightarrow> u8 list list" where
  "inv_cipher_rounds rk s 0 = add_round_key (rk 0) s"
| "inv_cipher_rounds rk s (Suc n) = inv_mix_columns
     (add_round_key (rk (Suc n)) (mmap inv_sub_byte (inv_shift_rows (inv_cipher_rounds rk s n))))"

definition inv_cipher :: "nat \<Rightarrow> (nat \<Rightarrow> u8 list list) \<Rightarrow> u8 list list \<Rightarrow> u8 list list" where
  "inv_cipher nr rk s =
     add_round_key (rk nr) (mmap inv_sub_byte (inv_shift_rows (inv_cipher_rounds rk s (nr - 1))))"

definition transp :: "'a list list \<Rightarrow> 'a list list" where
  "transp a = mat (\<lambda>i j. a ! j ! i)"

section \<open>The data path computes the steps of the standard\<close>

text \<open>A state of the standard in the tower field.\<close>

definition tower :: "u8 list list \<Rightarrow> gf8 list list" where
  "tower s = mmap (\<lambda>x. aes_affine_mul_t (byte x)) s"

lemma tower_nth [simp]: "i < 4 \<Longrightarrow> j < 4 \<Longrightarrow> tower s ! i ! j = aes_affine_mul_t (byte (s ! i ! j))"
  by (simp add: tower_def mmap_def)

lemma tower_mat: "tower (mat f) = mat (\<lambda>i j. aes_affine_mul_t (byte (f i j)))"
  by (auto simp: tower_def mmap_def intro!: mat_cong)

lemma mmap_mat: "mmap g (mat f) = mat (\<lambda>i j. g (f i j))"
  by (auto simp: mmap_def intro!: mat_cong)

lemma shiftrows_enc: "aes_basic_shiftrows True (tower s) = tower (shift_rows s)"
  by (auto simp: aes_basic_shiftrows_def shift_rows_def tower_mat intro!: mat_cong)

lemma shiftrows_dec: "aes_basic_shiftrows False (tower s) = tower (inv_shift_rows s)"
  by (auto simp: aes_basic_shiftrows_def inv_shift_rows_def tower_mat intro!: mat_cong)

lemma addroundkey_tower: "aes_addroundkey (tower s) (tower k) = tower (add_round_key k s)"
  by (auto simp: aes_addroundkey_def add_round_key_def tower_mat byte_xor affine_additive intro!: mat_cong)

lemma addroundkey_zero: "aes_addroundkey (tower s) zero_mat = tower s"
  by (auto simp: aes_addroundkey_def zero_mat_def tower_def mmap_def intro!: mat_cong)

lemma sub_tower:
  "mmap (sbox_out True) (tower s) = tower (mmap sub_byte s)" "mmap (sbox_in True) (tower s) = tower s"
  by (auto simp: tower_def mmap_def sbox_encrypts sbox_in_def intro!: mat_cong)

lemma below_4_cases: "r < 4 \<Longrightarrow> r = 0 \<or> r = 1 \<or> r = 2 \<or> r = (3 :: nat)"
  by auto

lemma mix_tower:
  "aes_basic_mixcolumns True (tower s) = tower (mix_columns s)"
  "aes_basic_mixcolumns False (tower s) = tower (inv_mix_columns s)"
proof -
  have "mix_comp dir ! j ! k = aes_affine_mul_t (byte ((if dir then [2, 3, 1, 1] else [0xe, 0xb, 0xd, 9]) ! ((4 + k - j) mod 4)))"
    if "j < 4" "k < 4" for dir j k
    using below_4_cases [OF that(1)] below_4_cases [OF that(2)]
    by (elim disjE; simp add: mix_comp_def aes_affine_mul_t_def Let_def)
  then show "aes_basic_mixcolumns True (tower s) = tower (mix_columns s)"
    "aes_basic_mixcolumns False (tower s) = tower (inv_mix_columns s)"
    by (auto simp: aes_basic_mixcolumns_def mix_columns_def inv_mix_columns_def mix_with_def tower_mat Let_def
      tower_product byte_xor affine_additive gf8_simps intro!: mat_cong)
qed

lemma round_index: "n < 16 \<Longrightarrow> m < 16 \<Longrightarrow> (word_of_nat n :: 4 word) = word_of_nat m \<longleftrightarrow> n = m"
  by (simp add: word_of_nat_eq_iff take_bit_nat_eq_self)

lemma round_zero: "n < 16 \<Longrightarrow> (word_of_nat n :: 4 word) = 0 \<longleftrightarrow> n = 0"
  using round_index [of n 0] by simp

lemma unat_lookup: "inv_sub_byte (sub_byte x) = x"
proof -
  have x: "unat x < 256" using unsigned_less [of x] by simp
  have l: "length sbox_table = 256" by (simp add: sbox_table_def)
  have inj: "sub_byte y = sub_byte z \<Longrightarrow> y = z" for y z
  proof -
    assume "sub_byte y = sub_byte z"
    then have "sbox_out True (aes_affine_mul_t (byte y)) = sbox_out True (aes_affine_mul_t (byte z))"
      by (simp add: sbox_encrypts)
    then show "y = z" by (metis sbox_decrypts ti_t unbyte_byte)
  qed
  have "takeWhile (\<lambda>s. s \<noteq> sub_byte x) sbox_table = take (unat x) sbox_table"
  proof (rule takeWhile_eq_take_P_nth)
    fix i assume i: "i < unat x" "i < length sbox_table"
    then have "sub_byte (word_of_nat i) = sbox_table ! i"
      using x by (simp add: sub_byte_def unsigned_of_nat take_bit_nat_eq_self)
    moreover have "unat (word_of_nat i :: u8) = i"
      using i x by (simp add: unsigned_of_nat take_bit_nat_eq_self)
    then have "word_of_nat i \<noteq> x" using i by auto
    ultimately show "sbox_table ! i \<noteq> sub_byte x" using inj by metis
  next
    show "\<not> sbox_table ! unat x \<noteq> sub_byte x" by (simp add: sub_byte_def)
  qed
  then show ?thesis using x by (simp add: inv_sub_byte_def l)
qed

lemma sub_byte_surj: "\<exists>x. y = sub_byte x"
proof -
  have "inj sub_byte" by (metis injI unat_lookup)
  then have "surj sub_byte" by (simp add: finite_UNIV_inj_surj)
  then show ?thesis by (metis surj_def)
qed

lemma sub_inv_sub [simp]: "sub_byte (inv_sub_byte y) = y"
  using sub_byte_surj unat_lookup by metis

lemma inv_sub_tower:
  "mmap (\<lambda>v. sbox_out False (sbox_in False v)) (tower s) = tower (mmap inv_sub_byte s)"
proof -
  have "sbox_out False (sbox_in False (aes_affine_mul_t (byte y))) = aes_affine_mul_t (byte (inv_sub_byte y))" for y
    by (metis sbox_encrypts sbox_decrypts sub_inv_sub)
  then show ?thesis by (auto simp: tower_def mmap_def intro!: mat_cong)
qed

section \<open>Encryption and decryption of a block\<close>

lemma roundi_tower: "mat (\<lambda>i j. aes_affine_mul_t (mmap byte a ! j ! i)) = tower (transp a)"
  by (auto simp: tower_def mmap_def transp_def intro!: mat_cong)

lemma encrypt_rounds:
  assumes "n < nr" "nr < 16"
  shows "invi_mdpl_r (aes_rounds True nr (\<lambda>n. tower (rk n)) (mmap byte a) (Suc n) s) =
    tower (cipher_rounds rk (transp a) n)"
  using assms
proof (induction n)
  case 0
  then show ?case
    by (simp add: aes_datapath_clock_def aes_round_def Let_def roundi_tower addroundkey_tower sub_tower)
next
  case (Suc n)
  then show ?case
    using round_index [of "Suc n" nr] round_zero [of "Suc n"]
    by (simp add: aes_datapath_clock_def [of _ "word_of_nat (Suc n)"] aes_rounds.simps(2) [of _ _ _ _ "Suc n"]
      aes_round_def Let_def sub_tower shiftrows_enc addroundkey_zero mix_tower addroundkey_tower
      del: aes_rounds.simps(2) of_nat_Suc)
qed

lemma mmap_mmap: "mmap f (mmap g a) = mmap (\<lambda>x. f (g x)) a"
  by (auto simp: mmap_def intro!: mat_cong)

lemma inv_shift_mmap: "inv_shift_rows (mmap f a) = mmap f (inv_shift_rows a)"
  by (auto simp: inv_shift_rows_def mmap_def intro!: mat_cong)

lemmas last_clock = aes_datapath_clock_def aes_round_def Let_def

lemma decrypt_rounds:
  assumes "n < nr" "nr < 16"
  shows "invi_mdpl_r (aes_rounds False nr (\<lambda>n. tower (rk n)) (mmap byte a) (Suc n) s) =
    mmap (sbox_in False) (tower (inv_cipher_rounds rk (transp a) n))"
  using assms
proof (induction n)
  case 0
  then show ?case
    using round_index [of 0 nr]
    by (simp add: aes_datapath_clock_def aes_round_def Let_def roundi_tower addroundkey_tower)
next
  case (Suc n)
  then show ?case
    using round_index [of "Suc n" nr] round_zero [of "Suc n"]
    by (simp add: aes_datapath_clock_def [of _ "word_of_nat (Suc n)"] aes_rounds.simps(2) [of _ _ _ _ "Suc n"]
      aes_round_def Let_def mmap_mmap inv_sub_tower shiftrows_dec inv_shift_mmap addroundkey_zero mix_tower
      addroundkey_tower del: aes_rounds.simps(2) of_nat_Suc)
qed

lemma out_tower: "b_r s = tower x \<Longrightarrow> aes_datapath_out s = mmap byte (transp x)"
  by (auto simp: aes_datapath_out_def mmap_def transp_def intro!: mat_cong)

lemma encrypt_block:
  assumes "0 < nr" "nr < 16"
  shows "b_r (aes_rounds True nr (\<lambda>n. tower (rk n)) (mmap byte a) (Suc nr) s) =
    tower (cipher nr rk (transp a))"
proof -
  obtain m where m: "nr = Suc m" using assms(1) by (cases nr) auto
  with encrypt_rounds [of m nr rk a s] assms round_zero [of nr] show ?thesis
    by (simp add: aes_datapath_clock_def [of _ "word_of_nat (Suc m)"] aes_rounds.simps(2) [of _ _ _ _ "Suc m"]
      aes_round_def Let_def sub_tower shiftrows_enc addroundkey_tower cipher_def
      del: aes_rounds.simps(2) of_nat_Suc)
qed

lemma decrypt_block:
  assumes "0 < nr" "nr < 16"
  shows "b_r (aes_rounds False nr (\<lambda>n. tower (rk n)) (mmap byte a) (Suc nr) s) =
    tower (inv_cipher nr rk (transp a))"
proof -
  obtain m where m: "nr = Suc m" using assms(1) by (cases nr) auto
  with decrypt_rounds [of m nr rk a s] assms round_zero [of nr] show ?thesis
    by (simp add: aes_datapath_clock_def [of _ "word_of_nat (Suc m)"] aes_rounds.simps(2) [of _ _ _ _ "Suc m"]
      aes_round_def Let_def mmap_mmap inv_sub_tower shiftrows_dec inv_shift_mmap addroundkey_tower
      inv_cipher_def del: aes_rounds.simps(2) of_nat_Suc)
qed

text \<open>C6: the data path encrypts and decrypts as FIPS 197 demands. Driven for \<open>nr + 1\<close> clocks with the
  round indices \<open>0\<close> to \<open>nr\<close> and the round keys (converted to the tower field), it delivers the cipher
  of the block over these round keys, or the inverse cipher when it decrypts, whatever its registers
  held before; the columns of the block are the rows of the port.\<close>

theorem aes_datapath_is_fips_197:
  assumes "0 < nr" "nr < 16"
  shows "aes_datapath_out (aes_rounds True nr (\<lambda>n. tower (rk n)) (mmap byte a) (Suc nr) s) =
      mmap byte (transp (cipher nr rk (transp a))) \<and>
    aes_datapath_out (aes_rounds False nr (\<lambda>n. tower (rk n)) (mmap byte a) (Suc nr) s) =
      mmap byte (transp (inv_cipher nr rk (transp a)))"
  using out_tower [OF encrypt_block [OF assms]] out_tower [OF decrypt_block [OF assms]] by blast

theorem aes_datapath_is_fips_197_witness:
  "aes_datapath_out (aes_rounds True 10 (\<lambda>n. tower (mat (\<lambda>i j. word_of_nat (n + i + j))))
      (mmap byte (mat (\<lambda>i j. word_of_nat (16 * i + j)))) 11 \<lparr>invi_mdpl_r = [], b_r = []\<rparr>) =
    mmap byte (transp (cipher 10 (\<lambda>n. mat (\<lambda>i j. word_of_nat (n + i + j)))
      (transp (mat (\<lambda>i j. word_of_nat (16 * i + j))))))"
  using aes_datapath_is_fips_197 [of 10 "\<lambda>n. mat (\<lambda>i j. word_of_nat (n + i + j))"
    "mat (\<lambda>i j. word_of_nat (16 * i + j))" "\<lparr>invi_mdpl_r = [], b_r = []\<rparr>"] by simp

section \<open>Decryption inverts encryption\<close>

text \<open>The product with a constant, on the bits, and the entries of the product of both matrices.\<close>

definition gm :: "u8 \<Rightarrow> gf8 \<Rightarrow> gf8" where
  "gm c v = combine (part 0 8 c) (map (\<lambda>i. (xt8 ^^ i) v) [0..<8])"

lemma byte_gm: "byte (gmul c x) = gm c (byte x)"
  by (simp add: gm_def byte_gmul)

definition mix_entry :: "u8 \<Rightarrow> u8 \<Rightarrow> u8 \<Rightarrow> u8 \<Rightarrow> gf8 \<Rightarrow> gf8" where
  "mix_entry a b c d v =
     gf8_xor (gf8_xor (gf8_xor (gm 0xe (gm a v)) (gm 0xb (gm b v))) (gm 0xd (gm c v))) (gm 9 (gm d v))"

definition zero_of :: "gf8 \<Rightarrow> gf8" where "zero_of v = byte 0"

lemma mix_entries:
  "map (mix_entry 2 1 1 3) powers = map id powers" "map (mix_entry 3 2 1 1) powers = map zero_of powers"
  "map (mix_entry 1 3 2 1) powers = map zero_of powers" "map (mix_entry 1 1 3 2) powers = map zero_of powers"
  by code_simp+

lemma gmul_xor: "gmul c (x XOR y) = gmul c x XOR gmul c y"
proof -
  have "aes_affine_mul_t (byte (gmul c (x XOR y))) = aes_affine_mul_t (byte (gmul c x XOR gmul c y))"
    by (simp add: byte_xor affine_additive gf8_linear flip: tower_product)
  then show ?thesis by (metis ti_t unbyte_byte)
qed

lemma gm_additive: "gm c (gf8_xor v w) = gf8_xor (gm c v) (gm c w)"
  using byte_gm [of c "unbyte v XOR unbyte w"] byte_gm [of c "unbyte v"] byte_gm [of c "unbyte w"]
  by (simp add: byte_xor gmul_xor)

lemma additive_entry: "additive (mix_entry a b c d)" "additive zero_of" "additive id"
  unfolding additive_def mix_entry_def zero_of_def by (auto simp only: gm_additive gf8_simps xor_zero id_apply)

lemma unmix:
  "gmul 0xe (gmul 2 x) XOR gmul 0xb (gmul 1 x) XOR gmul 0xd (gmul 1 x) XOR gmul 9 (gmul 3 x) = x"
  "gmul 0xe (gmul 3 x) XOR gmul 0xb (gmul 2 x) XOR gmul 0xd (gmul 1 x) XOR gmul 9 (gmul 1 x) = 0"
  "gmul 0xe (gmul 1 x) XOR gmul 0xb (gmul 3 x) XOR gmul 0xd (gmul 2 x) XOR gmul 9 (gmul 1 x) = 0"
  "gmul 0xe (gmul 1 x) XOR gmul 0xb (gmul 1 x) XOR gmul 0xd (gmul 3 x) XOR gmul 9 (gmul 2 x) = 0"
proof -
  have e: "gmul 0xe (gmul a x) XOR gmul 0xb (gmul b x) XOR gmul 0xd (gmul c x) XOR gmul 9 (gmul d x) =
      unbyte (mix_entry a b c d (byte x))" for a b c d
    by (simp add: mix_entry_def xor.assoc flip: byte_gm byte_xor)
  note q = additive_eqI [OF additive_entry(1) additive_entry(2)] additive_eqI [OF additive_entry(1) additive_entry(3)]
  show "gmul 0xe (gmul 2 x) XOR gmul 0xb (gmul 1 x) XOR gmul 0xd (gmul 1 x) XOR gmul 9 (gmul 3 x) = x"
    "gmul 0xe (gmul 3 x) XOR gmul 0xb (gmul 2 x) XOR gmul 0xd (gmul 1 x) XOR gmul 9 (gmul 1 x) = 0"
    "gmul 0xe (gmul 1 x) XOR gmul 0xb (gmul 3 x) XOR gmul 0xd (gmul 2 x) XOR gmul 9 (gmul 1 x) = 0"
    "gmul 0xe (gmul 1 x) XOR gmul 0xb (gmul 1 x) XOR gmul 0xd (gmul 3 x) XOR gmul 9 (gmul 2 x) = 0"
    unfolding e q(2) [OF mix_entries(1)] q(1) [OF mix_entries(2)] q(1) [OF mix_entries(3)] q(1) [OF mix_entries(4)]
    by (simp_all add: zero_of_def)
qed

lemma xor_rearrange:
  fixes a0 b0 c0 d0 a1 b1 c1 d1 a2 b2 c2 d2 a3 b3 c3 d3 :: u8
  assumes "a0 XOR b0 XOR c0 XOR d0 = w" "a1 XOR b1 XOR c1 XOR d1 = x" "a2 XOR b2 XOR c2 XOR d2 = y"
    "a3 XOR b3 XOR c3 XOR d3 = z"
  shows "(a0 XOR a1 XOR a2 XOR a3) XOR (b0 XOR b1 XOR b2 XOR b3) XOR (c0 XOR c1 XOR c2 XOR c3) XOR
    (d0 XOR d1 XOR d2 XOR d3) = w XOR x XOR y XOR z"
  unfolding assms [symmetric] by (simp add: xor.assoc xor.left_commute xor.commute)

text \<open>The other orders of the four summands that the rows of the matrices give.\<close>

lemma unmix_orders:
  "gmul 9 (gmul 3 x) XOR gmul 0xe (gmul 2 x) XOR gmul 0xb (gmul 1 x) XOR gmul 0xd (gmul 1 x) = x"
  "gmul 9 (gmul 1 x) XOR gmul 0xe (gmul 3 x) XOR gmul 0xb (gmul 2 x) XOR gmul 0xd (gmul 1 x) = 0"
  "gmul 9 (gmul 1 x) XOR gmul 0xe (gmul 1 x) XOR gmul 0xb (gmul 3 x) XOR gmul 0xd (gmul 2 x) = 0"
  "gmul 9 (gmul 2 x) XOR gmul 0xe (gmul 1 x) XOR gmul 0xb (gmul 1 x) XOR gmul 0xd (gmul 3 x) = 0"
  "gmul 0xd (gmul 1 x) XOR gmul 9 (gmul 3 x) XOR gmul 0xe (gmul 2 x) XOR gmul 0xb (gmul 1 x) = x"
  "gmul 0xd (gmul 1 x) XOR gmul 9 (gmul 1 x) XOR gmul 0xe (gmul 3 x) XOR gmul 0xb (gmul 2 x) = 0"
  "gmul 0xd (gmul 2 x) XOR gmul 9 (gmul 1 x) XOR gmul 0xe (gmul 1 x) XOR gmul 0xb (gmul 3 x) = 0"
  "gmul 0xd (gmul 3 x) XOR gmul 9 (gmul 2 x) XOR gmul 0xe (gmul 1 x) XOR gmul 0xb (gmul 1 x) = 0"
  "gmul 0xb (gmul 1 x) XOR gmul 0xd (gmul 1 x) XOR gmul 9 (gmul 3 x) XOR gmul 0xe (gmul 2 x) = x"
  "gmul 0xb (gmul 2 x) XOR gmul 0xd (gmul 1 x) XOR gmul 9 (gmul 1 x) XOR gmul 0xe (gmul 3 x) = 0"
  "gmul 0xb (gmul 3 x) XOR gmul 0xd (gmul 2 x) XOR gmul 9 (gmul 1 x) XOR gmul 0xe (gmul 1 x) = 0"
  "gmul 0xb (gmul 1 x) XOR gmul 0xd (gmul 3 x) XOR gmul 9 (gmul 2 x) XOR gmul 0xe (gmul 1 x) = 0"
  using unmix [of x] by (simp_all add: xor.assoc xor.left_commute xor.commute)

lemma inv_mix_mix:
  assumes "wf_mat s"
  shows "inv_mix_columns (mix_columns s) = s"
proof -
  have "inv_mix_columns (mix_columns s) ! r ! c = s ! r ! c" if "r < 4" "c < 4" for r c
    using below_4_cases [OF that(1)] that(2)
    by (elim disjE) (simp_all add: inv_mix_columns_def mix_columns_def mix_with_def gmul_xor
      xor_rearrange [OF unmix(1-4)] xor_rearrange [OF unmix_orders(4,1,2,3)]
      xor_rearrange [OF unmix_orders(7,8,5,6)] xor_rearrange [OF unmix_orders(10,11,12,9)])
  then show ?thesis
    using assms mat_of [of "inv_mix_columns (mix_columns s)"] mat_of [OF assms]
    by (metis (mono_tags, lifting) inv_mix_columns_def mat_cong mix_with_def wf_mat_mat)
qed

lemma key_twice: "wf_mat s \<Longrightarrow> add_round_key k (add_round_key k s) = s"
  using mat_of [of s] by (simp add: add_round_key_def xor.assoc cong: mat_cong)

lemma unshift: "wf_mat s \<Longrightarrow> inv_shift_rows (shift_rows s) = s"
proof -
  have e: "((c + 4 - r) mod 4 + r) mod 4 = c" if "r < 4" "c < 4" for r c :: nat
    using that by (simp add: mod_add_left_eq)
  assume "wf_mat s"
  from mat_of [OF this] show ?thesis
    by (simp add: inv_shift_rows_def shift_rows_def e cong: mat_cong)
qed

lemma unsub: "wf_mat s \<Longrightarrow> mmap inv_sub_byte (mmap sub_byte s) = s"
  using mat_of [of s] by (simp add: mmap_mmap unat_lookup) (simp add: mmap_def)

lemma wf_steps [simp]: "wf_mat (mmap f a)" "wf_mat (shift_rows b)" "wf_mat (mix_columns b)" "wf_mat (add_round_key k b)"
  "wf_mat (cipher_rounds rk b n)"
  by (simp_all add: mmap_def shift_rows_def mix_columns_def mix_with_def add_round_key_def)
    (cases n; simp add: add_round_key_def)

lemma unsub_unshift: "wf_mat s \<Longrightarrow> mmap inv_sub_byte (inv_shift_rows (shift_rows (mmap sub_byte s))) = s"
  by (simp add: unshift unsub)

lemma inv_cipher_step:
  assumes "n < nr"
  shows "inv_cipher_rounds (\<lambda>n. rk (nr - n)) (cipher nr rk s) n =
    shift_rows (mmap sub_byte (cipher_rounds rk s (nr - 1 - n)))"
  using assms
proof (induction n)
  case 0
  then show ?case by (simp add: cipher_def key_twice)
next
  case (Suc n)
  then obtain m where m: "nr - 1 - n = Suc m" "nr - 1 - Suc n = m" "nr - Suc n = Suc m"
    by (metis Suc_diff_Suc diff_Suc_1 diff_Suc_eq_diff_pred diff_diff_left plus_1_eq_Suc)
  with Suc show ?case
    by (simp add: unsub_unshift key_twice inv_mix_mix del: diff_Suc_eq_diff_pred)
qed

lemma cipher_inverse:
  assumes "0 < nr" "wf_mat s"
  shows "inv_cipher nr (\<lambda>n. rk (nr - n)) (cipher nr rk s) = s"
  using inv_cipher_step [of "nr - 1" nr rk s] assms by (simp add: inv_cipher_def unsub_unshift key_twice)

lemma transp_transp: "wf_mat a \<Longrightarrow> transp (transp a) = a"
  using mat_of [of a] by (simp add: transp_def cong: mat_cong)

text \<open>The data path decrypts what it encrypted. The output of an encryption, taken as the input of a
  decryption with the same round keys in reverse order, gives the block back, for every number of
  rounds and whatever the registers held.\<close>

lemma aes_datapath_round_trip:
  assumes "0 < nr" "nr < 16" "wf_mat a"
  shows "aes_datapath_out (aes_rounds False nr (\<lambda>n. tower (rk (nr - n)))
      (aes_datapath_out (aes_rounds True nr (\<lambda>n. tower (rk n)) (mmap byte a) (Suc nr) s)) (Suc nr) s') =
    mmap byte a"
proof -
  have c: "wf_mat (cipher nr rk x)" for x by (simp add: cipher_def)
  show ?thesis
    unfolding out_tower [OF encrypt_block [OF assms(1,2)]] out_tower [OF decrypt_block [OF assms(1,2)]]
    using cipher_inverse [OF assms(1), of "transp a" rk] transp_transp [OF c] transp_transp [OF assms(3)]
    by (simp add: transp_def)
qed

end
