(* ===== verification/CmuFifo.thy ===== *)
theory CmuFifo
  imports Prelude
begin

text \<open>
  The buffers of the crypto wrapper (\<open>src/src/sinc/rtl/sinc_cmu_fifo.sv\<close>): a queue with ports of
  different widths. The input buffer takes words of 32 bits and delivers AES blocks of 128 bits, the
  output buffer takes blocks and delivers words; both are instances in \<open>sinc_cmu_crypto_wrap.sv\<close>. The
  pointers count words and have one bit more than the words need, the wrap bit; their width is the
  length of the type \<open>'p\<close>: eight bits for the input buffer (32 lines), three for the output buffer
  (one line).
\<close>

section \<open>Pointers and flags\<close>

record (overloaded) 'p cmu_fifo =
  push_ptr_q :: "'p::len word"
  pop_ptr_q :: "'p word"
  fifo_memory :: "nat \<Rightarrow> nat \<Rightarrow> u32"

definition wrap_bit :: "'p::len word \<Rightarrow> bool" where
  "wrap_bit p = bit p (LENGTH('p) - 1)"

definition ptr_part :: "'p::len word \<Rightarrow> nat" where
  "ptr_part p = take_bit (LENGTH('p) - 1) (unat p)"

text \<open>\<open>PUSH_POP_RATIOW\<close> is two; with a single line the upper part is empty.\<close>

definition ptr_line :: "'p::len word \<Rightarrow> nat" where "ptr_line p = ptr_part p div 4"
definition ptr_pos :: "'p::len word \<Rightarrow> nat" where "ptr_pos p = ptr_part p mod 4"

definition wrap_match :: "'p::len cmu_fifo \<Rightarrow> bool" where
  "wrap_match s = (wrap_bit (push_ptr_q s) = wrap_bit (pop_ptr_q s))"

definition ptr_match :: "'p::len cmu_fifo \<Rightarrow> bool" where
  "ptr_match s = (ptr_part (push_ptr_q s) = ptr_part (pop_ptr_q s))"

definition line_match :: "'p::len cmu_fifo \<Rightarrow> bool" where
  "line_match s = (ptr_line (push_ptr_q s) = ptr_line (pop_ptr_q s))"

definition fifo_empty :: "'p::len cmu_fifo \<Rightarrow> bool" where
  "fifo_empty s = (wrap_match s \<and> ptr_match s)"

definition fifo_full :: "'p::len cmu_fifo \<Rightarrow> bool" where
  "fifo_full s = (\<not> wrap_match s \<and> ptr_match s)"

definition almost_empty :: "'p::len cmu_fifo \<Rightarrow> bool" where
  "almost_empty s = (wrap_match s \<and> line_match s \<and> \<not> ptr_match s)"

definition almost_full :: "'p::len cmu_fifo \<Rightarrow> bool" where
  "almost_full s = (\<not> wrap_match s \<and> line_match s \<and> \<not> ptr_match s)"

definition push_rdy :: "'p::len cmu_fifo \<Rightarrow> bool" where
  "push_rdy s = (\<not> (fifo_full s \<or> almost_full s))"

definition pop_rdy :: "'p::len cmu_fifo \<Rightarrow> bool" where
  "pop_rdy s = (\<not> (fifo_empty s \<or> almost_empty s))"

text \<open>\<open>{~wrap_match, push_ptr_q.ptr} - {1'b0, pop_ptr_q.ptr}\<close>\<close>

definition entries_in_use :: "'p::len cmu_fifo \<Rightarrow> 'p word" where
  "entries_in_use s =
     word_of_nat ((if wrap_match s then 0 else 2 ^ (LENGTH('p) - 1)) + ptr_part (push_ptr_q s)) -
     word_of_nat (ptr_part (pop_ptr_q s))"

section \<open>Clocks\<close>

record 'd fifo_in =
  fifo_clear :: bool
  push_en :: bool
  pop_en :: bool
  push_data :: 'd

definition overflow_err :: "'d fifo_in \<Rightarrow> 'p::len cmu_fifo \<Rightarrow> bool" where
  "overflow_err i s = (push_en i \<and> \<not> push_rdy s)"

definition underflow_err :: "'d fifo_in \<Rightarrow> 'p::len cmu_fifo \<Rightarrow> bool" where
  "underflow_err i s = (pop_en i \<and> \<not> pop_rdy s)"

definition fifo_reset :: "'p::len cmu_fifo" where
  "fifo_reset = \<lparr>push_ptr_q = 0, pop_ptr_q = 0, fifo_memory = (\<lambda>_ _. 0)\<rparr>"

text \<open>The instance whose push side is the narrower one, and the one whose pop side is.\<close>

definition input_buf_clock :: "u32 fifo_in \<Rightarrow> 'p::len cmu_fifo \<Rightarrow> 'p cmu_fifo" where
  "input_buf_clock i s =
    (let push_qual = (push_en i \<and> push_rdy s); pop_qual = (pop_en i \<and> pop_rdy s) in
     if fifo_clear i then fifo_reset
     else
      \<lparr>push_ptr_q = (if push_qual then push_ptr_q s + 1 else push_ptr_q s),
       pop_ptr_q = (if pop_qual then pop_ptr_q s + 4 else pop_ptr_q s),
       fifo_memory = (if push_qual
         then (fifo_memory s)(ptr_line (push_ptr_q s) := (fifo_memory s (ptr_line (push_ptr_q s)))
                (ptr_pos (push_ptr_q s) := push_data i))
         else fifo_memory s)\<rparr>)"

definition output_buf_clock :: "128 word fifo_in \<Rightarrow> 'p::len cmu_fifo \<Rightarrow> 'p cmu_fifo" where
  "output_buf_clock i s =
    (let push_qual = (push_en i \<and> push_rdy s); pop_qual = (pop_en i \<and> pop_rdy s) in
     if fifo_clear i then fifo_reset
     else
      \<lparr>push_ptr_q = (if push_qual then push_ptr_q s + 4 else push_ptr_q s),
       pop_ptr_q = (if pop_qual then pop_ptr_q s + 1 else pop_ptr_q s),
       fifo_memory = (if push_qual
         then (fifo_memory s)(ptr_line (push_ptr_q s) :=
                (\<lambda>j. if j < 4 then cat_bits (part (32 * j) 32 (push_data i))
                     else fifo_memory s (ptr_line (push_ptr_q s)) j))
         else fifo_memory s)\<rparr>)"

text \<open>The data that is delivered, as words.\<close>

definition input_pop_words :: "'p::len cmu_fifo \<Rightarrow> u32 list" where
  "input_pop_words s = map (fifo_memory s (ptr_line (pop_ptr_q s))) [0..<4]"

definition input_pop_data :: "'p::len cmu_fifo \<Rightarrow> 128 word" where
  "input_pop_data s = cat_bits (concat (map (part 0 32) (input_pop_words s)))"

definition output_pop_data :: "'p::len cmu_fifo \<Rightarrow> u32" where
  "output_pop_data s = fifo_memory s (ptr_line (pop_ptr_q s)) (ptr_pos (pop_ptr_q s))"

section \<open>The queue behind the pointers\<close>

definition fifo_count :: "'p::len cmu_fifo \<Rightarrow> nat" where
  "fifo_count s = unat (push_ptr_q s - pop_ptr_q s)"

definition word_at :: "'p::len cmu_fifo \<Rightarrow> 'p word \<Rightarrow> u32" where
  "word_at s p = fifo_memory s (ptr_line p) (ptr_pos p)"

definition contents :: "'p::len cmu_fifo \<Rightarrow> u32 list" where
  "contents s = map (\<lambda>k. word_at s (pop_ptr_q s + word_of_nat k)) [0..<fifo_count s]"

definition capacity :: "'p::len itself \<Rightarrow> nat" where
  "capacity _ = 2 ^ (LENGTH('p) - 1)"

text \<open>The arithmetic of the flags, on pointers below \<open>2 * m\<close> with \<open>c\<close> words between them.\<close>

lemma flag_arith:
  fixes m q c p :: nat
  assumes "q < 2 * m" "c \<le> m" "p = (if q + c < 2 * m then q + c else q + c - 2 * m)" "4 dvd m" "0 < m"
  shows "(p \<ge> m) = (q \<ge> m) \<and> p mod m = q mod m \<longleftrightarrow> c = 0"
    and "(p \<ge> m) \<noteq> (q \<ge> m) \<and> p mod m = q mod m \<longleftrightarrow> c = m"
proof -
  have m: "x mod m = (if x \<ge> m then x - m else x)" if "x < 2 * m" for x
    using that by (simp add: mod_if)
  have p: "p < 2 * m" using assms by auto
  show "(p \<ge> m) = (q \<ge> m) \<and> p mod m = q mod m \<longleftrightarrow> c = 0"
    unfolding m [OF p] m [OF assms(1)] using assms by (auto split: if_splits)
  show "(p \<ge> m) \<noteq> (q \<ge> m) \<and> p mod m = q mod m \<longleftrightarrow> c = m"
    unfolding m [OF p] m [OF assms(1)] using assms by (auto split: if_splits)
qed

lemma same_line: "4 dvd (y :: nat) \<Longrightarrow> x div 4 = y div 4 \<longleftrightarrow> y \<le> x \<and> x < y + 4"
  by auto

lemma same_line': "4 dvd (x :: nat) \<Longrightarrow> x div 4 = y div 4 \<longleftrightarrow> x \<le> y \<and> y < x + 4"
  by auto

lemma line_arith:
  fixes m q c p :: nat
  assumes "q < 2 * m" "c \<le> m" "p = (if q + c < 2 * m then q + c else q + c - 2 * m)" "4 dvd m" "0 < m"
  shows "4 dvd q \<Longrightarrow> (p \<ge> m) = (q \<ge> m) \<and> p mod m div 4 = q mod m div 4 \<and> p mod m \<noteq> q mod m \<longleftrightarrow>
      0 < c \<and> c < 4 \<and> c \<noteq> m"
    and "4 dvd q \<Longrightarrow> \<not> ((p \<ge> m) \<noteq> (q \<ge> m) \<and> p mod m div 4 = q mod m div 4 \<and> p mod m \<noteq> q mod m)"
    and "4 dvd p \<Longrightarrow> (p \<ge> m) \<noteq> (q \<ge> m) \<and> p mod m div 4 = q mod m div 4 \<and> p mod m \<noteq> q mod m \<longleftrightarrow>
      m < c + 4 \<and> c < m \<and> 0 < c"
    and "4 dvd p \<Longrightarrow> \<not> ((p \<ge> m) = (q \<ge> m) \<and> p mod m div 4 = q mod m div 4 \<and> p mod m \<noteq> q mod m)"
proof -
  have mm: "x mod m = (if x \<ge> m then x - m else x)" if "x < 2 * m" for x
    using that by (simp add: mod_if)
  have p: "p < 2 * m" using assms by auto
  obtain k where k: "m = 4 * k" using assms(4) by blast
  show "4 dvd q \<Longrightarrow> (p \<ge> m) = (q \<ge> m) \<and> p mod m div 4 = q mod m div 4 \<and> p mod m \<noteq> q mod m \<longleftrightarrow>
      0 < c \<and> c < 4 \<and> c \<noteq> m"
  proof -
    assume d: "4 dvd q"
    then have "4 dvd q mod m" using assms(4) by (simp add: dvd_mod)
    note l = same_line [OF this]
    obtain n where n: "q = 4 * n" using d by blast
    show "(p \<ge> m) = (q \<ge> m) \<and> p mod m div 4 = q mod m div 4 \<and> p mod m \<noteq> q mod m \<longleftrightarrow>
      0 < c \<and> c < 4 \<and> c \<noteq> m"
      unfolding l unfolding mm [OF p] mm [OF assms(1)] using assms(1-3) n k by (auto split: if_splits)
  qed
  show "4 dvd q \<Longrightarrow> \<not> ((p \<ge> m) \<noteq> (q \<ge> m) \<and> p mod m div 4 = q mod m div 4 \<and> p mod m \<noteq> q mod m)"
  proof -
    assume d: "4 dvd q"
    then have "4 dvd q mod m" using assms(4) by (simp add: dvd_mod)
    note l = same_line [OF this]
    obtain n where n: "q = 4 * n" using d by blast
    show "\<not> ((p \<ge> m) \<noteq> (q \<ge> m) \<and> p mod m div 4 = q mod m div 4 \<and> p mod m \<noteq> q mod m)"
      unfolding l unfolding mm [OF p] mm [OF assms(1)] using assms(1-3) n k by (auto split: if_splits)
  qed
  show "4 dvd p \<Longrightarrow> (p \<ge> m) \<noteq> (q \<ge> m) \<and> p mod m div 4 = q mod m div 4 \<and> p mod m \<noteq> q mod m \<longleftrightarrow>
      m < c + 4 \<and> c < m \<and> 0 < c"
  proof -
    assume d: "4 dvd p"
    then have "4 dvd p mod m" using assms(4) by (simp add: dvd_mod)
    note l = same_line' [OF this]
    obtain n where n: "p = 4 * n" using d by blast
    have h: "4 * n < 8 * k \<Longrightarrow> 4 * n + 4 \<le> 8 * k" "4 * n < 4 * k \<Longrightarrow> 4 * n + 4 \<le> 4 * k" by auto
    show "(p \<ge> m) \<noteq> (q \<ge> m) \<and> p mod m div 4 = q mod m div 4 \<and> p mod m \<noteq> q mod m \<longleftrightarrow>
      m < c + 4 \<and> c < m \<and> 0 < c"
      unfolding l unfolding mm [OF p] mm [OF assms(1)] using assms(1-3) n k h by (auto split: if_splits)
  qed
  show "4 dvd p \<Longrightarrow> \<not> ((p \<ge> m) = (q \<ge> m) \<and> p mod m div 4 = q mod m div 4 \<and> p mod m \<noteq> q mod m)"
  proof -
    assume d: "4 dvd p"
    then have "4 dvd p mod m" using assms(4) by (simp add: dvd_mod)
    note l = same_line' [OF this]
    obtain n where n: "p = 4 * n" using d by blast
    have h: "4 * n < 8 * k \<Longrightarrow> 4 * n + 4 \<le> 8 * k" "4 * n < 4 * k \<Longrightarrow> 4 * n + 4 \<le> 4 * k" by auto
    show "\<not> ((p \<ge> m) = (q \<ge> m) \<and> p mod m div 4 = q mod m div 4 \<and> p mod m \<noteq> q mod m)"
      unfolding l unfolding mm [OF p] mm [OF assms(1)] using assms(1-3) n k h by (auto split: if_splits)
  qed
qed

lemma capacity_facts:
  assumes "3 \<le> LENGTH('p::len)"
  shows "4 dvd capacity TYPE('p)" "0 < capacity TYPE('p)" "2 ^ LENGTH('p) = 2 * capacity TYPE('p)"
    "4 \<le> capacity TYPE('p)"
proof -
  obtain n where n: "LENGTH('p) = Suc (Suc (Suc n))"
    using assms by (metis Suc_le_D add_2_eq_Suc' numeral_3_eq_3 Suc_le_mono)
  then show "4 dvd capacity TYPE('p)" "0 < capacity TYPE('p)" "2 ^ LENGTH('p) = 2 * capacity TYPE('p)"
    "4 \<le> capacity TYPE('p)"
    by (simp_all add: capacity_def)
qed

lemma unat_below: "unat (w :: 'p::len word) < 2 ^ LENGTH('p)"
  by (rule unsigned_less)

lemma wrap_bit_iff:
  fixes p :: "'p::len word"
  shows "wrap_bit p \<longleftrightarrow> capacity TYPE('p) \<le> unat p"
proof -
  have l: "LENGTH('p) = Suc (LENGTH('p) - 1)" by (simp add: len_gt_0)
  have "unat p < 2 * 2 ^ (LENGTH('p) - 1)"
    using unat_below [of p] by (metis l power_Suc)
  then have "unat p div 2 ^ (LENGTH('p) - 1) < 2"
    by (simp add: less_mult_imp_div_less)
  then have "odd (unat p div 2 ^ (LENGTH('p) - 1)) \<longleftrightarrow> unat p div 2 ^ (LENGTH('p) - 1) \<noteq> 0"
    by (auto simp: less_2_cases_iff)
  moreover have "wrap_bit p \<longleftrightarrow> odd (unat p div 2 ^ (LENGTH('p) - 1))"
    unfolding wrap_bit_def bit_iff_odd [symmetric] by (simp add: bit_unsigned_iff)
  ultimately show ?thesis by (simp add: capacity_def div_eq_0_iff not_less)
qed

lemma ptr_part_eq:
  fixes p :: "'p::len word"
  shows "ptr_part p = unat p mod capacity TYPE('p)"
  by (simp add: ptr_part_def capacity_def take_bit_eq_mod)

lemma push_position:
  fixes s :: "'p::len cmu_fifo"
  assumes "3 \<le> LENGTH('p)"
  shows "unat (push_ptr_q s) = (if unat (pop_ptr_q s) + fifo_count s < 2 * capacity TYPE('p)
      then unat (pop_ptr_q s) + fifo_count s
      else unat (pop_ptr_q s) + fifo_count s - 2 * capacity TYPE('p))"
    and "unat (pop_ptr_q s) < 2 * capacity TYPE('p)"
proof -
  note c = capacity_facts(3) [OF assms]
  show q: "unat (pop_ptr_q s) < 2 * capacity TYPE('p)"
    using unat_below [of "pop_ptr_q s"] by (simp add: c)
  have n: "fifo_count s < 2 * capacity TYPE('p)"
    using unat_below [of "push_ptr_q s - pop_ptr_q s"] by (simp add: c fifo_count_def)
  have "unat (push_ptr_q s) = (unat (pop_ptr_q s) + fifo_count s) mod (2 * capacity TYPE('p))"
    using unat_word_ariths(1) [of "pop_ptr_q s" "push_ptr_q s - pop_ptr_q s"] by (simp add: c fifo_count_def)
  then show "unat (push_ptr_q s) = (if unat (pop_ptr_q s) + fifo_count s < 2 * capacity TYPE('p)
      then unat (pop_ptr_q s) + fifo_count s
      else unat (pop_ptr_q s) + fifo_count s - 2 * capacity TYPE('p))"
    using q n by (simp add: mod_if)
qed

text \<open>The flags in terms of the number of words.\<close>

lemma flags:
  fixes s :: "'p::len cmu_fifo"
  assumes "3 \<le> LENGTH('p)" "fifo_count s \<le> capacity TYPE('p)"
  shows "fifo_empty s \<longleftrightarrow> fifo_count s = 0" "fifo_full s \<longleftrightarrow> fifo_count s = capacity TYPE('p)"
    "4 dvd unat (pop_ptr_q s) \<Longrightarrow>
       almost_empty s \<longleftrightarrow> 0 < fifo_count s \<and> fifo_count s < 4 \<and> fifo_count s \<noteq> capacity TYPE('p)"
    "4 dvd unat (pop_ptr_q s) \<Longrightarrow> \<not> almost_full s"
    "4 dvd unat (push_ptr_q s) \<Longrightarrow>
       almost_full s \<longleftrightarrow> capacity TYPE('p) < fifo_count s + 4 \<and> fifo_count s < capacity TYPE('p) \<and> 0 < fifo_count s"
    "4 dvd unat (push_ptr_q s) \<Longrightarrow> \<not> almost_empty s"
  using flag_arith [OF push_position(2) assms(2) push_position(1) capacity_facts(1,2)]
    line_arith [OF push_position(2) assms(2) push_position(1) capacity_facts(1,2)] assms(1)
  unfolding fifo_empty_def fifo_full_def almost_empty_def almost_full_def wrap_match_def ptr_match_def
    line_match_def ptr_line_def ptr_part_eq wrap_bit_iff
  by blast+

lemma ready_input:
  fixes s :: "'p::len cmu_fifo"
  assumes "3 \<le> LENGTH('p)" "fifo_count s \<le> capacity TYPE('p)" "4 dvd unat (pop_ptr_q s)"
  shows "push_rdy s \<longleftrightarrow> fifo_count s < capacity TYPE('p)" "pop_rdy s \<longleftrightarrow> 4 \<le> fifo_count s"
  using flags [OF assms(1,2)] assms(2,3) capacity_facts(4) [OF assms(1)]
  by (auto simp: push_rdy_def pop_rdy_def)

lemma ready_output:
  fixes s :: "'p::len cmu_fifo"
  assumes "3 \<le> LENGTH('p)" "fifo_count s \<le> capacity TYPE('p)" "4 dvd unat (push_ptr_q s)"
  shows "push_rdy s \<longleftrightarrow> fifo_count s + 4 \<le> capacity TYPE('p)" "pop_rdy s \<longleftrightarrow> 0 < fifo_count s"
  using flags [OF assms(1,2)] assms(2,3) capacity_facts(4) [OF assms(1)]
  by (auto simp: push_rdy_def pop_rdy_def)

section \<open>Contents\<close>

text \<open>The memory by the number of a word.\<close>

definition mem_word :: "(nat \<Rightarrow> nat \<Rightarrow> u32) \<Rightarrow> nat \<Rightarrow> nat \<Rightarrow> u32" where
  "mem_word mem m n = mem (n mod m div 4) (n mod m mod 4)"

lemma pointer_add:
  fixes p :: "'p::len word"
  assumes "3 \<le> LENGTH('p)"
  shows "unat (p + word_of_nat k) mod capacity TYPE('p) = (unat p + k) mod capacity TYPE('p)"
proof -
  have c: "2 ^ LENGTH('p) = 2 * capacity TYPE('p)" using assms by (rule capacity_facts)
  have "unat (p + word_of_nat k) = (unat p + k mod (2 * capacity TYPE('p))) mod (2 * capacity TYPE('p))"
    by (simp add: unat_word_ariths unsigned_of_nat take_bit_eq_mod c)
  then show ?thesis by (simp add: mod_mod_cancel mod_add_right_eq)
qed

lemma contents_eq:
  fixes s :: "'p::len cmu_fifo"
  assumes "3 \<le> LENGTH('p)"
  shows "contents s = map (\<lambda>k. mem_word (fifo_memory s) (capacity TYPE('p)) (unat (pop_ptr_q s) + k)) [0..<fifo_count s]"
  by (simp add: contents_def word_at_def ptr_line_def ptr_pos_def ptr_part_eq mem_word_def pointer_add [OF assms])

lemma length_contents [simp]: "length (contents s) = fifo_count s"
  by (simp add: contents_def)

text \<open>A word that is written at the push pointer is behind the contents; a line written there as well.\<close>

lemma mod_window: "k < c \<Longrightarrow> c < m \<Longrightarrow> (q + k) mod m \<noteq> (q + c) mod (m :: nat)"
  by (metis add_diff_inverse_nat dvd_imp_le mod_eq_dvd_iff_nat add_diff_cancel_left diff_is_0_eq
    less_imp_le_nat not_less zero_less_diff nat_add_left_cancel_le diff_le_self le_trans)

lemma mem_word_push:
  assumes "0 < m"
  shows "mem_word (mem(p mod m div 4 := (mem (p mod m div 4))(p mod m mod 4 := d))) m n =
    (if n mod m = p mod m then d else mem_word mem m n)"
proof -
  have "n mod m = p mod m" if "n mod m div 4 = p mod m div 4" "n mod m mod 4 = p mod m mod 4"
    using that by (metis div_mult_mod_eq)
  then show ?thesis by (auto simp: mem_word_def)
qed

lemma mem_word_mod: "n mod m = n' mod m \<Longrightarrow> mem_word mem m n = mem_word mem m n'"
  by (simp add: mem_word_def)

text \<open>What a clock does to the contents, given what it does to the pointers and to the memory.\<close>

lemma contents_clock:
  fixes s s' :: "'p::len cmu_fifo"
  assumes "3 \<le> LENGTH('p)" "b \<le> fifo_count s"
    and "push_ptr_q s' = push_ptr_q s + word_of_nat a" "pop_ptr_q s' = pop_ptr_q s + word_of_nat b"
    and "fifo_count s + a \<le> capacity TYPE('p) + b" "b < 2 * capacity TYPE('p)"
    and same: "\<And>k. k < fifo_count s \<Longrightarrow>
      mem_word (fifo_memory s') (capacity TYPE('p)) (unat (pop_ptr_q s) + k) =
      mem_word (fifo_memory s) (capacity TYPE('p)) (unat (pop_ptr_q s) + k)"
  shows "fifo_count s' = fifo_count s + a - b"
    and "contents s' = drop b (contents s @ map (\<lambda>j. mem_word (fifo_memory s') (capacity TYPE('p))
      (unat (pop_ptr_q s) + fifo_count s + j)) [0..<a])"
proof -
  let ?m = "capacity TYPE('p)" and ?c = "fifo_count s"
  have l: "2 ^ LENGTH('p) = 2 * ?m" and m: "0 < ?m" using capacity_facts [OF assms(1)] by auto
  have w: "push_ptr_q s' - pop_ptr_q s' = word_of_nat (?c + a - b)"
  proof -
    have "push_ptr_q s - pop_ptr_q s = word_of_nat ?c" by (simp add: fifo_count_def)
    then have "push_ptr_q s' - pop_ptr_q s' = word_of_nat ?c + word_of_nat a - word_of_nat b"
      by (simp add: assms(3,4) algebra_simps)
    also have "\<dots> = word_of_nat (?c + a - b)" using assms(2) by (simp add: of_nat_diff)
    finally show ?thesis .
  qed
  show c': "fifo_count s' = ?c + a - b"
    unfolding fifo_count_def [of s'] w using assms(5) m by (simp add: unsigned_of_nat take_bit_eq_mod l)
  have "contents s' = map (\<lambda>k. mem_word (fifo_memory s') ?m (unat (pop_ptr_q s) + (b + k))) [0..<?c + a - b]"
    unfolding contents_eq [OF assms(1)] c'
    by (intro map_cong refl mem_word_mod)
      (metis assms(1) assms(4) pointer_add add.assoc mod_add_left_eq)
  also have "\<dots> = drop b (map (\<lambda>k. mem_word (fifo_memory s') ?m (unat (pop_ptr_q s) + k)) [0..<?c + a])"
    by (rule nth_equalityI) (auto simp: less_diff_conv)
  also have "map (\<lambda>k. mem_word (fifo_memory s') ?m (unat (pop_ptr_q s) + k)) [0..<?c + a] =
      contents s @ map (\<lambda>j. mem_word (fifo_memory s') ?m (unat (pop_ptr_q s) + ?c + j)) [0..<a]"
    unfolding contents_eq [OF assms(1)]
    by (rule nth_equalityI) (auto simp: nth_append same add.assoc)
  finally show "contents s' = drop b (contents s @ map (\<lambda>j. mem_word (fifo_memory s') ?m
      (unat (pop_ptr_q s) + ?c + j)) [0..<a])" .
qed

definition wf_input :: "'p::len cmu_fifo \<Rightarrow> bool" where
  "wf_input s = (fifo_count s \<le> capacity TYPE('p) \<and> 4 dvd unat (pop_ptr_q s))"

definition wf_output :: "'p::len cmu_fifo \<Rightarrow> bool" where
  "wf_output s = (fifo_count s \<le> capacity TYPE('p) \<and> 4 dvd unat (push_ptr_q s))"

lemma push_mod:
  fixes s :: "'p::len cmu_fifo"
  assumes "3 \<le> LENGTH('p)"
  shows "unat (push_ptr_q s) mod capacity TYPE('p) = (unat (pop_ptr_q s) + fifo_count s) mod capacity TYPE('p)"
  using pointer_add [OF assms, of "pop_ptr_q s" "fifo_count s"] by (simp add: fifo_count_def)

lemma dvd_pointer:
  fixes p :: "'p::len word"
  assumes "3 \<le> LENGTH('p)" "4 dvd unat p"
  shows "4 dvd unat (p + 4)"
proof -
  have "4 dvd (2 :: nat) ^ LENGTH('p)" using capacity_facts [OF assms(1)] by simp
  moreover have "unat (p + 4) = (unat p + 4) mod 2 ^ LENGTH('p)"
  proof -
    have "unat (4 :: 'p word) = 4"
    proof -
      have "(4 :: nat) < 2 ^ LENGTH('p)" using capacity_facts [OF assms(1)] by simp
      then show ?thesis by (simp add: unsigned_numeral take_bit_nat_eq_self)
    qed
    then show ?thesis by (simp add: unat_word_ariths)
  qed
  ultimately show ?thesis using assms(2) by (simp add: dvd_mod)
qed

section \<open>Both buffers are queues\<close>

text \<open>What enters and what leaves in a clock, as words.\<close>

definition input_pushed :: "u32 fifo_in \<Rightarrow> 'p::len cmu_fifo \<Rightarrow> u32 list" where
  "input_pushed i s = (if push_en i \<and> push_rdy s then [push_data i] else [])"

definition input_popped :: "u32 fifo_in \<Rightarrow> 'p::len cmu_fifo \<Rightarrow> u32 list" where
  "input_popped i s = (if pop_en i \<and> pop_rdy s then input_pop_words s else [])"

definition output_pushed :: "128 word fifo_in \<Rightarrow> 'p::len cmu_fifo \<Rightarrow> u32 list" where
  "output_pushed i s = (if push_en i \<and> push_rdy s
     then map (\<lambda>j. cat_bits (part (32 * j) 32 (push_data i))) [0..<4] else [])"

definition output_popped :: "128 word fifo_in \<Rightarrow> 'p::len cmu_fifo \<Rightarrow> u32 list" where
  "output_popped i s = (if pop_en i \<and> pop_rdy s then [output_pop_data s] else [])"

text \<open>A sequence of clocks, and what a function of the input and the state gives along it.\<close>

fun after_clocks :: "('i \<Rightarrow> 's \<Rightarrow> 's) \<Rightarrow> 'i list \<Rightarrow> 's \<Rightarrow> 's" where
  "after_clocks clk [] s = s"
| "after_clocks clk (i # is) s = after_clocks clk is (clk i s)"

fun along :: "('i \<Rightarrow> 's \<Rightarrow> 's) \<Rightarrow> ('i \<Rightarrow> 's \<Rightarrow> 'a list) \<Rightarrow> 'i list \<Rightarrow> 's \<Rightarrow> 'a list" where
  "along clk f [] s = []"
| "along clk f (i # is) s = f i s @ along clk f is (clk i s)"

text \<open>The contract of a queue: without a clear, what leaves and what stays is what was there and what
  entered, in this order.\<close>

locale word_queue =
  fixes clk :: "'i \<Rightarrow> 's \<Rightarrow> 's"
    and wf :: "'s \<Rightarrow> bool"
    and held :: "'s \<Rightarrow> u32 list"
    and pushed popped :: "'i \<Rightarrow> 's \<Rightarrow> u32 list"
    and clears :: "'i \<Rightarrow> bool"
  assumes wf_clk: "wf s \<Longrightarrow> wf (clk i s)"
    and queue_step: "wf s \<Longrightarrow> \<not> clears i \<Longrightarrow> popped i s @ held (clk i s) = held s @ pushed i s"
    and queue_clear: "clears i \<Longrightarrow> held (clk i s) = []"
begin

lemma in_order:
  "wf s \<Longrightarrow> list_all (\<lambda>i. \<not> clears i) is \<Longrightarrow> wf (after_clocks clk is s) \<and>
    along clk popped is s @ held (after_clocks clk is s) = held s @ along clk pushed is s"
proof (induction "is" arbitrary: s)
  case (Cons i "is")
  then have "along clk popped is (clk i s) @ held (after_clocks clk is (clk i s)) =
      held (clk i s) @ along clk pushed is (clk i s)" and "wf (after_clocks clk is (clk i s))"
    by (simp_all add: wf_clk)
  moreover have "popped i s @ held (clk i s) = held s @ pushed i s"
    using queue_step Cons.prems by simp
  ultimately show ?case by (metis after_clocks.simps(2) along.simps(2) append.assoc)
qed simp

end

lemma aligned_words:
  fixes q m j :: nat
  assumes "4 dvd q" "4 dvd m" "0 < m" "j < 4"
  shows "(q + j) mod m = q mod m + j" "(q mod m + j) div 4 = q mod m div 4" "(q mod m + j) mod 4 = j"
proof -
  have d: "4 dvd q mod m" using assms(1,2) by (simp add: dvd_mod)
  then obtain x where x: "q mod m = 4 * x" by blast
  obtain y where y: "m = 4 * y" using assms(2) by blast
  have "4 * x < 4 * y" using x y assms(3) by (metis mod_less_divisor)
  then have "q mod m + j < m" using x y assms(4) by simp
  then show "(q + j) mod m = q mod m + j" by (metis mod_add_left_eq mod_less)
  show "(q mod m + j) div 4 = q mod m div 4" "(q mod m + j) mod 4 = j"
    using x assms(4) by simp_all
qed

lemma wf_reset: "wf_input fifo_reset" "wf_output fifo_reset" "contents fifo_reset = []"
  by (simp_all add: wf_input_def wf_output_def fifo_reset_def fifo_count_def contents_def)

lemma input_clock:
  fixes s :: "'p::len cmu_fifo"
  assumes "3 \<le> LENGTH('p)" "wf_input s" "\<not> fifo_clear i"
  shows "wf_input (input_buf_clock i s)"
    and "input_popped i s @ contents (input_buf_clock i s) = contents s @ input_pushed i s"
proof -
  let ?m = "capacity TYPE('p)" and ?c = "fifo_count s" and ?q = "unat (pop_ptr_q s)"
  define s' where "s' = input_buf_clock i s"
  define a :: nat where "a = of_bool (push_en i \<and> push_rdy s)"
  define b :: nat where "b = (if pop_en i \<and> pop_rdy s then 4 else 0)"
  note wf = assms(2) [unfolded wf_input_def] and m = capacity_facts [OF assms(1)]
  note r = ready_input [OF assms(1)]
  have p: "push_ptr_q s' = push_ptr_q s + word_of_nat a" "pop_ptr_q s' = pop_ptr_q s + word_of_nat b"
    using assms(3) by (simp_all add: s'_def a_def b_def input_buf_clock_def Let_def)
  have ab: "b \<le> ?c" "?c + a \<le> ?m + b" "b < 2 * ?m" "0 < a \<Longrightarrow> ?c < ?m"
    using wf r m by (auto simp: a_def b_def split: if_splits)
  have mem: "mem_word (fifo_memory s') ?m n =
      (if 0 < a \<and> n mod ?m = (?q + ?c) mod ?m then push_data i else mem_word (fifo_memory s) ?m n)" for n
    using mem_word_push [OF m(2), of "fifo_memory s" "unat (push_ptr_q s)" "push_data i" n] assms(3)
    by (simp add: s'_def a_def input_buf_clock_def Let_def ptr_line_def ptr_pos_def ptr_part_eq push_mod [OF assms(1)])
  have same: "mem_word (fifo_memory s') ?m (?q + k) = mem_word (fifo_memory s) ?m (?q + k)" if "k < ?c" for k
    using mod_window [OF that, of ?m ?q] ab(4) by (auto simp: mem)
  have k: "fifo_count s' = ?c + a - b" "contents s' = drop b (contents s @
      map (\<lambda>j. mem_word (fifo_memory s') ?m (?q + ?c + j)) [0..<a])"
    by (rule contents_clock [OF assms(1) ab(1) p ab(2,3)], erule same)+
  have "input_pop_words s = take 4 (contents s)" if "4 \<le> ?c"
    using that wf aligned_words [OF _ m(1,2), of ?q]
    by (intro nth_equalityI)
      (auto simp: input_pop_words_def contents_eq [OF assms(1)] mem_word_def ptr_line_def ptr_part_eq)
  then have w: "input_popped i s = take b (contents s)"
    using r wf by (simp add: input_popped_def b_def)
  show "wf_input (input_buf_clock i s)"
    unfolding s'_def [symmetric] wf_input_def using k(1) ab wf dvd_pointer [OF assms(1)]
    by (auto simp: p(2) b_def)
  show "input_popped i s @ contents (input_buf_clock i s) = contents s @ input_pushed i s"
    unfolding s'_def [symmetric] k(2) w
    using ab(1) by (simp add: a_def mem input_pushed_def)
qed

lemma output_clock:
  fixes s :: "'p::len cmu_fifo"
  assumes "3 \<le> LENGTH('p)" "wf_output s" "\<not> fifo_clear i"
  shows "wf_output (output_buf_clock i s)"
    and "output_popped i s @ contents (output_buf_clock i s) = contents s @ output_pushed i s"
proof -
  let ?m = "capacity TYPE('p)" and ?c = "fifo_count s" and ?q = "unat (pop_ptr_q s)" and ?p = "unat (push_ptr_q s)"
  define s' where "s' = output_buf_clock i s"
  define a :: nat where "a = (if push_en i \<and> push_rdy s then 4 else 0)"
  define b :: nat where "b = of_bool (pop_en i \<and> pop_rdy s)"
  note wf = assms(2) [unfolded wf_output_def] and m = capacity_facts [OF assms(1)]
  note r = ready_output [OF assms(1)] and al = aligned_words [OF _ m(1,2), of ?p] and pm = push_mod [OF assms(1), of s]
  have p: "push_ptr_q s' = push_ptr_q s + word_of_nat a" "pop_ptr_q s' = pop_ptr_q s + word_of_nat b"
    using assms(3) by (simp_all add: s'_def a_def b_def output_buf_clock_def Let_def)
  have ab: "b \<le> ?c" "?c + a \<le> ?m + b" "b < 2 * ?m" "0 < a \<Longrightarrow> ?c + 4 \<le> ?m"
    using wf r m by (auto simp: a_def b_def split: if_splits)
  have mem: "mem_word (fifo_memory s') ?m n = (if 0 < a \<and> n mod ?m div 4 = ?p mod ?m div 4
      then cat_bits (part (32 * (n mod ?m mod 4)) 32 (push_data i)) else mem_word (fifo_memory s) ?m n)" for n
    using assms(3) by (simp add: s'_def a_def output_buf_clock_def Let_def ptr_line_def ptr_part_eq mem_word_def)
  have plus: "(?q + (?c + j)) mod ?m = ?p mod ?m + j" if "j < 4" for j
    using al(1) [OF _ that] wf pm by (metis add.assoc mod_add_left_eq)
  have same: "mem_word (fifo_memory s') ?m (?q + k) = mem_word (fifo_memory s) ?m (?q + k)" if "k < ?c" for k
  proof -
    have False if "0 < a" "(?q + k) mod ?m div 4 = ?p mod ?m div 4"
    proof -
      have "4 dvd ?p mod ?m" using wf m(1) by (simp add: dvd_mod)
      with that(2) same_line have "?p mod ?m \<le> (?q + k) mod ?m" "(?q + k) mod ?m < ?p mod ?m + 4" by blast+
      then obtain j where j: "j < 4" "(?q + k) mod ?m = ?p mod ?m + j"
        by (metis le_Suc_ex nat_add_left_cancel_less)
      then have "(?q + k) mod ?m = (?q + (?c + j)) mod ?m" using plus by simp
      with mod_window [of k "?c + j" ?m ?q] \<open>k < ?c\<close> j(1) ab(4) that(1) show False by auto
    qed
    then show ?thesis by (auto simp: mem)
  qed
  have k: "fifo_count s' = ?c + a - b" "contents s' = drop b (contents s @
      map (\<lambda>j. mem_word (fifo_memory s') ?m (?q + ?c + j)) [0..<a])"
    by (rule contents_clock [OF assms(1) ab(1) p ab(2,3)], erule same)+
  have new: "map (\<lambda>j. mem_word (fifo_memory s') ?m (?q + ?c + j)) [0..<a] = output_pushed i s"
    using plus al(2,3) wf by (auto simp: output_pushed_def a_def mem add.assoc)
  have "[output_pop_data s] = take 1 (contents s)" if "0 < ?c"
    using that by (intro nth_equalityI) (simp_all add: output_pop_data_def contents_eq [OF assms(1)] mem_word_def
      ptr_line_def ptr_pos_def ptr_part_eq)
  then have w: "output_popped i s = take b (contents s)"
    using r wf by (simp add: output_popped_def b_def)
  show "wf_output (output_buf_clock i s)"
    unfolding s'_def [symmetric] wf_output_def using k(1) ab wf dvd_pointer [OF assms(1)]
    by (auto simp: p(1) a_def)
  show "output_popped i s @ contents (output_buf_clock i s) = contents s @ output_pushed i s"
    unfolding s'_def [symmetric] k(2) new w using ab(1) by simp
qed

lemma clears_reset:
  "fifo_clear i \<Longrightarrow> input_buf_clock i s = fifo_reset" "fifo_clear j \<Longrightarrow> output_buf_clock j s = fifo_reset"
  by (simp_all add: input_buf_clock_def output_buf_clock_def)

text \<open>The two instances.\<close>

interpretation input_buf: word_queue input_buf_clock "wf_input :: 8 cmu_fifo \<Rightarrow> bool" contents input_pushed
  input_popped fifo_clear
proof
  fix s :: "8 cmu_fifo" and i
  show "wf_input s \<Longrightarrow> wf_input (input_buf_clock i s)"
    using input_clock(1) [of s i] by (cases "fifo_clear i") (simp_all add: clears_reset wf_reset)
  show "wf_input s \<Longrightarrow> \<not> fifo_clear i \<Longrightarrow>
      input_popped i s @ contents (input_buf_clock i s) = contents s @ input_pushed i s"
    using input_clock(2) [of s i] by simp
  show "fifo_clear i \<Longrightarrow> contents (input_buf_clock i s) = []"
    by (simp add: clears_reset wf_reset)
qed

interpretation output_buf: word_queue output_buf_clock "wf_output :: 3 cmu_fifo \<Rightarrow> bool" contents output_pushed
  output_popped fifo_clear
proof
  fix s :: "3 cmu_fifo" and i
  show "wf_output s \<Longrightarrow> wf_output (output_buf_clock i s)"
    using output_clock(1) [of s i] by (cases "fifo_clear i") (simp_all add: clears_reset wf_reset)
  show "wf_output s \<Longrightarrow> \<not> fifo_clear i \<Longrightarrow>
      output_popped i s @ contents (output_buf_clock i s) = contents s @ output_pushed i s"
    using output_clock(2) [of s i] by simp
  show "fifo_clear i \<Longrightarrow> contents (output_buf_clock i s) = []"
    by (simp add: clears_reset wf_reset)
qed

lemma entries_in_use_eq:
  fixes s :: "'p::len cmu_fifo"
  assumes "3 \<le> LENGTH('p)"
  shows "entries_in_use s = push_ptr_q s - pop_ptr_q s"
proof -
  let ?m = "capacity TYPE('p)"
  have "word_of_nat (?m + ?m) = (word_of_nat (2 ^ LENGTH('p)) :: 'p word)"
    using capacity_facts(3) [OF assms] by (simp only: mult_2)
  then have mm: "word_of_nat ?m + word_of_nat ?m = (0 :: 'p word)" by (simp add: of_nat_add)
  have part: "word_of_nat (ptr_part p) = p - (if wrap_bit p then word_of_nat ?m else 0)" for p :: "'p word"
  proof -
    have "unat p < 2 * ?m" using unat_below [of p] capacity_facts(3) [OF assms] by simp
    then have u: "unat p = ptr_part p + (if wrap_bit p then ?m else 0)"
      by (auto simp: ptr_part_eq wrap_bit_iff mod_if)
    have "p = word_of_nat (unat p)" by simp
    also have "\<dots> = word_of_nat (ptr_part p) + (if wrap_bit p then word_of_nat ?m else 0)"
      unfolding u of_nat_add by (simp split: if_split)
    finally show ?thesis by (metis add_diff_cancel_right')
  qed
  have e: "entries_in_use s = (if wrap_match s then 0 else word_of_nat ?m) + word_of_nat (ptr_part (push_ptr_q s)) -
      word_of_nat (ptr_part (pop_ptr_q s))"
    unfolding entries_in_use_def of_nat_add by (simp add: capacity_def)
  have "- word_of_nat ?m = (word_of_nat ?m :: 'p word)" using mm by (metis add_eq_0_iff)
  then show ?thesis
    unfolding e part wrap_match_def by (cases "wrap_bit (push_ptr_q s)"; cases "wrap_bit (pop_ptr_q s)") simp_all
qed

lemma wf_after:
  "wf_input (after_clocks input_buf_clock is (s :: 8 cmu_fifo))" if "wf_input s"
  using that by (induction "is" arbitrary: s) (simp_all add: input_buf.wf_clk)

lemma wf_after_output:
  "wf_output (after_clocks output_buf_clock is (s :: 3 cmu_fifo))" if "wf_output s"
  using that by (induction "is" arbitrary: s) (simp_all add: output_buf.wf_clk)

text \<open>The flags of the buffers are right in every reachable state. After any sequence of pushes, pops
  and clears the input buffer holds at most 128 words, accepts a word exactly when it holds fewer and
  offers a block exactly when it holds four words; the output buffer accepts a block exactly when it
  is empty and offers a word exactly when it is not; and both count the words they hold.\<close>

lemma cmu_buffer_flags:
  "let s1 = after_clocks input_buf_clock is1 (fifo_reset :: 8 cmu_fifo);
      s2 = after_clocks output_buf_clock is2 (fifo_reset :: 3 cmu_fifo) in
    (length (contents s1) \<le> 128 \<and> push_rdy s1 = (length (contents s1) < 128) \<and>
      pop_rdy s1 = (4 \<le> length (contents s1)) \<and> unat (entries_in_use s1) = length (contents s1)) \<and>
    (length (contents s2) \<le> 4 \<and> push_rdy s2 = (contents s2 = []) \<and>
      pop_rdy s2 = (contents s2 \<noteq> []) \<and> unat (entries_in_use s2) = length (contents s2))"
proof -
  define s1 s2 where s: "s1 = after_clocks input_buf_clock is1 (fifo_reset :: 8 cmu_fifo)"
    "s2 = after_clocks output_buf_clock is2 (fifo_reset :: 3 cmu_fifo)"
  have c: "capacity TYPE(8) = 128" "capacity TYPE(3) = 4" by (simp_all add: capacity_def)
  have w: "wf_input s1" "wf_output s2"
    using wf_after [OF wf_reset(1)] wf_after_output [OF wf_reset(2)] by (simp_all add: s)
  have e: "unat (entries_in_use s1) = length (contents s1)" "unat (entries_in_use s2) = length (contents s2)"
    by (simp_all add: entries_in_use_eq fifo_count_def)
  have "contents s2 = [] \<longleftrightarrow> fifo_count s2 = 0" by (metis length_0_conv length_contents)
  with w e show ?thesis
    using ready_input [of s1] ready_output [of s2]
    by (auto simp: c wf_input_def wf_output_def Let_def s [symmetric])
qed

text \<open>C17: the buffers keep the order of the data. From a well-formed state and without a clear, the words
  that leave a buffer, followed by those it still holds, are the words it held, followed by those
  that entered it, for every sequence of pushes and pops; a word that is refused is refused as a
  whole.\<close>

theorem cmu_buffers_in_order:
  fixes s1 :: "8 cmu_fifo" and s2 :: "3 cmu_fifo"
  assumes "wf_input s1" "list_all (\<lambda>i. \<not> fifo_clear i) is1" "wf_output s2" "list_all (\<lambda>i. \<not> fifo_clear i) is2"
  shows "along input_buf_clock input_popped is1 s1 @ contents (after_clocks input_buf_clock is1 s1) =
      contents s1 @ along input_buf_clock input_pushed is1 s1 \<and>
    along output_buf_clock output_popped is2 s2 @ contents (after_clocks output_buf_clock is2 s2) =
      contents s2 @ along output_buf_clock output_pushed is2 s2"
  using input_buf.in_order [OF assms(1,2)] output_buf.in_order [OF assms(3,4)] by blast

theorem cmu_buffers_in_order_witness:
  "along input_buf_clock input_popped
     (map (\<lambda>n. \<lparr>fifo_clear = False, push_en = True, pop_en = n = 4, push_data = word_of_nat n\<rparr>) [0..<5])
     (fifo_reset :: 8 cmu_fifo) @
   contents (after_clocks input_buf_clock
     (map (\<lambda>n. \<lparr>fifo_clear = False, push_en = True, pop_en = n = 4, push_data = word_of_nat n\<rparr>) [0..<5])
     (fifo_reset :: 8 cmu_fifo)) =
   along input_buf_clock input_pushed
     (map (\<lambda>n. \<lparr>fifo_clear = False, push_en = True, pop_en = n = 4, push_data = word_of_nat n\<rparr>) [0..<5])
     (fifo_reset :: 8 cmu_fifo)"
  using cmu_buffers_in_order [OF wf_reset(1) _ wf_reset(2), of
    "map (\<lambda>n. \<lparr>fifo_clear = False, push_en = True, pop_en = n = 4, push_data = word_of_nat n\<rparr>) [0..<5]" "[]"]
  by (simp add: wf_reset list_all_iff)

end
