(* ===== verification/Mpu.thy ===== *)
theory Mpu
  imports TestsOnOff
begin

text \<open>
  The memory protection unit in front of the cache (\<open>src/src/mpu/rtl/hsp_mpu.sv\<close>, \<open>mpu_regs.sv\<close>,
  \<open>mpu_wrapper.sv\<close>) with the parameters of its instance in \<open>sinc_ciu.sv\<close>: 4096 pages of 4 KB, a
  register for the attributes of eight pages, 512 registers for the user and 512 for the privileged
  mode, one pipeline stage. The inputs \<open>accsrc\<close> and \<open>mpu_top_page_acc_en\<close> are tied to 0 and 1 there;
  they are inputs here, and the statements about accesses fix them. The specification is a table of
  permissions per page.
\<close>

section \<open>Inputs and registers\<close>

record mpu_in =
  addr :: "24 word"
  req_id :: "4 word"
  req_en :: bool
  req_we :: bool
  req_xe :: bool
  accsrc :: bool
  mpu_top_page_acc_en :: bool
  ext_acc_vio :: bool
  soft_rst :: bool
  mpu_disable :: bool
  priv_mode :: bool
  override_nx :: bool
  mpu_reg_addr :: "13 word"
  mpu_reg_wdata :: u32
  mpu_reg_wr_en :: bool
  mpu_reg_rd_en :: bool
  clkg_override :: bool
  clkg_test_mode :: bool

record hsp_mpu =
  Regf :: "10 word \<Rightarrow> u32"
  user_mode_reg :: u32
  priv_mode_reg :: u32
  attrib_sel :: "3 word"
  en_reg :: bool
  we_reg :: bool
  xe_reg :: bool
  pm_reg :: bool
  addr_reg :: "24 word"
  id_reg :: "4 word"
  accsrc_reg :: bool
  top_page_accvio_reg :: bool

record mpu_status =
  accvio_clear :: bool
  accvio_id :: "4 word"
  accvio_ex :: bool
  accvio_wr :: bool
  accvio_rd :: bool
  accvio_addr :: "24 word"

record mpu_unit =
  u_mpu :: hsp_mpu
  u_regs :: mpu_status
  vio_valid :: bool

definition NUM_PAGES :: nat where "NUM_PAGES = 4096"
definition NUM_REGS :: nat where "NUM_REGS = 1024"
definition PRIV_ATTRIB_OFFSET :: "10 word" where "PRIV_ATTRIB_OFFSET = 512"
definition CRYPTO_ATTRIB_OFFSET :: u32 where "CRYPTO_ATTRIB_OFFSET = 1024"
definition ATTRIB_RESET :: u32 where "ATTRIB_RESET = 0x77777777"
definition ATTRIB_WMASK :: u32 where "ATTRIB_WMASK = 0xffffffff"

section \<open>Attribute registers\<close>

text \<open>\<open>reg_addr_err\<close>; a register address has ten bits.\<close>

definition reg_addr_err :: "10 word \<Rightarrow> bool" where
  "reg_addr_err reg_addr = (unat reg_addr \<ge> NUM_REGS)"

definition reg_selected :: "hsp_mpu \<Rightarrow> 10 word \<Rightarrow> u32" where
  "reg_selected s reg_addr = (if reg_addr_err reg_addr then 0 else Regf s reg_addr)"

text \<open>The attributes of page \<open>j\<close> of a register: lock, executable, writable and readable.\<close>

definition nibble :: "nat \<Rightarrow> u32 \<Rightarrow> 4 word" where
  "nibble j v = ucast (drop_bit (4 * j) v)"

definition LOCK :: nat where "LOCK = 3"
definition EXECUTABLE :: nat where "EXECUTABLE = 2"
definition WRITABLE :: nat where "WRITABLE = 1"
definition READABLE :: nat where "READABLE = 0"

definition lock_err :: "u32 \<Rightarrow> u32 \<Rightarrow> bool" where
  "lock_err selected wdata = (let wr_diff = selected XOR wdata in
     list_ex (\<lambda>j. bit selected (4 * j + LOCK) \<and> nibble j wr_diff \<noteq> 0) [0..<8])"

definition wr_err :: "hsp_mpu \<Rightarrow> bool \<Rightarrow> 10 word \<Rightarrow> u32 \<Rightarrow> bool" where
  "wr_err s reg_wr reg_addr reg_wdata =
     (reg_wr \<and> (reg_addr_err reg_addr \<or> lock_err (reg_selected s reg_addr) reg_wdata))"

definition attr_rdata :: "hsp_mpu \<Rightarrow> bool \<Rightarrow> 10 word \<Rightarrow> u32" where
  "attr_rdata s reg_rd reg_addr = (if reg_rd then reg_selected s reg_addr else 0)"

definition attr_accerr :: "hsp_mpu \<Rightarrow> bool \<Rightarrow> bool \<Rightarrow> 10 word \<Rightarrow> u32 \<Rightarrow> bool" where
  "attr_accerr s reg_wr reg_rd reg_addr reg_wdata =
     (wr_err s reg_wr reg_addr reg_wdata \<or> reg_rd \<and> reg_addr_err reg_addr)"

definition Regf_next :: "bool \<Rightarrow> bool \<Rightarrow> 10 word \<Rightarrow> u32 \<Rightarrow> hsp_mpu \<Rightarrow> 10 word \<Rightarrow> u32" where
  "Regf_next rst reg_wr reg_addr reg_wdata s =
    (if rst then (\<lambda>_. ATTRIB_RESET)
     else if reg_wr \<and> \<not> wr_err s reg_wr reg_addr reg_wdata
     then (Regf s)(reg_addr := reg_wdata AND ATTRIB_WMASK)
     else Regf s)"

section \<open>The pipeline stage and the check\<close>

definition page_sel :: "24 word \<Rightarrow> 12 word" where
  "page_sel a = ucast (drop_bit 12 a)"

definition top_page_accvio :: "mpu_in \<Rightarrow> bool" where
  "top_page_accvio i = (unat (page_sel (addr i)) = NUM_PAGES - 1 \<and> \<not> mpu_top_page_acc_en i)"

definition user_mode_select :: "mpu_in \<Rightarrow> u32" where
  "user_mode_select i = ucast (drop_bit 3 (drop_bit 12 (addr i))) + (if accsrc i then CRYPTO_ATTRIB_OFFSET else 0)"

definition priv_mode_select :: "mpu_in \<Rightarrow> 10 word" where
  "priv_mode_select i = ucast (drop_bit 3 (drop_bit 12 (addr i))) + PRIV_ATTRIB_OFFSET"

definition mpu_soft_reset :: hsp_mpu where
  "mpu_soft_reset = \<lparr>Regf = (\<lambda>_. ATTRIB_RESET), user_mode_reg = 0, priv_mode_reg = 0, attrib_sel = 0,
     en_reg = False, we_reg = False, xe_reg = False, pm_reg = False, addr_reg = 0, id_reg = 0,
     accsrc_reg = False, top_page_accvio_reg = False\<rparr>"

definition hsp_mpu_clock :: "mpu_in \<Rightarrow> bool \<Rightarrow> 10 word \<Rightarrow> hsp_mpu \<Rightarrow> hsp_mpu" where
  "hsp_mpu_clock i reg_wr reg_addr s =
    (if soft_rst i then mpu_soft_reset
     else \<lparr>Regf = Regf_next False reg_wr reg_addr (mpu_reg_wdata i) s,
       user_mode_reg = Regf s (ucast (user_mode_select i)),
       priv_mode_reg = Regf s (priv_mode_select i),
       attrib_sel = ucast (drop_bit 12 (addr i)),
       en_reg = req_en i, we_reg = req_we i, xe_reg = req_xe i, pm_reg = priv_mode i,
       addr_reg = addr i, id_reg = req_id i, accsrc_reg = accsrc i,
       top_page_accvio_reg = top_page_accvio i\<rparr>)"

definition actual_attrib :: "hsp_mpu \<Rightarrow> 3 word" where
  "actual_attrib s =
    (let user_mode_attrib = ucast (nibble (unat (attrib_sel s)) (user_mode_reg s)) :: 3 word;
         priv_mode_attrib = ucast (nibble (unat (attrib_sel s)) (priv_mode_reg s)) :: 3 word
     in if accsrc_reg s then user_mode_attrib
        else if pm_reg s then priv_mode_attrib else user_mode_attrib AND priv_mode_attrib)"

record violation =
  int_acc_vio :: bool
  vio_rd :: bool
  vio_wr :: bool
  vio_ex :: bool

definition accvio_check :: "mpu_in \<Rightarrow> hsp_mpu \<Rightarrow> violation" where
  "accvio_check i s =
    (let chk_en = en_reg s \<and> (\<not> mpu_disable i \<or> top_page_accvio_reg s); a = actual_attrib s in
     if \<not> chk_en then
       (let acc_vio = en_reg s \<and> xe_reg s \<and> override_nx i
        in \<lparr>int_acc_vio = acc_vio, vio_rd = False, vio_wr = False, vio_ex = acc_vio\<rparr>)
     else if \<not> we_reg s \<and> \<not> xe_reg s then
       (let acc_vio = \<not> bit a READABLE \<or> top_page_accvio_reg s
        in \<lparr>int_acc_vio = acc_vio, vio_rd = acc_vio, vio_wr = False, vio_ex = False\<rparr>)
     else if we_reg s \<and> \<not> xe_reg s then
       (let acc_vio = \<not> bit a WRITABLE \<or> top_page_accvio_reg s
        in \<lparr>int_acc_vio = acc_vio, vio_rd = False, vio_wr = acc_vio, vio_ex = False\<rparr>)
     else if \<not> we_reg s \<and> xe_reg s then
       (let acc_vio = (\<not> bit a EXECUTABLE \<or> override_nx i) \<or> top_page_accvio_reg s
        in \<lparr>int_acc_vio = acc_vio, vio_rd = False, vio_wr = False, vio_ex = acc_vio\<rparr>)
     else \<lparr>int_acc_vio = True, vio_rd = False, vio_wr = True, vio_ex = True\<rparr>)"

definition txn_rd :: "hsp_mpu \<Rightarrow> bool" where "txn_rd s = (en_reg s \<and> \<not> xe_reg s \<and> \<not> we_reg s)"
definition txn_wr :: "hsp_mpu \<Rightarrow> bool" where "txn_wr s = (en_reg s \<and> \<not> xe_reg s \<and> we_reg s)"
definition txn_ex :: "hsp_mpu \<Rightarrow> bool" where "txn_ex s = (en_reg s \<and> xe_reg s \<and> \<not> we_reg s)"

section \<open>The wrapper\<close>

definition mpu_csr_decode :: "mpu_in \<Rightarrow> bool" where
  "mpu_csr_decode i = (drop_bit 8 (mpu_reg_addr i) = 0)"

definition attr_reg_decode :: "mpu_in \<Rightarrow> bool" where
  "attr_reg_decode i = bit (mpu_reg_addr i) 12"

definition attr_reg_addr :: "mpu_in \<Rightarrow> 10 word" where
  "attr_reg_addr i = ucast (drop_bit 2 (mpu_reg_addr i))"

definition addr_decode_err :: "mpu_in \<Rightarrow> bool" where
  "addr_decode_err i = ((mpu_reg_rd_en i \<or> mpu_reg_wr_en i) \<and> \<not> (mpu_csr_decode i \<or> attr_reg_decode i))"

definition csr_addr :: "mpu_in \<Rightarrow> 8 word" where "csr_addr i = ucast (mpu_reg_addr i)"

definition status_value :: "mpu_status \<Rightarrow> u32" where
  "status_value r = push_bit 31 (of_bool (accvio_clear r)) OR push_bit 27 (ucast (accvio_id r)) OR
     push_bit 26 (of_bool (accvio_ex r)) OR push_bit 25 (of_bool (accvio_wr r)) OR
     push_bit 24 (of_bool (accvio_rd r)) OR ucast (accvio_addr r)"

definition mpu_csr_rdata :: "mpu_in \<Rightarrow> mpu_unit \<Rightarrow> u32" where
  "mpu_csr_rdata i u = (if mpu_reg_rd_en i \<and> mpu_csr_decode i
     then (if csr_addr i = 0 then status_value (u_regs u) else 0) else 0)"

definition mpu_csr_err :: "mpu_in \<Rightarrow> bool" where
  "mpu_csr_err i = ((mpu_reg_rd_en i \<or> mpu_reg_wr_en i) \<and> mpu_csr_decode i \<and> csr_addr i \<noteq> 0)"

definition mpu_reg_rdata :: "mpu_in \<Rightarrow> mpu_unit \<Rightarrow> u32" where
  "mpu_reg_rdata i u = (if attr_reg_decode i
     then attr_rdata (u_mpu u) (mpu_reg_rd_en i \<and> attr_reg_decode i) (attr_reg_addr i) else mpu_csr_rdata i u)"

definition mpu_reg_resp :: "mpu_in \<Rightarrow> mpu_unit \<Rightarrow> bool \<times> bool" where
  "mpu_reg_resp i u = (mpu_csr_err i \<or>
      attr_accerr (u_mpu u) (mpu_reg_wr_en i \<and> attr_reg_decode i) (mpu_reg_rd_en i \<and> attr_reg_decode i)
        (attr_reg_addr i) (mpu_reg_wdata i) \<or> addr_decode_err i,
    mpu_reg_wr_en i)"

definition mpu_reg_respvalid :: "mpu_in \<Rightarrow> bool" where
  "mpu_reg_respvalid i = (((mpu_reg_rd_en i \<or> mpu_reg_wr_en i) \<and> mpu_csr_decode i) \<or>
     ((mpu_reg_rd_en i \<or> mpu_reg_wr_en i) \<and> attr_reg_decode i) \<or> addr_decode_err i)"

definition acc_vio :: "mpu_in \<Rightarrow> mpu_unit \<Rightarrow> bool" where
  "acc_vio i u = (int_acc_vio (accvio_check i (u_mpu u)) \<or> ext_acc_vio i)"

definition mpu_busy :: "mpu_unit \<Rightarrow> bool" where "mpu_busy u = en_reg (u_mpu u)"

definition mpu_sts_clear :: "mpu_in \<Rightarrow> mpu_unit \<Rightarrow> bool" where
  "mpu_sts_clear i u = (accvio_clear (u_regs u) \<or> soft_rst i)"

definition log_acc_vio :: "mpu_in \<Rightarrow> mpu_unit \<Rightarrow> bool" where
  "log_acc_vio i u = (acc_vio i u \<and> \<not> vio_valid u)"

definition log_kind :: "bool \<Rightarrow> bool \<Rightarrow> mpu_in \<Rightarrow> mpu_unit \<Rightarrow> bool" where
  "log_kind accvio txn i u = (if int_acc_vio (accvio_check i (u_mpu u)) then accvio
     else if ext_acc_vio i then txn else False)"

definition mpu_regs_clock :: "mpu_in \<Rightarrow> mpu_unit \<Rightarrow> mpu_status" where
  "mpu_regs_clock i u =
    (let r = u_regs u; v = accvio_check i (u_mpu u); s = u_mpu u;
         flag = (\<lambda>old new. if mpu_sts_clear i u then False else if log_acc_vio i u then new else old)
     in \<lparr>accvio_clear = (if mpu_reg_wr_en i \<and> mpu_csr_decode i \<and> csr_addr i = 0 then bit (mpu_reg_wdata i) 31 else False),
         accvio_id = (if mpu_sts_clear i u then 0 else if log_acc_vio i u then id_reg s else accvio_id r),
         accvio_ex = flag (accvio_ex r) (log_kind (vio_ex v) (txn_ex s) i u),
         accvio_wr = flag (accvio_wr r) (log_kind (vio_wr v) (txn_wr s) i u),
         accvio_rd = flag (accvio_rd r) (log_kind (vio_rd v) (txn_rd s) i u),
         accvio_addr = (if mpu_sts_clear i u then 0 else if log_acc_vio i u then addr_reg s else accvio_addr r)\<rparr>)"

definition clkg_enable :: "mpu_in \<Rightarrow> mpu_unit \<Rightarrow> bool" where
  "clkg_enable i u = (req_en i \<or> mpu_busy u \<or> accvio_clear (u_regs u) \<or> soft_rst i \<or> mpu_reg_wr_en i \<or>
     mpu_reg_rd_en i \<or> mpu_reg_respvalid i \<or> mpu_reg_resp i u \<noteq> (False, False))"

text \<open>The clock gate: with \<open>gated\<close> the cell of the standard library, else the variant for FPGAs, which
  passes the clock on.\<close>

definition gated_clk :: "bool \<Rightarrow> mpu_in \<Rightarrow> mpu_unit \<Rightarrow> bool" where
  "gated_clk gated i u = (\<not> gated \<or> clkg_enable i u \<or> clkg_override i \<or> clkg_test_mode i)"

definition mpu_clock :: "bool \<Rightarrow> mpu_in \<Rightarrow> mpu_unit \<Rightarrow> mpu_unit" where
  "mpu_clock gated i u =
    \<lparr>u_mpu = (if gated_clk gated i u
       then hsp_mpu_clock i (mpu_reg_wr_en i \<and> attr_reg_decode i) (attr_reg_addr i) (u_mpu u) else u_mpu u),
     u_regs = mpu_regs_clock i u,
     vio_valid = (if mpu_sts_clear i u then False else if log_acc_vio i u then True else vio_valid u)\<rparr>"

definition mpu_reset :: mpu_unit where
  "mpu_reset = \<lparr>u_mpu = mpu_soft_reset,
     u_regs = \<lparr>accvio_clear = False, accvio_id = 0, accvio_ex = False, accvio_wr = False, accvio_rd = False,
       accvio_addr = 0\<rparr>, vio_valid = False\<rparr>"

primrec mpu_run :: "bool \<Rightarrow> mpu_in list \<Rightarrow> mpu_unit \<Rightarrow> mpu_unit" where
  "mpu_run gated [] u = u"
| "mpu_run gated (i # is) u = mpu_run gated is (mpu_clock gated i u)"

section \<open>Permissions of pages\<close>

datatype access = Read | Write | Execute

definition access_of :: "mpu_in \<Rightarrow> access" where
  "access_of i = (if req_xe i then Execute else if req_we i then Write else Read)"

definition right :: "access \<Rightarrow> nat" where
  "right acc = (case acc of Read \<Rightarrow> READABLE | Write \<Rightarrow> WRITABLE | Execute \<Rightarrow> EXECUTABLE)"

text \<open>The attributes of a page for the user (\<open>True\<close>) and the privileged mode.\<close>

definition attr_index :: "bool \<Rightarrow> nat \<Rightarrow> 10 word" where
  "attr_index user k = word_of_nat k + (if user then 0 else PRIV_ATTRIB_OFFSET)"

definition page_attr :: "(10 word \<Rightarrow> u32) \<Rightarrow> bool \<Rightarrow> 12 word \<Rightarrow> 4 word" where
  "page_attr regf user p = nibble (unat p mod 8) (regf (attr_index user (unat p div 8)))"

definition permitted :: "(10 word \<Rightarrow> u32) \<Rightarrow> bool \<Rightarrow> 12 word \<Rightarrow> access \<Rightarrow> bool" where
  "permitted regf priv p acc = (bit (page_attr regf False p) (right acc) \<and>
     (priv \<or> bit (page_attr regf True p) (right acc)))"

text \<open>What has to be refused: a fetch while execution is switched off, and, unless the unit is disabled,
  an access without permission.\<close>

definition refused :: "(10 word \<Rightarrow> u32) \<Rightarrow> bool \<Rightarrow> bool \<Rightarrow> bool \<Rightarrow> 12 word \<Rightarrow> access \<Rightarrow> bool" where
  "refused regf dis nx priv p acc = (acc = Execute \<and> nx \<or> \<not> dis \<and> \<not> permitted regf priv p acc)"

lemmas right_defs = right_def READABLE_def WRITABLE_def EXECUTABLE_def

lemmas unat_shift = unat_drop_bit_eq drop_bit_eq_div [where 'a = nat] unsigned_ucast_eq

lemma unat_page_sel: "unat (page_sel a) = unat a div 2 ^ 12"
proof -
  have "unat a < 2 ^ 24" using unsigned_less [of a] by simp
  then show ?thesis by (simp add: page_sel_def unat_shift take_bit_nat_eq_self)
qed

lemma selects:
  assumes "\<not> accsrc i"
  shows "ucast (user_mode_select i) = attr_index True (unat (page_sel (addr i)) div 8)"
    and "priv_mode_select i = attr_index False (unat (page_sel (addr i)) div 8)"
    and "unat (ucast (drop_bit 12 (addr i)) :: 3 word) = unat (page_sel (addr i)) mod 8"
proof -
  have p: "unat (page_sel (addr i)) div 8 = unat (drop_bit 3 (drop_bit 12 (addr i)))"
    by (simp add: unat_page_sel unat_shift div_mult2_eq [symmetric])
  have w: "word_of_nat (unat w) = (ucast w :: 'b::len word)" for w :: "'a::len word" by simp
  have "ucast (ucast w :: u32) = (ucast w :: 10 word)" for w :: "24 word"
    by (rule bit_word_eqI) (auto simp: bit_simps)
  then show "ucast (user_mode_select i) = attr_index True (unat (page_sel (addr i)) div 8)"
    "priv_mode_select i = attr_index False (unat (page_sel (addr i)) div 8)"
    unfolding p attr_index_def w using assms
    by (simp_all add: user_mode_select_def priv_mode_select_def)
  show "unat (ucast (drop_bit 12 (addr i)) :: 3 word) = unat (page_sel (addr i)) mod 8"
    by (simp add: unat_page_sel unat_shift take_bit_eq_mod)
qed

lemma bit_attrib:
  "n < 3 \<Longrightarrow> bit (ucast (nibble j v) :: 3 word) n = bit (nibble j v) n"
  by (simp add: bit_simps)

text \<open>The check of a request, one clock after it.\<close>

lemma accvio_check_after:
  assumes "\<not> soft_rst i" "\<not> accsrc i" "mpu_top_page_acc_en i" "\<not> (req_we i \<and> req_xe i)"
  shows "accvio_check i' (hsp_mpu_clock i w a s) =
    (let v = req_en i \<and> refused (Regf s) (mpu_disable i') (override_nx i') (priv_mode i) (page_sel (addr i)) (access_of i)
     in \<lparr>int_acc_vio = v, vio_rd = (v \<and> access_of i = Read), vio_wr = (v \<and> access_of i = Write),
        vio_ex = (v \<and> access_of i = Execute)\<rparr>)"
  using assms
  by (auto simp: accvio_check_def hsp_mpu_clock_def top_page_accvio_def actual_attrib_def selects refused_def
    permitted_def page_attr_def access_of_def right_defs bit_attrib bit_and_iff Let_def)

lemma accvio_check_idle: "\<not> en_reg s \<Longrightarrow> \<not> int_acc_vio (accvio_check i s)"
  by (simp add: accvio_check_def Let_def)

section \<open>Locks\<close>

lemma acc_vio_after:
  assumes "\<not> soft_rst i" "\<not> accsrc i" "mpu_top_page_acc_en i" "\<not> (req_we i \<and> req_xe i)"
  shows "acc_vio i' (mpu_clock gated i u) \<longleftrightarrow> ext_acc_vio i' \<or> req_en i \<and>
    refused (Regf (u_mpu u)) (mpu_disable i') (override_nx i') (priv_mode i) (page_sel (addr i)) (access_of i)"
proof (cases "gated_clk gated i u")
  case True
  then show ?thesis by (auto simp: acc_vio_def mpu_clock_def accvio_check_after [OF assms] Let_def)
next
  case False
  then have "\<not> req_en i" "\<not> en_reg (u_mpu u)" by (simp_all add: gated_clk_def clkg_enable_def mpu_busy_def)
  with False show ?thesis by (simp add: acc_vio_def mpu_clock_def accvio_check_idle)
qed

lemma en_reg_after: "\<not> soft_rst i \<Longrightarrow> en_reg (u_mpu (mpu_clock gated i u)) = req_en i"
  by (auto simp: mpu_clock_def gated_clk_def clkg_enable_def mpu_busy_def hsp_mpu_clock_def)

lemma acc_vio_idle: "\<not> en_reg (u_mpu u) \<Longrightarrow> acc_vio i u = ext_acc_vio i"
  by (simp add: acc_vio_def accvio_check_idle)

lemma regf_after:
  "\<not> soft_rst i \<Longrightarrow> \<not> mpu_reg_wr_en i \<Longrightarrow> Regf (u_mpu (mpu_clock gated i u)) = Regf (u_mpu u)"
  by (simp add: mpu_clock_def hsp_mpu_clock_def Regf_next_def)

lemma bit_nibble: "bit (nibble j v) n \<longleftrightarrow> n < 4 \<and> bit v (4 * j + n)"
  by (auto simp: nibble_def bit_simps ac_simps)

lemma lock_errI: "j < 8 \<Longrightarrow> bit (nibble j v) LOCK \<Longrightarrow> nibble j w \<noteq> nibble j v \<Longrightarrow> lock_err v w"
proof -
  assume j: "j < 8" "bit (nibble j v) LOCK" "nibble j w \<noteq> nibble j v"
  have "nibble j (v XOR w) = nibble j v XOR nibble j w"
    by (rule bit_word_eqI) (auto simp: bit_nibble bit_xor_iff)
  with j(3) have "nibble j (v XOR w) \<noteq> 0" by (metis xor_zeroD)
  with j(1,2) show "lock_err v w" by (auto simp: lock_err_def list_ex_iff Let_def bit_nibble LOCK_def)
qed

lemma no_addr_err: "\<not> reg_addr_err a"
  using unsigned_less [of a] by (simp add: reg_addr_err_def NUM_REGS_def not_le)

lemma full_mask [simp]: "v AND ATTRIB_WMASK = v"
proof -
  have m: "ATTRIB_WMASK = mask 32" by (simp add: ATTRIB_WMASK_def mask_eq_exp_minus_1)
  show ?thesis unfolding m by (rule bit_word_eqI) (simp add: bit_simps)
qed

lemma locked_nibble:
  assumes "j < 8" "bit (nibble j (Regf s a)) LOCK"
  shows "nibble j (Regf_next False w b v s a) = nibble j (Regf s a)"
  using lock_errI [OF assms, of v]
  by (auto simp: Regf_next_def wr_err_def reg_selected_def no_addr_err)

lemma locked_clock:
  assumes "\<not> soft_rst i" "bit (page_attr (Regf (u_mpu u)) user p) LOCK"
  shows "page_attr (Regf (u_mpu (mpu_clock gated i u))) user p = page_attr (Regf (u_mpu u)) user p"
  using assms unfolding page_attr_def by (simp add: mpu_clock_def hsp_mpu_clock_def locked_nibble)

section \<open>The log of violations\<close>

text \<open>An input that does not clear the log.\<close>

definition keeps_log :: "mpu_in \<Rightarrow> bool" where
  "keeps_log i \<longleftrightarrow> \<not> soft_rst i \<and>
     \<not> (mpu_reg_wr_en i \<and> mpu_csr_decode i \<and> csr_addr i = 0 \<and> bit (mpu_reg_wdata i) 31)"

lemma log_kept:
  assumes "list_all keeps_log is" "vio_valid u" "\<not> accvio_clear (u_regs u)"
  shows "u_regs (mpu_run gated is u) = u_regs u \<and> vio_valid (mpu_run gated is u)"
  using assms
proof (induction "is" arbitrary: u)
  case (Cons i "is")
  then have "u_regs (mpu_clock gated i u) = u_regs u" "vio_valid (mpu_clock gated i u)"
    by (simp_all add: mpu_clock_def mpu_regs_clock_def keeps_log_def mpu_sts_clear_def log_acc_vio_def Let_def)
  with Cons show ?case by simp
qed simp

section \<open>The clock gate\<close>

definition mpu_obs :: "mpu_in \<Rightarrow> mpu_unit \<Rightarrow> bool \<times> bool \<times> u32 \<times> bool \<times> bool \<times> bool" where
  "mpu_obs i u = (acc_vio i u, mpu_busy u, mpu_reg_rdata i u, fst (mpu_reg_resp i u), snd (mpu_reg_resp i u),
     mpu_reg_respvalid i)"

primrec mpu_trace :: "bool \<Rightarrow> mpu_in list \<Rightarrow> mpu_unit \<Rightarrow> (bool \<times> bool \<times> u32 \<times> bool \<times> bool \<times> bool) list" where
  "mpu_trace gated [] u = []"
| "mpu_trace gated (i # is) u = mpu_obs i u # mpu_trace gated is (mpu_clock gated i u)"

text \<open>Violations from outside concern a request of the clock before (\<open>nxt_ext_acc_vio\<close> of
  \<open>sinc_ciu_ctrl.sv\<close> is part of \<open>req_en\<close>); \<open>b\<close> says whether there was one.\<close>

primrec ext_follows :: "bool \<Rightarrow> mpu_in list \<Rightarrow> bool" where
  "ext_follows b [] = True"
| "ext_follows b (i # is) = ((b \<or> \<not> ext_acc_vio i) \<and> ext_follows (req_en i \<and> \<not> soft_rst i) is)"

text \<open>Equal up to the pipeline registers of a stage that holds no request.\<close>

definition alike :: "mpu_unit \<Rightarrow> mpu_unit \<Rightarrow> bool" where
  "alike u t \<longleftrightarrow> Regf (u_mpu u) = Regf (u_mpu t) \<and> en_reg (u_mpu u) = en_reg (u_mpu t) \<and>
     u_regs u = u_regs t \<and> vio_valid u = vio_valid t \<and> (en_reg (u_mpu u) \<longrightarrow> u_mpu u = u_mpu t)"

lemma alike_obs: "alike u t \<Longrightarrow> mpu_obs i u = mpu_obs i t"
  by (auto simp: alike_def mpu_obs_def acc_vio_def mpu_busy_def mpu_reg_rdata_def mpu_reg_resp_def mpu_csr_rdata_def
    attr_rdata_def attr_accerr_def wr_err_def reg_selected_def accvio_check_idle)

lemma alike_clock:
  assumes "alike u t" "mpu_busy u \<or> \<not> ext_acc_vio i"
  shows "alike (mpu_clock True i u) (mpu_clock False i t)"
    and "mpu_busy (mpu_clock True i u) = (req_en i \<and> \<not> soft_rst i)"
proof -
  have idle: "clkg_enable i u \<or> \<not> req_en i \<and> \<not> mpu_busy u \<and> \<not> soft_rst i \<and> \<not> mpu_reg_wr_en i"
    by (auto simp: clkg_enable_def)
  have vio: "int_acc_vio (accvio_check i (u_mpu u)) = int_acc_vio (accvio_check i (u_mpu t))"
    using assms(1) by (auto simp: alike_def accvio_check_idle)
  then have log: "log_acc_vio i u = log_acc_vio i t" "mpu_sts_clear i u = mpu_sts_clear i t"
    using assms(1) by (auto simp: alike_def log_acc_vio_def acc_vio_def mpu_sts_clear_def)
  have same: "u_mpu u = u_mpu t" if "log_acc_vio i u"
    using that assms by (auto simp: alike_def log_acc_vio_def acc_vio_def mpu_busy_def accvio_check_idle)
  have "mpu_regs_clock i u = mpu_regs_clock i t"
    using assms(1) log same vio by (auto simp: alike_def mpu_regs_clock_def log_kind_def Let_def)
  moreover have "hsp_mpu_clock i w a (u_mpu u) = hsp_mpu_clock i w a (u_mpu t)" for w a
    using assms(1) by (simp add: alike_def hsp_mpu_clock_def Regf_next_def wr_err_def reg_selected_def)
  moreover have "Regf (hsp_mpu_clock i False a (u_mpu t)) = Regf (u_mpu u) \<and>
      \<not> en_reg (hsp_mpu_clock i False a (u_mpu t)) \<and> \<not> en_reg (u_mpu u)" if "\<not> clkg_enable i u" for a
    using that idle assms(1) by (simp add: alike_def hsp_mpu_clock_def Regf_next_def mpu_busy_def)
  moreover have "vio_valid u = vio_valid t" using assms(1) by (simp add: alike_def)
  ultimately show "alike (mpu_clock True i u) (mpu_clock False i t)"
    using idle log by (cases "clkg_enable i u") (simp_all add: alike_def mpu_clock_def gated_clk_def)
  show "mpu_busy (mpu_clock True i u) = (req_en i \<and> \<not> soft_rst i)"
    using idle by (auto simp: mpu_clock_def gated_clk_def hsp_mpu_clock_def mpu_busy_def mpu_soft_reset_def)
qed

lemma gate_invisible:
  "alike u t \<Longrightarrow> ext_follows (mpu_busy u) is \<Longrightarrow> mpu_trace True is u = mpu_trace False is t"
  by (induction "is" arbitrary: u t) (simp_all add: alike_obs alike_clock)

section \<open>The unit behind the tests\<close>

text \<open>
  The unit in its window of 8 KB of the address space; every other call is left to the platform \<open>Q\<close>.
  The two constants of the firmware's headers that concern the attributes are taken from the
  address map of the wrapper. An access to a register takes one clock without a request.
\<close>

record 's mpu_dev =
  mpu_rest :: 's
  mpu :: mpu_unit

definition no_request :: mpu_in where
  "no_request = \<lparr>addr = 0, req_id = 0, req_en = False, req_we = False, req_xe = False, accsrc = False,
     mpu_top_page_acc_en = True, ext_acc_vio = False, soft_rst = False, mpu_disable = False,
     priv_mode = False, override_nx = False, mpu_reg_addr = 0, mpu_reg_wdata = 0, mpu_reg_wr_en = False,
     mpu_reg_rd_en = False, clkg_override = False, clkg_test_mode = False\<rparr>"

definition reg_read :: "13 word \<Rightarrow> mpu_in" where
  "reg_read a = no_request\<lparr>mpu_reg_addr := a, mpu_reg_rd_en := True\<rparr>"

definition reg_write :: "13 word \<Rightarrow> u32 \<Rightarrow> mpu_in" where
  "reg_write a v = no_request\<lparr>mpu_reg_addr := a, mpu_reg_wdata := v, mpu_reg_wr_en := True\<rparr>"

definition mpu_cfg :: "u32 \<Rightarrow> config \<Rightarrow> config" where
  "mpu_cfg base cfg = cfg\<lparr>K := (\<lambda>m. case m of
       SSY_HSP_MPU_SPCIRAM_USER_ATTRIB_0 \<Rightarrow> base + 0x1000
     | SSY_HSP_MPU_SPCIRAM_PRIVILEGE_ATTRIB_0 \<Rightarrow> base + 0x1800
     | _ \<Rightarrow> K cfg m)\<rparr>"

definition with_mpu :: "u32 \<Rightarrow> 's platform \<Rightarrow> 's mpu_dev platform" where
  "with_mpu base Q = (
     let other = (\<lambda>c d. let (r, s) = reply Q c (mpu_rest d) in (r, d\<lparr>mpu_rest := s\<rparr>))
     in \<lparr>reply = (\<lambda>c d. case c of
           Hw_read32 a \<Rightarrow> if a - base < 0x2000
             then (let i = reg_read (ucast (a - base))
                   in (mpu_reg_rdata i (mpu d), d\<lparr>mpu := mpu_clock True i (mpu d)\<rparr>))
             else other c d
         | Hw_write32 a v \<Rightarrow> if a - base < 0x2000
             then (0, d\<lparr>mpu := mpu_clock True (reg_write (ucast (a - base)) v) (mpu d)\<rparr>) else other c d
         | _ \<Rightarrow> other c d),
       fill = (\<lambda>d. fill Q (mpu_rest d))\<rparr>)"

text \<open>The register that a page address of the firmware selects.\<close>

lemma page_window:
  assumes "i < 512"
  shows "page (mpu_cfg base cfg) s i - base < 0x2000"
    and "attr_reg_decode (reg_read (ucast (page (mpu_cfg base cfg) s i - base)))"
    and "attr_reg_addr (reg_read (ucast (page (mpu_cfg base cfg) s i - base))) = attr_index s i"
    and "attr_reg_decode (reg_write (ucast (page (mpu_cfg base cfg) s i - base)) v)"
    and "attr_reg_addr (reg_write (ucast (page (mpu_cfg base cfg) s i - base)) v) = attr_index s i"
proof -
  define k where "k = (if s then i else 512 + i)"
  have p: "page (mpu_cfg base cfg) s i - base = word_of_nat (4096 + 4 * k)"
    using assms by (simp add: page_def mpu_cfg_def k_def)
  have k: "k < 1024" using assms by (simp add: k_def)
  show "page (mpu_cfg base cfg) s i - base < 0x2000"
    unfolding p using k by (simp only: word_less_nat_alt unat_of_nat) simp
  have n: "unat (word_of_nat (4096 + 4 * k) :: 13 word) = 4096 + 4 * k"
    using k by (simp only: unat_of_nat) simp
  moreover have "unat (ucast (word_of_nat (4096 + 4 * k) :: u32) :: 13 word) = 4096 + 4 * k"
    using k by (simp only: unsigned_ucast_eq unat_of_nat) (simp add: take_bit_eq_mod)
  ultimately have u: "(ucast (word_of_nat (4096 + 4 * k) :: u32) :: 13 word) = word_of_nat (4096 + 4 * k)"
    by (simp only: word_unat_eq_iff)
  have "(4096 + 4 * k) div 2 ^ 12 = 1" by (rule div_nat_eqI) (use k in simp_all)
  then have b: "bit (word_of_nat (4096 + 4 * k) :: 13 word) 12"
    using n by (metis bit_iff_odd bit_unsigned_iff odd_one possible_bit_word)
  have "unat (attr_index s i) = k"
    using assms by (simp add: k_def attr_index_def PRIV_ATTRIB_OFFSET_def unat_word_ariths unat_of_nat)
  moreover have "unat (ucast (drop_bit 2 (word_of_nat (4096 + 4 * k) :: 13 word)) :: 10 word) = k"
    using k unfolding unat_shift n by (simp add: take_bit_eq_mod)
  ultimately have a: "ucast (drop_bit 2 (word_of_nat (4096 + 4 * k) :: 13 word)) = attr_index s i"
    by (simp add: word_unat_eq_iff)
  show "attr_reg_decode (reg_read (ucast (page (mpu_cfg base cfg) s i - base)))"
    "attr_reg_addr (reg_read (ucast (page (mpu_cfg base cfg) s i - base))) = attr_index s i"
    "attr_reg_decode (reg_write (ucast (page (mpu_cfg base cfg) s i - base)) v)"
    "attr_reg_addr (reg_write (ucast (page (mpu_cfg base cfg) s i - base)) v) = attr_index s i"
    unfolding p u attr_reg_decode_def attr_reg_addr_def reg_read_def reg_write_def using a b by simp_all
qed

lemma bit_88888888: "j < 8 \<Longrightarrow> bit (0x88888888 :: u32) (4 * j + 3)"
proof -
  have "list_all (\<lambda>j. bit (0x88888888 :: u32) (4 * j + 3)) [0..<8]" by code_simp
  then show "j < 8 \<Longrightarrow> bit (0x88888888 :: u32) (4 * j + 3)" by (simp add: list_all_iff)
qed

lemma unlocked_no_err: "unlocked v \<Longrightarrow> \<not> lock_err v w"
proof -
  assume "unlocked v"
  then have "\<not> bit v (4 * j + 3)" if "j < 8" for j
    using bit_88888888 [OF that] by (metis and_zero_bitD unlocked_def)
  then show "\<not> lock_err v w" by (simp add: lock_err_def LOCK_def list_ex_iff Let_def)
qed

lemma attr_index_inj: "i < 512 \<Longrightarrow> j < 512 \<Longrightarrow> attr_index s i = attr_index t j \<longleftrightarrow> s = t \<and> i = j"
proof -
  assume "i < 512" "j < 512"
  then have "unat (attr_index s i) = (if s then i else 512 + i)" "unat (attr_index t j) = (if t then j else 512 + j)"
    by (simp_all add: attr_index_def PRIV_ATTRIB_OFFSET_def unat_word_ariths unat_of_nat)
  with \<open>i < 512\<close> \<open>j < 512\<close> show ?thesis by (auto simp: word_unat_eq_iff)
qed

abbreviation regf :: "'s mpu_dev \<Rightarrow> 10 word \<Rightarrow> u32" where
  "regf d \<equiv> Regf (u_mpu (mpu d))"

lemma regf_write:
  assumes "i < 512" "unlocked (regf d (attr_index s i))"
  shows "regf (snd (reply (with_mpu base Q) (Hw_write32 (page (mpu_cfg base cfg) s i) v) d)) =
    (regf d)(attr_index s i := v)"
  using unlocked_no_err [OF assms(2), of v]
  by (simp add: page_window [OF assms(1)] with_mpu_def mpu_clock_def hsp_mpu_clock_def Regf_next_def wr_err_def reg_selected_def
    no_addr_err gated_clk_def clkg_enable_def)
    (simp add: reg_write_def no_request_def)

lemma regf_read:
  assumes "i < 512"
  shows "reply (with_mpu base Q) (Hw_read32 (page (mpu_cfg base cfg) s i)) d =
    (regf d (attr_index s i), d\<lparr>mpu := mpu_clock True (reg_read (ucast (page (mpu_cfg base cfg) s i - base))) (mpu d)\<rparr>)"
  using page_window [OF assms, of base cfg s]
  by (simp add: with_mpu_def mpu_reg_rdata_def attr_rdata_def reg_selected_def no_addr_err Let_def)
    (simp add: reg_read_def)

interpretation mpu_pages: attribute_pages "with_mpu base Q" "mpu_cfg base cfg"
    "\<lambda>d user i. regf d (attr_index user i)" for base Q cfg
proof
  fix d :: "'a mpu_dev" and i j :: nat and s t :: bool and v :: u32
  assume i: "i < 512"
  show "fst (reply (with_mpu base Q) (Hw_read32 (page (mpu_cfg base cfg) s i)) d) = regf d (attr_index s i)"
    by (simp add: regf_read [OF i])
  assume j: "j < 512"
  show "regf (snd (reply (with_mpu base Q) (Hw_read32 (page (mpu_cfg base cfg) s i)) d)) (attr_index t j) =
      regf d (attr_index t j)"
    by (simp add: regf_read [OF i] mpu_clock_def hsp_mpu_clock_def Regf_next_def reg_read_def no_request_def)
  assume "\<forall>t. \<forall>k < 512. unlocked (regf d (attr_index t k))"
  then show "regf (snd (reply (with_mpu base Q) (Hw_write32 (page (mpu_cfg base cfg) s i) v) d)) (attr_index t j) =
      (if t = s \<and> j = i then v else regf d (attr_index t j))"
    using i j by (auto simp: regf_write attr_index_inj)
qed

section \<open>Properties\<close>

text \<open>C8: the unit enforces the permissions of the pages. One clock after a request, whatever happened
  before, it raises a violation exactly when the request has to be refused under the attributes of
  its page at the time of the request (or when a violation is reported from outside): a fetch while
  execution is switched off, or, unless the unit is disabled, an access that the privileged
  attributes or, in user mode, either attributes do not permit.\<close>

theorem mpu_enforces_pages:
  assumes "\<not> soft_rst i" "\<not> accsrc i" "mpu_top_page_acc_en i" "\<not> (req_we i \<and> req_xe i)"
  shows "acc_vio i' (mpu_clock gated i u) \<longleftrightarrow> ext_acc_vio i' \<or> req_en i \<and>
    refused (Regf (u_mpu u)) (mpu_disable i') (override_nx i') (priv_mode i) (page_sel (addr i)) (access_of i)"
  by (rule acc_vio_after [OF assms])

theorem mpu_enforces_pages_witness:
  "acc_vio no_request (mpu_clock True (no_request\<lparr>req_en := True, req_we := True, addr := 0x5004\<rparr>)
     (mpu_reset\<lparr>u_mpu := mpu_soft_reset\<lparr>Regf := (\<lambda>_. 0x77577777)\<rparr>\<rparr>)) \<and>
   \<not> acc_vio no_request (mpu_clock True (no_request\<lparr>req_en := True, req_we := True, addr := 0x6004\<rparr>)
     (mpu_reset\<lparr>u_mpu := mpu_soft_reset\<lparr>Regf := (\<lambda>_. 0x77577777)\<rparr>\<rparr>))"
proof -
  have "refused (\<lambda>_. 0x77577777) False False False (page_sel 0x5004) Write"
    "\<not> refused (\<lambda>_. 0x77577777) False False False (page_sel 0x6004) Write" by code_simp+
  then show ?thesis
    using mpu_enforces_pages [of "no_request\<lparr>req_en := True, req_we := True, addr := 0x5004\<rparr>" no_request True
        "mpu_reset\<lparr>u_mpu := mpu_soft_reset\<lparr>Regf := (\<lambda>_. 0x77577777)\<rparr>\<rparr>"]
      mpu_enforces_pages [of "no_request\<lparr>req_en := True, req_we := True, addr := 0x6004\<rparr>" no_request True
        "mpu_reset\<lparr>u_mpu := mpu_soft_reset\<lparr>Regf := (\<lambda>_. 0x77577777)\<rparr>\<rparr>"]
    by (simp add: no_request_def access_of_def)
qed

text \<open>C18: a locked page keeps its attributes. Whatever is requested, written or read, as long as the
  unit is not reset, the attributes of a page whose lock bit is set do not change.\<close>

theorem locked_pages_are_final:
  assumes "list_all (\<lambda>i. \<not> soft_rst i) is" and "bit (page_attr (Regf (u_mpu u)) user p) LOCK"
  shows "page_attr (Regf (u_mpu (mpu_run gated is u))) user p = page_attr (Regf (u_mpu u)) user p"
  using assms
proof (induction "is" arbitrary: u)
  case (Cons i "is")
  then show ?case using locked_clock [of i u user p gated] by simp
qed simp

theorem locked_pages_are_final_witness:
  "page_attr (Regf (u_mpu (mpu_run True [reg_write 0x1000 0, reg_write 0x1000 0xffffffff]
     (mpu_reset\<lparr>u_mpu := mpu_soft_reset\<lparr>Regf := (\<lambda>_. 0x7777777d)\<rparr>\<rparr>)))) True 0 = 0xd"
proof -
  have a: "page_attr (\<lambda>_. 0x7777777d) True 0 = 0xd" "bit (page_attr (\<lambda>_. 0x7777777d) True 0) LOCK" by code_simp+
  have "list_all (\<lambda>i. \<not> soft_rst i) [reg_write 0x1000 0, reg_write 0x1000 0xffffffff]"
    by (simp add: reg_write_def no_request_def)
  from locked_pages_are_final [OF this,
      of "mpu_reset\<lparr>u_mpu := mpu_soft_reset\<lparr>Regf := (\<lambda>_. 0x7777777d)\<rparr>\<rparr>" True 0 True] a
  show ?thesis by (simp del: mpu_run.simps)
qed

text \<open>The first violation is logged and kept. A request that is refused is found in the status
  register with its requester, its address and its kind, however the unit is used afterwards, until
  the log is cleared by software or the unit is reset.\<close>

lemma first_violation_is_kept:
  assumes "list_all keeps_log (i # i' # is)" and "\<not> vio_valid u" "\<not> accvio_clear (u_regs u)" "\<not> acc_vio i u"
    and "req_en i" "\<not> accsrc i" "mpu_top_page_acc_en i" "\<not> (req_we i \<and> req_xe i)"
    and "acc_vio i' (mpu_clock gated i u)"
  shows "u_regs (mpu_run gated (i # i' # is) u) =
    \<lparr>accvio_clear = False, accvio_id = req_id i, accvio_ex = (access_of i = Execute),
     accvio_wr = (access_of i = Write), accvio_rd = (access_of i = Read), accvio_addr = addr i\<rparr>"
proof -
  let ?u = "mpu_clock gated i u" and ?v = "mpu_clock gated i' (mpu_clock gated i u)"
  have i: "\<not> soft_rst i" "\<not> soft_rst i'" and k: "list_all keeps_log is" using assms(1) by (simp_all add: keeps_log_def)
  have "gated_clk gated i u" using assms(5) by (simp add: gated_clk_def clkg_enable_def)
  then have m: "u_mpu ?u = hsp_mpu_clock i (mpu_reg_wr_en i \<and> attr_reg_decode i) (attr_reg_addr i) (u_mpu u)"
    by (simp add: mpu_clock_def)
  have u: "\<not> vio_valid ?u" "\<not> accvio_clear (u_regs ?u)"
    using assms(1-4) by (auto simp: mpu_clock_def mpu_regs_clock_def keeps_log_def log_acc_vio_def Let_def)
  have "vio_valid ?v" "\<not> accvio_clear (u_regs ?v)"
    using assms(1,9) u i by (auto simp: mpu_clock_def [of _ i'] mpu_regs_clock_def keeps_log_def log_acc_vio_def
      mpu_sts_clear_def Let_def)
  from log_kept [OF k this] have "u_regs (mpu_run gated (i # i' # is) u) = u_regs ?v" by simp
  also have "\<dots> = mpu_regs_clock i' ?u" by (simp add: mpu_clock_def)
  also have "\<dots> = \<lparr>accvio_clear = False, accvio_id = req_id i, accvio_ex = (access_of i = Execute),
     accvio_wr = (access_of i = Write), accvio_rd = (access_of i = Read), accvio_addr = addr i\<rparr>"
  proof -
    note v = accvio_check_after [OF i(1) assms(6-8), of i' "mpu_reg_wr_en i \<and> attr_reg_decode i" "attr_reg_addr i" "u_mpu u"]
    have h: "id_reg (u_mpu ?u) = req_id i" "addr_reg (u_mpu ?u) = addr i"
      "txn_rd (u_mpu ?u) = (access_of i = Read)" "txn_wr (u_mpu ?u) = (access_of i = Write)"
      "txn_ex (u_mpu ?u) = (access_of i = Execute)"
      using i(1) assms(5,8) by (auto simp: m hsp_mpu_clock_def txn_rd_def txn_wr_def txn_ex_def access_of_def)
    have l: "log_acc_vio i' ?u" "\<not> mpu_sts_clear i' ?u"
      using assms(9) u i by (simp_all add: log_acc_vio_def mpu_sts_clear_def)
    have x: "int_acc_vio (accvio_check i' (u_mpu ?u)) \<or> ext_acc_vio i'"
      using assms(9) by (simp add: acc_vio_def)
    have f: "accvio_check i' (u_mpu ?u) =
        (let v = int_acc_vio (accvio_check i' (u_mpu ?u)) in \<lparr>int_acc_vio = v, vio_rd = (v \<and> access_of i = Read),
          vio_wr = (v \<and> access_of i = Write), vio_ex = (v \<and> access_of i = Execute)\<rparr>)"
      unfolding m v by (simp add: Let_def)
    obtain w where w: "accvio_check i' (u_mpu ?u) = \<lparr>int_acc_vio = w, vio_rd = (w \<and> access_of i = Read),
          vio_wr = (w \<and> access_of i = Write), vio_ex = (w \<and> access_of i = Execute)\<rparr>"
      using f by (metis (no_types))
    show ?thesis
      unfolding mpu_regs_clock_def Let_def using assms(1) l h x
      by (auto simp: w log_kind_def keeps_log_def)
  qed
  finally show ?thesis .
qed

text \<open>The clock gate of the unit cannot be observed. From reset, for every sequence of inputs in which
  a violation from outside follows a request, the unit with its clock gate shows the same violations,
  register values and responses as the unit with a free-running clock, which is the variant for FPGAs.\<close>

lemma clock_gate_is_invisible:
  assumes "ext_follows False is"
  shows "mpu_trace True is mpu_reset = mpu_trace False is mpu_reset"
  using gate_invisible [of mpu_reset mpu_reset "is"] assms
  by (simp add: alike_def mpu_busy_def mpu_reset_def mpu_soft_reset_def)

text \<open>C28: the page test of the retention tests passes on the hardware. With the memory protection unit
  behind the addresses of its registers and no page locked, \<open>check_mpu_pages\<close> finds exactly what
  \<open>modify_mpu_pages\<close> wrote, counts no error and leaves all pages of both modes open and unlocked.\<close>

theorem mpu_pages_round_trip:
  assumes "\<forall>user. \<forall>i < 512. unlocked (regf d (attr_index user i))"
  shows "case run_state (do { modify_mpu_pages (mpu_cfg base cfg) (with_mpu base Q) v;
        check_mpu_pages (mpu_cfg base cfg) (with_mpu base Q) v }) \<lparr>dev = d, log = [], status = Running\<rparr> of
    (errors, m) \<Rightarrow> status m = Running \<and> errors = 0 \<and>
      (\<forall>user. \<forall>i < 512. regf (dev m) (attr_index user i) = 0x77777777)"
  by (rule mpu_pages.pages_round_trip [OF assms])

theorem mpu_pages_round_trip_witness:
  "case run_state (do { modify_mpu_pages (mpu_cfg 0x8000 sample_cfg) (with_mpu 0x8000 counting_rand) 5;
        check_mpu_pages (mpu_cfg 0x8000 sample_cfg) (with_mpu 0x8000 counting_rand) 5 })
      \<lparr>dev = \<lparr>mpu_rest = 0, mpu = mpu_reset\<rparr>, log = [], status = Running\<rparr> of (errors, m) \<Rightarrow>
    status m = Running \<and> errors = 0 \<and> regf (dev m) (attr_index True 511) = 0x77777777"
proof -
  have "\<forall>user. \<forall>i < 512. unlocked (regf \<lparr>mpu_rest = 0, mpu = mpu_reset\<rparr> (attr_index user i))"
    by (simp add: mpu_reset_def mpu_soft_reset_def ATTRIB_RESET_def unlocked_def)
  from mpu_pages_round_trip [OF this, of "0x8000" sample_cfg counting_rand 5] show ?thesis
    by (auto simp: split_beta)
qed

end
