(* ===== verification/Ciu.thy ===== *)
theory Ciu
  imports CmuRegs RamWrapper Mpu Vtag
begin

text \<open>
  The controller of the cache interface unit (\<open>src/src/sinc/rtl/sinc_ciu_ctrl.sv\<close>), with the parameters of
  its instance in \<open>sinc_ciu.sv\<close> (\<open>MPU_SINGLE_CYCLE = 0\<close>, addresses of 22 bits of words, a cache memory
  of 16384 lines of 128 bits). It takes a request of the processor, asks the protection unit, compares
  the tag, accesses the memory, has the missing block fetched and repeats the read. The record \<open>ciu_in\<close>
  has the inputs, \<open>ciu_regs\<close> the registers, a definition per output and per state of the machine the
  combinational logic; \<open>ciu_ctrl_clock\<close> is one clock. Names that another block has too carry \<open>_i\<close> as inputs and
  \<open>_o\<close> as outputs.
\<close>

section \<open>State machine encoding\<close>

type_synonym sinc_ciu_fsm_t = "6 word"

definition CIU_IDLE :: sinc_ciu_fsm_t where "CIU_IDLE = 0b000000"
definition CIU_MEM_READ :: sinc_ciu_fsm_t where "CIU_MEM_READ = 0b000111"
definition CIU_WAIT :: sinc_ciu_fsm_t where "CIU_WAIT = 0b011001"
definition CIU_CACHE_MISS :: sinc_ciu_fsm_t where "CIU_CACHE_MISS = 0b011110"
definition CIU_RREAD :: sinc_ciu_fsm_t where "CIU_RREAD = 0b101010"
definition CIU_MEM_WRITE :: sinc_ciu_fsm_t where "CIU_MEM_WRITE = 0b101101"
definition CIU_EXTRA :: sinc_ciu_fsm_t where "CIU_EXTRA = 0b110011"
definition CIU_SM_FAULT :: sinc_ciu_fsm_t where "CIU_SM_FAULT = 0b110100"

lemmas ciu_fsm_defs = CIU_IDLE_def CIU_MEM_READ_def CIU_WAIT_def CIU_CACHE_MISS_def CIU_RREAD_def
  CIU_MEM_WRITE_def CIU_EXTRA_def CIU_SM_FAULT_def

definition ciu_states :: "sinc_ciu_fsm_t list" where
  "ciu_states = [CIU_IDLE, CIU_MEM_READ, CIU_WAIT, CIU_CACHE_MISS, CIU_RREAD, CIU_MEM_WRITE, CIU_EXTRA, CIU_SM_FAULT]"

section \<open>Inputs and registers\<close>

record ciu_in =
  sync_ciu_reset_i :: bool
  ext_mem_erase_busy :: bool
  cpu_mem_en :: bool
  cpu_mem_we :: bool
  cpu_mem_loadstore :: bool
  cpu_mem_priv_mode :: bool
  cpu_mem_wr_byte_en :: "4 word"
  cpu_mem_addr :: "22 word"
  cpu_mem_wdata :: u32
  mem_ciu_rdata :: "128 word"
  mem_ciu_rdata_valid :: bool
  mem_ciu_busy :: bool
  mem_err_uncorr :: bool
  mem_ciu_engn_erase_done :: bool
  mpu_acc_vio :: bool
  mpu_busy_i :: bool
  cmu_block_fetch_comp_i :: bool
  cmu_block_fetch_err_i :: bool
  cmu_busy_i :: bool
  cmu_sinc_state_i :: u8
  cmu_mem_we :: bool
  cmu_mem_addr :: "14 word"
  cmu_mem_wdata :: u32
  vtag_cache_hit :: bool
  vtag_cache_hit_word_idx :: "2 word"
  cache_fifo_status :: "2 word"
  vtag_parity_error_i :: bool

record ciu_regs =
  ciu_cache_sm_r :: sinc_ciu_fsm_t
  sync_eng_erase_r :: bool
  mem_ciu_erase_busy_r :: bool
  mem_cpu_busy_r :: bool
  cpu_mem_addr_r :: "22 word"
  cpu_mem_wr_byte_en_r :: "4 word"
  cpu_mem_wdata_r :: u32
  block_read_sel_r :: "2 word"
  mem_cpu_rdata_vld_r :: bool
  ciu_block_fetch_req_r :: bool
  ciu_mem_write_r :: bool
  ciu_active_r :: bool
  mpu_read_vio_r :: bool
  vtag_parity_err_r :: bool
  cmu_fetch_err_r :: bool
  pending_cpu_mem_read_r :: bool
  pending_cpu_access_upon_cache_failed_r :: bool
  ext_acc_vio_r :: bool
  cache_miss_r :: bool
  req_xe_r :: bool
  req_pm_r :: bool
  other_error_r :: bool
  pending_cpu_mem_write_r :: bool

definition ciu_ctrl_reset :: ciu_regs where
  "ciu_ctrl_reset =
    \<lparr>ciu_cache_sm_r = CIU_IDLE, sync_eng_erase_r = False, mem_ciu_erase_busy_r = False, mem_cpu_busy_r = False,
     cpu_mem_addr_r = 0, cpu_mem_wr_byte_en_r = 0, cpu_mem_wdata_r = 0, block_read_sel_r = 0,
     mem_cpu_rdata_vld_r = False, ciu_block_fetch_req_r = False, ciu_mem_write_r = False, ciu_active_r = False,
     mpu_read_vio_r = False, vtag_parity_err_r = False, cmu_fetch_err_r = False, pending_cpu_mem_read_r = False,
     pending_cpu_access_upon_cache_failed_r = False, ext_acc_vio_r = False, cache_miss_r = False, req_xe_r = False,
     req_pm_r = False, other_error_r = False, pending_cpu_mem_write_r = False\<rparr>"

section \<open>Requests\<close>

definition cache_active_mode :: "ciu_in \<Rightarrow> bool" where
  "cache_active_mode i = (cmu_sinc_state_i i = CACHE_ACTIVE)"

definition valid_cpu_mem_we :: "ciu_in \<Rightarrow> bool" where
  "valid_cpu_mem_we i = (cpu_mem_we i \<and> cpu_mem_wr_byte_en i \<noteq> 0)"

definition cpu_read_upon_erase_busy :: "ciu_in \<Rightarrow> ciu_regs \<Rightarrow> bool" where
  "cpu_read_upon_erase_busy i r =
    (ext_mem_erase_busy i \<and> ((cpu_mem_en i \<and> \<not> cpu_mem_we i) \<or> pending_cpu_mem_read_r r))"

definition cpu_write_upon_erase_busy :: "ciu_in \<Rightarrow> ciu_regs \<Rightarrow> bool" where
  "cpu_write_upon_erase_busy i r =
    (ext_mem_erase_busy i \<and> ((cpu_mem_en i \<and> valid_cpu_mem_we i) \<or> pending_cpu_mem_write_r r))"

definition cpu_write_upon_cache_active :: "ciu_in \<Rightarrow> ciu_regs \<Rightarrow> bool" where
  "cpu_write_upon_cache_active i r =
    (((cpu_mem_en i \<and> valid_cpu_mem_we i) \<or> pending_cpu_mem_write_r r) \<and> cache_active_mode i)"

definition cpu_access_upon_cache_failed :: "ciu_in \<Rightarrow> bool" where
  "cpu_access_upon_cache_failed i =
    ((cpu_mem_en i \<and> (\<not> cpu_mem_we i \<or> valid_cpu_mem_we i)) \<and> cmu_sinc_state_i i = CACHE_FAILED)"

definition valid_cpu_read :: "ciu_in \<Rightarrow> ciu_regs \<Rightarrow> bool" where
  "valid_cpu_read i r = (\<not> cmu_busy_i i \<and> \<not> cpu_read_upon_erase_busy i r \<and> cmu_sinc_state_i i \<noteq> CACHE_FAILED \<and>
     (((cpu_mem_en i \<and> \<not> cpu_mem_we i) \<and> ciu_cache_sm_r r = CIU_IDLE) \<or> pending_cpu_mem_read_r r))"

definition valid_cpu_write :: "ciu_in \<Rightarrow> ciu_regs \<Rightarrow> bool" where
  "valid_cpu_write i r = (\<not> cmu_busy_i i \<and> \<not> cpu_write_upon_erase_busy i r \<and>
     (cmu_sinc_state_i i \<noteq> CACHE_FAILED \<and> \<not> cache_active_mode i) \<and>
     (((cpu_mem_en i \<and> valid_cpu_mem_we i) \<and> ciu_cache_sm_r r = CIU_IDLE) \<or> pending_cpu_mem_write_r r))"

definition valid_cmu_write :: "ciu_in \<Rightarrow> bool" where
  "valid_cmu_write i = (cache_active_mode i \<and> cmu_mem_we i)"

text \<open>The address, data and mode that go to the memory and to the protection unit: those of the request,
  or the registered ones.\<close>

record ciu_route =
  ciu_mem_addr :: "14 word"
  ciu_mem_wdata :: "128 word"
  ciu_req_addr :: "22 word"
  ciu_req_xe :: bool
  ciu_req_pm :: bool

definition line_low :: "22 word \<Rightarrow> 14 word" where "line_low a = ucast a"

definition line_high :: "22 word \<Rightarrow> 14 word" where "line_high a = ucast (drop_bit 2 a)"

definition four_times :: "u32 \<Rightarrow> 128 word" where "four_times w = join_lanes 32 4 (\<lambda>_. w)"

definition ciu_routing :: "ciu_in \<Rightarrow> ciu_regs \<Rightarrow> ciu_route" where
  "ciu_routing i r =
    (let dflt = \<lparr>ciu_mem_addr = line_low (cpu_mem_addr i), ciu_mem_wdata = four_times (cpu_mem_wdata i),
           ciu_req_addr = cpu_mem_addr i, ciu_req_xe = (\<not> cpu_mem_loadstore i), ciu_req_pm = cpu_mem_priv_mode i\<rparr>;
         held = (\<lambda>a d. \<lparr>ciu_mem_addr = a, ciu_mem_wdata = d, ciu_req_addr = cpu_mem_addr_r r,
           ciu_req_xe = req_xe_r r, ciu_req_pm = req_pm_r r\<rparr>)
     in if cache_active_mode i then
          if ciu_cache_sm_r r = CIU_CACHE_MISS then
            dflt\<lparr>ciu_mem_addr := cmu_mem_addr i, ciu_mem_wdata := four_times (cmu_mem_wdata i)\<rparr>
          else if ciu_cache_sm_r r = CIU_RREAD \<or> ciu_cache_sm_r r = CIU_MEM_READ then
            held (line_low (cpu_mem_addr_r r)) (ciu_mem_wdata dflt)
          else if pending_cpu_mem_read_r r then held (line_low (cpu_mem_addr_r r)) (ciu_mem_wdata dflt)
          else dflt
        else
          if ciu_cache_sm_r r = CIU_MEM_WRITE \<or> ciu_cache_sm_r r = CIU_EXTRA then
            held (line_high (cpu_mem_addr_r r)) (four_times (cpu_mem_wdata_r r))
          else if pending_cpu_mem_read_r r \<or> pending_cpu_mem_write_r r then
            held (line_high (cpu_mem_addr_r r)) (ciu_mem_wdata dflt)
          else dflt\<lparr>ciu_mem_addr := line_high (cpu_mem_addr i)\<rparr>)"


section \<open>The state machine\<close>

text \<open>The part of the machine's combinational block that goes to outputs, then one definition per state for
  the next values of the registers.\<close>

definition ciu_vtag_update :: "ciu_in \<Rightarrow> ciu_regs \<Rightarrow> bool" where
  "ciu_vtag_update i r =
    (ciu_cache_sm_r r = CIU_CACHE_MISS \<and> cmu_block_fetch_comp_i i \<and> \<not> cmu_block_fetch_err_i i)"

definition mem_rread :: "ciu_regs \<Rightarrow> bool" where
  "mem_rread r = (ciu_cache_sm_r r = CIU_RREAD)"

definition cpu_mem_write :: "ciu_in \<Rightarrow> ciu_regs \<Rightarrow> bool" where
  "cpu_mem_write i r = (ciu_cache_sm_r r = CIU_MEM_WRITE \<and> \<not> (mpu_acc_vio i \<or> ext_acc_vio_r r \<or> other_error_r r))"

definition ciu_cache_sm_fault :: "ciu_regs \<Rightarrow> bool" where
  "ciu_cache_sm_fault r = (ciu_cache_sm_r r = CIU_SM_FAULT \<or> ciu_cache_sm_r r \<notin> set ciu_states)"

definition mem_cpu_read_err :: "ciu_in \<Rightarrow> ciu_regs \<Rightarrow> bool" where
  "mem_cpu_read_err i r = (ciu_cache_sm_r r = CIU_WAIT \<and>
     (if mpu_read_vio_r r \<or> vtag_parity_err_r r \<or> cmu_fetch_err_r r \<or> other_error_r r \<or>
         (ext_mem_erase_busy i \<and> \<not> ciu_mem_write_r r) then True
      else mem_ciu_rdata_valid i \<noteq> mem_cpu_rdata_vld_r r \<or> (mem_err_uncorr i \<and> mem_cpu_rdata_vld_r r)))"

definition ciu_defaults :: "ciu_regs \<Rightarrow> ciu_regs" where
  "ciu_defaults r = r\<lparr>mem_cpu_rdata_vld_r := False, ciu_block_fetch_req_r := False, mpu_read_vio_r := False,
     vtag_parity_err_r := False, cmu_fetch_err_r := False, ext_acc_vio_r := False\<rparr>"

definition sm_idle :: "ciu_in \<Rightarrow> ciu_regs \<Rightarrow> ciu_regs" where
  "sm_idle i r =
    (let d = ciu_defaults r; q = ciu_routing i r in
     if valid_cpu_read i r then
       (if pending_cpu_mem_read_r r then d\<lparr>pending_cpu_mem_read_r := False\<rparr>
        else d\<lparr>cpu_mem_addr_r := cpu_mem_addr i, req_xe_r := ciu_req_xe q, req_pm_r := ciu_req_pm q\<rparr>)
       \<lparr>mem_cpu_busy_r := True, ciu_active_r := True, ciu_cache_sm_r := CIU_MEM_READ\<rparr>
     else if valid_cpu_write i r then
       (if pending_cpu_mem_write_r r then d\<lparr>pending_cpu_mem_write_r := False\<rparr>
        else d\<lparr>cpu_mem_addr_r := cpu_mem_addr i, cpu_mem_wr_byte_en_r := cpu_mem_wr_byte_en i,
               cpu_mem_wdata_r := cpu_mem_wdata i, req_xe_r := ciu_req_xe q, req_pm_r := ciu_req_pm q\<rparr>)
       \<lparr>mem_cpu_busy_r := True, ciu_mem_write_r := True, ciu_active_r := True, ciu_cache_sm_r := CIU_MEM_WRITE\<rparr>
     else if cpu_access_upon_cache_failed i \<or> pending_cpu_access_upon_cache_failed_r r \<or>
         cpu_read_upon_erase_busy i r \<or> cpu_write_upon_erase_busy i r then
       (let e = d\<lparr>ext_acc_vio_r := (cpu_access_upon_cache_failed i \<or> pending_cpu_access_upon_cache_failed_r r),
              other_error_r := cpu_read_upon_erase_busy i r, mem_cpu_busy_r := True, ciu_active_r := True\<rparr> in
        if (cpu_mem_en i \<and> \<not> cpu_mem_we i) \<or>
           (pending_cpu_access_upon_cache_failed_r r \<and> \<not> pending_cpu_mem_write_r r) \<or> pending_cpu_mem_read_r r
        then e\<lparr>pending_cpu_mem_read_r := False, ciu_cache_sm_r := CIU_MEM_READ\<rparr>
        else e\<lparr>other_error_r := cpu_write_upon_erase_busy i r, ciu_cache_sm_r := CIU_MEM_WRITE\<rparr>)
     else if cpu_write_upon_cache_active i r then
       d\<lparr>ext_acc_vio_r := True, mem_cpu_busy_r := True, ciu_active_r := True, ciu_cache_sm_r := CIU_MEM_WRITE\<rparr>
     else if pending_cpu_mem_write_r r \<and> cache_active_mode i then
       d\<lparr>pending_cpu_mem_write_r := False, ext_acc_vio_r := True, mem_cpu_busy_r := True, ciu_active_r := True,
         ciu_cache_sm_r := CIU_MEM_WRITE\<rparr>
     else d)"

definition sm_mem_read :: "ciu_in \<Rightarrow> ciu_regs \<Rightarrow> ciu_regs" where
  "sm_mem_read i r =
    (let d = ciu_defaults r in
     if mpu_acc_vio i \<or> ext_acc_vio_r r \<or> other_error_r r \<or> ext_mem_erase_busy i then
       d\<lparr>mpu_read_vio_r := (mpu_acc_vio i \<or> ext_acc_vio_r r), mem_cpu_busy_r := False, ciu_cache_sm_r := CIU_WAIT\<rparr>
     else if cache_active_mode i then
       if vtag_parity_error_i i then d\<lparr>vtag_parity_err_r := True, ciu_cache_sm_r := CIU_WAIT\<rparr>
       else if vtag_cache_hit i then
         d\<lparr>mem_cpu_rdata_vld_r := True, cache_miss_r := False, ciu_cache_sm_r := CIU_WAIT\<rparr>
       else if cmu_busy_i i then d\<lparr>mem_cpu_busy_r := False, ciu_cache_sm_r := CIU_WAIT\<rparr>
       else d\<lparr>ciu_block_fetch_req_r := True, ciu_mem_write_r := True, cache_miss_r := True,
              ciu_cache_sm_r := CIU_CACHE_MISS\<rparr>
     else d\<lparr>mem_cpu_rdata_vld_r := (cmu_sinc_state_i i \<noteq> CACHE_FAILED), ciu_cache_sm_r := CIU_WAIT\<rparr>)"

definition sm_wait :: "ciu_in \<Rightarrow> ciu_regs \<Rightarrow> ciu_regs" where
  "sm_wait i r =
    (let q = ciu_routing i r;
         d = (ciu_defaults r)\<lparr>ciu_active_r := False, mem_cpu_busy_r := False, ciu_cache_sm_r := CIU_IDLE\<rparr>;
         e = (if cpu_mem_en i \<and> \<not> cpu_mem_we i then
                if cpu_access_upon_cache_failed i then d\<lparr>pending_cpu_access_upon_cache_failed_r := True\<rparr>
                else d\<lparr>pending_cpu_mem_read_r := True, cpu_mem_addr_r := cpu_mem_addr i, req_xe_r := ciu_req_xe q,
                       req_pm_r := ciu_req_pm q, pending_cpu_access_upon_cache_failed_r := False\<rparr>
              else if cpu_mem_en i \<and> valid_cpu_mem_we i then
                (if cpu_access_upon_cache_failed i then d\<lparr>pending_cpu_access_upon_cache_failed_r := True\<rparr>
                 else d\<lparr>cpu_mem_addr_r := cpu_mem_addr i, cpu_mem_wr_byte_en_r := cpu_mem_wr_byte_en i,
                        cpu_mem_wdata_r := cpu_mem_wdata i, req_xe_r := ciu_req_xe q, req_pm_r := ciu_req_pm q,
                        pending_cpu_access_upon_cache_failed_r := False\<rparr>)
                \<lparr>pending_cpu_mem_write_r := True\<rparr>
              else d\<lparr>req_xe_r := False, req_pm_r := False, pending_cpu_access_upon_cache_failed_r := False\<rparr>);
         f = e\<lparr>ciu_mem_write_r := False\<rparr>
     in if mpu_read_vio_r r \<or> vtag_parity_err_r r \<or> cmu_fetch_err_r r \<or> other_error_r r \<or>
           (ext_mem_erase_busy i \<and> \<not> ciu_mem_write_r r)
        then f\<lparr>other_error_r := False\<rparr> else f)"

definition sm_cache_miss :: "ciu_in \<Rightarrow> ciu_regs \<Rightarrow> ciu_regs" where
  "sm_cache_miss i r =
    (let d = ciu_defaults r in
     if cmu_block_fetch_comp_i i then
       if cmu_block_fetch_err_i i then d\<lparr>cmu_fetch_err_r := True, ciu_cache_sm_r := CIU_WAIT\<rparr>
       else d\<lparr>ciu_mem_write_r := False, ciu_cache_sm_r := CIU_RREAD\<rparr>
     else d)"

definition sm_mem_write :: "ciu_in \<Rightarrow> ciu_regs \<Rightarrow> ciu_regs" where
  "sm_mem_write i r =
    (let d = ciu_defaults r in
     if mpu_acc_vio i \<or> ext_acc_vio_r r \<or> other_error_r r then
       d\<lparr>mem_cpu_busy_r := False, ciu_mem_write_r := False, ciu_active_r := False, pending_cpu_mem_write_r := False,
         other_error_r := False, pending_cpu_access_upon_cache_failed_r := False, ciu_cache_sm_r := CIU_IDLE\<rparr>
     else d\<lparr>ciu_cache_sm_r := CIU_EXTRA\<rparr>)"

definition ciu_sm :: "ciu_in \<Rightarrow> ciu_regs \<Rightarrow> ciu_regs" where
  "ciu_sm i r =
    (let st = ciu_cache_sm_r r in
     if st = CIU_IDLE then sm_idle i r
     else if st = CIU_MEM_READ then sm_mem_read i r
     else if st = CIU_WAIT then sm_wait i r
     else if st = CIU_CACHE_MISS then sm_cache_miss i r
     else if st = CIU_RREAD then (ciu_defaults r)\<lparr>ciu_cache_sm_r := CIU_MEM_READ\<rparr>
     else if st = CIU_MEM_WRITE then sm_mem_write i r
     else if st = CIU_EXTRA then (ciu_defaults r)\<lparr>ciu_cache_sm_r := CIU_WAIT\<rparr>
     else if st = CIU_SM_FAULT then
       (ciu_defaults r)\<lparr>mem_cpu_busy_r := False, ciu_active_r := False, ciu_cache_sm_r := CIU_IDLE\<rparr>
     else (ciu_defaults r)\<lparr>ciu_active_r := True, ciu_cache_sm_r := CIU_SM_FAULT\<rparr>)"

text \<open>The violation reported from here, which the outputs below use before it is registered.\<close>

definition nxt_ext_acc_vio :: "ciu_in \<Rightarrow> ciu_regs \<Rightarrow> bool" where
  "nxt_ext_acc_vio i r = ext_acc_vio_r (ciu_sm i r)"

section \<open>Outputs\<close>

definition ciu_mem_en :: "ciu_in \<Rightarrow> ciu_regs \<Rightarrow> bool" where
  "ciu_mem_en i r = ((valid_cpu_read i r \<or> mem_rread r) \<or> cpu_mem_write i r \<or> valid_cmu_write i)"

definition lane_enables :: "2 word \<Rightarrow> 4 word \<Rightarrow> 16 word" where
  "lane_enables sel en = push_bit (4 * unat sel) (ucast en)"

definition ciu_mem_we :: "ciu_in \<Rightarrow> ciu_regs \<Rightarrow> 16 word" where
  "ciu_mem_we i r =
    (let sel = (if ciu_cache_sm_r r = CIU_CACHE_MISS then cache_fifo_status i else ucast (cpu_mem_addr_r r));
         en = (if ciu_cache_sm_r r = CIU_CACHE_MISS then - 1 else cpu_mem_wr_byte_en_r r)
     in if ciu_mem_write_r r \<and> \<not> (mpu_acc_vio i \<or> ext_acc_vio_r r) then lane_enables sel en else 0)"

definition ciu_req_en :: "ciu_in \<Rightarrow> ciu_regs \<Rightarrow> bool" where
  "ciu_req_en i r = (((valid_cpu_read i r \<or> mem_rread r \<or> valid_cpu_write i r) \<and>
     ciu_cache_sm_r r = CIU_IDLE \<and> \<not> mpu_busy_i i) \<or> nxt_ext_acc_vio i r)"

definition ciu_req_we :: "ciu_in \<Rightarrow> ciu_regs \<Rightarrow> bool" where
  "ciu_req_we i r = (valid_cpu_write i r \<or>
     (nxt_ext_acc_vio i r \<and> (valid_cpu_mem_we i \<or> pending_cpu_mem_write_r r)))"

definition ciu_acc_vio :: "ciu_in \<Rightarrow> ciu_regs \<Rightarrow> bool" where
  "ciu_acc_vio i r = (mpu_read_vio_r r \<or> (mpu_acc_vio i \<and> ciu_cache_sm_r r = CIU_MEM_WRITE))"

definition cpu_read_upon_accvio :: "ciu_in \<Rightarrow> ciu_regs \<Rightarrow> bool" where
  "cpu_read_upon_accvio i r = ((ciu_acc_vio i r \<and> ciu_cache_sm_r r = CIU_MEM_READ) \<or> (cpu_mem_en i \<and> mpu_busy_i i))"

definition ciu_vtag_comp :: "ciu_in \<Rightarrow> ciu_regs \<Rightarrow> bool" where
  "ciu_vtag_comp i r = (cache_active_mode i \<and>
     ((((cpu_mem_en i \<and> \<not> valid_cpu_mem_we i) \<or> pending_cpu_mem_read_r r) \<and> ciu_cache_sm_r r = CIU_IDLE) \<or> mem_rread r))"

definition vtag_lookup_addr :: "ciu_in \<Rightarrow> ciu_regs \<Rightarrow> 22 word" where
  "vtag_lookup_addr i r =
    (if ciu_cache_sm_r r = CIU_CACHE_MISS \<or> ciu_cache_sm_r r = CIU_RREAD then cpu_mem_addr_r r
     else if ciu_cache_sm_r r = CIU_IDLE \<and> pending_cpu_mem_read_r r then cpu_mem_addr_r r
     else cpu_mem_addr i)"

definition mem_cpu_busy :: "ciu_in \<Rightarrow> ciu_regs \<Rightarrow> bool" where
  "mem_cpu_busy i r = (mem_cpu_busy_r r \<or> (pending_cpu_mem_write_r r \<or> pending_cpu_mem_read_r r \<or>
     pending_cpu_access_upon_cache_failed_r r) \<or> cmu_busy_i i)"

definition mem_cpu_rdata_vld :: "ciu_in \<Rightarrow> ciu_regs \<Rightarrow> bool" where
  "mem_cpu_rdata_vld i r = (mem_cpu_rdata_vld_r r \<and> \<not> mem_cpu_read_err i r)"

definition mem_cpu_rdata :: "ciu_in \<Rightarrow> ciu_regs \<Rightarrow> u32" where
  "mem_cpu_rdata i r = lane 32 (unat (block_read_sel_r r)) (mem_ciu_rdata i)"

definition ciu_cmu_cache_hit :: "ciu_in \<Rightarrow> ciu_regs \<Rightarrow> bool" where
  "ciu_cmu_cache_hit i r =
    (cache_active_mode i \<and> vtag_cache_hit i \<and> ciu_cache_sm_r r = CIU_MEM_READ \<and> \<not> cache_miss_r r)"

definition ciu_mem_engn_erase_start :: "ciu_regs \<Rightarrow> bool" where
  "ciu_mem_engn_erase_start r = (sync_eng_erase_r r \<and> \<not> mem_ciu_erase_busy_r r)"

definition ciu_reset_completed :: "ciu_in \<Rightarrow> ciu_regs \<Rightarrow> bool" where
  "ciu_reset_completed i r = (mem_ciu_erase_busy_r r \<and> mem_ciu_engn_erase_done i)"

section \<open>One clock\<close>

definition nxt_mem_ciu_erase_busy :: "ciu_in \<Rightarrow> ciu_regs \<Rightarrow> bool" where
  "nxt_mem_ciu_erase_busy i r = (if sync_eng_erase_r r then True
     else if ciu_reset_completed i r then False else mem_ciu_erase_busy_r r)"

definition nxt_block_read_sel :: "ciu_in \<Rightarrow> ciu_regs \<Rightarrow> 2 word" where
  "nxt_block_read_sel i r = (if ciu_cache_sm_r r = CIU_MEM_READ
     then if cache_active_mode i then vtag_cache_hit_word_idx i else ucast (cpu_mem_addr_r r)
     else block_read_sel_r r)"

definition ciu_ctrl_clock :: "ciu_in \<Rightarrow> ciu_regs \<Rightarrow> ciu_regs" where
  "ciu_ctrl_clock i r =
    (if sync_ciu_reset_i i then ciu_ctrl_reset\<lparr>sync_eng_erase_r := True\<rparr>
     else (ciu_sm i r)\<lparr>sync_eng_erase_r := False, mem_ciu_erase_busy_r := nxt_mem_ciu_erase_busy i r,
       block_read_sel_r := nxt_block_read_sel i r\<rparr>)"


primrec ciu_ctrl_run :: "ciu_in list \<Rightarrow> ciu_regs \<Rightarrow> ciu_regs" where
  "ciu_ctrl_run [] r = r"
| "ciu_ctrl_run (i # is) r = ciu_ctrl_run is (ciu_ctrl_clock i r)"

lemma ciu_states_neq [simp]:
    "CIU_IDLE \<noteq> CIU_MEM_READ" "CIU_IDLE \<noteq> CIU_WAIT" "CIU_IDLE \<noteq> CIU_CACHE_MISS" "CIU_IDLE \<noteq> CIU_RREAD"
    "CIU_IDLE \<noteq> CIU_MEM_WRITE" "CIU_IDLE \<noteq> CIU_EXTRA" "CIU_IDLE \<noteq> CIU_SM_FAULT"
    "CIU_MEM_READ \<noteq> CIU_IDLE" "CIU_MEM_READ \<noteq> CIU_WAIT" "CIU_MEM_READ \<noteq> CIU_CACHE_MISS" "CIU_MEM_READ \<noteq> CIU_RREAD"
    "CIU_MEM_READ \<noteq> CIU_MEM_WRITE" "CIU_MEM_READ \<noteq> CIU_EXTRA" "CIU_MEM_READ \<noteq> CIU_SM_FAULT"
    "CIU_WAIT \<noteq> CIU_IDLE" "CIU_WAIT \<noteq> CIU_MEM_READ" "CIU_WAIT \<noteq> CIU_CACHE_MISS" "CIU_WAIT \<noteq> CIU_RREAD"
    "CIU_WAIT \<noteq> CIU_MEM_WRITE" "CIU_WAIT \<noteq> CIU_EXTRA" "CIU_WAIT \<noteq> CIU_SM_FAULT"
    "CIU_CACHE_MISS \<noteq> CIU_IDLE" "CIU_CACHE_MISS \<noteq> CIU_MEM_READ" "CIU_CACHE_MISS \<noteq> CIU_WAIT" "CIU_CACHE_MISS \<noteq> CIU_RREAD"
    "CIU_CACHE_MISS \<noteq> CIU_MEM_WRITE" "CIU_CACHE_MISS \<noteq> CIU_EXTRA" "CIU_CACHE_MISS \<noteq> CIU_SM_FAULT"
    "CIU_RREAD \<noteq> CIU_IDLE" "CIU_RREAD \<noteq> CIU_MEM_READ" "CIU_RREAD \<noteq> CIU_WAIT" "CIU_RREAD \<noteq> CIU_CACHE_MISS"
    "CIU_RREAD \<noteq> CIU_MEM_WRITE" "CIU_RREAD \<noteq> CIU_EXTRA" "CIU_RREAD \<noteq> CIU_SM_FAULT"
    "CIU_MEM_WRITE \<noteq> CIU_IDLE" "CIU_MEM_WRITE \<noteq> CIU_MEM_READ" "CIU_MEM_WRITE \<noteq> CIU_WAIT" "CIU_MEM_WRITE \<noteq> CIU_CACHE_MISS"
    "CIU_MEM_WRITE \<noteq> CIU_RREAD" "CIU_MEM_WRITE \<noteq> CIU_EXTRA" "CIU_MEM_WRITE \<noteq> CIU_SM_FAULT"
    "CIU_EXTRA \<noteq> CIU_IDLE" "CIU_EXTRA \<noteq> CIU_MEM_READ" "CIU_EXTRA \<noteq> CIU_WAIT" "CIU_EXTRA \<noteq> CIU_CACHE_MISS"
    "CIU_EXTRA \<noteq> CIU_RREAD" "CIU_EXTRA \<noteq> CIU_MEM_WRITE" "CIU_EXTRA \<noteq> CIU_SM_FAULT"
    "CIU_SM_FAULT \<noteq> CIU_IDLE" "CIU_SM_FAULT \<noteq> CIU_MEM_READ" "CIU_SM_FAULT \<noteq> CIU_WAIT" "CIU_SM_FAULT \<noteq> CIU_CACHE_MISS"
    "CIU_SM_FAULT \<noteq> CIU_RREAD" "CIU_SM_FAULT \<noteq> CIU_MEM_WRITE" "CIU_SM_FAULT \<noteq> CIU_EXTRA"
  by (simp_all add: ciu_fsm_defs)

lemma mem_ciu_states: "st \<in> set ciu_states \<longleftrightarrow> st = CIU_IDLE \<or> st = CIU_MEM_READ \<or> st = CIU_WAIT \<or>
    st = CIU_CACHE_MISS \<or> st = CIU_RREAD \<or> st = CIU_MEM_WRITE \<or> st = CIU_EXTRA \<or> st = CIU_SM_FAULT"
  by (simp add: ciu_states_def)

lemma active_not_failed [simp]: "CACHE_ACTIVE \<noteq> CACHE_FAILED" "CACHE_FAILED \<noteq> CACHE_ACTIVE" "DISABLED \<noteq> CACHE_FAILED" "DISABLED \<noteq> CACHE_ACTIVE"
    "INITIALIZATION \<noteq> CACHE_FAILED" "INITIALIZATION \<noteq> CACHE_ACTIVE"
  by (simp_all add: sinc_state_defs)

section \<open>Invariant\<close>

text \<open>Which registers can be set in which states of the machine.\<close>

definition ciu_wf :: "ciu_regs \<Rightarrow> bool" where
  "ciu_wf r = (let st = ciu_cache_sm_r r in
     st \<in> set ciu_states \<and> st \<noteq> CIU_SM_FAULT \<and>
     (ciu_active_r r \<longleftrightarrow> st \<noteq> CIU_IDLE) \<and> (mem_cpu_busy_r r \<longrightarrow> st \<noteq> CIU_IDLE) \<and>
     (mem_cpu_rdata_vld_r r \<or> mpu_read_vio_r r \<or> vtag_parity_err_r r \<or> cmu_fetch_err_r r \<longrightarrow> st = CIU_WAIT) \<and>
     (mem_cpu_rdata_vld_r r \<longrightarrow> \<not> mpu_read_vio_r r \<and> \<not> vtag_parity_err_r r \<and> \<not> cmu_fetch_err_r r \<and>
        \<not> other_error_r r \<and> \<not> ciu_mem_write_r r) \<and>
     (ciu_block_fetch_req_r r \<longrightarrow> st = CIU_CACHE_MISS) \<and>
     (ciu_mem_write_r r \<longrightarrow> st \<in> {CIU_MEM_WRITE, CIU_EXTRA, CIU_WAIT, CIU_CACHE_MISS}) \<and>
     (ext_acc_vio_r r \<longrightarrow> st \<in> {CIU_MEM_READ, CIU_MEM_WRITE}) \<and>
     (other_error_r r \<longrightarrow> st \<in> {CIU_MEM_READ, CIU_MEM_WRITE, CIU_WAIT}))"

lemmas sm_defs = sm_idle_def sm_mem_read_def sm_wait_def sm_cache_miss_def sm_mem_write_def ciu_defaults_def

lemma ciu_wf_reset: "ciu_wf ciu_ctrl_reset" "ciu_wf (ciu_ctrl_reset\<lparr>sync_eng_erase_r := b\<rparr>)"
  by (simp_all add: ciu_wf_def ciu_ctrl_reset_def mem_ciu_states)

lemma ciu_wf_fields:
  "ciu_wf (r\<lparr>sync_eng_erase_r := a, mem_ciu_erase_busy_r := b, block_read_sel_r := c\<rparr>) = ciu_wf r"
  by (simp add: ciu_wf_def)

lemma ciu_wf_at:
  "ciu_cache_sm_r r = CIU_IDLE \<Longrightarrow> ciu_wf r \<longleftrightarrow> \<not> ciu_active_r r \<and> \<not> mem_cpu_busy_r r \<and> \<not> mem_cpu_rdata_vld_r r \<and>
    \<not> mpu_read_vio_r r \<and> \<not> vtag_parity_err_r r \<and> \<not> cmu_fetch_err_r r \<and> \<not> ciu_block_fetch_req_r r \<and>
    \<not> ciu_mem_write_r r \<and> \<not> ext_acc_vio_r r \<and> \<not> other_error_r r"
  "ciu_cache_sm_r r = CIU_MEM_READ \<Longrightarrow> ciu_wf r \<longleftrightarrow> ciu_active_r r \<and> \<not> mem_cpu_rdata_vld_r r \<and>
    \<not> mpu_read_vio_r r \<and> \<not> vtag_parity_err_r r \<and> \<not> cmu_fetch_err_r r \<and> \<not> ciu_block_fetch_req_r r \<and>
    \<not> ciu_mem_write_r r"
  "ciu_cache_sm_r r = CIU_WAIT \<Longrightarrow> ciu_wf r \<longleftrightarrow> ciu_active_r r \<and> \<not> ciu_block_fetch_req_r r \<and> \<not> ext_acc_vio_r r \<and>
    (mem_cpu_rdata_vld_r r \<longrightarrow> \<not> mpu_read_vio_r r \<and> \<not> vtag_parity_err_r r \<and> \<not> cmu_fetch_err_r r \<and>
      \<not> other_error_r r \<and> \<not> ciu_mem_write_r r)"
  "ciu_cache_sm_r r = CIU_CACHE_MISS \<Longrightarrow> ciu_wf r \<longleftrightarrow> ciu_active_r r \<and> \<not> mem_cpu_rdata_vld_r r \<and>
    \<not> mpu_read_vio_r r \<and> \<not> vtag_parity_err_r r \<and> \<not> cmu_fetch_err_r r \<and> \<not> ext_acc_vio_r r \<and> \<not> other_error_r r"
  "ciu_cache_sm_r r = CIU_RREAD \<Longrightarrow> ciu_wf r \<longleftrightarrow> ciu_active_r r \<and> \<not> mem_cpu_rdata_vld_r r \<and>
    \<not> mpu_read_vio_r r \<and> \<not> vtag_parity_err_r r \<and> \<not> cmu_fetch_err_r r \<and> \<not> ciu_block_fetch_req_r r \<and>
    \<not> ciu_mem_write_r r \<and> \<not> ext_acc_vio_r r \<and> \<not> other_error_r r"
  "ciu_cache_sm_r r = CIU_MEM_WRITE \<Longrightarrow> ciu_wf r \<longleftrightarrow> ciu_active_r r \<and> \<not> mem_cpu_rdata_vld_r r \<and>
    \<not> mpu_read_vio_r r \<and> \<not> vtag_parity_err_r r \<and> \<not> cmu_fetch_err_r r \<and> \<not> ciu_block_fetch_req_r r"
  "ciu_cache_sm_r r = CIU_EXTRA \<Longrightarrow> ciu_wf r \<longleftrightarrow> ciu_active_r r \<and> \<not> mem_cpu_rdata_vld_r r \<and>
    \<not> mpu_read_vio_r r \<and> \<not> vtag_parity_err_r r \<and> \<not> cmu_fetch_err_r r \<and> \<not> ciu_block_fetch_req_r r \<and>
    \<not> ext_acc_vio_r r \<and> \<not> other_error_r r"
  by (auto simp: ciu_wf_def mem_ciu_states)

lemma ciu_wf_cases:
  assumes "ciu_wf r"
  obtains "ciu_cache_sm_r r = CIU_IDLE" | "ciu_cache_sm_r r = CIU_MEM_READ"
    | "ciu_cache_sm_r r = CIU_WAIT" | "ciu_cache_sm_r r = CIU_CACHE_MISS" | "ciu_cache_sm_r r = CIU_RREAD"
    | "ciu_cache_sm_r r = CIU_MEM_WRITE" | "ciu_cache_sm_r r = CIU_EXTRA"
proof -
  from assms have "ciu_cache_sm_r r \<in> set ciu_states" "ciu_cache_sm_r r \<noteq> CIU_SM_FAULT"
    by (simp_all add: ciu_wf_def Let_def)
  then show thesis unfolding mem_ciu_states using that by blast
qed

lemma ciu_wf_sm:
  assumes "ciu_wf r"
  shows "ciu_wf (ciu_sm i r)"
  using assms
proof (cases r rule: ciu_wf_cases)
  case 1
  with assms show ?thesis by (simp add: ciu_sm_def sm_idle_def ciu_defaults_def ciu_wf_at Let_def)
next
  case 2
  with assms show ?thesis by (simp add: ciu_sm_def sm_mem_read_def ciu_defaults_def ciu_wf_at Let_def)
next
  case 3
  with assms show ?thesis by (simp add: ciu_sm_def sm_wait_def ciu_defaults_def ciu_wf_at Let_def)
next
  case 6
  with assms show ?thesis by (simp add: ciu_sm_def sm_mem_write_def ciu_defaults_def ciu_wf_at Let_def)
qed (use assms in \<open>simp_all add: ciu_sm_def sm_cache_miss_def ciu_defaults_def ciu_wf_at Let_def\<close>)

lemma ciu_wf_clock: "ciu_wf r \<Longrightarrow> ciu_wf (ciu_ctrl_clock i r)"
  by (simp add: ciu_ctrl_clock_def ciu_wf_reset ciu_wf_fields ciu_wf_sm)

lemma ciu_wf_run: "ciu_wf r \<Longrightarrow> ciu_wf (ciu_ctrl_run is r)"
  by (induction "is" arbitrary: r) (simp_all add: ciu_wf_clock)


section \<open>Accesses\<close>

text \<open>The state \<open>st\<close> of an access to \<open>a\<close> during which no further request waits and no erase runs, and inputs that
  do not interfere.\<close>

definition ctl_free :: "ciu_regs \<Rightarrow> bool" where
  "ctl_free r = (\<not> pending_cpu_mem_read_r r \<and> \<not> pending_cpu_mem_write_r r \<and>
     \<not> pending_cpu_access_upon_cache_failed_r r \<and> \<not> mem_ciu_erase_busy_r r \<and> \<not> sync_eng_erase_r r)"

definition ctl_at :: "sinc_ciu_fsm_t \<Rightarrow> ciu_regs \<Rightarrow> bool" where
  "ctl_at st r = (ciu_wf r \<and> ciu_cache_sm_r r = st \<and> ctl_free r)"

lemma ctl_at_iff:
  "ctl_at CIU_IDLE r \<longleftrightarrow> ciu_cache_sm_r r = CIU_IDLE \<and> ctl_free r \<and> \<not> ciu_active_r r \<and> \<not> mem_cpu_busy_r r \<and> \<not> mem_cpu_rdata_vld_r r \<and>
    \<not> mpu_read_vio_r r \<and> \<not> vtag_parity_err_r r \<and> \<not> cmu_fetch_err_r r \<and> \<not> ciu_block_fetch_req_r r \<and>
    \<not> ciu_mem_write_r r \<and> \<not> ext_acc_vio_r r \<and> \<not> other_error_r r"
  "ctl_at CIU_MEM_READ r \<longleftrightarrow> ciu_cache_sm_r r = CIU_MEM_READ \<and> ctl_free r \<and> ciu_active_r r \<and> \<not> mem_cpu_rdata_vld_r r \<and>
    \<not> mpu_read_vio_r r \<and> \<not> vtag_parity_err_r r \<and> \<not> cmu_fetch_err_r r \<and> \<not> ciu_block_fetch_req_r r \<and>
    \<not> ciu_mem_write_r r"
  "ctl_at CIU_WAIT r \<longleftrightarrow> ciu_cache_sm_r r = CIU_WAIT \<and> ctl_free r \<and> ciu_active_r r \<and> \<not> ciu_block_fetch_req_r r \<and> \<not> ext_acc_vio_r r \<and>
    (mem_cpu_rdata_vld_r r \<longrightarrow> \<not> mpu_read_vio_r r \<and> \<not> vtag_parity_err_r r \<and> \<not> cmu_fetch_err_r r \<and>
      \<not> other_error_r r \<and> \<not> ciu_mem_write_r r)"
  "ctl_at CIU_CACHE_MISS r \<longleftrightarrow> ciu_cache_sm_r r = CIU_CACHE_MISS \<and> ctl_free r \<and> ciu_active_r r \<and> \<not> mem_cpu_rdata_vld_r r \<and>
    \<not> mpu_read_vio_r r \<and> \<not> vtag_parity_err_r r \<and> \<not> cmu_fetch_err_r r \<and> \<not> ext_acc_vio_r r \<and> \<not> other_error_r r"
  "ctl_at CIU_RREAD r \<longleftrightarrow> ciu_cache_sm_r r = CIU_RREAD \<and> ctl_free r \<and> ciu_active_r r \<and> \<not> mem_cpu_rdata_vld_r r \<and>
    \<not> mpu_read_vio_r r \<and> \<not> vtag_parity_err_r r \<and> \<not> cmu_fetch_err_r r \<and> \<not> ciu_block_fetch_req_r r \<and>
    \<not> ciu_mem_write_r r \<and> \<not> ext_acc_vio_r r \<and> \<not> other_error_r r"
  "ctl_at CIU_MEM_WRITE r \<longleftrightarrow> ciu_cache_sm_r r = CIU_MEM_WRITE \<and> ctl_free r \<and> ciu_active_r r \<and> \<not> mem_cpu_rdata_vld_r r \<and>
    \<not> mpu_read_vio_r r \<and> \<not> vtag_parity_err_r r \<and> \<not> cmu_fetch_err_r r \<and> \<not> ciu_block_fetch_req_r r"
  "ctl_at CIU_EXTRA r \<longleftrightarrow> ciu_cache_sm_r r = CIU_EXTRA \<and> ctl_free r \<and> ciu_active_r r \<and> \<not> mem_cpu_rdata_vld_r r \<and>
    \<not> mpu_read_vio_r r \<and> \<not> vtag_parity_err_r r \<and> \<not> cmu_fetch_err_r r \<and> \<not> ciu_block_fetch_req_r r \<and>
    \<not> ext_acc_vio_r r \<and> \<not> other_error_r r"
  by (auto simp: ctl_at_def ciu_wf_at)

definition calm_in :: "ciu_in \<Rightarrow> bool" where
  "calm_in i = (\<not> sync_ciu_reset_i i \<and> \<not> ext_mem_erase_busy i)"

definition still_in :: "ciu_in \<Rightarrow> bool" where
  "still_in i = (calm_in i \<and> \<not> cpu_mem_en i \<and> \<not> cmu_mem_we i)"

lemmas request_defs = valid_cpu_read_def valid_cpu_write_def valid_cmu_write_def cpu_read_upon_erase_busy_def
  cpu_write_upon_erase_busy_def cpu_write_upon_cache_active_def cpu_access_upon_cache_failed_def
  cache_active_mode_def

lemmas access_defs = request_defs ctl_at_iff ctl_free_def calm_in_def still_in_def ciu_ctrl_clock_def ciu_sm_def
  ciu_defaults_def nxt_mem_ciu_erase_busy_def ciu_reset_completed_def

lemmas signal_defs = ciu_mem_en_def ciu_mem_we_def ciu_req_en_def ciu_req_we_def nxt_ext_acc_vio_def mem_rread_def
  cpu_mem_write_def ciu_vtag_comp_def ciu_vtag_update_def

lemma ctl_idle:
  assumes "ctl_at CIU_IDLE r" "still_in i"
  shows "ctl_at CIU_IDLE (ciu_ctrl_clock i r)" "\<not> ciu_mem_en i r" "\<not> ciu_req_en i r" "\<not> ciu_vtag_update i r"
  using assms by (simp_all add: access_defs signal_defs sm_idle_def Let_def)

lemma ctl_read:
  assumes "ctl_at CIU_IDLE r" "calm_in i" "cmu_sinc_state_i i \<noteq> CACHE_FAILED" "cpu_mem_en i" "\<not> cpu_mem_we i"
    "\<not> cmu_busy_i i"
  shows "ctl_at CIU_MEM_READ (ciu_ctrl_clock i r)" "cpu_mem_addr_r (ciu_ctrl_clock i r) = cpu_mem_addr i"
    "\<not> ext_acc_vio_r (ciu_ctrl_clock i r)" "\<not> other_error_r (ciu_ctrl_clock i r)"
    "ciu_mem_en i r" "ciu_mem_we i r = 0" "ciu_req_en i r = (\<not> mpu_busy_i i)" "\<not> ciu_req_we i r"
    "\<not> ciu_vtag_update i r" "ciu_vtag_comp i r = cache_active_mode i" "vtag_lookup_addr i r = cpu_mem_addr i"
    "ciu_routing i r = \<lparr>ciu_mem_addr = (if cache_active_mode i then line_low else line_high) (cpu_mem_addr i),
       ciu_mem_wdata = four_times (cpu_mem_wdata i), ciu_req_addr = cpu_mem_addr i,
       ciu_req_xe = (\<not> cpu_mem_loadstore i), ciu_req_pm = cpu_mem_priv_mode i\<rparr>"
  using assms by (simp_all add: access_defs signal_defs sm_idle_def Let_def valid_cpu_mem_we_def ciu_routing_def
    vtag_lookup_addr_def)

lemma ctl_refused_read:
  assumes "ctl_at CIU_MEM_READ r" "still_in i" "mpu_acc_vio i"
  shows "ctl_at CIU_WAIT (ciu_ctrl_clock i r)" "mpu_read_vio_r (ciu_ctrl_clock i r)"
    "\<not> mem_cpu_rdata_vld_r (ciu_ctrl_clock i r)"
    "\<not> ciu_mem_en i r" "\<not> ciu_req_en i r" "\<not> ciu_vtag_update i r"
  using assms by (simp_all add: access_defs signal_defs sm_mem_read_def Let_def)

lemma ctl_memory_read:
  assumes "ctl_at CIU_MEM_READ r" "still_in i" "\<not> mpu_acc_vio i" "\<not> ext_acc_vio_r r" "\<not> other_error_r r"
    "cmu_sinc_state_i i \<noteq> CACHE_FAILED" "cmu_sinc_state_i i \<noteq> CACHE_ACTIVE"
  shows "ctl_at CIU_WAIT (ciu_ctrl_clock i r)" "mem_cpu_rdata_vld_r (ciu_ctrl_clock i r)"
    "block_read_sel_r (ciu_ctrl_clock i r) = ucast (cpu_mem_addr_r r)"
    "\<not> ciu_mem_en i r" "\<not> ciu_req_en i r" "\<not> ciu_vtag_update i r"
  using assms by (simp_all add: access_defs signal_defs sm_mem_read_def nxt_block_read_sel_def Let_def)

lemma ctl_hit:
  assumes "ctl_at CIU_MEM_READ r" "still_in i" "\<not> mpu_acc_vio i" "\<not> ext_acc_vio_r r" "\<not> other_error_r r"
    "cmu_sinc_state_i i = CACHE_ACTIVE" "\<not> vtag_parity_error_i i" "vtag_cache_hit i"
  shows "ctl_at CIU_WAIT (ciu_ctrl_clock i r)" "mem_cpu_rdata_vld_r (ciu_ctrl_clock i r)"
    "block_read_sel_r (ciu_ctrl_clock i r) = vtag_cache_hit_word_idx i"
    "\<not> ciu_mem_en i r" "\<not> ciu_req_en i r" "\<not> ciu_vtag_update i r"
  using assms by (simp_all add: access_defs signal_defs sm_mem_read_def nxt_block_read_sel_def Let_def)

lemma ctl_miss:
  assumes "ctl_at CIU_MEM_READ r" "still_in i" "\<not> mpu_acc_vio i" "\<not> ext_acc_vio_r r" "\<not> other_error_r r"
    "cmu_sinc_state_i i = CACHE_ACTIVE" "\<not> vtag_parity_error_i i" "\<not> vtag_cache_hit i"
    "\<not> cmu_busy_i i"
  shows "ctl_at CIU_CACHE_MISS (ciu_ctrl_clock i r)" "ciu_mem_write_r (ciu_ctrl_clock i r)"
    "cpu_mem_addr_r (ciu_ctrl_clock i r) = cpu_mem_addr_r r" "ciu_block_fetch_req_r (ciu_ctrl_clock i r)"
    "\<not> ciu_mem_en i r" "\<not> ciu_req_en i r" "\<not> ciu_vtag_update i r"
  using assms by (simp_all add: access_defs signal_defs sm_mem_read_def Let_def)

lemma ctl_refill:
  assumes "ctl_at CIU_CACHE_MISS r" "ciu_mem_write_r r" "calm_in i" "\<not> cpu_mem_en i" "\<not> mpu_acc_vio i"
    "cmu_sinc_state_i i = CACHE_ACTIVE" "\<not> cmu_block_fetch_comp_i i"
  shows "ctl_at CIU_CACHE_MISS (ciu_ctrl_clock i r)" "ciu_mem_write_r (ciu_ctrl_clock i r)"
    "cpu_mem_addr_r (ciu_ctrl_clock i r) = cpu_mem_addr_r r"
    "ciu_mem_en i r = cmu_mem_we i" "ciu_mem_we i r = lane_enables (cache_fifo_status i) (- 1)" "\<not> ciu_req_en i r"
    "\<not> ciu_vtag_update i r" "ciu_mem_addr (ciu_routing i r) = cmu_mem_addr i"
    "ciu_mem_wdata (ciu_routing i r) = four_times (cmu_mem_wdata i)" "vtag_lookup_addr i r = cpu_mem_addr_r r"
  using assms by (simp_all add: access_defs signal_defs sm_cache_miss_def Let_def ciu_routing_def vtag_lookup_addr_def)

lemma ctl_refilled:
  assumes "ctl_at CIU_CACHE_MISS r" "still_in i" "cmu_sinc_state_i i = CACHE_ACTIVE" "cmu_block_fetch_comp_i i"
    "\<not> cmu_block_fetch_err_i i"
  shows "ctl_at CIU_RREAD (ciu_ctrl_clock i r)" "cpu_mem_addr_r (ciu_ctrl_clock i r) = cpu_mem_addr_r r"
    "\<not> ciu_mem_en i r" "\<not> ciu_req_en i r" "ciu_vtag_update i r" "\<not> ciu_vtag_comp i r"
    "vtag_lookup_addr i r = cpu_mem_addr_r r"
  using assms by (simp_all add: access_defs signal_defs sm_cache_miss_def Let_def vtag_lookup_addr_def)

lemma ctl_read_again:
  assumes "ctl_at CIU_RREAD r" "still_in i" "cmu_sinc_state_i i = CACHE_ACTIVE"
  shows "ctl_at CIU_MEM_READ (ciu_ctrl_clock i r)" "cpu_mem_addr_r (ciu_ctrl_clock i r) = cpu_mem_addr_r r"
    "\<not> ext_acc_vio_r (ciu_ctrl_clock i r)" "\<not> other_error_r (ciu_ctrl_clock i r)"
    "ciu_mem_en i r" "ciu_mem_we i r = 0" "\<not> ciu_req_en i r" "\<not> ciu_vtag_update i r" "ciu_vtag_comp i r"
    "ciu_mem_addr (ciu_routing i r) = line_low (cpu_mem_addr_r r)" "vtag_lookup_addr i r = cpu_mem_addr_r r"
  using assms by (simp_all add: access_defs signal_defs Let_def ciu_routing_def vtag_lookup_addr_def)

lemma ctl_end:
  assumes "ctl_at CIU_WAIT r" "still_in i"
  shows "ctl_at CIU_IDLE (ciu_ctrl_clock i r)" "\<not> ciu_mem_en i r" "\<not> ciu_req_en i r" "\<not> ciu_vtag_update i r"
  using assms by (simp_all add: access_defs signal_defs sm_wait_def Let_def)

lemma ctl_write:
  assumes "ctl_at CIU_IDLE r" "calm_in i" "cmu_sinc_state_i i \<noteq> CACHE_FAILED" "cmu_sinc_state_i i \<noteq> CACHE_ACTIVE"
    "cpu_mem_en i" "valid_cpu_mem_we i" "\<not> cmu_busy_i i"
  shows "ctl_at CIU_MEM_WRITE (ciu_ctrl_clock i r)" "cpu_mem_addr_r (ciu_ctrl_clock i r) = cpu_mem_addr i"
    "cpu_mem_wr_byte_en_r (ciu_ctrl_clock i r) = cpu_mem_wr_byte_en i"
    "cpu_mem_wdata_r (ciu_ctrl_clock i r) = cpu_mem_wdata i" "ciu_mem_write_r (ciu_ctrl_clock i r)"
    "\<not> ext_acc_vio_r (ciu_ctrl_clock i r)" "\<not> other_error_r (ciu_ctrl_clock i r)"
    "\<not> ciu_mem_en i r" "ciu_req_en i r = (\<not> mpu_busy_i i)" "ciu_req_we i r" "\<not> ciu_vtag_update i r"
    "ciu_req_addr (ciu_routing i r) = cpu_mem_addr i" "ciu_req_xe (ciu_routing i r) = (\<not> cpu_mem_loadstore i)"
    "ciu_req_pm (ciu_routing i r) = cpu_mem_priv_mode i"
  using assms by (simp_all add: access_defs signal_defs sm_idle_def Let_def valid_cpu_mem_we_def ciu_routing_def)

lemma ctl_refused_write:
  assumes "ctl_at CIU_MEM_WRITE r" "still_in i" "mpu_acc_vio i"
  shows "ctl_at CIU_IDLE (ciu_ctrl_clock i r)" "\<not> ciu_mem_en i r" "\<not> ciu_req_en i r" "\<not> ciu_vtag_update i r"
  using assms by (simp_all add: access_defs signal_defs sm_mem_write_def Let_def)

lemma ctl_memory_write:
  assumes "ctl_at CIU_MEM_WRITE r" "still_in i" "\<not> mpu_acc_vio i" "\<not> ext_acc_vio_r r" "\<not> other_error_r r"
    "ciu_mem_write_r r" "cmu_sinc_state_i i \<noteq> CACHE_ACTIVE"
  shows "ctl_at CIU_EXTRA (ciu_ctrl_clock i r)" "ciu_mem_en i r" "\<not> ciu_req_en i r" "\<not> ciu_vtag_update i r"
    "ciu_mem_we i r = lane_enables (ucast (cpu_mem_addr_r r)) (cpu_mem_wr_byte_en_r r)"
    "ciu_mem_addr (ciu_routing i r) = line_high (cpu_mem_addr_r r)"
    "ciu_mem_wdata (ciu_routing i r) = four_times (cpu_mem_wdata_r r)"
    "ciu_mem_write_r (ciu_ctrl_clock i r)"
  using assms by (simp_all add: access_defs signal_defs sm_mem_write_def Let_def ciu_routing_def)

lemma ctl_extra:
  assumes "ctl_at CIU_EXTRA r" "still_in i"
  shows "ctl_at CIU_WAIT (ciu_ctrl_clock i r)" "\<not> mem_cpu_rdata_vld_r (ciu_ctrl_clock i r)"
    "\<not> mpu_read_vio_r (ciu_ctrl_clock i r)" "\<not> ciu_mem_en i r" "\<not> ciu_req_en i r" "\<not> ciu_vtag_update i r"
    "\<not> vtag_parity_err_r (ciu_ctrl_clock i r)" "\<not> cmu_fetch_err_r (ciu_ctrl_clock i r)"
    "\<not> other_error_r (ciu_ctrl_clock i r)"
  using assms by (simp_all add: access_defs signal_defs Let_def)

text \<open>Requests that no memory serves: all in the failed state, and writes to an active cache.\<close>

lemma ctl_forbidden:
  assumes "ctl_at CIU_IDLE r" "calm_in i" "cpu_mem_en i" "valid_cpu_mem_we i \<or> \<not> cpu_mem_we i" "\<not> cmu_mem_we i"
    "cmu_sinc_state_i i = CACHE_FAILED \<or> cmu_sinc_state_i i = CACHE_ACTIVE \<and> cpu_mem_we i"
  shows "ctl_at (if cpu_mem_we i then CIU_MEM_WRITE else CIU_MEM_READ) (ciu_ctrl_clock i r)"
    "ext_acc_vio_r (ciu_ctrl_clock i r)" "\<not> ciu_mem_en i r" "\<not> ciu_vtag_update i r"
  using assms by (cases "cpu_mem_we i"; cases "cmu_sinc_state_i i = CACHE_FAILED";
    simp add: access_defs signal_defs sm_idle_def Let_def valid_cpu_mem_we_def)+

section \<open>Faults and failures\<close>

lemma ciu_states_apart:
  "list_all (\<lambda>a. list_all (\<lambda>b. a = b \<or> 3 \<le> flipped (a XOR b)) ciu_states) ciu_states"
  by code_simp

text \<open>The state in which the CPU's read was accepted but not served.\<close>

definition read_left_pending :: "ciu_regs \<Rightarrow> bool" where
  "read_left_pending r = (ciu_cache_sm_r r = CIU_IDLE \<and> pending_cpu_mem_read_r r \<and> \<not> pending_cpu_mem_write_r r \<and>
     \<not> pending_cpu_access_upon_cache_failed_r r)"

definition failed_and_quiet :: "ciu_in \<Rightarrow> bool" where
  "failed_and_quiet i = (cmu_sinc_state_i i = CACHE_FAILED \<and> \<not> cpu_mem_en i \<and> \<not> ext_mem_erase_busy i \<and>
     \<not> sync_ciu_reset_i i)"

lemma read_left_pending_clock:
  assumes "read_left_pending r" "failed_and_quiet i"
  shows "read_left_pending (ciu_ctrl_clock i r)"
proof -
  have "\<not> valid_cpu_read i r" "\<not> valid_cpu_write i r" "\<not> cpu_access_upon_cache_failed i"
    "\<not> cpu_read_upon_erase_busy i r" "\<not> cpu_write_upon_erase_busy i r" "\<not> cpu_write_upon_cache_active i r"
    using assms by (auto simp: failed_and_quiet_def valid_cpu_read_def valid_cpu_write_def cpu_access_upon_cache_failed_def
      cpu_read_upon_erase_busy_def cpu_write_upon_erase_busy_def cpu_write_upon_cache_active_def
      cache_active_mode_def)
  with assms show ?thesis
    by (simp add: read_left_pending_def failed_and_quiet_def ciu_ctrl_clock_def ciu_sm_def sm_idle_def
      ciu_defaults_def Let_def)
qed

section \<open>Properties of the controller\<close>

text \<open>C21: the invariant of the controller. From reset, whatever the inputs are, the registers that are set
  belong to the state of the machine (data can be announced only in \<open>CIU_WAIT\<close> and not together with an
  error, the write register is set only while a write or a refill is under way, the unit is
  active exactly when it is not idle), and no fault of the state machine is reported.\<close>

theorem ciu_invariant:
  "ciu_wf (ciu_ctrl_run is ciu_ctrl_reset) \<and> \<not> ciu_cache_sm_fault (ciu_ctrl_run is ciu_ctrl_reset)"
proof -
  have "ciu_wf (ciu_ctrl_run is ciu_ctrl_reset)" by (rule ciu_wf_run [OF ciu_wf_reset(1)])
  then show ?thesis by (simp add: ciu_wf_def ciu_cache_sm_fault_def Let_def)
qed

text \<open>Upsets of the state register are detected. When one or two bits of a legal state are flipped, the
  fault is reported in the same clock and in the next one, and then the machine is idle again, neither busy
  nor active.\<close>

lemma ciu_upset_is_fault:
  assumes "ciu_cache_sm_r r \<in> set ciu_states" and "m \<noteq> 0" and "flipped m \<le> 2"
    and "\<not> sync_ciu_reset_i i" and "\<not> sync_ciu_reset_i j"
    and "r0 = r\<lparr>ciu_cache_sm_r := ciu_cache_sm_r r XOR m\<rparr>"
    and "r1 = ciu_ctrl_clock i r0" and "r2 = ciu_ctrl_clock j r1"
  shows "ciu_cache_sm_fault r0 \<and> ciu_cache_sm_fault r1 \<and>
    ciu_cache_sm_r r2 = CIU_IDLE \<and> \<not> mem_cpu_busy_r r2 \<and> \<not> ciu_active_r r2"
proof -
  have "ciu_cache_sm_r r XOR m \<notin> set ciu_states"
    using xor_leaves [OF ciu_states_apart assms(1,2)] assms(3) by simp
  then have "ciu_cache_sm_r r0 \<notin> set ciu_states" by (simp add: assms(6))
  moreover from this have "ciu_cache_sm_r r1 = CIU_SM_FAULT"
    using assms(4) by (simp add: assms(7) ciu_ctrl_clock_def ciu_sm_def mem_ciu_states ciu_defaults_def Let_def)
  ultimately show ?thesis
    using assms(5) by (simp add: assms(8) ciu_cache_sm_fault_def ciu_ctrl_clock_def ciu_sm_def ciu_defaults_def Let_def)
qed

text \<open>C39: a read can be left unanswered. When a read was accepted while the previous access ended
  and the SInC is in \<open>CACHE_FAILED\<close> when it should be served, it stays pending: as long as no erase, reset or
  new request comes, the machine stays idle and the busy signal stays asserted, however long one waits.\<close>

theorem pending_read_is_not_answered:
  assumes "ciu_wf r" and "read_left_pending r" and "list_all failed_and_quiet is"
  shows "read_left_pending (ciu_ctrl_run is r) \<and> mem_cpu_busy i (ciu_ctrl_run is r) \<and>
    \<not> mem_cpu_rdata_vld i (ciu_ctrl_run is r) \<and> \<not> mem_cpu_read_err i (ciu_ctrl_run is r)"
proof -
  have "read_left_pending (ciu_ctrl_run is r)"
    using assms(2,3) by (induction "is" arbitrary: r) (simp_all add: read_left_pending_clock)
  moreover from this have "\<not> mem_cpu_rdata_vld_r (ciu_ctrl_run is r)"
    using ciu_wf_run [OF assms(1), of "is"] by (simp add: read_left_pending_def ciu_wf_at)
  ultimately show ?thesis
    by (simp add: read_left_pending_def mem_cpu_busy_def mem_cpu_rdata_vld_def mem_cpu_read_err_def)
qed

text \<open>The inputs at rest.\<close>

definition ciu_quiet :: "u8 \<Rightarrow> ciu_in" where
  "ciu_quiet st = \<lparr>sync_ciu_reset_i = False, ext_mem_erase_busy = False, cpu_mem_en = False, cpu_mem_we = False,
     cpu_mem_loadstore = True, cpu_mem_priv_mode = False, cpu_mem_wr_byte_en = 0, cpu_mem_addr = 0,
     cpu_mem_wdata = 0, mem_ciu_rdata = 0, mem_ciu_rdata_valid = False, mem_ciu_busy = False,
     mem_err_uncorr = False, mem_ciu_engn_erase_done = False, mpu_acc_vio = False, mpu_busy_i = False,
     cmu_block_fetch_comp_i = False, cmu_block_fetch_err_i = False, cmu_busy_i = False, cmu_sinc_state_i = st,
     cmu_mem_we = False, cmu_mem_addr = 0, cmu_mem_wdata = 0, vtag_cache_hit = False, vtag_cache_hit_word_idx = 0,
     cache_fifo_status = 0, vtag_parity_error_i = False\<rparr>"

text \<open>A read that the protection unit refuses, a second read when the busy signal is down, and then the
  failed state.\<close>

theorem pending_read_is_not_answered_witness:
  "let read = (ciu_quiet CACHE_ACTIVE)\<lparr>cpu_mem_en := True\<rparr>;
       refuse = (ciu_quiet CACHE_ACTIVE)\<lparr>mpu_acc_vio := True\<rparr>;
       r = ciu_ctrl_run [read, refuse] ciu_ctrl_reset
   in \<not> mem_cpu_busy read r \<and> mem_cpu_busy (ciu_quiet CACHE_FAILED)
     (ciu_ctrl_run (replicate 1000 (ciu_quiet CACHE_FAILED)) (ciu_ctrl_clock read r))"
proof -
  let ?read = "(ciu_quiet CACHE_ACTIVE)\<lparr>cpu_mem_en := True\<rparr>"
  let ?r = "ciu_ctrl_run [?read, (ciu_quiet CACHE_ACTIVE)\<lparr>mpu_acc_vio := True\<rparr>] ciu_ctrl_reset"
  have "\<not> mem_cpu_busy ?read ?r" "read_left_pending (ciu_ctrl_clock ?read ?r)" by code_simp+
  moreover have "ciu_wf (ciu_ctrl_clock ?read ?r)" by (intro ciu_wf_clock ciu_wf_run ciu_wf_reset)
  moreover have "list_all failed_and_quiet (replicate 1000 (ciu_quiet CACHE_FAILED))"
    by (simp add: list_all_iff failed_and_quiet_def ciu_quiet_def)
  ultimately show ?thesis
    using pending_read_is_not_answered [where i = "ciu_quiet CACHE_FAILED"] unfolding Let_def by blast
qed

end
