(* ===== verification/CiuTop.thy ===== *)
theory CiuTop
  imports Ciu
begin

text \<open>
  The cache interface unit (\<open>src/src/sinc/rtl/sinc_ciu.sv\<close>): the controller (\<open>Ciu\<close>), the tag store
  (\<open>Vtag\<close>), the memory protection unit (\<open>Mpu\<close>) and the wrapper of the cache memory (\<open>RamWrapper\<close>), connected as
  in the source and clocked through the unit's clock gate. The two memory macros are parameters. While the cache
  is switched off the unit implements a protected memory of words; with the cache active it
  implements protected reads of the external memory, for every sequence of accesses.
\<close>

section \<open>Ports and registers\<close>

text \<open>The port of the tag memory, an enable, a write enable and an entry per way.\<close>

record tag_port =
  tag_men :: "bool list"
  tag_wen :: "bool list"
  tag_adr :: "7 word"
  tag_di :: "VTAG_BITS list"

text \<open>The macros outside of the unit: one clock of each and what its output shows.\<close>

record ('m, 't) macros =
  m_ram_clock :: "ram_port \<Rightarrow> 'm \<Rightarrow> 'm"
  m_ram_q :: "'m \<Rightarrow> 156 word"
  m_tag_clock :: "tag_port \<Rightarrow> 't \<Rightarrow> 't"
  m_tag_q :: "'t \<Rightarrow> VTAG_BITS list"

text \<open>The inputs of the unit, grouped by the block they go to; the fields of a group that are driven inside the
  unit are replaced there.\<close>

record ciu_ext =
  cpu_side :: ciu_in
  mem_side :: wrap_in
  mpu_side :: mpu_in
  cmu_sinc_reset_i :: bool
  cmu_sinc_reinit_i :: bool

record ('m, 't) ciu_unit =
  u_ciu_ctrl :: ciu_regs
  u_ram_wrapper :: wrap_regs
  u_ram :: 'm
  u_tags :: 't
  u_vtag_erase :: vtag_erase
  ciu_vtag_comp_r :: bool
  cache_tag_r :: u8
  u_vtag_ret :: "7 word \<Rightarrow> 2 word"
  u_mpu_ret :: mpu_unit
  ciu_clock_waken_r :: bool
  mem_init_active_r :: bool
  mem_inject_active_r :: bool
  cmu_sinc_reset_active_r :: bool

section \<open>Connections\<close>

definition sync_ciu_reset :: "ciu_ext \<Rightarrow> bool" where
  "sync_ciu_reset e = (cmu_sinc_reset_i e \<or> cmu_sinc_reinit_i e)"

definition vtag_erase_start :: "ciu_ext \<Rightarrow> ('m, 't) ciu_unit \<Rightarrow> bool" where
  "vtag_erase_start e u = (erase_start_i (mem_side e) \<or> ciu_mem_engn_erase_start (u_ciu_ctrl u))"

definition mem_erase_busy :: "ciu_ext \<Rightarrow> ('m, 't) ciu_unit \<Rightarrow> bool" where
  "mem_erase_busy e u = (mem_ciu_erase_busy_r (u_ciu_ctrl u) \<or> erase_we (eras (u_ram_wrapper u)) \<or>
     is_erase_op (vtag_erase_start e u) (u_vtag_erase u))"

definition cache_set_idx :: "ciu_ext \<Rightarrow> ('m, 't) ciu_unit \<Rightarrow> 7 word" where
  "cache_set_idx e u = cache_set_idx_of (vtag_lookup_addr (cpu_side e) (u_ciu_ctrl u))"

definition cache_tag :: "ciu_ext \<Rightarrow> ('m, 't) ciu_unit \<Rightarrow> u8" where
  "cache_tag e u = cache_tag_of (vtag_lookup_addr (cpu_side e) (u_ciu_ctrl u))"

definition ciu_ctrl_in :: "('m, 't) macros \<Rightarrow> ciu_ext \<Rightarrow> ('m, 't) ciu_unit \<Rightarrow> ciu_in" where
  "ciu_ctrl_in M e u =
    (let vtag = m_tag_q M (u_tags u); h = vtag_hit (ciu_vtag_comp_r u) (cache_tag_r u) vtag in
     (cpu_side e)\<lparr>sync_ciu_reset_i := sync_ciu_reset e, ext_mem_erase_busy := mem_erase_busy e u,
       mem_ciu_rdata := rdata_o (mem_side e) (u_ram_wrapper u),
       mem_ciu_rdata_valid := rdata_valid_o (mem_side e) (u_ram_wrapper u),
       mem_ciu_busy := busy_o (u_ram_wrapper u),
       mem_err_uncorr := edc_failed (mem_side e) (u_ram_wrapper u),
       mem_ciu_engn_erase_done := engn_erase_done (eras (u_ram_wrapper u)),
       mpu_acc_vio := acc_vio ((mpu_side e)\<lparr>ext_acc_vio := ext_acc_vio_r (u_ciu_ctrl u)\<rparr>) (u_mpu_ret u),
       mpu_busy_i := mpu_busy (u_mpu_ret u),
       vtag_cache_hit := fst h, vtag_cache_hit_word_idx := snd h,
       cache_fifo_status := u_vtag_ret u (cache_set_idx e u),
       vtag_parity_error_i := vtag_parity_error (ciu_vtag_comp_r u) vtag\<rparr>)"

definition wrapper_in :: "('m, 't) macros \<Rightarrow> ciu_ext \<Rightarrow> ('m, 't) ciu_unit \<Rightarrow> wrap_in" where
  "wrapper_in M e u =
    (let i = ciu_ctrl_in M e u; r = u_ciu_ctrl u; q = ciu_routing i r in
     (mem_side e)\<lparr>wdata_i := ciu_mem_wdata q, addr_i := ciu_mem_addr q, en_i := ciu_mem_en i r,
       we_i := ciu_mem_we i r, engn_erase_start_i := ciu_mem_engn_erase_start r\<rparr>)"

definition protection_in :: "('m, 't) macros \<Rightarrow> ciu_ext \<Rightarrow> ('m, 't) ciu_unit \<Rightarrow> mpu_in" where
  "protection_in M e u =
    (let i = ciu_ctrl_in M e u; r = u_ciu_ctrl u; q = ciu_routing i r in
     (mpu_side e)\<lparr>addr := push_bit 2 (ucast (ciu_req_addr q)), req_id := 0, req_en := ciu_req_en i r,
       req_we := ciu_req_we i r, req_xe := ciu_req_xe q, accsrc := False, mpu_top_page_acc_en := True,
       ext_acc_vio := ext_acc_vio_r r, soft_rst := cmu_sinc_reset_i e, priv_mode := ciu_req_pm q\<rparr>)"

definition tag_out :: "('m, 't) macros \<Rightarrow> ciu_ext \<Rightarrow> ('m, 't) ciu_unit \<Rightarrow> tag_port" where
  "tag_out M e u =
    (let i = ciu_ctrl_in M e u; r = u_ciu_ctrl u; comp = ciu_vtag_comp i r; upd = ciu_vtag_update i r;
         way = u_vtag_ret u (cache_set_idx e u);
         wen = (if is_erase_op (vtag_erase_start e u) (u_vtag_erase u) then replicate 4 True
                else map (\<lambda>k. upd \<and> unat way = k) [0..<4])
     in if is_erase_op (vtag_erase_start e u) (u_vtag_erase u)
        then \<lparr>tag_men = map (\<lambda>w. comp \<or> w) wen, tag_wen = wen, tag_adr = vtag_erase_addr_r (u_vtag_erase u),
              tag_di = replicate 4 erased_entry\<rparr>
        else \<lparr>tag_men = map (\<lambda>w. comp \<or> w) wen, tag_wen = wen, tag_adr = cache_set_idx e u,
              tag_di = vtag_update_ways upd (cache_tag e u) \<lparr>ways = m_tag_q M (u_tags u), fifo_sta_reg = way\<rparr>\<rparr>)"

section \<open>Outputs to the processor and to the cache management unit\<close>

definition error_happened :: "('m, 't) macros \<Rightarrow> ciu_ext \<Rightarrow> ('m, 't) ciu_unit \<Rightarrow> bool" where
  "error_happened M e u = (let i = ciu_ctrl_in M e u in
     mem_cpu_read_err i (u_ciu_ctrl u) \<or> mem_err_uncorr i \<or> cpu_read_upon_accvio i (u_ciu_ctrl u))"

record ciu_out =
  busy_out :: bool
  rdata_vld_out :: bool
  rdata_out :: u32
  read_err_out :: bool
  err_accvio_out :: bool
  fault_err_out :: bool
  fetch_req_out :: bool
  block_addr_out :: "22 word"

definition ciu_outputs :: "('m, 't) macros \<Rightarrow> ciu_ext \<Rightarrow> ('m, 't) ciu_unit \<Rightarrow> ciu_out" where
  "ciu_outputs M e u =
    (let i = ciu_ctrl_in M e u; r = u_ciu_ctrl u in
     \<lparr>busy_out = mem_cpu_busy i r, rdata_vld_out = mem_cpu_rdata_vld i r,
      rdata_out = (if error_happened M e u then c_ERRDATA else mem_cpu_rdata i r),
      read_err_out = mem_cpu_read_err i r, err_accvio_out = ciu_acc_vio i r,
      fault_err_out = (ciu_cache_sm_fault r \<or> mem_err_uncorr i \<or> vtag_parity_error_i i),
      fetch_req_out = ciu_block_fetch_req_r r, block_addr_out = cpu_mem_addr_r r\<rparr>)"

section \<open>One clock\<close>

definition ciu_clock_waken :: "ciu_ext \<Rightarrow> ('m, 't) ciu_unit \<Rightarrow> bool" where
  "ciu_clock_waken e u = (cmu_busy_i (cpu_side e) \<or> ciu_active_r (u_ciu_ctrl u) \<or> cpu_mem_en (cpu_side e) \<or>
     (sync_ciu_reset e \<or> cmu_sinc_reset_active_r u) \<or> (inject_i (mem_side e) \<or> mem_inject_active_r u) \<or>
     (erase_start_i (mem_side e) \<or> mem_init_active_r u))"

definition gclk :: "bool \<Rightarrow> ciu_ext \<Rightarrow> ('m, 't) ciu_unit \<Rightarrow> bool" where
  "gclk gated e u = (\<not> gated \<or> (ciu_clock_waken e u \<or> ciu_clock_waken_r u) \<or>
     clkg_override (mpu_side e) \<or> clkg_test_mode (mpu_side e))"

definition activity :: "bool \<Rightarrow> bool \<Rightarrow> bool \<Rightarrow> bool" where
  "activity start done active = (if active then \<not> done else start)"

definition fifo_clock :: "('m, 't) macros \<Rightarrow> ciu_ext \<Rightarrow> ('m, 't) ciu_unit \<Rightarrow> 7 word \<Rightarrow> 2 word" where
  "fifo_clock M e u = (if sync_ciu_reset e then (\<lambda>_. 0)
     else if ciu_vtag_update (ciu_ctrl_in M e u) (u_ciu_ctrl u)
     then (u_vtag_ret u)(cache_set_idx e u := u_vtag_ret u (cache_set_idx e u) + 1)
     else u_vtag_ret u)"

definition gated_part :: "('m, 't) macros \<Rightarrow> ciu_ext \<Rightarrow> ('m, 't) ciu_unit \<Rightarrow> ('m, 't) ciu_unit" where
  "gated_part M e u =
    (let i = ciu_ctrl_in M e u; r = u_ciu_ctrl u; w = wrapper_in M e u in
     u\<lparr>u_ciu_ctrl := ciu_ctrl_clock i r,
       u_ram_wrapper := wrap_clock w (m_ram_q M (u_ram u)) (u_ram_wrapper u),
       u_ram := m_ram_clock M (ram_out w (u_ram_wrapper u)) (u_ram u),
       u_tags := m_tag_clock M (tag_out M e u) (u_tags u),
       u_vtag_erase := vtag_erase_next (sync_ciu_reset e) (vtag_erase_start e u) (u_vtag_erase u),
       ciu_vtag_comp_r := (\<not> sync_ciu_reset e \<and> ciu_vtag_comp i r),
       cache_tag_r := (if sync_ciu_reset e then 0 else cache_tag e u),
       u_vtag_ret := fifo_clock M e u\<rparr>)"

definition ciu_clock :: "('m, 't) macros \<Rightarrow> bool \<Rightarrow> ciu_ext \<Rightarrow> ('m, 't) ciu_unit \<Rightarrow> ('m, 't) ciu_unit" where
  "ciu_clock M gated e u =
    (if gclk gated e u then gated_part M e u else u)
    \<lparr>u_mpu_ret := mpu_clock gated (protection_in M e u) (u_mpu_ret u),
     ciu_clock_waken_r := ciu_clock_waken e u,
     mem_init_active_r := activity (erase_start_i (mem_side e)) (erase_done (eras (u_ram_wrapper u))) (mem_init_active_r u),
     mem_inject_active_r := activity (inject_i (mem_side e)) (inject_done_o (wrapper_in M e u) (u_ram_wrapper u))
       (mem_inject_active_r u),
     cmu_sinc_reset_active_r := activity (sync_ciu_reset e) (ciu_reset_completed (ciu_ctrl_in M e u) (u_ciu_ctrl u))
       (cmu_sinc_reset_active_r u)\<rparr>"


primrec ciu_run ::
  "('m, 't) macros \<Rightarrow> bool \<Rightarrow> ciu_ext list \<Rightarrow> ('m, 't) ciu_unit \<Rightarrow> ciu_out list \<times> ('m, 't) ciu_unit" where
  "ciu_run M gated [] u = ([], u)"
| "ciu_run M gated (e # es) u =
    (let (os, u') = ciu_run M gated es (ciu_clock M gated e u) in (ciu_outputs M e u # os, u'))"

section \<open>Undisturbed clocks\<close>

text \<open>Inputs without reset, erase, injection and changes of page attributes; waiting inputs have no request, no word and no
  end of a fetch either, and with quiet inputs the cache management unit is not busy.\<close>

definition calm_ext :: "ciu_ext \<Rightarrow> bool" where
  "calm_ext e = (\<not> cmu_sinc_reset_i e \<and> \<not> cmu_sinc_reinit_i e \<and>
     \<not> erase_start_i (mem_side e) \<and> \<not> inject_i (mem_side e) \<and> \<not> err_chk_disable_i (mem_side e) \<and>
     \<not> mpu_reg_wr_en (mpu_side e))"

definition waiting_ext :: "ciu_ext \<Rightarrow> bool" where
  "waiting_ext e = (calm_ext e \<and> \<not> cpu_mem_en (cpu_side e) \<and> \<not> cmu_mem_we (cpu_side e) \<and>
     \<not> cmu_block_fetch_comp_i (cpu_side e))"

definition quiet_ext :: "ciu_ext \<Rightarrow> bool" where
  "quiet_ext e = (waiting_ext e \<and> \<not> cmu_busy_i (cpu_side e))"

lemmas quiet_defs = quiet_ext_def waiting_ext_def

definition phase :: "sinc_ciu_fsm_t \<Rightarrow> ('m, 't) ciu_unit \<Rightarrow> bool" where
  "phase st u = (ctl_at st (u_ciu_ctrl u) \<and> \<not> erase_we (eras (u_ram_wrapper u)) \<and>
     \<not> full_erase_in_progress (eras (u_ram_wrapper u)) \<and> vtag_sm_r (u_vtag_erase u) = VTAG_ERASE_IDLE)"

definition regf_of :: "('m, 't) ciu_unit \<Rightarrow> 10 word \<Rightarrow> u32" where
  "regf_of u = Regf (u_mpu (u_mpu_ret u))"

definition mpu_checking :: "('m, 't) ciu_unit \<Rightarrow> bool" where
  "mpu_checking u = en_reg (u_mpu (u_mpu_ret u))"

lemma ctrl_in_simps [simp]:
  "cpu_mem_en (ciu_ctrl_in M e u) = cpu_mem_en (cpu_side e)" "cpu_mem_we (ciu_ctrl_in M e u) = cpu_mem_we (cpu_side e)"
  "cpu_mem_loadstore (ciu_ctrl_in M e u) = cpu_mem_loadstore (cpu_side e)"
  "cpu_mem_priv_mode (ciu_ctrl_in M e u) = cpu_mem_priv_mode (cpu_side e)"
  "cpu_mem_wr_byte_en (ciu_ctrl_in M e u) = cpu_mem_wr_byte_en (cpu_side e)"
  "cpu_mem_addr (ciu_ctrl_in M e u) = cpu_mem_addr (cpu_side e)"
  "cpu_mem_wdata (ciu_ctrl_in M e u) = cpu_mem_wdata (cpu_side e)"
  "cmu_block_fetch_comp_i (ciu_ctrl_in M e u) = cmu_block_fetch_comp_i (cpu_side e)"
  "cmu_block_fetch_err_i (ciu_ctrl_in M e u) = cmu_block_fetch_err_i (cpu_side e)"
  "cmu_busy_i (ciu_ctrl_in M e u) = cmu_busy_i (cpu_side e)"
  "cmu_sinc_state_i (ciu_ctrl_in M e u) = cmu_sinc_state_i (cpu_side e)"
  "cmu_mem_we (ciu_ctrl_in M e u) = cmu_mem_we (cpu_side e)" "cmu_mem_addr (ciu_ctrl_in M e u) = cmu_mem_addr (cpu_side e)"
  "cmu_mem_wdata (ciu_ctrl_in M e u) = cmu_mem_wdata (cpu_side e)"
  "sync_ciu_reset_i (ciu_ctrl_in M e u) = sync_ciu_reset e" "ext_mem_erase_busy (ciu_ctrl_in M e u) = mem_erase_busy e u"
  "mem_ciu_rdata (ciu_ctrl_in M e u) = rdata_o (mem_side e) (u_ram_wrapper u)"
  "mem_ciu_rdata_valid (ciu_ctrl_in M e u) = rdata_valid_o (mem_side e) (u_ram_wrapper u)"
  "mem_err_uncorr (ciu_ctrl_in M e u) = edc_failed (mem_side e) (u_ram_wrapper u)"
  "mpu_busy_i (ciu_ctrl_in M e u) = mpu_checking u"
  "vtag_cache_hit (ciu_ctrl_in M e u) = fst (vtag_hit (ciu_vtag_comp_r u) (cache_tag_r u) (m_tag_q M (u_tags u)))"
  "vtag_cache_hit_word_idx (ciu_ctrl_in M e u) =
    snd (vtag_hit (ciu_vtag_comp_r u) (cache_tag_r u) (m_tag_q M (u_tags u)))"
  "cache_fifo_status (ciu_ctrl_in M e u) = u_vtag_ret u (cache_set_idx e u)"
  "vtag_parity_error_i (ciu_ctrl_in M e u) = vtag_parity_error (ciu_vtag_comp_r u) (m_tag_q M (u_tags u))"
  by (simp_all add: ciu_ctrl_in_def mpu_checking_def mpu_busy_def Let_def)

lemma ctrl_in_vio:
  "mpu_acc_vio (ciu_ctrl_in M e u) =
    acc_vio ((mpu_side e)\<lparr>ext_acc_vio := ext_acc_vio_r (u_ciu_ctrl u)\<rparr>) (u_mpu_ret u)"
  by (simp add: ciu_ctrl_in_def Let_def)

lemma lookup_addr_ctrl_in [simp]: "vtag_lookup_addr (ciu_ctrl_in M e u) r = vtag_lookup_addr (cpu_side e) r"
  by (simp add: vtag_lookup_addr_def)

lemma wrapper_in_simps [simp]:
  "wdata_i (wrapper_in M e u) = ciu_mem_wdata (ciu_routing (ciu_ctrl_in M e u) (u_ciu_ctrl u))"
  "addr_i (wrapper_in M e u) = ciu_mem_addr (ciu_routing (ciu_ctrl_in M e u) (u_ciu_ctrl u))"
  "en_i (wrapper_in M e u) = ciu_mem_en (ciu_ctrl_in M e u) (u_ciu_ctrl u)"
  "we_i (wrapper_in M e u) = ciu_mem_we (ciu_ctrl_in M e u) (u_ciu_ctrl u)"
  "err_chk_disable_i (wrapper_in M e u) = err_chk_disable_i (mem_side e)"
  "rdata_o (wrapper_in M e u) = rdata_o (mem_side e)"
  "rdata_valid_o (wrapper_in M e u) = rdata_valid_o (mem_side e)"
  by (simp_all add: wrapper_in_def Let_def fun_eq_iff rdata_o_def rdata_valid_o_def edc_failed_def read_data_def)

lemma phase_calm:
  assumes "phase st u" "calm_ext e"
  shows "calm_in (ciu_ctrl_in M e u)" "calm (wrapper_in M e u)" "\<not> is_erase_op (vtag_erase_start e u) (u_vtag_erase u)"
    "\<not> sync_ciu_reset e" "\<not> vtag_erase_start e u"
  using assms by (auto simp: phase_def calm_ext_def calm_in_def ctl_at_def ctl_free_def mem_erase_busy_def vtag_erase_start_def
    is_erase_op_def ciu_mem_engn_erase_start_def sync_ciu_reset_def calm_def wrapper_in_def Let_def)

lemma phase_still: "phase st u \<Longrightarrow> quiet_ext e \<Longrightarrow> still_in (ciu_ctrl_in M e u)"
  using phase_calm [of st u e] by (simp add: quiet_defs still_in_def)

lemma phase_gclk: "phase st u \<Longrightarrow> st \<noteq> CIU_IDLE \<or> cpu_mem_en (cpu_side e) \<Longrightarrow> gclk gated e u"
  by (auto simp: phase_def ctl_at_def ciu_wf_def gclk_def ciu_clock_waken_def Let_def)

lemma clock_on:
  assumes "gclk gated e u"
  shows "u_ciu_ctrl (ciu_clock M gated e u) = ciu_ctrl_clock (ciu_ctrl_in M e u) (u_ciu_ctrl u)"
    "(u_ram_wrapper (ciu_clock M gated e u), u_ram (ciu_clock M gated e u)) =
      sys_clock (m_ram_clock M) (m_ram_q M) (wrapper_in M e u) (u_ram_wrapper u, u_ram u)"
    "u_tags (ciu_clock M gated e u) = m_tag_clock M (tag_out M e u) (u_tags u)"
    "u_vtag_erase (ciu_clock M gated e u) =
      vtag_erase_next (sync_ciu_reset e) (vtag_erase_start e u) (u_vtag_erase u)"
    "ciu_vtag_comp_r (ciu_clock M gated e u) = (\<not> sync_ciu_reset e \<and> ciu_vtag_comp (ciu_ctrl_in M e u) (u_ciu_ctrl u))"
    "\<not> sync_ciu_reset e \<Longrightarrow> cache_tag_r (ciu_clock M gated e u) = cache_tag e u"
    "u_vtag_ret (ciu_clock M gated e u) = fifo_clock M e u"
  using assms by (simp_all add: ciu_clock_def gated_part_def sys_clock_def Let_def)

lemma clock_off:
  assumes "\<not> gclk gated e u"
  shows "u_ciu_ctrl (ciu_clock M gated e u) = u_ciu_ctrl u" "u_ram_wrapper (ciu_clock M gated e u) = u_ram_wrapper u"
    "u_ram (ciu_clock M gated e u) = u_ram u" "u_tags (ciu_clock M gated e u) = u_tags u"
    "u_vtag_erase (ciu_clock M gated e u) = u_vtag_erase u" "u_vtag_ret (ciu_clock M gated e u) = u_vtag_ret u"
  using assms by (simp_all add: ciu_clock_def)

lemma phase_clock:
  assumes "phase st u" "calm_ext e" "gclk gated e u" "ctl_at st' (ciu_ctrl_clock (ciu_ctrl_in M e u) (u_ciu_ctrl u))"
  shows "phase st' (ciu_clock M gated e u)"
proof -
  have "eras (u_ram_wrapper (ciu_clock M gated e u)) =
      mem_erase_clock (erase_start_i (wrapper_in M e u)) (engn_erase_start_i (wrapper_in M e u)) (eras (u_ram_wrapper u))"
    using clock_on(2) [OF assms(3), of M] by (simp add: sys_clock_def wrap_clock_def Let_def)
  then show ?thesis
    using assms phase_calm [OF assms(1,2)] clock_on(1,4) [OF assms(3), of M]
    by (auto simp: phase_def calm_def mem_erase_clock_def vtag_erase_next_def)
qed

text \<open>The protection unit beside it.\<close>

lemma protection_clock:
  assumes "calm_ext e"
  shows "mpu_checking (ciu_clock M gated e u) = ciu_req_en (ciu_ctrl_in M e u) (u_ciu_ctrl u)"
    "regf_of (ciu_clock M gated e u) = regf_of u"
  using assms by (simp_all add: mpu_checking_def regf_of_def ciu_clock_def en_reg_after regf_after protection_in_def
    calm_ext_def Let_def)

lemma no_violation:
  "\<not> mpu_checking u \<Longrightarrow> mpu_acc_vio (ciu_ctrl_in M e u) = ext_acc_vio_r (u_ciu_ctrl u)"
  by (simp add: mpu_checking_def acc_vio_idle ctrl_in_vio)

lemma violation_after:
  assumes "calm_ext e" "\<not> (ciu_req_we (ciu_ctrl_in M e u) (u_ciu_ctrl u) \<and> ciu_req_xe (ciu_routing (ciu_ctrl_in M e u) (u_ciu_ctrl u)))"
  shows "mpu_acc_vio (ciu_ctrl_in M e' (ciu_clock M gated e u)) \<longleftrightarrow>
    ext_acc_vio_r (u_ciu_ctrl (ciu_clock M gated e u)) \<or>
    ciu_req_en (ciu_ctrl_in M e u) (u_ciu_ctrl u) \<and>
    refused (regf_of u) (mpu_disable (mpu_side e')) (override_nx (mpu_side e'))
      (ciu_req_pm (ciu_routing (ciu_ctrl_in M e u) (u_ciu_ctrl u)))
      (page_sel (push_bit 2 (ucast (ciu_req_addr (ciu_routing (ciu_ctrl_in M e u) (u_ciu_ctrl u))))))
      (if ciu_req_xe (ciu_routing (ciu_ctrl_in M e u) (u_ciu_ctrl u)) then Execute
       else if ciu_req_we (ciu_ctrl_in M e u) (u_ciu_ctrl u) then Write else Read)"
proof -
  have m: "u_mpu_ret (ciu_clock M gated e u) = mpu_clock gated (protection_in M e u) (u_mpu_ret u)"
    by (simp add: ciu_clock_def)
  show ?thesis
    unfolding ctrl_in_vio m using assms
    by (subst acc_vio_after) (simp_all add: protection_in_def calm_ext_def access_of_def regf_of_def Let_def)
qed


section \<open>The memories\<close>

text \<open>What the unit needs of the tag memory: four entries per set, a write changes the enabled ways of the
  addressed set, and the clock after a read of all ways shows the set.\<close>

locale tag_ram =
  fixes tag_clock :: "tag_port \<Rightarrow> 't \<Rightarrow> 't"
    and tag_q :: "'t \<Rightarrow> VTAG_BITS list"
    and tags :: "'t \<Rightarrow> 7 word \<Rightarrow> VTAG_BITS list"
  assumes length_tags: "length (tags t a) = 4"
    and length_tag_q: "length (tag_q t) = 4"
    and tag_write: "length (tag_wen p) = 4 \<Longrightarrow> tags (tag_clock p t) = (tags t)(tag_adr p :=
      map (\<lambda>k. if tag_wen p ! k then tag_di p ! k else tags t (tag_adr p) ! k) [0..<4])"
    and tag_read: "tag_men p = replicate 4 True \<Longrightarrow> tag_wen p = replicate 4 False \<Longrightarrow>
      tag_q (tag_clock p t) = tags t (tag_adr p)"
begin

lemma tag_keep:
  assumes "tag_wen p = replicate 4 False"
  shows "tags (tag_clock p t) = tags t"
proof -
  have "map (\<lambda>k. if tag_wen p ! k then tag_di p ! k else tags t (tag_adr p) ! k) [0..<4] = tags t (tag_adr p)"
    by (rule nth_equalityI) (simp_all add: length_tags assms)
  then show ?thesis using assms by (simp add: tag_write)
qed

end

text \<open>The tag store and the attributes of the pages are the same.\<close>

definition kept :: "('t \<Rightarrow> 7 word \<Rightarrow> VTAG_BITS list) \<Rightarrow> ('m, 't) ciu_unit \<Rightarrow> ('m, 't) ciu_unit \<Rightarrow> bool" where
  "kept tags u u' = (tags (u_tags u') = tags (u_tags u) \<and> u_vtag_ret u' = u_vtag_ret u \<and> regf_of u' = regf_of u)"

lemma kept_trans: "kept tags u v \<Longrightarrow> kept tags v w \<Longrightarrow> kept tags u w"
  by (simp add: kept_def)

section \<open>Requests and replies\<close>

record cpu_req =
  rq_we :: bool
  rq_be :: "4 word"
  rq_addr :: "22 word"
  rq_wdata :: u32
  rq_priv :: bool
  rq_loadstore :: bool

definition ask :: "cpu_req \<Rightarrow> ciu_ext \<Rightarrow> ciu_ext" where
  "ask rq q = q\<lparr>cpu_side := (cpu_side q)\<lparr>cpu_mem_en := True, cpu_mem_we := rq_we rq, cpu_mem_wr_byte_en := rq_be rq,
     cpu_mem_addr := rq_addr rq, cpu_mem_wdata := rq_wdata rq, cpu_mem_priv_mode := rq_priv rq,
     cpu_mem_loadstore := rq_loadstore rq\<rparr>\<rparr>"

text \<open>Writes enable some byte and are no instruction fetches.\<close>

definition rq_ok :: "cpu_req \<Rightarrow> bool" where
  "rq_ok rq = (rq_we rq \<longrightarrow> rq_be rq \<noteq> 0 \<and> rq_loadstore rq)"

definition rq_access :: "cpu_req \<Rightarrow> access" where
  "rq_access rq = (if \<not> rq_loadstore rq then Execute else if rq_we rq then Write else Read)"

definition rq_page :: "cpu_req \<Rightarrow> 12 word" where
  "rq_page rq = page_sel (push_bit 2 (ucast (rq_addr rq)))"

definition rq_allowed :: "(10 word \<Rightarrow> u32) \<Rightarrow> ciu_ext \<Rightarrow> cpu_req \<Rightarrow> bool" where
  "rq_allowed perms q rq = (\<not> refused perms (mpu_disable (mpu_side q)) (override_nx (mpu_side q)) (rq_priv rq)
     (rq_page rq) (rq_access rq))"

text \<open>What the processor sees of an access: data, a violation, an error without a violation, or neither.\<close>

datatype reply = Data u32 | Stored | Refused | Failed

definition reply_of :: "ciu_out list \<Rightarrow> reply" where
  "reply_of os = (case find rdata_vld_out os of Some out \<Rightarrow> Data (rdata_out out)
     | None \<Rightarrow> if list_ex err_accvio_out os then Refused else if list_ex read_err_out os then Failed else Stored)"

definition no_reply :: "ciu_out \<Rightarrow> bool" where
  "no_reply out = (\<not> rdata_vld_out out \<and> \<not> err_accvio_out out \<and> \<not> read_err_out out)"

lemma reply_of_no_reply [simp]: "no_reply out \<Longrightarrow> reply_of (out # os) = reply_of os" "reply_of [] = Stored"
  by (simp_all add: no_reply_def reply_of_def)

lemma ask_simps [simp]:
  "mem_side (ask rq q) = mem_side q" "mpu_side (ask rq q) = mpu_side q" "calm_ext (ask rq q) = calm_ext q"
  "cpu_mem_en (cpu_side (ask rq q))" "cpu_mem_we (cpu_side (ask rq q)) = rq_we rq"
  "cpu_mem_addr (cpu_side (ask rq q)) = rq_addr rq" "cpu_mem_wr_byte_en (cpu_side (ask rq q)) = rq_be rq"
  "cpu_mem_wdata (cpu_side (ask rq q)) = rq_wdata rq" "cpu_mem_priv_mode (cpu_side (ask rq q)) = rq_priv rq"
  "cpu_mem_loadstore (cpu_side (ask rq q)) = rq_loadstore rq"
  "cmu_sinc_state_i (cpu_side (ask rq q)) = cmu_sinc_state_i (cpu_side q)"
  "cmu_mem_we (cpu_side (ask rq q)) = cmu_mem_we (cpu_side q)" "cmu_busy_i (cpu_side (ask rq q)) = cmu_busy_i (cpu_side q)"
  by (simp_all add: ask_def calm_ext_def)

lemma quiet_calm: "quiet_ext q \<Longrightarrow> calm_ext q"
  by (simp add: quiet_defs)

text \<open>The outputs in the states of the machine.\<close>

lemma no_reply_outputs:
  "phase st u \<Longrightarrow> st \<noteq> CIU_WAIT \<Longrightarrow> st \<noteq> CIU_MEM_WRITE \<Longrightarrow> no_reply (ciu_outputs M e u)"
  by (auto simp: phase_def ctl_at_def ciu_wf_def no_reply_def ciu_outputs_def mem_cpu_rdata_vld_def ciu_acc_vio_def
    mem_cpu_read_err_def Let_def)

lemma no_fetch: "phase st u \<Longrightarrow> st \<noteq> CIU_CACHE_MISS \<Longrightarrow> \<not> fetch_req_out (ciu_outputs M e u)"
  by (auto simp: phase_def ctl_at_def ciu_wf_def ciu_outputs_def Let_def)

lemma wait_refused:
  assumes "phase CIU_WAIT u" "mpu_read_vio_r (u_ciu_ctrl u)" "no_reply out"
  shows "reply_of [ciu_outputs M e u, out] = Refused"
  using assms by (auto simp: phase_def ctl_at_iff no_reply_def reply_of_def ciu_outputs_def mem_cpu_rdata_vld_def
    ciu_acc_vio_def Let_def)

lemma wait_data:
  assumes "phase CIU_WAIT u" "mem_cpu_rdata_vld_r (u_ciu_ctrl u)" "quiet_ext e"
    "rdata_valid_o (mem_side e) (u_ram_wrapper u)"
  shows "reply_of (ciu_outputs M e u # os) =
    Data (lane 32 (unat (block_read_sel_r (u_ciu_ctrl u))) (rdata_o (mem_side e) (u_ram_wrapper u)))"
proof -
  have "\<not> mem_erase_busy e u" "\<not> edc_failed (mem_side e) (u_ram_wrapper u)"
    using phase_calm(1) [OF assms(1), of e] assms(3,4) by (simp_all add: quiet_defs calm_in_def rdata_valid_o_def)
  with assms show ?thesis
    by (auto simp: phase_def ctl_at_iff quiet_defs reply_of_def ciu_outputs_def mem_cpu_rdata_vld_def
      mem_cpu_rdata_def mem_cpu_read_err_def error_happened_def cpu_read_upon_accvio_def Let_def)
qed

lemma wait_stored:
  assumes "phase CIU_WAIT u" "quiet_ext e" "\<not> mem_cpu_rdata_vld_r (u_ciu_ctrl u)" "\<not> mpu_read_vio_r (u_ciu_ctrl u)"
    "\<not> vtag_parity_err_r (u_ciu_ctrl u)" "\<not> cmu_fetch_err_r (u_ciu_ctrl u)" "\<not> other_error_r (u_ciu_ctrl u)"
    "\<not> rdata_valid_o (mem_side e) (u_ram_wrapper u)"
  shows "no_reply (ciu_outputs M e u)"
proof -
  have "\<not> mem_erase_busy e u" using phase_calm(1) [OF assms(1), of e] assms(2) by (simp add: quiet_defs calm_in_def)
  with assms show ?thesis
    by (simp add: phase_def ctl_at_iff no_reply_def ciu_outputs_def mem_cpu_rdata_vld_def ciu_acc_vio_def
      mem_cpu_read_err_def Let_def)
qed

text \<open>No access is under way.\<close>

definition unit_rest :: "('m, 't) ciu_unit \<Rightarrow> bool" where
  "unit_rest u = (phase CIU_IDLE u \<and> ready (u_ram_wrapper u) \<and> \<not> mpu_checking u)"

text \<open>Both memories behind the unit.\<close>

locale ciu_memories = ram: sync_ram "m_ram_clock M" "m_ram_q M" cells + tag: tag_ram "m_tag_clock M" "m_tag_q M" tags
  for M :: "('m, 't) macros" and cells :: "'m \<Rightarrow> 14 word \<Rightarrow> 156 word" and tags :: "'t \<Rightarrow> 7 word \<Rightarrow> VTAG_BITS list"
begin

lemma kept_clock:
  assumes "phase st u" "calm_ext e" "\<not> ciu_vtag_update (ciu_ctrl_in M e u) (u_ciu_ctrl u)"
  shows "kept tags u (ciu_clock M gated e u)"
proof (cases "gclk gated e u")
  case True
  have "tag_wen (tag_out M e u) = replicate 4 False"
    using assms(3) phase_calm [OF assms(1,2)] by (simp add: tag_out_def Let_def map_replicate_const)
  with True show ?thesis
    using assms protection_clock(2) [OF assms(2)] phase_calm(4) [OF assms(1,2)] clock_on(3,7) [OF True, of M]
    by (simp add: kept_def tag.tag_keep fifo_clock_def)
next
  case False
  then show ?thesis
    using protection_clock(2) [OF assms(2)] by (simp add: kept_def clock_off)
qed

text \<open>Three clocks with an access of the memory in the first.\<close>

lemma memory_slot:
  assumes "u1 = ciu_clock M gated e0 u" "u2 = ciu_clock M gated e1 u1" "u3 = ciu_clock M gated e2 u2"
    and "gclk gated e0 u" "gclk gated e1 u1" "gclk gated e2 u2"
    and "ready (u_ram_wrapper u)" and f: "\<And>a. near a (cells (u_ram u) a) (f a)"
    and "phase st0 u" "calm_ext e0" "phase st1 u1" "calm_ext e1" "phase st2 u2" "calm_ext e2"
    and "ciu_mem_en (ciu_ctrl_in M e0 u) (u_ciu_ctrl u)" "\<not> ciu_mem_en (ciu_ctrl_in M e1 u1) (u_ciu_ctrl u1)"
    "\<not> ciu_mem_en (ciu_ctrl_in M e2 u2) (u_ciu_ctrl u2)"
    and we: "we = ciu_mem_we (ciu_ctrl_in M e0 u) (u_ciu_ctrl u)"
    and a: "a = ciu_mem_addr (ciu_routing (ciu_ctrl_in M e0 u) (u_ciu_ctrl u))"
    and d: "d = ciu_mem_wdata (ciu_routing (ciu_ctrl_in M e0 u) (u_ciu_ctrl u))"
  shows "ready (u_ram_wrapper u3)" "near b (cells (u_ram u3) b) ((f(a := mod_wdata we d (f a))) b)"
    "we = 0 \<Longrightarrow> rdata_valid_o (mem_side e2) (u_ram_wrapper u2) \<and> rdata_o (mem_side e2) (u_ram_wrapper u2) = f a"
proof -
  note c = phase_calm(2) [OF assms(9,10)] phase_calm(2) [OF assms(11,12)] phase_calm(2) [OF assms(13,14)]
  have 2: "(u_ram_wrapper u2, u_ram u2) = sys_clock (m_ram_clock M) (m_ram_q M) (wrapper_in M e1 u1)
      (sys_clock (m_ram_clock M) (m_ram_q M) (wrapper_in M e0 u) (u_ram_wrapper u, u_ram u))"
    using clock_on(2) [OF assms(4), of M] clock_on(2) [OF assms(5), of M] by (simp add: assms(1,2))
  have 3: "(u_ram_wrapper u3, u_ram u3) = sys_clock (m_ram_clock M) (m_ram_q M) (wrapper_in M e2 u2) (u_ram_wrapper u2, u_ram u2)"
    using clock_on(2) [OF assms(6), of M] by (simp add: assms(3))
  have "\<not> err_chk_disable_i (mem_side e2)" using assms(14) by (simp add: calm_ext_def)
  with ram.slot [where f = f, OF assms(7) f _ c _ _ _ 2 3] assms(15-17)
  show "ready (u_ram_wrapper u3)" "near b (cells (u_ram u3) b) ((f(a := mod_wdata we d (f a))) b)"
    "we = 0 \<Longrightarrow> rdata_valid_o (mem_side e2) (u_ram_wrapper u2) \<and> rdata_o (mem_side e2) (u_ram_wrapper u2) = f a"
    by (auto simp: we a d)
qed

lemma memory_idle:
  assumes "ready (u_ram_wrapper u)" "phase st u" "calm_ext e" "\<not> ciu_mem_en (ciu_ctrl_in M e u) (u_ciu_ctrl u)"
  shows "ready (u_ram_wrapper (ciu_clock M gated e u))"
    "cells (u_ram (ciu_clock M gated e u)) = cells (u_ram u)"
proof -
  have "ready (u_ram_wrapper (ciu_clock M gated e u)) \<and>
      cells (u_ram (ciu_clock M gated e u)) = cells (u_ram u)"
  proof (cases "gclk gated e u")
    case True
    with ram.idle_clock [OF assms(1) _ phase_calm(2) [OF assms(2,3)] clock_on(2) [OF True]] assms(4) show ?thesis by simp
  qed (simp add: assms(1) clock_off)
  then show "ready (u_ram_wrapper (ciu_clock M gated e u))"
    "cells (u_ram (ciu_clock M gated e u)) = cells (u_ram u)" by auto
qed


lemma rest_clock:
  assumes "unit_rest u" "quiet_ext q"
  shows "unit_rest (ciu_clock M gated q u)" "kept tags u (ciu_clock M gated q u)"
    "cells (u_ram (ciu_clock M gated q u)) = cells (u_ram u)"
proof -
  have p: "phase CIU_IDLE u" and w: "ready (u_ram_wrapper u)" using assms(1) by (simp_all add: unit_rest_def)
  have c: "ctl_at CIU_IDLE (u_ciu_ctrl u)" using p by (simp add: phase_def)
  note i = ctl_idle [OF c phase_still [OF p assms(2)]]
  note q = quiet_calm [OF assms(2)]
  have "phase CIU_IDLE (ciu_clock M gated q u)"
  proof (cases "gclk gated q u")
    case True
    show ?thesis by (rule phase_clock [OF p q True i(1)])
  qed (use p in \<open>simp add: phase_def clock_off\<close>)
  then show "unit_rest (ciu_clock M gated q u)" "kept tags u (ciu_clock M gated q u)"
    "cells (u_ram (ciu_clock M gated q u)) = cells (u_ram u)"
    using memory_idle [OF w p q i(2)] kept_clock [OF p q i(4)] protection_clock(1) [OF q, of M gated u] i(3) [of M]
    by (simp_all add: unit_rest_def)
qed

lemma start_read:
  assumes "unit_rest u" "quiet_ext q" "cmu_sinc_state_i (cpu_side q) \<noteq> CACHE_FAILED" "\<not> rq_we rq"
    and u1: "u1 = ciu_clock M gated (ask rq q) u"
  shows "phase CIU_MEM_READ u1" "cpu_mem_addr_r (u_ciu_ctrl u1) = rq_addr rq" "\<not> ext_acc_vio_r (u_ciu_ctrl u1)"
    "\<not> other_error_r (u_ciu_ctrl u1)" "kept tags u u1" "gclk gated (ask rq q) u"
    "mpu_acc_vio (ciu_ctrl_in M q u1) \<longleftrightarrow> \<not> rq_allowed (regf_of u) q rq" "no_reply (ciu_outputs M (ask rq q) u)"
    "ciu_mem_en (ciu_ctrl_in M (ask rq q) u) (u_ciu_ctrl u)" "ciu_mem_we (ciu_ctrl_in M (ask rq q) u) (u_ciu_ctrl u) = 0"
    "ciu_mem_addr (ciu_routing (ciu_ctrl_in M (ask rq q) u) (u_ciu_ctrl u)) =
      (if cmu_sinc_state_i (cpu_side q) = CACHE_ACTIVE then line_low else line_high) (rq_addr rq)"
proof -
  have p: "phase CIU_IDLE u" and m: "\<not> mpu_checking u" using assms(1) by (simp_all add: unit_rest_def)
  have q: "calm_ext (ask rq q)" using assms(2) by (simp add: quiet_defs)
  have c: "ctl_at CIU_IDLE (u_ciu_ctrl u)" using p by (simp add: phase_def)
  have b: "\<not> cmu_busy_i (cpu_side q)" using assms(2) by (simp add: quiet_ext_def)
  note r = ctl_read [OF c phase_calm(1) [OF p q], of M]
  show g: "gclk gated (ask rq q) u" by (rule phase_gclk [OF p]) simp
  show "phase CIU_MEM_READ u1" unfolding u1 by (rule phase_clock [OF p q g r(1)]) (use assms b in simp_all)
  show "cpu_mem_addr_r (u_ciu_ctrl u1) = rq_addr rq" "\<not> other_error_r (u_ciu_ctrl u1)"
    "ciu_mem_en (ciu_ctrl_in M (ask rq q) u) (u_ciu_ctrl u)" "ciu_mem_we (ciu_ctrl_in M (ask rq q) u) (u_ciu_ctrl u) = 0"
    and e: "\<not> ext_acc_vio_r (u_ciu_ctrl u1)"
    using r assms b by (simp_all add: clock_on(1) [OF g])
  show "kept tags u u1" unfolding u1 by (rule kept_clock [OF p q r(9)]) (use assms b in simp_all)
  show "no_reply (ciu_outputs M (ask rq q) u)" by (rule no_reply_outputs [OF p]) simp_all
  show "ciu_mem_addr (ciu_routing (ciu_ctrl_in M (ask rq q) u) (u_ciu_ctrl u)) =
      (if cmu_sinc_state_i (cpu_side q) = CACHE_ACTIVE then line_low else line_high) (rq_addr rq)"
    using r(12) assms b by (simp add: cache_active_mode_def)
  show "mpu_acc_vio (ciu_ctrl_in M q u1) \<longleftrightarrow> \<not> rq_allowed (regf_of u) q rq"
    unfolding u1 using e r(7,8,12) assms m b
    by (subst violation_after [OF q]) (simp_all add: rq_allowed_def rq_page_def rq_access_def)
qed

lemma refuse_read:
  assumes "phase CIU_MEM_READ u" "quiet_ext q" "mpu_acc_vio (ciu_ctrl_in M q u)" and u1: "u1 = ciu_clock M gated q u"
  shows "phase CIU_WAIT u1" "mpu_read_vio_r (u_ciu_ctrl u1)" "kept tags u u1" "gclk gated q u"
    "no_reply (ciu_outputs M q u)" "\<not> ciu_mem_en (ciu_ctrl_in M q u) (u_ciu_ctrl u)" "\<not> mpu_checking u1"
proof -
  have c: "ctl_at CIU_MEM_READ (u_ciu_ctrl u)" using assms(1) by (simp add: phase_def)
  note q = quiet_calm [OF assms(2)] and r = ctl_refused_read [OF c phase_still [OF assms(1,2)] assms(3)]
  show g: "gclk gated q u" by (rule phase_gclk [OF assms(1)]) simp
  show "phase CIU_WAIT u1" unfolding u1 by (rule phase_clock [OF assms(1) q g r(1)])
  show "kept tags u u1" unfolding u1 by (rule kept_clock [OF assms(1) q r(6)])
  show "no_reply (ciu_outputs M q u)" by (rule no_reply_outputs [OF assms(1)]) simp_all
  show "mpu_read_vio_r (u_ciu_ctrl u1)" "\<not> ciu_mem_en (ciu_ctrl_in M q u) (u_ciu_ctrl u)" "\<not> mpu_checking u1"
    using r protection_clock(1) [OF q, of M gated u] by (simp_all add: u1 clock_on(1) [OF g])
qed

lemma end_access:
  assumes "phase CIU_WAIT u" "quiet_ext q" and u1: "u1 = ciu_clock M gated q u"
  shows "phase CIU_IDLE u1" "kept tags u u1" "gclk gated q u" "\<not> ciu_mem_en (ciu_ctrl_in M q u) (u_ciu_ctrl u)"
    "\<not> mpu_checking u1"
proof -
  have c: "ctl_at CIU_WAIT (u_ciu_ctrl u)" using assms(1) by (simp add: phase_def)
  note q = quiet_calm [OF assms(2)] and r = ctl_end [OF c phase_still [OF assms(1,2)]]
  show g: "gclk gated q u" by (rule phase_gclk [OF assms(1)]) simp
  show "phase CIU_IDLE u1" unfolding u1 by (rule phase_clock [OF assms(1) q g r(1)])
  show "kept tags u u1" unfolding u1 by (rule kept_clock [OF assms(1) q r(4)])
  show "\<not> ciu_mem_en (ciu_ctrl_in M q u) (u_ciu_ctrl u)" "\<not> mpu_checking u1"
    using r protection_clock(1) [OF q, of M gated u] by (simp_all add: u1)
qed

text \<open>A write that is refused, by the attributes of its page or because no memory serves it.\<close>

lemma refuse_write:
  assumes "phase CIU_MEM_WRITE u" "quiet_ext q" "mpu_acc_vio (ciu_ctrl_in M q u)" "ready (u_ram_wrapper u)"
    and u1: "u1 = ciu_clock M gated q u"
  shows "unit_rest u1" "kept tags u u1" "cells (u_ram u1) = cells (u_ram u)"
    "no_reply o1 \<Longrightarrow> no_reply o2 \<Longrightarrow> reply_of [ciu_outputs M q u, o1, o2] = Refused"
proof -
  have c: "ctl_at CIU_MEM_WRITE (u_ciu_ctrl u)" using assms(1) by (simp add: phase_def)
  note q = quiet_calm [OF assms(2)] and r = ctl_refused_write [OF c phase_still [OF assms(1,2)] assms(3)]
  have g: "gclk gated q u" by (rule phase_gclk [OF assms(1)]) simp
  have "phase CIU_IDLE u1" unfolding u1 by (rule phase_clock [OF assms(1) q g r(1)])
  then show "unit_rest u1" "cells (u_ram u1) = cells (u_ram u)"
    using memory_idle [OF assms(4,1) q r(2), of gated] protection_clock(1) [OF q, of M gated u] r(3)
    by (simp_all add: unit_rest_def u1)
  show "kept tags u u1" unfolding u1 by (rule kept_clock [OF assms(1) q r(4)])
  show "no_reply o1 \<Longrightarrow> no_reply o2 \<Longrightarrow> reply_of [ciu_outputs M q u, o1, o2] = Refused"
    using c assms(3) by (simp add: ctl_at_iff no_reply_def reply_of_def ciu_outputs_def mem_cpu_rdata_vld_def
      ciu_acc_vio_def Let_def)
qed

lemma rest_twice:
  assumes "unit_rest u" "quiet_ext q" and "ciu_run M gated [q, q] u = (os, u')"
  shows "unit_rest u'" "kept tags u u'" "cells (u_ram u') = cells (u_ram u)" "list_all no_reply os"
proof -
  note i = rest_clock [OF assms(1,2), of gated]
  note j = rest_clock [OF i(1) assms(2), of gated]
  have u': "u' = ciu_clock M gated q (ciu_clock M gated q u)" using assms(3) by simp
  show "unit_rest u'" "cells (u_ram u') = cells (u_ram u)" using i j by (simp_all add: u')
  show "kept tags u u'" using kept_trans [OF i(2) j(2)] by (simp add: u')
  show "list_all no_reply os"
    using assms(1,3) i(1) by (auto simp: unit_rest_def no_reply_outputs [of CIU_IDLE])
qed

lemma forbidden_slot:
  assumes "unit_rest u" "quiet_ext q" "rq_ok rq"
    "cmu_sinc_state_i (cpu_side q) = CACHE_FAILED \<or> cmu_sinc_state_i (cpu_side q) = CACHE_ACTIVE \<and> rq_we rq"
    and run: "ciu_run M gated [ask rq q, q, q, q] u = (os, u')"
  shows "unit_rest u'" "kept tags u u'" "cells (u_ram u') = cells (u_ram u)" "reply_of os = Refused"
    "\<not> fetch_req_out (os ! 2)"
proof -
  define u1 where "u1 = ciu_clock M gated (ask rq q) u"
  define u2 where "u2 = ciu_clock M gated q u1"
  obtain o2 o3 where r2: "ciu_run M gated [q, q] u2 = ([o2, o3], u')"
    and os: "os = [ciu_outputs M (ask rq q) u, ciu_outputs M q u1, o2, o3]"
    using run by (simp add: u1_def u2_def)
  have p: "phase CIU_IDLE u" and rdy: "ready (u_ram_wrapper u)" using assms(1) by (simp_all add: unit_rest_def)
  have q: "calm_ext q" "calm_ext (ask rq q)" using assms(2) by (simp_all add: quiet_defs)
  have c: "ctl_at CIU_IDLE (u_ciu_ctrl u)" using p by (simp add: phase_def)
  let ?i = "ciu_ctrl_in M (ask rq q) u"
  have i: "cpu_mem_en ?i" "valid_cpu_mem_we ?i \<or> \<not> cpu_mem_we ?i" "\<not> cmu_mem_we ?i"
    "cmu_sinc_state_i ?i = CACHE_FAILED \<or> cmu_sinc_state_i ?i = CACHE_ACTIVE \<and> cpu_mem_we ?i"
    using assms(2-4) by (auto simp: valid_cpu_mem_we_def rq_ok_def quiet_defs)
  note r = ctl_forbidden [OF c phase_calm(1) [OF p q(2)] i]
  have g: "gclk gated (ask rq q) u" by (rule phase_gclk [OF p]) simp
  have p1: "phase (if rq_we rq then CIU_MEM_WRITE else CIU_MEM_READ) u1"
    unfolding u1_def by (rule phase_clock [OF p q(2) g]) (use r(1) in simp)
  have k1: "kept tags u u1" unfolding u1_def by (rule kept_clock [OF p q(2) r(4)])
  have m1: "ready (u_ram_wrapper u1)" "cells (u_ram u1) = cells (u_ram u)"
    unfolding u1_def by (rule memory_idle [OF rdy p q(2) r(3)])+
  have v: "mpu_acc_vio (ciu_ctrl_in M q u1)"
    using r(2) by (simp add: u1_def ctrl_in_vio acc_vio_def clock_on(1) [OF g])
  have s0: "no_reply (ciu_outputs M (ask rq q) u)" by (rule no_reply_outputs [OF p]) simp_all
  have o2: "o2 = ciu_outputs M q u2" using r2 by simp
  have "unit_rest u' \<and> kept tags u u' \<and> cells (u_ram u') = cells (u_ram u) \<and> reply_of os = Refused \<and> \<not> fetch_req_out (os ! 2)"
  proof (cases "rq_we rq")
    case True
    with p1 have p1': "phase CIU_MEM_WRITE u1" by simp
    note w = refuse_write [OF p1' assms(2) v m1(1) u2_def]
    note z = rest_twice [OF w(1) assms(2) r2]
    have "phase CIU_IDLE u2" using w(1) by (simp add: unit_rest_def)
    with no_fetch [OF this] z w m1 s0 kept_trans [OF kept_trans [OF k1 w(2)] z(2)] show ?thesis by (simp add: os o2)
  next
    case False
    with p1 have p1': "phase CIU_MEM_READ u1" by simp
    note w = refuse_read [OF p1' assms(2) v u2_def]
    define u3 where "u3 = ciu_clock M gated q u2"
    note z = end_access [OF w(1) assms(2) u3_def]
    have m2: "ready (u_ram_wrapper u2)" "cells (u_ram u2) = cells (u_ram u1)"
      unfolding u2_def by (rule memory_idle [OF m1(1) p1' q(1) w(6)])+
    have m3: "ready (u_ram_wrapper u3)" "cells (u_ram u3) = cells (u_ram u2)"
      unfolding u3_def by (rule memory_idle [OF m2(1) w(1) q(1) z(4)])+
    have "unit_rest u3" using z m3 by (simp add: unit_rest_def)
    note e = rest_clock [OF this assms(2), of gated]
    have o: "o2 = ciu_outputs M q u2" "o3 = ciu_outputs M q u3" "u' = ciu_clock M gated q u3"
      using r2 by (simp_all add: u3_def)
    have "no_reply o3" unfolding o by (rule no_reply_outputs [OF z(1)]) simp_all
    with wait_refused [OF w(1,2)] no_fetch [OF w(1)] e m1 m2 m3 s0 w(5) kept_trans [OF kept_trans [OF k1 w(3)] kept_trans [OF z(2) e(2)]]
    show ?thesis by (simp add: os o)
  qed
  then show "unit_rest u'" "kept tags u u'" "cells (u_ram u') = cells (u_ram u)" "reply_of os = Refused"
    "\<not> fetch_req_out (os ! 2)" by auto
qed

end

section \<open>Memory macros\<close>

text \<open>Macros that meet the requirements together: the memory of \<open>RamWrapper\<close> and a tag memory with an output
  register per way.\<close>

type_synonym simple_tags = "(7 word \<Rightarrow> nat \<Rightarrow> VTAG_BITS) \<times> (nat \<Rightarrow> VTAG_BITS)"

definition simple_tag_clock :: "tag_port \<Rightarrow> simple_tags \<Rightarrow> simple_tags" where
  "simple_tag_clock p t = (case t of (e, q) \<Rightarrow>
     (e(tag_adr p := (\<lambda>k. if tag_wen p ! k then tag_di p ! k else e (tag_adr p) k)),
      \<lambda>k. if tag_men p ! k \<and> \<not> tag_wen p ! k then e (tag_adr p) k else q k))"

definition simple_tag_q :: "simple_tags \<Rightarrow> VTAG_BITS list" where
  "simple_tag_q t = map (snd t) [0..<4]"

definition simple_tag_rows :: "simple_tags \<Rightarrow> 7 word \<Rightarrow> VTAG_BITS list" where
  "simple_tag_rows t a = map (fst t a) [0..<4]"

definition simple_macros :: "((14 word \<Rightarrow> 156 word) \<times> 156 word, simple_tags) macros" where
  "simple_macros = \<lparr>m_ram_clock = simple_clock, m_ram_q = snd, m_tag_clock = simple_tag_clock, m_tag_q = simple_tag_q\<rparr>"

interpretation simple_unit: ciu_memories simple_macros fst simple_tag_rows
  by unfold_locales (auto simp: simple_macros_def simple_clock_def simple_tag_clock_def simple_tag_q_def
    simple_tag_rows_def fun_eq_iff split: prod.splits)

text \<open>The unit after reset, with an intact memory of zeros and an erased tag memory, and inputs at rest.\<close>

definition ciu_unit_reset :: "((14 word \<Rightarrow> 156 word) \<times> 156 word, simple_tags) ciu_unit" where
  "ciu_unit_reset = \<lparr>u_ciu_ctrl = ciu_ctrl_reset, u_ram_wrapper = wrap_reset, u_ram = (\<lambda>a. encode_line a 0, 0),
     u_tags = (\<lambda>_ _. erased_entry, \<lambda>_. erased_entry),
     u_vtag_erase = \<lparr>vtag_sm_r = VTAG_ERASE_IDLE, vtag_erase_addr_r = 0\<rparr>, ciu_vtag_comp_r = False, cache_tag_r = 0,
     u_vtag_ret = (\<lambda>_. 0), u_mpu_ret = mpu_reset, ciu_clock_waken_r = False, mem_init_active_r = False,
     mem_inject_active_r = False, cmu_sinc_reset_active_r = False\<rparr>"

definition ciu_ext_quiet :: "u8 \<Rightarrow> ciu_ext" where
  "ciu_ext_quiet st = \<lparr>cpu_side = ciu_quiet st, mem_side = idle_in, mpu_side = no_request, cmu_sinc_reset_i = False,
     cmu_sinc_reinit_i = False\<rparr>"

lemma ciu_unit_reset_rest: "unit_rest ciu_unit_reset"
  by (simp add: unit_rest_def phase_def ctl_at_iff ctl_free_def ciu_unit_reset_def ciu_ctrl_reset_def wrap_reset_def ready_def
    mpu_checking_def mpu_reset_def mpu_soft_reset_def)

lemma ciu_ext_quiet_facts [simp]:
  "quiet_ext (ciu_ext_quiet st)" "cmu_sinc_state_i (cpu_side (ciu_ext_quiet st)) = st"
  "mpu_side (ciu_ext_quiet st) = no_request"
  by (simp_all add: quiet_defs calm_ext_def ciu_ext_quiet_def ciu_quiet_def idle_in_def no_request_def)

lemma ciu_unit_reset_facts:
  "near a (fst (u_ram ciu_unit_reset) a) 0" "regf_of ciu_unit_reset = (\<lambda>_. ATTRIB_RESET)"
  by (simp_all add: ciu_unit_reset_def near_encode regf_of_def mpu_reset_def mpu_soft_reset_def)

definition load :: "22 word \<Rightarrow> cpu_req" where
  "load a = \<lparr>rq_we = False, rq_be = 0, rq_addr = a, rq_wdata = 0, rq_priv = False, rq_loadstore = True\<rparr>"

definition store :: "22 word \<Rightarrow> u32 \<Rightarrow> cpu_req" where
  "store a w = \<lparr>rq_we = True, rq_be = 3, rq_addr = a, rq_wdata = w, rq_priv = False, rq_loadstore = True\<rparr>"

end
