(* ===== verification/CiuMemory.thy ===== *)
theory CiuMemory
  imports CiuTop
begin

text \<open>
  The cache interface unit while the cache is not active (disabled, initialization, failed): a protected
  memory of words. The specification is \<open>word_mem_run\<close>; the unit is run for four clocks per request.
\<close>

section \<open>Words in lines\<close>

definition merge_bytes :: "4 word \<Rightarrow> u32 \<Rightarrow> u32 \<Rightarrow> u32" where
  "merge_bytes be w old = cat_bits (map (\<lambda>n. if bit be (n div 8) then bit w n else bit old n) [0..<32])"

lemma merge_bytes_all [simp]: "merge_bytes (- 1) w old = w"
  by (rule bit_word_eqI) (simp add: merge_bytes_def bit_cat_bits div_less_iff_less_mult)

lemma unat_2_less: "unat (w :: 2 word) < 4"
  using unsigned_less [of w] by simp

lemma lane_mod_wdata:
  assumes "j < 4"
  shows "lane 32 j (mod_wdata (lane_enables sel be) (four_times w) x) =
    (if j = unat sel then merge_bytes be w (lane 32 j x) else lane 32 j x :: u32)"
proof (rule bit_word_eqI)
  fix n assume n: "n < LENGTH(32)"
  have d: "(32 * j + n) div 8 = 4 * j + n div 8" "(32 * j + n) div 32 = j" "n div 8 < 4" "32 * j + n < 128"
    using n assms by auto
  have "bit (lane_enables sel be) (4 * j + n div 8) \<longleftrightarrow> j = unat sel \<and> bit be (n div 8)"
    using d(3) assms unat_2_less [of sel]
    by (cases "j = unat sel") (auto simp: lane_enables_def bit_simps dest!: bit_imp_le_length)
  with n d show "bit (lane 32 j (mod_wdata (lane_enables sel be) (four_times w) x) :: u32) n =
      bit (if j = unat sel then merge_bytes be w (lane 32 j x) else lane 32 j x :: u32) n"
    by (simp add: bit_lane mod_wdata_def bit_cat_bits four_times_def bit_join_lanes merge_bytes_def)
qed

lemma lane_enables_nonzero:
  assumes "be \<noteq> 0"
  shows "lane_enables sel be \<noteq> 0"
proof -
  from assms obtain n where n: "bit be n" by (metis bit_eqI bit_0_eq bot_apply bot_bool_def)
  then have "n < 4" by (auto dest: bit_imp_le_length)
  with n have "bit (lane_enables sel be) (4 * unat sel + n)"
    using unat_2_less [of sel] by (simp add: lane_enables_def bit_simps)
  then show ?thesis by auto
qed

lemma write_is_no_read: "ready s \<Longrightarrow> en_i i \<Longrightarrow> we_i i \<noteq> 0 \<Longrightarrow> \<not> non_rmw_rd_q (wrap_clock i qi s)"
  by (simp add: wrap_defs ready_def)

section \<open>Specification without the cache\<close>

text \<open>While the cache is not active, the cache memory is a memory of words, addressed by the low 16 bits of
  the address of the request.\<close>

definition word_mem_step :: "(10 word \<Rightarrow> u32) \<Rightarrow> ciu_ext \<Rightarrow> cpu_req \<Rightarrow> (16 word \<Rightarrow> u32) \<Rightarrow> reply \<times> (16 word \<Rightarrow> u32)" where
  "word_mem_step perms q rq g =
    (let x = ucast (rq_addr rq) in
     if cmu_sinc_state_i (cpu_side q) = CACHE_FAILED \<or> \<not> rq_allowed perms q rq then (Refused, g)
     else if rq_we rq then (Stored, g(x := merge_bytes (rq_be rq) (rq_wdata rq) (g x)))
     else (Data (g x), g))"

primrec word_mem_run ::
  "(10 word \<Rightarrow> u32) \<Rightarrow> ciu_ext \<Rightarrow> cpu_req list \<Rightarrow> (16 word \<Rightarrow> u32) \<Rightarrow> reply list \<times> (16 word \<Rightarrow> u32)" where
  "word_mem_run perms q [] g = ([], g)"
| "word_mem_run perms q (rq # rqs) g =
    (let (a, g1) = word_mem_step perms q rq g; (as, g2) = word_mem_run perms q rqs g1 in (a # as, g2))"

text \<open>The unit serves a request in four clocks.\<close>

primrec access_run ::
  "('m, 't) macros \<Rightarrow> bool \<Rightarrow> ciu_ext \<Rightarrow> cpu_req list \<Rightarrow> ('m, 't) ciu_unit \<Rightarrow> reply list \<times> ('m, 't) ciu_unit" where
  "access_run M gated q [] u = ([], u)"
| "access_run M gated q (rq # rqs) u =
    (let (os, u1) = ciu_run M gated [ask rq q, q, q, q] u; (as, u2) = access_run M gated q rqs u1
     in (reply_of os # as, u2))"

text \<open>The lines of the memory are intact up to one bit per word, and hold the words of \<open>g\<close>.\<close>

definition holds_words :: "('m \<Rightarrow> 14 word \<Rightarrow> 156 word) \<Rightarrow> ('m, 't) ciu_unit \<Rightarrow> (16 word \<Rightarrow> u32) \<Rightarrow> bool" where
  "holds_words cells u g = (\<exists>f. (\<forall>a. near a (cells (u_ram u) a) (f a)) \<and>
     (\<forall>x. lane 32 (unat (ucast x :: 2 word)) (f (ucast (drop_bit 2 x))) = g x))"

lemma split_word_addr:
  "ucast (ucast a :: 16 word) = (ucast (a :: 22 word) :: 2 word)"
  "ucast (drop_bit 2 (ucast a :: 16 word)) = line_high a"
  by (auto intro!: bit_word_eqI simp: line_high_def bit_simps)

lemma word_addr_eq:
  fixes x y :: "16 word"
  assumes "(ucast (drop_bit 2 x) :: 14 word) = ucast (drop_bit 2 y)" "(ucast x :: 2 word) = ucast y"
  shows "x = y"
proof (rule bit_word_eqI)
  fix n assume n: "n < LENGTH(16)"
  show "bit x n = bit y n"
  proof (cases "n < 2")
    case True
    then show ?thesis using arg_cong [OF assms(2), of "\<lambda>w. bit w n"] by (simp add: bit_simps)
  next
    case False
    then obtain m where "n = Suc (Suc m)" by (metis One_nat_def Suc_1 add_2_eq_Suc le_Suc_ex not_less)
    with n show ?thesis
      using arg_cong [OF assms(1), of "\<lambda>w. bit w m"] by (simp add: bit_simps)
  qed
qed

lemma holds_words_write:
  fixes g :: "16 word \<Rightarrow> u32" and a :: "22 word"
  assumes "\<And>x. lane 32 (unat (ucast x :: 2 word)) (f (ucast (drop_bit 2 x))) = g x"
  shows "lane 32 (unat (ucast x :: 2 word))
      ((f(line_high a := mod_wdata (lane_enables (ucast a) be) (four_times w) (f (line_high a)))) (ucast (drop_bit 2 x))) =
    (g(ucast a := merge_bytes be w (g (ucast a)))) x"
proof (cases "ucast (drop_bit 2 x) = line_high a")
  case True
  then have "x = ucast a \<longleftrightarrow> (ucast x :: 2 word) = ucast a"
    using word_addr_eq [of x "ucast a"] by (auto simp: split_word_addr)
  then show ?thesis
    using True assms [of x] assms [of "ucast a"] word_unat_eq_iff [of "ucast x :: 2 word" "ucast a"]
    by (auto simp: split_word_addr lane_mod_wdata [OF unat_2_less])
next
  case False
  then have "x \<noteq> ucast a" by (auto simp: split_word_addr)
  with False assms [of x] show ?thesis by simp
qed

context ciu_memories
begin

lemma memory_read:
  assumes "phase CIU_MEM_READ u" "quiet_ext q" "\<not> mpu_acc_vio (ciu_ctrl_in M q u)" "\<not> ext_acc_vio_r (u_ciu_ctrl u)"
    "\<not> other_error_r (u_ciu_ctrl u)" "cmu_sinc_state_i (cpu_side q) \<noteq> CACHE_FAILED"
    "cmu_sinc_state_i (cpu_side q) \<noteq> CACHE_ACTIVE" and u1: "u1 = ciu_clock M gated q u"
  shows "phase CIU_WAIT u1" "mem_cpu_rdata_vld_r (u_ciu_ctrl u1)"
    "block_read_sel_r (u_ciu_ctrl u1) = ucast (cpu_mem_addr_r (u_ciu_ctrl u))" "kept tags u u1" "gclk gated q u"
    "no_reply (ciu_outputs M q u)" "\<not> ciu_mem_en (ciu_ctrl_in M q u) (u_ciu_ctrl u)"
proof -
  have c: "ctl_at CIU_MEM_READ (u_ciu_ctrl u)" using assms(1) by (simp add: phase_def)
  note q = quiet_calm [OF assms(2)]
  note r = ctl_memory_read [OF c phase_still [OF assms(1,2)] assms(3-5)]
  show g: "gclk gated q u" by (rule phase_gclk [OF assms(1)]) simp
  show "phase CIU_WAIT u1" unfolding u1 by (rule phase_clock [OF assms(1) q g r(1)]) (simp_all add: assms(6,7))
  show "kept tags u u1" unfolding u1 by (rule kept_clock [OF assms(1) q r(6)]) (simp_all add: assms(6,7))
  show "no_reply (ciu_outputs M q u)" by (rule no_reply_outputs [OF assms(1)]) simp_all
  show "mem_cpu_rdata_vld_r (u_ciu_ctrl u1)" "\<not> ciu_mem_en (ciu_ctrl_in M q u) (u_ciu_ctrl u)"
    "block_read_sel_r (u_ciu_ctrl u1) = ucast (cpu_mem_addr_r (u_ciu_ctrl u))"
    using r assms(6,7) by (simp_all add: u1 clock_on(1) [OF g])
qed

lemma read_slot:
  assumes "unit_rest u" "quiet_ext q" "cmu_sinc_state_i (cpu_side q) \<noteq> CACHE_FAILED"
    "cmu_sinc_state_i (cpu_side q) \<noteq> CACHE_ACTIVE" "\<not> rq_we rq"
    and f: "\<And>a. near a (cells (u_ram u) a) (f a)"
    and run: "ciu_run M gated [ask rq q, q, q, q] u = (os, u')"
  shows "unit_rest u'" "kept tags u u'" "near b (cells (u_ram u') b) (f b)"
    "reply_of os = (if rq_allowed (regf_of u) q rq
       then Data (lane 32 (unat (ucast (rq_addr rq) :: 2 word)) (f (line_high (rq_addr rq)))) else Refused)"
proof -
  define u1 where "u1 = ciu_clock M gated (ask rq q) u"
  define u2 where "u2 = ciu_clock M gated q u1"
  define u3 where "u3 = ciu_clock M gated q u2"
  have os: "os = [ciu_outputs M (ask rq q) u, ciu_outputs M q u1, ciu_outputs M q u2, ciu_outputs M q u3]"
    and u': "u' = ciu_clock M gated q u3"
    using run by (simp_all add: u1_def u2_def u3_def)
  note a = start_read [OF assms(1-3,5) u1_def]
  have w: "phase CIU_WAIT u2" "kept tags u1 u2" "gclk gated q u1" "no_reply (ciu_outputs M q u1)"
    "\<not> ciu_mem_en (ciu_ctrl_in M q u1) (u_ciu_ctrl u1)"
    "rq_allowed (regf_of u) q rq \<Longrightarrow> mem_cpu_rdata_vld_r (u_ciu_ctrl u2) \<and> block_read_sel_r (u_ciu_ctrl u2) = ucast (rq_addr rq)"
    "\<not> rq_allowed (regf_of u) q rq \<Longrightarrow> mpu_read_vio_r (u_ciu_ctrl u2)"
    using refuse_read [OF a(1) assms(2) _ u2_def] memory_read [OF a(1) assms(2) _ a(3,4) assms(3,4) u2_def] a(2,7)
    by (cases "rq_allowed (regf_of u) q rq"; simp)+
  note z = end_access [OF w(1) assms(2) u3_def]
  have rdy: "ready (u_ram_wrapper u)" "phase CIU_IDLE u" using assms(1) by (simp_all add: unit_rest_def)
  have q: "calm_ext q" "calm_ext (ask rq q)" using assms(2) by (simp_all add: quiet_defs)
  note m = memory_slot [OF u1_def u2_def u3_def a(6) w(3) z(3) rdy(1) f rdy(2) q(2) a(1) q(1) w(1) q(1) a(9) w(5) z(4)
    refl refl refl, unfolded a(10,11)]
  have "unit_rest u3" using z m(1) by (simp add: unit_rest_def)
  note i = rest_clock [OF this assms(2)]
  show "unit_rest u'" "kept tags u u'" "near b (cells (u_ram u') b) (f b)"
    using i m(2) [of b] kept_trans [OF kept_trans [OF a(5) w(2)] kept_trans [OF z(2) i(2)]] assms(4)
    by (simp_all add: u')
  have "no_reply (ciu_outputs M q u3)" by (rule no_reply_outputs [OF z(1)]) simp_all
  then show "reply_of os = (if rq_allowed (regf_of u) q rq
       then Data (lane 32 (unat (ucast (rq_addr rq) :: 2 word)) (f (line_high (rq_addr rq)))) else Refused)"
    using wait_refused [OF w(1)] wait_data [OF w(1) _ assms(2)] w(6,7) m(3) a(8) w(4) assms(4) by (simp add: os)
qed

lemma start_write:
  assumes "unit_rest u" "quiet_ext q" "cmu_sinc_state_i (cpu_side q) \<noteq> CACHE_FAILED"
    "cmu_sinc_state_i (cpu_side q) \<noteq> CACHE_ACTIVE" "rq_we rq" "rq_ok rq"
    and u1: "u1 = ciu_clock M gated (ask rq q) u"
  shows "phase CIU_MEM_WRITE u1" "cpu_mem_addr_r (u_ciu_ctrl u1) = rq_addr rq"
    "cpu_mem_wr_byte_en_r (u_ciu_ctrl u1) = rq_be rq" "cpu_mem_wdata_r (u_ciu_ctrl u1) = rq_wdata rq"
    "ciu_mem_write_r (u_ciu_ctrl u1)" "\<not> ext_acc_vio_r (u_ciu_ctrl u1)" "\<not> other_error_r (u_ciu_ctrl u1)"
    "kept tags u u1" "mpu_acc_vio (ciu_ctrl_in M q u1) \<longleftrightarrow> \<not> rq_allowed (regf_of u) q rq"
    "no_reply (ciu_outputs M (ask rq q) u)" "ready (u_ram_wrapper u1)" "cells (u_ram u1) = cells (u_ram u)"
proof -
  have p: "phase CIU_IDLE u" and m: "\<not> mpu_checking u" and rdy: "ready (u_ram_wrapper u)"
    using assms(1) by (simp_all add: unit_rest_def)
  have q: "calm_ext (ask rq q)" using assms(2) by (simp add: quiet_defs)
  have c: "ctl_at CIU_IDLE (u_ciu_ctrl u)" using p by (simp add: phase_def)
  have v: "valid_cpu_mem_we (ciu_ctrl_in M (ask rq q) u)" using assms(5,6) by (simp add: valid_cpu_mem_we_def rq_ok_def)
  have st: "cmu_sinc_state_i (ciu_ctrl_in M (ask rq q) u) \<noteq> CACHE_FAILED"
    "cmu_sinc_state_i (ciu_ctrl_in M (ask rq q) u) \<noteq> CACHE_ACTIVE" "cpu_mem_en (ciu_ctrl_in M (ask rq q) u)"
    and b: "\<not> cmu_busy_i (ciu_ctrl_in M (ask rq q) u)"
    using assms(2-4) by (simp_all add: quiet_ext_def)
  note r = ctl_write [OF c phase_calm(1) [OF p q] st v b]
  have g: "gclk gated (ask rq q) u" by (rule phase_gclk [OF p]) simp
  show "phase CIU_MEM_WRITE u1" unfolding u1 by (rule phase_clock [OF p q g r(1)])
  show "cpu_mem_addr_r (u_ciu_ctrl u1) = rq_addr rq" "\<not> other_error_r (u_ciu_ctrl u1)"
    "cpu_mem_wr_byte_en_r (u_ciu_ctrl u1) = rq_be rq" "cpu_mem_wdata_r (u_ciu_ctrl u1) = rq_wdata rq"
    "ciu_mem_write_r (u_ciu_ctrl u1)" and e: "\<not> ext_acc_vio_r (u_ciu_ctrl u1)"
    using r by (simp_all add: u1 clock_on(1) [OF g])
  show "kept tags u u1" unfolding u1 by (rule kept_clock [OF p q r(11)])
  show "no_reply (ciu_outputs M (ask rq q) u)" by (rule no_reply_outputs [OF p]) simp_all
  show "ready (u_ram_wrapper u1)" "cells (u_ram u1) = cells (u_ram u)"
    unfolding u1 by (rule memory_idle [OF rdy p q r(8)])+
  have x: "rq_loadstore rq" using assms(5,6) by (simp add: rq_ok_def)
  then show "mpu_acc_vio (ciu_ctrl_in M q u1) \<longleftrightarrow> \<not> rq_allowed (regf_of u) q rq"
    unfolding u1 using e r(9,10,12-14) assms(5) m
    by (subst violation_after [OF q]) (simp_all add: u1 rq_allowed_def rq_page_def rq_access_def)
qed

lemma memory_write:
  assumes "phase CIU_MEM_WRITE u" "quiet_ext q" "\<not> mpu_acc_vio (ciu_ctrl_in M q u)" "\<not> ext_acc_vio_r (u_ciu_ctrl u)"
    "\<not> other_error_r (u_ciu_ctrl u)" "ciu_mem_write_r (u_ciu_ctrl u)" "cmu_sinc_state_i (cpu_side q) \<noteq> CACHE_ACTIVE"
    "ready (u_ram_wrapper u)" and f: "\<And>a. near a (cells (u_ram u) a) (f a)"
    and run: "ciu_run M gated [q, q, q] u = (os, u')"
    and a: "a = cpu_mem_addr_r (u_ciu_ctrl u)" and be: "be = cpu_mem_wr_byte_en_r (u_ciu_ctrl u)" "be \<noteq> 0"
  shows "unit_rest u'" "kept tags u u'" "reply_of os = Stored"
    "near b (cells (u_ram u') b) ((f(line_high a := mod_wdata (lane_enables (ucast a) be)
      (four_times (cpu_mem_wdata_r (u_ciu_ctrl u))) (f (line_high a)))) b)"
proof -
  define u1 where "u1 = ciu_clock M gated q u"
  define u2 where "u2 = ciu_clock M gated q u1"
  have os: "os = [ciu_outputs M q u, ciu_outputs M q u1, ciu_outputs M q u2]" and u': "u' = ciu_clock M gated q u2"
    using run by (simp_all add: u1_def u2_def)
  note q = quiet_calm [OF assms(2)]
  have c0: "ctl_at CIU_MEM_WRITE (u_ciu_ctrl u)" using assms(1) by (simp add: phase_def)
  have st: "cmu_sinc_state_i (ciu_ctrl_in M q u) \<noteq> CACHE_ACTIVE" using assms(7) by simp
  note w = ctl_memory_write [OF c0 phase_still [OF assms(1,2)] assms(3-6) st]
  have g0: "gclk gated q u" by (rule phase_gclk [OF assms(1)]) simp
  have p1: "phase CIU_EXTRA u1" unfolding u1_def by (rule phase_clock [OF assms(1) q g0 w(1)])
  have c1: "ctl_at CIU_EXTRA (u_ciu_ctrl u1)" using p1 by (simp add: phase_def)
  note x = ctl_extra [OF c1 phase_still [OF p1 assms(2)], of M]
  have g1: "gclk gated q u1" by (rule phase_gclk [OF p1]) simp
  have p2: "phase CIU_WAIT u2" unfolding u2_def by (rule phase_clock [OF p1 q g1 x(1)])
  note z = end_access [OF p2 assms(2) u']
  note m = memory_slot [OF u1_def u2_def u' g0 g1 z(3) assms(8) f assms(1) q p1 q p2 q w(2) x(4) z(4) refl refl refl,
    unfolded w(5-7), folded a be(1)]
  show "unit_rest u'" using z m(1) by (simp add: unit_rest_def)
  show "kept tags u u'"
    using kept_trans [OF kept_trans [OF kept_clock [OF assms(1) q w(4), of gated] kept_clock [OF p1 q x(6), of gated, folded u2_def, unfolded u1_def]]
      z(2)] by (simp add: u1_def u2_def)
  show "near b (cells (u_ram u') b) ((f(line_high a := mod_wdata (lane_enables (ucast a) be)
      (four_times (cpu_mem_wdata_r (u_ciu_ctrl u))) (f (line_high a)))) b)" by (rule m(2))
  have "\<not> non_rmw_rd_q (u_ram_wrapper u1)"
    using clock_on(2) [OF g0, of M] write_is_no_read [OF assms(8), of "wrapper_in M q u"] w(2,5)
      lane_enables_nonzero [OF be(2)] by (auto simp: u1_def sys_clock_def a be)
  then have v: "\<not> rdata_valid_o (mem_side q) (u_ram_wrapper u2)"
    using clock_on(2) [OF g1, of M] by (simp add: u2_def sys_clock_def rdata_valid_o_def pipeline)
  have e: "\<not> vtag_parity_err_r (u_ciu_ctrl u2)" "\<not> cmu_fetch_err_r (u_ciu_ctrl u2)" "\<not> other_error_r (u_ciu_ctrl u2)"
    "\<not> mem_cpu_rdata_vld_r (u_ciu_ctrl u2)" "\<not> mpu_read_vio_r (u_ciu_ctrl u2)"
    using x by (simp_all add: u2_def clock_on(1) [OF g1])
  have "no_reply (ciu_outputs M q u)"
    using c0 assms(3) by (simp add: ctl_at_iff no_reply_def ciu_outputs_def mem_cpu_rdata_vld_def ciu_acc_vio_def
      mem_cpu_read_err_def Let_def)
  moreover have "no_reply (ciu_outputs M q u1)" by (rule no_reply_outputs [OF p1]) simp_all
  ultimately show "reply_of os = Stored" using wait_stored [OF p2 assms(2) e(4,5,1-3) v] by (simp add: os)
qed

lemma write_slot:
  assumes "unit_rest u" "quiet_ext q" "cmu_sinc_state_i (cpu_side q) \<noteq> CACHE_FAILED"
    "cmu_sinc_state_i (cpu_side q) \<noteq> CACHE_ACTIVE" "rq_we rq" "rq_ok rq"
    and f: "\<And>a. near a (cells (u_ram u) a) (f a)"
    and run: "ciu_run M gated [ask rq q, q, q, q] u = (os, u')"
  shows "unit_rest u'" "kept tags u u'" "reply_of os = (if rq_allowed (regf_of u) q rq then Stored else Refused)"
    "near b (cells (u_ram u') b) (if rq_allowed (regf_of u) q rq
       then (f(line_high (rq_addr rq) := mod_wdata (lane_enables (ucast (rq_addr rq)) (rq_be rq))
         (four_times (rq_wdata rq)) (f (line_high (rq_addr rq))))) b
       else f b)"
proof -
  define u1 where "u1 = ciu_clock M gated (ask rq q) u"
  obtain os1 where r1: "ciu_run M gated [q, q, q] u1 = (os1, u')" and os: "os = ciu_outputs M (ask rq q) u # os1"
    using run by (simp add: u1_def)
  note a = start_write [OF assms(1-6) u1_def]
  have f1: "near b (cells (u_ram u1) b) (f b)" for b using f [of b] a(12) by simp
  have be: "rq_be rq \<noteq> 0" using assms(5,6) by (simp add: rq_ok_def)
  have "unit_rest u' \<and> kept tags u1 u' \<and> reply_of os1 = (if rq_allowed (regf_of u) q rq then Stored else Refused) \<and>
    near b (cells (u_ram u') b) (if rq_allowed (regf_of u) q rq
       then (f(line_high (rq_addr rq) := mod_wdata (lane_enables (ucast (rq_addr rq)) (rq_be rq))
         (four_times (rq_wdata rq)) (f (line_high (rq_addr rq))))) b
       else f b)"
  proof (cases "rq_allowed (regf_of u) q rq")
    case True
    with a(9) have "\<not> mpu_acc_vio (ciu_ctrl_in M q u1)" by simp
    note m = memory_write [OF a(1) assms(2) this a(6,7,5) assms(4) a(11) f1 r1 a(2) [symmetric] a(3) [symmetric] be]
    with True show ?thesis by (simp add: a(4))
  next
    case False
    with a(9) have v: "mpu_acc_vio (ciu_ctrl_in M q u1)" by simp
    define u2 where "u2 = ciu_clock M gated q u1"
    note w = refuse_write [OF a(1) assms(2) v a(11) u2_def]
    obtain o2 o3 where r2: "ciu_run M gated [q, q] u2 = ([o2, o3], u')"
      and os1: "os1 = [ciu_outputs M q u1, o2, o3]" using r1 by (simp add: u2_def)
    note z = rest_twice [OF w(1) assms(2) r2]
    from False z w a(12) f kept_trans [OF w(2) z(2)] show ?thesis by (simp add: os1)
  qed
  then show "unit_rest u'" "kept tags u u'" "reply_of os = (if rq_allowed (regf_of u) q rq then Stored else Refused)"
    "near b (cells (u_ram u') b) (if rq_allowed (regf_of u) q rq
       then (f(line_high (rq_addr rq) := mod_wdata (lane_enables (ucast (rq_addr rq)) (rq_be rq))
         (four_times (rq_wdata rq)) (f (line_high (rq_addr rq))))) b
       else f b)"
    using kept_trans [OF a(8)] a(10) by (auto simp: os)
qed

lemma word_slot:
  assumes "unit_rest u" "quiet_ext q" "cmu_sinc_state_i (cpu_side q) \<noteq> CACHE_ACTIVE" "rq_ok rq" "holds_words cells u g"
    and run: "ciu_run M gated [ask rq q, q, q, q] u = (os, u')"
    and step: "word_mem_step (regf_of u) q rq g = (a, g')"
  shows "unit_rest u' \<and> kept tags u u' \<and> reply_of os = a \<and> holds_words cells u' g'"
proof -
  from assms(5) obtain f where f: "\<And>a. near a (cells (u_ram u) a) (f a)"
    and g: "\<And>x. lane 32 (unat (ucast x :: 2 word)) (f (ucast (drop_bit 2 x))) = g x"
    by (auto simp: holds_words_def)
  show ?thesis
  proof (cases "cmu_sinc_state_i (cpu_side q) = CACHE_FAILED")
    case True
    with forbidden_slot [OF assms(1,2,4) _ run] assms(5) step show ?thesis
      by (simp add: word_mem_step_def holds_words_def)
  next
    case failed: False
    show ?thesis
    proof (cases "rq_we rq")
      case False
      from read_slot [OF assms(1,2) failed assms(3) False f run] g step failed False show ?thesis
        using g [of "ucast (rq_addr rq)"]
        by (auto simp: word_mem_step_def holds_words_def split_word_addr Let_def split: if_splits)
    next
      case True
      note w = write_slot [OF assms(1,2) failed assms(3) True assms(4) f run]
      have "holds_words cells u' g'"
      proof (cases "rq_allowed (regf_of u) q rq")
        case allowed: True
        let ?a = "rq_addr rq"
        let ?f = "f(line_high ?a := mod_wdata (lane_enables (ucast ?a) (rq_be rq)) (four_times (rq_wdata rq)) (f (line_high ?a)))"
        have "g' = g(ucast ?a := merge_bytes (rq_be rq) (rq_wdata rq) (g (ucast ?a)))"
          using step failed True allowed by (simp add: word_mem_step_def Let_def)
        then have "lane 32 (unat (ucast x :: 2 word)) (?f (ucast (drop_bit 2 x))) = g' x" for x
          using holds_words_write [where f = f and g = g, OF g] by simp
        moreover have "near b (cells (u_ram u') b) (?f b)" for b using w(4) [of b] allowed by simp
        ultimately show ?thesis unfolding holds_words_def by blast
      next
        case False
        then have "g' = g" using step by (simp add: word_mem_step_def Let_def)
        moreover have "near b (cells (u_ram u') b) (f b)" for b using w(4) [of b] False by simp
        ultimately show ?thesis using g unfolding holds_words_def by blast
      qed
      with w(1-3) step failed True show ?thesis by (auto simp: word_mem_step_def Let_def split: if_splits)
    qed
  qed
qed

lemma word_run:
  assumes "unit_rest u" "quiet_ext q" "cmu_sinc_state_i (cpu_side q) \<noteq> CACHE_ACTIVE" "list_all rq_ok rqs" "holds_words cells u g"
    and "access_run M gated q rqs u = (as, u')" "word_mem_run (regf_of u) q rqs g = (bs, g')"
  shows "as = bs \<and> unit_rest u' \<and> holds_words cells u' g'"
  using assms(1,4-)
proof (induction rqs arbitrary: u g as bs)
  case (Cons rq rqs)
  obtain os u1 where r: "ciu_run M gated [ask rq q, q, q, q] u = (os, u1)" by (cases rule: prod.exhaust)
  obtain a g1 where s: "word_mem_step (regf_of u) q rq g = (a, g1)" by (cases rule: prod.exhaust)
  obtain as1 where as: "access_run M gated q rqs u1 = (as1, u')" "as = reply_of os # as1"
    using Cons.prems(4) r by (auto simp: Let_def split: prod.splits)
  obtain bs1 where bs: "word_mem_run (regf_of u) q rqs g1 = (bs1, g')" "bs = a # bs1"
    using Cons.prems(5) s by (auto simp: Let_def split: prod.splits)
  have "rq_ok rq" "list_all rq_ok rqs" using Cons.prems(2) by simp_all
  with word_slot [OF Cons.prems(1) assms(2,3) _ Cons.prems(3) r s]
  have *: "unit_rest u1" "kept tags u u1" "reply_of os = a" "holds_words cells u1 g1" by auto
  have "word_mem_run (regf_of u1) q rqs g1 = (bs1, g')" using bs(1) *(2) by (simp add: kept_def)
  from Cons.IH [OF *(1) \<open>list_all rq_ok rqs\<close> *(4) as(1) this] *(3) as(2) bs(2) show ?case by simp
qed simp

end

section \<open>The unit is a protected memory of words\<close>

text \<open>C5: with any memory macros that behave as synchronous memories, and with or without the clock gate, the cache
  interface unit implements a protected memory of words while the cache is not active. For every
  sequence of requests, each given four clocks, the replies are those of the specification: a read that the
  attributes of its page permit delivers the word, a permitted write replaces the enabled bytes, and a request
  that is not permitted, or any request in \<open>CACHE_FAILED\<close>, is answered by a violation and changes
  nothing; single flipped bits in the words of the memory do not matter.\<close>

theorem ciu_refines_word_memory:
  assumes "ciu_memories M cells tags" and "unit_rest u" and "quiet_ext q"
    and "cmu_sinc_state_i (cpu_side q) \<noteq> CACHE_ACTIVE" and "list_all rq_ok rqs" and "holds_words cells u g"
    and "access_run M gated q rqs u = (as, u')" and "word_mem_run (regf_of u) q rqs g = (bs, g')"
  shows "as = bs \<and> unit_rest u' \<and> holds_words cells u' g'"
  by (rule ciu_memories.word_run [OF assms])

theorem ciu_refines_word_memory_witness:
  "fst (access_run simple_macros True (ciu_ext_quiet DISABLED) [store 5 0xbeef, load 5, load 6] ciu_unit_reset) =
    [Stored, Data 0xbeef, Data 0]"
proof -
  let ?q = "ciu_ext_quiet DISABLED" and ?rqs = "[store 5 0xbeef, load 5, load 6]"
  obtain as u' where r: "access_run simple_macros True ?q ?rqs ciu_unit_reset = (as, u')" by (cases rule: prod.exhaust)
  obtain bs g' where s: "word_mem_run (\<lambda>_. ATTRIB_RESET) ?q ?rqs (\<lambda>_. 0) = (bs, g')" by (cases rule: prod.exhaust)
  have eval: "fst (word_mem_run (\<lambda>_. ATTRIB_RESET) ?q ?rqs (\<lambda>_. 0)) = [Stored, Data 0xbeef, Data 0]" by code_simp
  have "holds_words fst ciu_unit_reset (\<lambda>_. 0)"
    unfolding holds_words_def
    by (rule exI [of _ "\<lambda>_. 0"]) (auto simp: ciu_unit_reset_facts intro!: bit_word_eqI simp: bit_lane)
  moreover have "list_all rq_ok ?rqs" by (simp add: rq_ok_def store_def load_def)
  ultimately have "as = bs"
    using ciu_refines_word_memory [OF simple_unit.ciu_memories_axioms ciu_unit_reset_rest _ _ _ _ r,
      unfolded ciu_unit_reset_facts(2), OF _ _ _ _ s] by simp
  with eval show ?thesis unfolding r s by (simp only: fst_conv)
qed

end
