(* ===== verification/CiuCache.thy ===== *)
theory CiuCache
  imports CiuMemory
begin

text \<open>
  The cache interface unit with the cache active: protected reads of the external memory. The
  specification is \<open>cached_run\<close>: a permitted read delivers the word of the external memory, whatever the cache holds,
  and the tag store follows \<open>cache_read\<close> of \<open>Vtag\<close>. The cache management unit is the environment \<open>serve\<close>, which answers
  the fetches of the unit.
\<close>

section \<open>Specification with the cache\<close>

text \<open>With the cache active, a read is served from the external memory \<open>xmem\<close>, and writes are refused. The tag store
  goes through the steps of \<open>cache_read\<close>.\<close>

definition cached_step :: "(10 word \<Rightarrow> u32) \<Rightarrow> (22 word \<Rightarrow> u32) \<Rightarrow> ciu_ext \<Rightarrow> cpu_req \<Rightarrow> cache \<Rightarrow> reply \<times> cache" where
  "cached_step perms xmem q rq c =
    (if rq_we rq \<or> \<not> rq_allowed perms q rq then (Refused, c)
     else (Data (xmem (rq_addr rq)), snd (cache_read c (rq_addr rq))))"

primrec cached_run ::
  "(10 word \<Rightarrow> u32) \<Rightarrow> (22 word \<Rightarrow> u32) \<Rightarrow> ciu_ext \<Rightarrow> cpu_req list \<Rightarrow> cache \<Rightarrow> reply list \<times> cache" where
  "cached_run perms xmem q [] c = ([], c)"
| "cached_run perms xmem q (rq # rqs) c =
    (let (a, c1) = cached_step perms xmem q rq c; (as, c2) = cached_run perms xmem q rqs c1 in (a # as, c2))"

text \<open>The cache management unit at the other side: it is busy from the clock of the request on (\<open>stall_cpu_req\<close> of
  \<open>sinc_cmu_ctrl.sv\<close>), answers a fetch with the words of the block, one every three clocks, and reports completion.\<close>

definition fetching :: "ciu_ext \<Rightarrow> ciu_ext" where
  "fetching q = q\<lparr>cpu_side := (cpu_side q)\<lparr>cmu_busy_i := True\<rparr>\<rparr>"

definition line_at :: "7 word \<Rightarrow> nat \<Rightarrow> 14 word" where
  "line_at s k = push_bit 7 (ucast s) OR ucast (word_of_nat k :: 7 word)"

definition full_addr :: "u8 \<Rightarrow> 14 word \<Rightarrow> 22 word" where
  "full_addr t ln = push_bit 14 (ucast t) OR ucast ln"

definition fill_word :: "ciu_ext \<Rightarrow> 14 word \<Rightarrow> u32 \<Rightarrow> ciu_ext" where
  "fill_word q ln d = q\<lparr>cpu_side := (cpu_side q)\<lparr>cmu_mem_we := True, cmu_mem_addr := ln, cmu_mem_wdata := d\<rparr>\<rparr>"

definition fetch_done :: "ciu_ext \<Rightarrow> ciu_ext" where
  "fetch_done q = q\<lparr>cpu_side := (cpu_side q)\<lparr>cmu_block_fetch_comp_i := True, cmu_block_fetch_err_i := False\<rparr>\<rparr>"

primrec fetch_block :: "(22 word \<Rightarrow> u32) \<Rightarrow> ciu_ext \<Rightarrow> 22 word \<Rightarrow> nat \<Rightarrow> ciu_ext list" where
  "fetch_block xmem q a 0 = []"
| "fetch_block xmem q a (Suc k) = fetch_block xmem q a k @
    [fill_word q (line_at (cache_set_idx_of a) k) (xmem (full_addr (cache_tag_of a) (line_at (cache_set_idx_of a) k))), q, q]"

definition serve ::
  "('m, 't) macros \<Rightarrow> bool \<Rightarrow> (22 word \<Rightarrow> u32) \<Rightarrow> ciu_ext \<Rightarrow> cpu_req \<Rightarrow> ('m, 't) ciu_unit \<Rightarrow> reply \<times> ('m, 't) ciu_unit" where
  "serve M gated xmem q rq u =
    (let (os, u1) = ciu_run M gated [ask rq q, q] u; out = ciu_outputs M q u1;
         (os', u') = ciu_run M gated (if fetch_req_out out
           then fetching q # fetch_block xmem (fetching q) (block_addr_out out) 128 @ [fetch_done (fetching q), q, q, q, q]
           else [q, q]) u1
     in (reply_of (os @ os'), u'))"

primrec serve_run ::
  "('m, 't) macros \<Rightarrow> bool \<Rightarrow> (22 word \<Rightarrow> u32) \<Rightarrow> ciu_ext \<Rightarrow> cpu_req list \<Rightarrow> ('m, 't) ciu_unit \<Rightarrow> reply list \<times> ('m, 't) ciu_unit" where
  "serve_run M gated xmem q [] u = ([], u)"
| "serve_run M gated xmem q (rq # rqs) u =
    (let (a, u1) = serve M gated xmem q rq u; (as, u2) = serve_run M gated xmem q rqs u1 in (a # as, u2))"

text \<open>The content of the unit: every set of the tag store is well-formed, the lines are intact up to one bit
  per word, and a valid way holds the words of its block.\<close>

definition tag_sets :: "('t \<Rightarrow> 7 word \<Rightarrow> VTAG_BITS list) \<Rightarrow> ('m, 't) ciu_unit \<Rightarrow> cache" where
  "tag_sets tags u = (\<lambda>s. \<lparr>ways = tags (u_tags u) s, fifo_sta_reg = u_vtag_ret u s\<rparr>)"

definition valid_way :: "vtag_set \<Rightarrow> nat \<Rightarrow> u8 \<Rightarrow> bool" where
  "valid_way s w t = (valid_bit (ways s ! w) \<and> tag_bits (ways s ! w) = t)"

definition holds_blocks :: "cache \<Rightarrow> (22 word \<Rightarrow> u32) \<Rightarrow> (14 word \<Rightarrow> 128 word) \<Rightarrow> bool" where
  "holds_blocks c xmem f = ((\<forall>s. vtag_wf (c s)) \<and>
     (\<forall>a w. w < 4 \<longrightarrow> valid_way (c (cache_set_idx_of a)) w (cache_tag_of a) \<longrightarrow> lane 32 w (f (line_low a)) = xmem a))"

definition caches ::
  "('m \<Rightarrow> 14 word \<Rightarrow> 156 word) \<Rightarrow> ('t \<Rightarrow> 7 word \<Rightarrow> VTAG_BITS list) \<Rightarrow> (22 word \<Rightarrow> u32) \<Rightarrow> ('m, 't) ciu_unit \<Rightarrow> bool" where
  "caches cells tags xmem u = (\<exists>f. (\<forall>a. near a (cells (u_ram u) a) (f a)) \<and> holds_blocks (tag_sets tags u) xmem f)"

lemma ciu_run_append:
  "ciu_run M gated (es @ fs) u =
    (let (os, u1) = ciu_run M gated es u; (os', u2) = ciu_run M gated fs u1 in (os @ os', u2))"
  by (induction es arbitrary: u) (auto simp: Let_def split: prod.splits)

lemma reply_of_append: "list_all no_reply os \<Longrightarrow> reply_of (os @ os') = reply_of os'"
  by (induction os) simp_all

lemma full_addr_split: "full_addr (cache_tag_of a) (line_low a) = a"
  by (rule bit_word_eqI) (auto simp: full_addr_def cache_tag_of_def line_low_def bit_simps)

lemma line_set_idx: "(\<exists>k<128. line_low a = line_at s k) \<longleftrightarrow> cache_set_idx_of a = s"
proof
  assume "\<exists>k<128. line_low a = line_at s k"
  then obtain k where k: "line_low a = line_at s k" by blast
  show "cache_set_idx_of a = s"
  proof (rule bit_word_eqI)
    fix n assume "n < LENGTH(7)"
    then show "bit (cache_set_idx_of a) n = bit s n"
      using arg_cong [OF k, of "\<lambda>w. bit w (7 + n)"]
      by (auto simp: line_low_def line_at_def cache_set_idx_of_def bit_simps add.commute)
  qed
next
  assume s: "cache_set_idx_of a = s"
  have "line_low a = line_at s (unat (ucast a :: 7 word))"
    unfolding s [symmetric]
    by (rule bit_word_eqI) (auto simp: line_low_def line_at_def cache_set_idx_of_def bit_simps)
  moreover have "unat (ucast a :: 7 word) < 128" using unsigned_less [of "ucast a :: 7 word"] by simp
  ultimately show "\<exists>k<128. line_low a = line_at s k" by blast
qed

text \<open>A refill keeps the content right.\<close>

lemma holds_blocks_refill:
  assumes "holds_blocks c xmem f" and t: "t = cache_tag_of a" and s: "s = cache_set_idx_of a"
    and new: "t \<notin> set (vtag_content (c s))"
    and f': "\<And>ln j. j < 4 \<Longrightarrow> lane 32 j (f' ln) =
      (if j = unat (fifo_sta_reg (c s)) \<and> (\<exists>k<128. ln = line_at s k) then xmem (full_addr t ln) else lane 32 j (f ln) :: u32)"
  shows "holds_blocks (c(s := vtag_update t (c s))) xmem f'"
proof -
  let ?c = "c(s := vtag_update t (c s))" and ?w = "unat (fifo_sta_reg (c s))"
  have wf: "vtag_wf (c r)" for r using assms(1) by (simp add: holds_blocks_def)
  have len: "length (ways (c s)) = 4" using wf [of s] by (simp add: vtag_wf_def)
  have "lane 32 w (f' (line_low b)) = xmem b"
    if w: "w < 4" and v: "valid_way (?c (cache_set_idx_of b)) w (cache_tag_of b)" for b w
  proof (cases "cache_set_idx_of b = s \<and> w = ?w")
    case True
    then have "cache_tag_of b = t"
      using v w len by (simp add: valid_way_def vtag_update_def vtag_update_ways_def)
    with True w line_set_idx [of b s] show ?thesis
      using full_addr_split [of b] by (simp add: f')
  next
    case False
    then have "valid_way (c (cache_set_idx_of b)) w (cache_tag_of b)"
      using v by (auto simp: valid_way_def vtag_update_def vtag_update_ways_def nth_list_update_neq split: if_splits)
    then have "lane 32 w (f (line_low b)) = xmem b" using assms(1) w by (simp add: holds_blocks_def)
    with False w line_set_idx [of b s] show ?thesis by (auto simp: f')
  qed
  then show ?thesis using wf vtag_update_content(1) [OF wf new] by (simp add: holds_blocks_def)
qed

context ciu_memories
begin

lemma lookup_clock:
  assumes "phase st u" "calm_ext e" "gclk gated e u" "ciu_vtag_comp (ciu_ctrl_in M e u) (u_ciu_ctrl u)"
    "\<not> ciu_vtag_update (ciu_ctrl_in M e u) (u_ciu_ctrl u)" and u1: "u1 = ciu_clock M gated e u"
  shows "ciu_vtag_comp_r u1" "cache_tag_r u1 = cache_tag e u" "m_tag_q M (u_tags u1) = tags (u_tags u) (cache_set_idx e u)"
proof -
  have "tag_men (tag_out M e u) = replicate 4 True" "tag_wen (tag_out M e u) = replicate 4 False"
    "tag_adr (tag_out M e u) = cache_set_idx e u"
    using assms(4,5) phase_calm(3) [OF assms(1,2)] by (simp_all add: tag_out_def Let_def map_replicate_const comp_def)
  then show "ciu_vtag_comp_r u1" "cache_tag_r u1 = cache_tag e u"
    "m_tag_q M (u_tags u1) = tags (u_tags u) (cache_set_idx e u)"
    using assms(4) phase_calm(4) [OF assms(1,2)] clock_on(3,5,6) [OF assms(3), of M] by (simp_all add: u1 tag.tag_read)
qed

lemma update_clock:
  assumes "phase st u" "calm_ext e" "gclk gated e u" "ciu_vtag_update (ciu_ctrl_in M e u) (u_ciu_ctrl u)"
    and u1: "u1 = ciu_clock M gated e u"
  shows "tag_sets tags u1 = (tag_sets tags u)(cache_set_idx e u :=
    vtag_update (cache_tag e u) (tag_sets tags u (cache_set_idx e u)))"
proof -
  let ?s = "cache_set_idx e u" and ?p = "tag_out M e u"
  let ?w = "unat (u_vtag_ret u ?s)"
  have "?w < 4" by (rule unat_2_less)
  have p: "tag_wen ?p = map (\<lambda>k. ?w = k) [0..<4]" "tag_adr ?p = ?s"
    "tag_di ?p ! ?w = \<lparr>parity_bit = parity_gen (cache_tag e u), valid_bit = True, tag_bits = cache_tag e u\<rparr>"
    using assms(4) phase_calm(3) [OF assms(1,2)] \<open>?w < 4\<close>
    by (simp_all add: tag_out_def vtag_update_ways_def tag.length_tag_q Let_def)
  have "length (tag_wen ?p) = 4" by (simp add: p(1))
  note tag.tag_write [OF this, of "u_tags u"]
  moreover have "map (\<lambda>k. if tag_wen ?p ! k then tag_di ?p ! k else tags (u_tags u) (tag_adr ?p) ! k) [0..<4] =
      (tags (u_tags u) ?s)[?w := tag_di ?p ! ?w]"
    by (rule nth_equalityI) (auto simp: tag.length_tags p(1,2) nth_list_update)
  ultimately have "tags (u_tags u1) = (tags (u_tags u))(?s := (tags (u_tags u) ?s)[?w := tag_di ?p ! ?w])"
    using clock_on(3) [OF assms(3), of M] by (simp only: u1 p(2))
  moreover have "u_vtag_ret u1 = (u_vtag_ret u)(?s := u_vtag_ret u ?s + 1)"
    using assms(4) phase_calm(4) [OF assms(1,2)] clock_on(7) [OF assms(3), of M] by (simp add: u1 fifo_clock_def)
  ultimately show ?thesis
    by (auto simp: fun_eq_iff tag_sets_def vtag_update_def vtag_update_ways_def nxt_fifo_sta_reg_def p(3))
qed

text \<open>The clock that decides a read of the cache.\<close>

lemma decide_read:
  assumes "phase CIU_MEM_READ u" "quiet_ext q" "\<not> mpu_acc_vio (ciu_ctrl_in M q u)" "\<not> ext_acc_vio_r (u_ciu_ctrl u)"
    "\<not> other_error_r (u_ciu_ctrl u)" "cmu_sinc_state_i (cpu_side q) = CACHE_ACTIVE"
    "\<not> vtag_parity_error (ciu_vtag_comp_r u) (m_tag_q M (u_tags u))"
    and h: "h = vtag_hit (ciu_vtag_comp_r u) (cache_tag_r u) (m_tag_q M (u_tags u))"
    and u1: "u1 = ciu_clock M gated q u"
  shows "kept tags u u1" "gclk gated q u" "no_reply (ciu_outputs M q u)" "\<not> ciu_mem_en (ciu_ctrl_in M q u) (u_ciu_ctrl u)"
    "\<not> mpu_checking u1"
    "fst h \<Longrightarrow> phase CIU_WAIT u1 \<and> mem_cpu_rdata_vld_r (u_ciu_ctrl u1) \<and> block_read_sel_r (u_ciu_ctrl u1) = snd h"
    "\<not> fst h \<Longrightarrow> phase CIU_CACHE_MISS u1 \<and> ciu_mem_write_r (u_ciu_ctrl u1) \<and> ciu_block_fetch_req_r (u_ciu_ctrl u1) \<and>
      cpu_mem_addr_r (u_ciu_ctrl u1) = cpu_mem_addr_r (u_ciu_ctrl u)"
proof -
  have c: "ctl_at CIU_MEM_READ (u_ciu_ctrl u)" using assms(1) by (simp add: phase_def)
  note q = quiet_calm [OF assms(2)]
  have x: "cmu_sinc_state_i (ciu_ctrl_in M q u) = CACHE_ACTIVE" "\<not> vtag_parity_error_i (ciu_ctrl_in M q u)"
    "vtag_cache_hit (ciu_ctrl_in M q u) = fst h" "vtag_cache_hit_word_idx (ciu_ctrl_in M q u) = snd h"
    using assms(6,7) by (simp_all add: h)
  have b: "\<not> cmu_busy_i (ciu_ctrl_in M q u)" using assms(2) by (simp add: quiet_ext_def)
  note hit = ctl_hit [OF c phase_still [OF assms(1,2)] assms(3-5) x(1,2), unfolded x]
    and miss = ctl_miss [OF c phase_still [OF assms(1,2)] assms(3-5) x(1,2) _ b, unfolded x]
  show g: "gclk gated q u" by (rule phase_gclk [OF assms(1)]) simp
  have n: "\<not> ciu_mem_en (ciu_ctrl_in M q u) (u_ciu_ctrl u)" "\<not> ciu_req_en (ciu_ctrl_in M q u) (u_ciu_ctrl u)"
    "\<not> ciu_vtag_update (ciu_ctrl_in M q u) (u_ciu_ctrl u)"
    using hit miss by (cases "fst h"; blast)+
  then show "\<not> ciu_mem_en (ciu_ctrl_in M q u) (u_ciu_ctrl u)" "\<not> mpu_checking u1"
    using protection_clock(1) [OF q, of M gated u] by (simp_all add: u1)
  show "kept tags u u1" unfolding u1 by (rule kept_clock [OF assms(1) q n(3)])
  show "no_reply (ciu_outputs M q u)" by (rule no_reply_outputs [OF assms(1)]) simp_all
  show "phase CIU_WAIT u1 \<and> mem_cpu_rdata_vld_r (u_ciu_ctrl u1) \<and> block_read_sel_r (u_ciu_ctrl u1) = snd h" if "fst h"
    using hit(2,3) [OF that] phase_clock [OF assms(1) q g hit(1) [OF that]] by (simp add: u1 clock_on(1) [OF g])
  show "phase CIU_CACHE_MISS u1 \<and> ciu_mem_write_r (u_ciu_ctrl u1) \<and> ciu_block_fetch_req_r (u_ciu_ctrl u1) \<and>
      cpu_mem_addr_r (u_ciu_ctrl u1) = cpu_mem_addr_r (u_ciu_ctrl u)" if "\<not> fst h"
    using miss(2-4) [OF that] phase_clock [OF assms(1) q g miss(1) [OF that]] by (simp add: u1 clock_on(1) [OF g])
qed

text \<open>The refill.\<close>

lemma refill_clock:
  assumes "phase CIU_CACHE_MISS u" "ciu_mem_write_r (u_ciu_ctrl u)" "\<not> mpu_checking u" "calm_ext e"
    "\<not> cpu_mem_en (cpu_side e)" "\<not> cmu_block_fetch_comp_i (cpu_side e)" "cmu_sinc_state_i (cpu_side e) = CACHE_ACTIVE"
    and u1: "u1 = ciu_clock M gated e u"
  shows "phase CIU_CACHE_MISS u1" "ciu_mem_write_r (u_ciu_ctrl u1)" "\<not> mpu_checking u1"
    "cpu_mem_addr_r (u_ciu_ctrl u1) = cpu_mem_addr_r (u_ciu_ctrl u)" "kept tags u u1" "gclk gated e u"
    "no_reply (ciu_outputs M e u)" "ciu_mem_en (ciu_ctrl_in M e u) (u_ciu_ctrl u) = cmu_mem_we (cpu_side e)"
    "ciu_mem_we (ciu_ctrl_in M e u) (u_ciu_ctrl u) =
      lane_enables (u_vtag_ret u (cache_set_idx_of (cpu_mem_addr_r (u_ciu_ctrl u)))) (- 1)"
    "ciu_mem_addr (ciu_routing (ciu_ctrl_in M e u) (u_ciu_ctrl u)) = cmu_mem_addr (cpu_side e)"
    "ciu_mem_wdata (ciu_routing (ciu_ctrl_in M e u) (u_ciu_ctrl u)) = four_times (cmu_mem_wdata (cpu_side e))"
proof -
  have c: "ctl_at CIU_CACHE_MISS (u_ciu_ctrl u)" using assms(1) by (simp add: phase_def)
  have v: "\<not> mpu_acc_vio (ciu_ctrl_in M e u)" using c assms(3) by (simp add: no_violation ctl_at_iff)
  have x: "\<not> cpu_mem_en (ciu_ctrl_in M e u)" "cmu_sinc_state_i (ciu_ctrl_in M e u) = CACHE_ACTIVE"
    "\<not> cmu_block_fetch_comp_i (ciu_ctrl_in M e u)" using assms(5-7) by simp_all
  note r = ctl_refill [OF c assms(2) phase_calm(1) [OF assms(1,4)] x(1) v x(2,3)]
  show g: "gclk gated e u" by (rule phase_gclk [OF assms(1)]) simp
  show "phase CIU_CACHE_MISS u1" unfolding u1 by (rule phase_clock [OF assms(1,4) g r(1)])
  show "kept tags u u1" unfolding u1 by (rule kept_clock [OF assms(1,4) r(7)])
  show "no_reply (ciu_outputs M e u)" by (rule no_reply_outputs [OF assms(1)]) simp_all
  show "ciu_mem_write_r (u_ciu_ctrl u1)" "\<not> mpu_checking u1"
    "cpu_mem_addr_r (u_ciu_ctrl u1) = cpu_mem_addr_r (u_ciu_ctrl u)"
    "ciu_mem_en (ciu_ctrl_in M e u) (u_ciu_ctrl u) = cmu_mem_we (cpu_side e)"
    "ciu_mem_we (ciu_ctrl_in M e u) (u_ciu_ctrl u) =
      lane_enables (u_vtag_ret u (cache_set_idx_of (cpu_mem_addr_r (u_ciu_ctrl u)))) (- 1)"
    "ciu_mem_addr (ciu_routing (ciu_ctrl_in M e u) (u_ciu_ctrl u)) = cmu_mem_addr (cpu_side e)"
    "ciu_mem_wdata (ciu_routing (ciu_ctrl_in M e u) (u_ciu_ctrl u)) = four_times (cmu_mem_wdata (cpu_side e))"
    using r protection_clock(1) [OF assms(4), of M gated u]
    by (simp_all add: u1 clock_on(1) [OF g] cache_set_idx_def)
qed

lemma fill_slot:
  assumes "phase CIU_CACHE_MISS u" "ciu_mem_write_r (u_ciu_ctrl u)" "\<not> mpu_checking u" "waiting_ext q"
    "cmu_sinc_state_i (cpu_side q) = CACHE_ACTIVE" "ready (u_ram_wrapper u)"
    and f: "\<And>a. near a (cells (u_ram u) a) (f a)"
    and run: "ciu_run M gated [fill_word q ln d, q, q] u = (os, u')"
  shows "phase CIU_CACHE_MISS u'" "ciu_mem_write_r (u_ciu_ctrl u')" "\<not> mpu_checking u'" "ready (u_ram_wrapper u')"
    "cpu_mem_addr_r (u_ciu_ctrl u') = cpu_mem_addr_r (u_ciu_ctrl u)" "kept tags u u'" "list_all no_reply os"
    "near b (cells (u_ram u') b) ((f(ln := mod_wdata (lane_enables
      (u_vtag_ret u (cache_set_idx_of (cpu_mem_addr_r (u_ciu_ctrl u)))) (- 1)) (four_times d) (f ln))) b)"
proof -
  define u1 where "u1 = ciu_clock M gated (fill_word q ln d) u"
  define u2 where "u2 = ciu_clock M gated q u1"
  have os: "os = [ciu_outputs M (fill_word q ln d) u, ciu_outputs M q u1, ciu_outputs M q u2]"
    and u': "u' = ciu_clock M gated q u2" using run by (simp_all add: u1_def u2_def)
  have e: "calm_ext (fill_word q ln d)" "\<not> cpu_mem_en (cpu_side (fill_word q ln d))"
    "\<not> cmu_block_fetch_comp_i (cpu_side (fill_word q ln d))" "cmu_sinc_state_i (cpu_side (fill_word q ln d)) = CACHE_ACTIVE"
    "cmu_mem_we (cpu_side (fill_word q ln d))" "cmu_mem_addr (cpu_side (fill_word q ln d)) = ln"
    "cmu_mem_wdata (cpu_side (fill_word q ln d)) = d"
    using assms(4,5) by (simp_all add: fill_word_def quiet_defs calm_ext_def)
  have q: "calm_ext q" "\<not> cpu_mem_en (cpu_side q)" "\<not> cmu_block_fetch_comp_i (cpu_side q)" "\<not> cmu_mem_we (cpu_side q)"
    using assms(4) by (simp_all add: quiet_defs)
  note a = refill_clock [OF assms(1-3) e(1-4) u1_def]
  note b = refill_clock [OF a(1-3) q(1-3) assms(5) u2_def]
  note c = refill_clock [OF b(1-3) q(1-3) assms(5) u']
  show "phase CIU_CACHE_MISS u'" "ciu_mem_write_r (u_ciu_ctrl u')" "\<not> mpu_checking u'"
    "cpu_mem_addr_r (u_ciu_ctrl u') = cpu_mem_addr_r (u_ciu_ctrl u)" "list_all no_reply os"
    using a b c by (simp_all add: os)
  show "kept tags u u'" by (rule kept_trans [OF kept_trans [OF a(5) b(5)] c(5)])
  have en: "ciu_mem_en (ciu_ctrl_in M (fill_word q ln d) u) (u_ciu_ctrl u)" "\<not> ciu_mem_en (ciu_ctrl_in M q u1) (u_ciu_ctrl u1)"
    "\<not> ciu_mem_en (ciu_ctrl_in M q u2) (u_ciu_ctrl u2)" using a(8) b(8) c(8) e(5) q(4) by simp_all
  from memory_slot [OF u1_def u2_def u' a(6) b(6) c(6) assms(6) f assms(1) e(1) a(1) q(1) b(1) q(1) en refl refl refl]
  show "ready (u_ram_wrapper u')" "near b (cells (u_ram u') b) ((f(ln := mod_wdata (lane_enables
      (u_vtag_ret u (cache_set_idx_of (cpu_mem_addr_r (u_ciu_ctrl u)))) (- 1)) (four_times d) (f ln))) b)"
    unfolding a(9-11) e(6,7) by auto
qed

lemma fill_run:
  assumes "phase CIU_CACHE_MISS u" "ciu_mem_write_r (u_ciu_ctrl u)" "\<not> mpu_checking u" "waiting_ext q"
    "cmu_sinc_state_i (cpu_side q) = CACHE_ACTIVE" "ready (u_ram_wrapper u)"
    and f: "\<And>a. near a (cells (u_ram u) a) (f a)"
    and a: "a = cpu_mem_addr_r (u_ciu_ctrl u)"
    and run: "ciu_run M gated (fetch_block xmem q a n) u = (os, u')"
  shows "phase CIU_CACHE_MISS u' \<and> ciu_mem_write_r (u_ciu_ctrl u') \<and> \<not> mpu_checking u' \<and> ready (u_ram_wrapper u') \<and>
    cpu_mem_addr_r (u_ciu_ctrl u') = a \<and> kept tags u u' \<and> list_all no_reply os \<and>
    (\<exists>f'. (\<forall>a. near a (cells (u_ram u') a) (f' a)) \<and> (\<forall>ln j. j < 4 \<longrightarrow> lane 32 j (f' ln) =
      (if j = unat (u_vtag_ret u (cache_set_idx_of a)) \<and> (\<exists>k<n. ln = line_at (cache_set_idx_of a) k)
       then xmem (full_addr (cache_tag_of a) ln) else lane 32 j (f ln) :: u32)))"
  using run
proof (induction n arbitrary: os u')
  case 0
  then show ?case using assms by (auto simp: kept_def)
next
  case (Suc n)
  let ?ln = "line_at (cache_set_idx_of a) n" and ?w = "u_vtag_ret u (cache_set_idx_of a)"
  let ?d = "xmem (full_addr (cache_tag_of a) ?ln)"
  obtain os1 u1 where r1: "ciu_run M gated (fetch_block xmem q a n) u = (os1, u1)" by (cases rule: prod.exhaust)
  obtain os2 where r2: "ciu_run M gated [fill_word q ?ln ?d, q, q] u1 = (os2, u')" and os: "os = os1 @ os2"
    using Suc.prems r1 unfolding fetch_block.simps ciu_run_append by (auto simp: Let_def split: prod.splits)
  from Suc.IH [OF r1] obtain f1 where p: "phase CIU_CACHE_MISS u1" "ciu_mem_write_r (u_ciu_ctrl u1)" "\<not> mpu_checking u1"
    "ready (u_ram_wrapper u1)" "cpu_mem_addr_r (u_ciu_ctrl u1) = a" "kept tags u u1" "list_all no_reply os1"
    and f1: "\<And>a. near a (cells (u_ram u1) a) (f1 a)"
    and l1: "\<And>ln j. j < 4 \<Longrightarrow> lane 32 j (f1 ln) = (if j = unat ?w \<and> (\<exists>k<n. ln = line_at (cache_set_idx_of a) k)
       then xmem (full_addr (cache_tag_of a) ln) else lane 32 j (f ln) :: u32)" by blast
  note s = fill_slot [OF p(1-3) assms(4,5) p(4) f1 r2]
  let ?f = "f1(?ln := mod_wdata (lane_enables ?w (- 1)) (four_times ?d) (f1 ?ln))"
  have "lane 32 j (?f ln) = (if j = unat ?w \<and> (\<exists>k<Suc n. ln = line_at (cache_set_idx_of a) k)
       then xmem (full_addr (cache_tag_of a) ln) else lane 32 j (f ln) :: u32)" if "j < 4" for ln j
    using l1 [OF that, of ln] by (cases "ln = ?ln") (auto simp: lane_mod_wdata [OF that] less_Suc_eq)
  moreover have ret: "u_vtag_ret u1 = u_vtag_ret u" using p(6) by (simp add: kept_def)
  have "near b (cells (u_ram u') b) (?f b)" for b using s(8) [of b] unfolding p(5) ret .
  ultimately show ?case using s p(5,7) kept_trans [OF p(6) s(6)] by (intro conjI exI [of _ ?f]) (simp_all add: os)
qed

text \<open>The last three clocks of a read: the decision, the delivery and one clock at rest.\<close>

lemma deliver:
  assumes "u1 = ciu_clock M gated e u" "gclk gated e u" "ready (u_ram_wrapper u)"
    and f: "\<And>a. near a (cells (u_ram u) a) (f a)"
    and "phase st u" "calm_ext e" "ciu_mem_en (ciu_ctrl_in M e u) (u_ciu_ctrl u)"
    "ciu_mem_we (ciu_ctrl_in M e u) (u_ciu_ctrl u) = 0" "ciu_mem_addr (ciu_routing (ciu_ctrl_in M e u) (u_ciu_ctrl u)) = ln"
    and r1: "phase CIU_MEM_READ u1" "quiet_ext q" "\<not> mpu_acc_vio (ciu_ctrl_in M q u1)" "\<not> ext_acc_vio_r (u_ciu_ctrl u1)"
    "\<not> other_error_r (u_ciu_ctrl u1)" "cmu_sinc_state_i (cpu_side q) = CACHE_ACTIVE"
    "\<not> vtag_parity_error (ciu_vtag_comp_r u1) (m_tag_q M (u_tags u1))"
    and hit: "vtag_hit (ciu_vtag_comp_r u1) (cache_tag_r u1) (m_tag_q M (u_tags u1)) = (True, w)"
    and run: "ciu_run M gated [q, q, q] u1 = (os, u')"
  shows "unit_rest u'" "kept tags u1 u'" "reply_of os = Data (lane 32 (unat w) (f ln))" "near b (cells (u_ram u') b) (f b)"
    "\<not> fetch_req_out (os ! 1)"
proof -
  define u2 where "u2 = ciu_clock M gated q u1"
  define u3 where "u3 = ciu_clock M gated q u2"
  have os: "os = [ciu_outputs M q u1, ciu_outputs M q u2, ciu_outputs M q u3]" and u': "u' = ciu_clock M gated q u3"
    using run by (simp_all add: u2_def u3_def)
  note d = decide_read [OF r1 hit [symmetric] u2_def, simplified]
  have p2: "phase CIU_WAIT u2" using d(6) by blast
  note z = end_access [OF p2 r1(2) u3_def] and q = quiet_calm [OF r1(2)]
  note m = memory_slot [OF assms(1) u2_def u3_def assms(2) d(2) z(3) assms(3) f assms(5,6) r1(1) q p2 q assms(7) d(4) z(4)
    refl refl refl, unfolded assms(8,9), simplified]
  have "unit_rest u3" using z m(1) by (simp add: unit_rest_def)
  note i = rest_clock [OF this r1(2), of gated]
  show "unit_rest u'" "near b (cells (u_ram u') b) (f b)" using i m(2) [of b] by (simp_all add: u')
  show "kept tags u1 u'" using kept_trans [OF kept_trans [OF d(1) z(2)] i(2)] by (simp add: u')
  show "reply_of os = Data (lane 32 (unat w) (f ln))"
    using wait_data [OF p2 _ r1(2), of M] d(3,6) m(3) by (simp add: os)
  show "\<not> fetch_req_out (os ! 1)" using no_fetch [OF p2] by (simp add: os)
qed

lemma refuse:
  assumes "u1 = ciu_clock M gated e u" "gclk gated e u" "ready (u_ram_wrapper u)"
    and f: "\<And>a. near a (cells (u_ram u) a) (f a)"
    and "phase st u" "calm_ext e" "ciu_mem_en (ciu_ctrl_in M e u) (u_ciu_ctrl u)"
    "ciu_mem_we (ciu_ctrl_in M e u) (u_ciu_ctrl u) = 0"
    and r1: "phase CIU_MEM_READ u1" "quiet_ext q" "mpu_acc_vio (ciu_ctrl_in M q u1)"
    and run: "ciu_run M gated [q, q, q] u1 = (os, u')"
  shows "unit_rest u'" "kept tags u1 u'" "reply_of os = Refused" "near b (cells (u_ram u') b) (f b)"
    "\<not> fetch_req_out (os ! 1)"
proof -
  define u2 where "u2 = ciu_clock M gated q u1"
  define u3 where "u3 = ciu_clock M gated q u2"
  have os: "os = [ciu_outputs M q u1, ciu_outputs M q u2, ciu_outputs M q u3]" and u': "u' = ciu_clock M gated q u3"
    using run by (simp_all add: u2_def u3_def)
  note d = refuse_read [OF r1 u2_def]
  note z = end_access [OF d(1) r1(2) u3_def] and q = quiet_calm [OF r1(2)]
  note m = memory_slot [OF assms(1) u2_def u3_def assms(2) d(4) z(3) assms(3) f assms(5,6) r1(1) q d(1) q assms(7) d(6) z(4)
    refl refl refl, unfolded assms(8), simplified]
  have "unit_rest u3" using z m(1) by (simp add: unit_rest_def)
  note i = rest_clock [OF this r1(2), of gated]
  show "unit_rest u'" "near b (cells (u_ram u') b) (f b)" using i m(2) [of b] by (simp_all add: u')
  show "kept tags u1 u'" using kept_trans [OF kept_trans [OF d(3) z(2)] i(2)] by (simp add: u')
  have "no_reply (ciu_outputs M q u3)" by (rule no_reply_outputs [OF z(1)]) simp_all
  then show "reply_of os = Refused" using wait_refused [OF d(1,2)] d(5) by (simp add: os)
  show "\<not> fetch_req_out (os ! 1)" using no_fetch [OF d(1)] by (simp add: os)
qed

lemma start_lookup:
  assumes "unit_rest u" "quiet_ext q" "cmu_sinc_state_i (cpu_side q) = CACHE_ACTIVE" "\<not> rq_we rq"
    and u1: "u1 = ciu_clock M gated (ask rq q) u"
  shows "ciu_vtag_comp_r u1" "cache_tag_r u1 = cache_tag_of (rq_addr rq)"
    "m_tag_q M (u_tags u1) = ways (tag_sets tags u (cache_set_idx_of (rq_addr rq)))"
proof -
  have p: "phase CIU_IDLE u" using assms(1) by (simp add: unit_rest_def)
  have q: "calm_ext (ask rq q)" using assms(2) by (simp add: quiet_defs)
  have c: "ctl_at CIU_IDLE (u_ciu_ctrl u)" using p by (simp add: phase_def)
  have x: "cmu_sinc_state_i (ciu_ctrl_in M (ask rq q) u) \<noteq> CACHE_FAILED" "cpu_mem_en (ciu_ctrl_in M (ask rq q) u)"
    "\<not> cpu_mem_we (ciu_ctrl_in M (ask rq q) u)" "cache_active_mode (ciu_ctrl_in M (ask rq q) u)"
    using assms(3,4) by (simp_all add: cache_active_mode_def)
  have b: "\<not> cmu_busy_i (ciu_ctrl_in M (ask rq q) u)" using assms(2) by (simp add: quiet_ext_def)
  note r = ctl_read [OF c phase_calm(1) [OF p q] x(1-3) b]
  have g: "gclk gated (ask rq q) u" by (rule phase_gclk [OF p]) simp
  have "ciu_vtag_comp (ciu_ctrl_in M (ask rq q) u) (u_ciu_ctrl u)" using r(10) x(4) by simp
  from lookup_clock [OF p q g this r(9) u1] r(11)
  show "ciu_vtag_comp_r u1" "cache_tag_r u1 = cache_tag_of (rq_addr rq)"
    "m_tag_q M (u_tags u1) = ways (tag_sets tags u (cache_set_idx_of (rq_addr rq)))"
    by (simp_all add: cache_tag_def cache_set_idx_def tag_sets_def)
qed

text \<open>Completion of the fetch and the second read.\<close>

lemma complete_fetch:
  assumes "phase CIU_CACHE_MISS u" "waiting_ext q" "cmu_sinc_state_i (cpu_side q) = CACHE_ACTIVE" "\<not> mpu_checking u"
    "ready (u_ram_wrapper u)" "cpu_mem_addr_r (u_ciu_ctrl u) = a"
    and u1: "u1 = ciu_clock M gated (fetch_done q) u"
  shows "phase CIU_RREAD u1" "cpu_mem_addr_r (u_ciu_ctrl u1) = a" "\<not> mpu_checking u1" "ready (u_ram_wrapper u1)"
    "cells (u_ram u1) = cells (u_ram u)" "no_reply (ciu_outputs M (fetch_done q) u)" "regf_of u1 = regf_of u"
    "tag_sets tags u1 = (tag_sets tags u)(cache_set_idx_of a :=
      vtag_update (cache_tag_of a) (tag_sets tags u (cache_set_idx_of a)))"
proof -
  let ?e = "fetch_done q"
  have e: "calm_ext ?e" "\<not> cpu_mem_en (cpu_side ?e)" "\<not> cmu_mem_we (cpu_side ?e)" "cmu_block_fetch_comp_i (cpu_side ?e)"
    "\<not> cmu_block_fetch_err_i (cpu_side ?e)" "cmu_sinc_state_i (cpu_side ?e) = CACHE_ACTIVE"
    using assms(2,3) by (simp_all add: fetch_done_def quiet_defs calm_ext_def)
  have c: "ctl_at CIU_CACHE_MISS (u_ciu_ctrl u)" using assms(1) by (simp add: phase_def)
  have x: "still_in (ciu_ctrl_in M ?e u)" "cmu_sinc_state_i (ciu_ctrl_in M ?e u) = CACHE_ACTIVE"
    "cmu_block_fetch_comp_i (ciu_ctrl_in M ?e u)" "\<not> cmu_block_fetch_err_i (ciu_ctrl_in M ?e u)"
    using e phase_calm(1) [OF assms(1) e(1)] by (simp_all add: still_in_def)
  note r = ctl_refilled [OF c x]
  have g: "gclk gated ?e u" by (rule phase_gclk [OF assms(1)]) simp
  show "phase CIU_RREAD u1" unfolding u1 by (rule phase_clock [OF assms(1) e(1) g r(1)])
  show "no_reply (ciu_outputs M ?e u)" by (rule no_reply_outputs [OF assms(1)]) simp_all
  show "ready (u_ram_wrapper u1)" "cells (u_ram u1) = cells (u_ram u)"
    unfolding u1 by (rule memory_idle [OF assms(5,1) e(1) r(3)])+
  show "cpu_mem_addr_r (u_ciu_ctrl u1) = a" "\<not> mpu_checking u1" "regf_of u1 = regf_of u"
    using r(2,4) assms(6) protection_clock [OF e(1), of M gated u] by (simp_all add: u1 clock_on(1) [OF g])
  show "tag_sets tags u1 = (tag_sets tags u)(cache_set_idx_of a :=
      vtag_update (cache_tag_of a) (tag_sets tags u (cache_set_idx_of a)))"
    using update_clock [OF assms(1) e(1) g r(5) u1] r(7) assms(6) by (simp add: cache_tag_def cache_set_idx_def)
qed

lemma read_again:
  assumes "phase CIU_RREAD u" "quiet_ext q" "cmu_sinc_state_i (cpu_side q) = CACHE_ACTIVE" "\<not> mpu_checking u"
    "cpu_mem_addr_r (u_ciu_ctrl u) = a" and u1: "u1 = ciu_clock M gated q u"
  shows "phase CIU_MEM_READ u1" "\<not> mpu_acc_vio (ciu_ctrl_in M q u1)" "\<not> ext_acc_vio_r (u_ciu_ctrl u1)"
    "\<not> other_error_r (u_ciu_ctrl u1)" "kept tags u u1" "gclk gated q u" "no_reply (ciu_outputs M q u)"
    "ciu_mem_en (ciu_ctrl_in M q u) (u_ciu_ctrl u)" "ciu_mem_we (ciu_ctrl_in M q u) (u_ciu_ctrl u) = 0"
    "ciu_mem_addr (ciu_routing (ciu_ctrl_in M q u) (u_ciu_ctrl u)) = line_low a"
    "ciu_vtag_comp_r u1" "cache_tag_r u1 = cache_tag_of a"
    "m_tag_q M (u_tags u1) = ways (tag_sets tags u (cache_set_idx_of a))"
proof -
  have c: "ctl_at CIU_RREAD (u_ciu_ctrl u)" using assms(1) by (simp add: phase_def)
  have x: "cmu_sinc_state_i (ciu_ctrl_in M q u) = CACHE_ACTIVE" using assms(3) by simp
  note r = ctl_read_again [OF c phase_still [OF assms(1,2)] x] and q = quiet_calm [OF assms(2)]
  show g: "gclk gated q u" by (rule phase_gclk [OF assms(1)]) simp
  show "phase CIU_MEM_READ u1" unfolding u1 by (rule phase_clock [OF assms(1) q g r(1)])
  show "kept tags u u1" unfolding u1 by (rule kept_clock [OF assms(1) q r(8)])
  show "no_reply (ciu_outputs M q u)" by (rule no_reply_outputs [OF assms(1)]) simp_all
  show e: "\<not> ext_acc_vio_r (u_ciu_ctrl u1)" "\<not> other_error_r (u_ciu_ctrl u1)"
    "ciu_mem_en (ciu_ctrl_in M q u) (u_ciu_ctrl u)" "ciu_mem_we (ciu_ctrl_in M q u) (u_ciu_ctrl u) = 0"
    "ciu_mem_addr (ciu_routing (ciu_ctrl_in M q u) (u_ciu_ctrl u)) = line_low a"
    using r assms(5) by (simp_all add: u1 clock_on(1) [OF g])
  have "\<not> mpu_checking u1" using r(7) protection_clock(1) [OF q, of M gated u] by (simp add: u1)
  then show "\<not> mpu_acc_vio (ciu_ctrl_in M q u1)" using e(1) by (simp add: no_violation)
  from lookup_clock [OF assms(1) q g r(9,8) u1] r(11) assms(5)
  show "ciu_vtag_comp_r u1" "cache_tag_r u1 = cache_tag_of a"
    "m_tag_q M (u_tags u1) = ways (tag_sets tags u (cache_set_idx_of a))"
    by (simp_all add: cache_tag_def cache_set_idx_def tag_sets_def)
qed

lemma kept_sets: "kept tags u u' \<Longrightarrow> tag_sets tags u' = tag_sets tags u \<and> regf_of u' = regf_of u"
  by (simp add: kept_def tag_sets_def)

lemma hit_way:
  assumes "holds_blocks c xmem f" "cache_tag_of a \<in> set (vtag_content (c (cache_set_idx_of a)))"
  obtains w where "vtag_hit True (cache_tag_of a) (ways (c (cache_set_idx_of a))) = (True, w)"
    "lane 32 (unat w) (f (line_low a)) = xmem a"
proof -
  let ?s = "c (cache_set_idx_of a)"
  have wf: "vtag_wf ?s" using assms(1) by (simp add: holds_blocks_def)
  obtain w where w: "vtag_hit True (cache_tag_of a) (ways ?s) = (True, w)"
    using assms(2) vtag_hit_wf(2) [OF wf, of "cache_tag_of a"] by (metis prod.collapse)
  then have "valid_way ?s (unat w) (cache_tag_of a)" using vtag_hit_wf(1) [OF wf] by (simp add: valid_way_def)
  then have "lane 32 (unat w) (f (line_low a)) = xmem a"
    using assms(1) unat_2_less [of w] by (simp add: holds_blocks_def)
  with w show thesis by (rule that)
qed

text \<open>A read that misses: the fetch, and the read of the fetched word.\<close>

lemma fetching_ext:
  assumes "quiet_ext q" "cmu_sinc_state_i (cpu_side q) = CACHE_ACTIVE"
  shows "waiting_ext (fetching q)" "cmu_sinc_state_i (cpu_side (fetching q)) = CACHE_ACTIVE"
  using assms by (simp_all add: fetching_def quiet_defs calm_ext_def)

lemma miss_run:
  assumes "phase CIU_CACHE_MISS u" "ciu_mem_write_r (u_ciu_ctrl u)" "\<not> mpu_checking u" "quiet_ext q"
    "cmu_sinc_state_i (cpu_side q) = CACHE_ACTIVE" "ready (u_ram_wrapper u)"
    and f: "\<And>a. near a (cells (u_ram u) a) (f a)"
    and a: "a = cpu_mem_addr_r (u_ciu_ctrl u)"
    and c: "holds_blocks (tag_sets tags u) xmem f" "cache_tag_of a \<notin> set (vtag_content (tag_sets tags u (cache_set_idx_of a)))"
    and run: "ciu_run M gated (fetch_block xmem (fetching q) a 128 @ [fetch_done (fetching q), q, q, q, q]) u = (os, u')"
  shows "unit_rest u' \<and> caches cells tags xmem u' \<and> reply_of os = Data (xmem a) \<and> regf_of u' = regf_of u \<and>
    tag_sets tags u' = snd (cache_read (tag_sets tags u) a)"
proof -
  let ?s = "cache_set_idx_of a" and ?t = "cache_tag_of a"
  let ?c = "(tag_sets tags u)(?s := vtag_update ?t (tag_sets tags u ?s))"
  obtain os1 u1 where r1: "ciu_run M gated (fetch_block xmem (fetching q) a 128) u = (os1, u1)" by (cases rule: prod.exhaust)
  define u2 where "u2 = ciu_clock M gated (fetch_done (fetching q)) u1"
  define u3 where "u3 = ciu_clock M gated q u2"
  obtain os3 where r3: "ciu_run M gated [q, q, q] u3 = (os3, u')"
    and os: "os = os1 @ ciu_outputs M (fetch_done (fetching q)) u1 # ciu_outputs M q u2 # os3"
    using run unfolding ciu_run_append r1 by (auto simp: u2_def u3_def)
  note w = fetching_ext [OF assms(4,5)]
  from fill_run [OF assms(1-3) w assms(6) f a r1] obtain f' where p: "phase CIU_CACHE_MISS u1" "\<not> mpu_checking u1"
    "ready (u_ram_wrapper u1)" "cpu_mem_addr_r (u_ciu_ctrl u1) = a" "kept tags u u1" "list_all no_reply os1"
    and f': "\<And>a. near a (cells (u_ram u1) a) (f' a)"
    and l: "\<And>ln j. j < 4 \<Longrightarrow> lane 32 j (f' ln) = (if j = unat (u_vtag_ret u ?s) \<and> (\<exists>k<128. ln = line_at ?s k)
       then xmem (full_addr ?t ln) else lane 32 j (f ln) :: u32)" by blast
  have h: "holds_blocks ?c xmem f'"
    by (rule holds_blocks_refill [OF c(1) refl refl c(2)]) (simp add: l tag_sets_def)
  note d = complete_fetch [OF p(1) w p(2-4) u2_def]
  have c2: "tag_sets tags u2 = ?c" using d(8) kept_sets [OF p(5)] by simp
  note e = read_again [OF d(1) assms(4,5) d(3,2) u3_def]
  have new: "?t \<in> set (vtag_content (?c ?s))"
    using vtag_update_content(2) [OF _ c(2)] c(1) by (simp add: holds_blocks_def)
  obtain y where y: "vtag_hit True ?t (ways (?c ?s)) = (True, y)" "lane 32 (unat y) (f' (line_low a)) = xmem a"
    by (rule hit_way [OF h new])
  have "\<not> vtag_parity_error True (ways (?c ?s))" using vtag_update_content(1) [OF _ c(2)] c(1) by (intro vtag_no_parity_error) (simp add: holds_blocks_def)
  then have par: "\<not> vtag_parity_error (ciu_vtag_comp_r u3) (m_tag_q M (u_tags u3))"
    and hit: "vtag_hit (ciu_vtag_comp_r u3) (cache_tag_r u3) (m_tag_q M (u_tags u3)) = (True, y)"
    using y(1) by (simp_all add: e(11-13) c2)
  have f2: "near b (cells (u_ram u2) b) (f' b)" for b using f' [of b] d(5) by simp
  note z = deliver [OF u3_def e(6) d(4) f2 d(1) quiet_calm [OF assms(4)] e(8-10) e(1) assms(4) e(2-4) assms(5) par hit r3]
  have k: "tag_sets tags u' = ?c \<and> regf_of u' = regf_of u"
    using kept_sets [OF kept_trans [OF e(5) z(2)]] c2 d(7) kept_sets [OF p(5)] by simp
  then have "caches cells tags xmem u'" using z(4) h unfolding caches_def by metis
  moreover have "reply_of os = Data (xmem a)"
    using z(3) y(2) p(6) d(6) e(7) by (simp add: os reply_of_append)
  moreover have "snd (cache_read (tag_sets tags u) a) = ?c"
    using c vtag_access_eq by (simp add: cache_read_def holds_blocks_def Let_def)
  ultimately show ?thesis using k z(1) by simp
qed

lemma serve_read:
  assumes "unit_rest u" "quiet_ext q" "cmu_sinc_state_i (cpu_side q) = CACHE_ACTIVE" "\<not> rq_we rq" "caches cells tags xmem u"
    and run: "serve M gated xmem q rq u = (a, u')"
    and step: "cached_step (regf_of u) xmem q rq (tag_sets tags u) = (b, c')"
  shows "unit_rest u' \<and> caches cells tags xmem u' \<and> a = b \<and> tag_sets tags u' = c' \<and> regf_of u' = regf_of u"
proof -
  let ?x = "rq_addr rq" and ?c = "tag_sets tags u"
  define u1 where "u1 = ciu_clock M gated (ask rq q) u"
  define u2 where "u2 = ciu_clock M gated q u1"
  define u3 where "u3 = ciu_clock M gated q u2"
  have serve: "serve M gated xmem q rq u = (let (os', u') = ciu_run M gated
      (if fetch_req_out (ciu_outputs M q u2)
       then fetching q # fetch_block xmem (fetching q) (block_addr_out (ciu_outputs M q u2)) 128 @ [fetch_done (fetching q), q, q, q, q]
       else [q, q]) u2
      in (reply_of ([ciu_outputs M (ask rq q) u, ciu_outputs M q u1] @ os'), u'))"
    by (simp add: serve_def u1_def u2_def)
  from assms(5) obtain f where f: "\<And>a. near a (cells (u_ram u) a) (f a)" and h: "holds_blocks ?c xmem f"
    by (auto simp: caches_def)
  have wf: "vtag_wf (?c s)" for s using h by (simp add: holds_blocks_def)
  have nf: "cmu_sinc_state_i (cpu_side q) \<noteq> CACHE_FAILED" using assms(3) by simp
  note s = start_read [OF assms(1,2) nf assms(4) u1_def] and lk = start_lookup [OF assms(1-4) u1_def]
  have rdy: "ready (u_ram_wrapper u)" "phase CIU_IDLE u" using assms(1) by (simp_all add: unit_rest_def)
  have q: "calm_ext (ask rq q)" "calm_ext q" using assms(2) by (simp_all add: quiet_defs)
  have ln: "ciu_mem_addr (ciu_routing (ciu_ctrl_in M (ask rq q) u) (u_ciu_ctrl u)) = line_low ?x" using s(11) assms(3) by simp
  obtain os3 where r3: "ciu_run M gated [q, q, q] u1 = ([ciu_outputs M q u1, ciu_outputs M q u2] @ os3, ciu_clock M gated q u3)"
    and os3: "ciu_run M gated [q, q] u2 = (ciu_outputs M q u2 # os3, ciu_clock M gated q u3)"
    by (simp add: u2_def u3_def)
  have par: "\<not> vtag_parity_error (ciu_vtag_comp_r u1) (m_tag_q M (u_tags u1))"
    using vtag_no_parity_error [OF wf] lk by simp
  show ?thesis
  proof (cases "rq_allowed (regf_of u) q rq")
    case False
    with s(7) have v: "mpu_acc_vio (ciu_ctrl_in M q u1)" by simp
    note z = refuse [OF u1_def s(6) rdy(1) f rdy(2) q(1) s(9,10,1) assms(2) v r3]
    have "serve M gated xmem q rq u = (Refused, ciu_clock M gated q u3)"
      using z(3,5) s(8) os3 by (simp add: serve)
    with z False step h run kept_sets [OF kept_trans [OF s(5) z(2)]] show ?thesis
      by (auto simp: cached_step_def caches_def)
  next
    case allowed: True
    with s(7) have v: "\<not> mpu_acc_vio (ciu_ctrl_in M q u1)" by simp
    show ?thesis
    proof (cases "cache_tag_of ?x \<in> set (vtag_content (?c (cache_set_idx_of ?x)))")
      case True
      obtain w where w: "vtag_hit True (cache_tag_of ?x) (ways (?c (cache_set_idx_of ?x))) = (True, w)"
        "lane 32 (unat w) (f (line_low ?x)) = xmem ?x" by (rule hit_way [OF h True])
      have hit: "vtag_hit (ciu_vtag_comp_r u1) (cache_tag_r u1) (m_tag_q M (u_tags u1)) = (True, w)"
        using w(1) lk by simp
      note z = deliver [OF u1_def s(6) rdy(1) f rdy(2) q(1) s(9,10) ln s(1) assms(2) v s(3,4) assms(3) par hit r3]
      have "serve M gated xmem q rq u = (Data (xmem ?x), ciu_clock M gated q u3)"
        using z(3,5) s(8) os3 w(2) by (simp add: serve)
      moreover have "snd (cache_read ?c ?x) = ?c" using vtag_access_eq [OF wf] True by (simp add: cache_read_def)
      ultimately show ?thesis
        using z allowed step h run assms(4) kept_sets [OF kept_trans [OF s(5) z(2)]]
        by (auto simp: cached_step_def caches_def)
    next
      case False
      note d = decide_read [OF s(1) assms(2) v s(3,4) assms(3) par refl u2_def]
      have "\<not> fst (vtag_hit (ciu_vtag_comp_r u1) (cache_tag_r u1) (m_tag_q M (u_tags u1)))"
        using vtag_hit_wf(2) [OF wf] False lk by simp
      with d(7) s(2) have m: "phase CIU_CACHE_MISS u2" "ciu_mem_write_r (u_ciu_ctrl u2)" "ciu_block_fetch_req_r (u_ciu_ctrl u2)"
        "cpu_mem_addr_r (u_ciu_ctrl u2) = ?x" by simp_all
      note w = fetching_ext [OF assms(2,3)]
      then have x: "calm_ext (fetching q)" "\<not> cpu_mem_en (cpu_side (fetching q))"
        "\<not> cmu_block_fetch_comp_i (cpu_side (fetching q))" "\<not> cmu_mem_we (cpu_side (fetching q))"
        by (simp_all add: waiting_ext_def)
      define v where "v = ciu_clock M gated (fetching q) u2"
      note n = refill_clock [OF m(1,2) d(5) x(1-3) w(2) v_def]
      have en: "\<not> ciu_mem_en (ciu_ctrl_in M (fetching q) u2) (u_ciu_ctrl u2)" using n(8) x(4) by simp
      note sl = memory_slot [OF u1_def u2_def v_def s(6) d(2) n(6) rdy(1) f rdy(2) q(1) s(1) q(2) m(1) x(1) s(9) d(4) en
        refl refl refl, unfolded s(10), simplified]
      have k: "tag_sets tags v = ?c" "regf_of v = regf_of u"
        using kept_sets [OF kept_trans [OF kept_trans [OF s(5) d(1)] n(5)]] by simp_all
      obtain os' where r: "ciu_run M gated (fetch_block xmem (fetching q) ?x 128 @ [fetch_done (fetching q), q, q, q, q]) v = (os', u')"
        and a: "a = reply_of ([ciu_outputs M (ask rq q) u, ciu_outputs M q u1, ciu_outputs M (fetching q) u2] @ os')"
        using run m(3,4) unfolding serve v_def by (auto simp: ciu_outputs_def Let_def split: prod.splits)
      have ad: "?x = cpu_mem_addr_r (u_ciu_ctrl v)" using n(4) m(4) by simp
      from miss_run [OF n(1-3) assms(2,3) sl(1) sl(2) ad, unfolded k, OF h False r]
      show ?thesis using a s(8) d(3) n(7) allowed assms(4) step by (auto simp: cached_step_def)
    qed
  qed
qed

lemma cached_slot:
  assumes "unit_rest u" "quiet_ext q" "cmu_sinc_state_i (cpu_side q) = CACHE_ACTIVE" "rq_ok rq" "caches cells tags xmem u"
    and run: "serve M gated xmem q rq u = (a, u')"
    and step: "cached_step (regf_of u) xmem q rq (tag_sets tags u) = (b, c')"
  shows "unit_rest u' \<and> caches cells tags xmem u' \<and> a = b \<and> tag_sets tags u' = c' \<and> regf_of u' = regf_of u"
proof (cases "rq_we rq")
  case False
  show ?thesis by (rule serve_read [OF assms(1-3) False assms(5-7)])
next
  case True
  define u1 where "u1 = ciu_clock M gated (ask rq q) u"
  define u2 where "u2 = ciu_clock M gated q u1"
  define u3 where "u3 = ciu_clock M gated q u2"
  let ?os = "[ciu_outputs M (ask rq q) u, ciu_outputs M q u1, ciu_outputs M q u2, ciu_outputs M q u3]"
  have r: "ciu_run M gated [ask rq q, q, q, q] u = (?os, ciu_clock M gated q u3)"
    by (simp add: u1_def u2_def u3_def)
  have "cmu_sinc_state_i (cpu_side q) = CACHE_FAILED \<or> cmu_sinc_state_i (cpu_side q) = CACHE_ACTIVE \<and> rq_we rq"
    using assms(3) True by simp
  note z = forbidden_slot [OF assms(1,2,4) this r]
  have "serve M gated xmem q rq u = (reply_of ?os, ciu_clock M gated q u3)"
    using z(5) by (simp add: serve_def u1_def u2_def u3_def numeral_2_eq_2)
  with run step True z assms(5) kept_sets [OF z(2)] show ?thesis by (auto simp: cached_step_def caches_def)
qed

lemma cached_accesses:
  assumes "unit_rest u" "quiet_ext q" "cmu_sinc_state_i (cpu_side q) = CACHE_ACTIVE" "list_all rq_ok rqs" "caches cells tags xmem u"
    and "serve_run M gated xmem q rqs u = (as, u')"
    and "cached_run (regf_of u) xmem q rqs (tag_sets tags u) = (bs, c')"
  shows "as = bs \<and> unit_rest u' \<and> caches cells tags xmem u' \<and> tag_sets tags u' = c'"
  using assms(1,4-)
proof (induction rqs arbitrary: u as bs)
  case (Cons rq rqs)
  obtain a u1 where r: "serve M gated xmem q rq u = (a, u1)" by (cases rule: prod.exhaust)
  obtain b c1 where s: "cached_step (regf_of u) xmem q rq (tag_sets tags u) = (b, c1)" by (cases rule: prod.exhaust)
  obtain as1 where as: "serve_run M gated xmem q rqs u1 = (as1, u')" "as = a # as1"
    using Cons.prems(4) r by (auto simp: Let_def split: prod.splits)
  obtain bs1 where bs: "cached_run (regf_of u) xmem q rqs c1 = (bs1, c')" "bs = b # bs1"
    using Cons.prems(5) s by (auto simp: Let_def split: prod.splits)
  have "rq_ok rq" "list_all rq_ok rqs" using Cons.prems(2) by simp_all
  with cached_slot [OF Cons.prems(1) assms(2,3) _ Cons.prems(3) r s]
  have *: "unit_rest u1" "caches cells tags xmem u1" "a = b" "tag_sets tags u1 = c1" "regf_of u1 = regf_of u" by auto
  have "cached_run (regf_of u1) xmem q rqs (tag_sets tags u1) = (bs1, c')" using bs(1) * by simp
  from Cons.IH [OF *(1) \<open>list_all rq_ok rqs\<close> *(2) as(1) this] *(3) as(2) bs(2) show ?case by simp
qed simp

end

section \<open>The cache is transparent\<close>

text \<open>C2: the cache is transparent. With the cache active, any memory macros that behave as synchronous memories, and
  a cache management unit that answers each fetch with the words of the requested block, every sequence of
  requests is answered as by the external memory itself: a permitted read delivers the word at its
  address, whether it hits, misses or replaces another block, and a write or a read that is not permitted is
  answered by a violation. Meanwhile the tag store goes through the states of \<open>cache_read\<close>, on which the
  predictions of the tests rest.\<close>

theorem cache_is_transparent:
  assumes "ciu_memories M cells tags" and "unit_rest u" and "quiet_ext q"
    and "cmu_sinc_state_i (cpu_side q) = CACHE_ACTIVE" and "list_all rq_ok rqs" and "caches cells tags xmem u"
    and "serve_run M gated xmem q rqs u = (as, u')"
    and "cached_run (regf_of u) xmem q rqs (tag_sets tags u) = (bs, c')"
  shows "as = bs \<and> unit_rest u' \<and> caches cells tags xmem u' \<and> tag_sets tags u' = c'"
  by (rule ciu_memories.cached_accesses [OF assms])

lemma erased_caches: "caches fst simple_tag_rows xmem ciu_unit_reset"
proof -
  have "tag_sets simple_tag_rows ciu_unit_reset = (\<lambda>_. erased_set 0)"
    by (simp add: tag_sets_def simple_tag_rows_def ciu_unit_reset_def erased_set_def map_replicate_const)
  then have "holds_blocks (tag_sets simple_tag_rows ciu_unit_reset) xmem (\<lambda>_. 0)"
    using erased_set_wf(1) [of 0] by (simp add: holds_blocks_def valid_way_def) (simp add: erased_set_def erased_entry_def)
  then show ?thesis unfolding caches_def using ciu_unit_reset_facts(1) by (intro exI [of _ "\<lambda>_. 0"]) blast
qed

theorem cache_is_transparent_witness:
  "fst (serve_run simple_macros True ucast (ciu_ext_quiet CACHE_ACTIVE) [load 0x123456, load 0x123456, store 7 1]
    ciu_unit_reset) = [Data 0x123456, Data 0x123456, Refused]"
proof -
  let ?q = "ciu_ext_quiet CACHE_ACTIVE" and ?rqs = "[load 0x123456, load 0x123456, store 7 1]"
  let ?c = "tag_sets simple_tag_rows ciu_unit_reset"
  obtain as u' where r: "serve_run simple_macros True ucast ?q ?rqs ciu_unit_reset = (as, u')"
    by (cases rule: prod.exhaust)
  obtain bs c' where s: "cached_run (\<lambda>_. ATTRIB_RESET) ucast ?q ?rqs ?c = (bs, c')" by (cases rule: prod.exhaust)
  have "rq_allowed (\<lambda>_. ATTRIB_RESET) ?q (load 0x123456)" by code_simp
  then have eval: "fst (cached_run (\<lambda>_. ATTRIB_RESET) ucast ?q ?rqs ?c) = [Data 0x123456, Data 0x123456, Refused]"
    by (simp add: cached_step_def Let_def split: prod.splits) (simp add: load_def store_def)
  have "list_all rq_ok ?rqs" by (simp add: rq_ok_def store_def load_def)
  then have "as = bs"
    using cache_is_transparent [OF simple_unit.ciu_memories_axioms ciu_unit_reset_rest _ _ _ erased_caches r,
      unfolded ciu_unit_reset_facts(2), OF _ _ _ s] by simp
  with eval show ?thesis unfolding r s by (simp only: fst_conv)
qed

end
