(* ===== verification/Spec2Isabelle.thy ===== *)
theory Spec2Isabelle
  imports Suite CmuCtrl RamWrapper AesDatapath CmuFifo CiuCache
begin

text \<open>
  \<^bold>\<open>Open SInC.\<close> SInC is a secure instruction cache: a processor executes code from an external memory
  whose blocks of 512 bytes are encrypted and authenticated, and the cache fetches, checks and
  decrypts a block on a miss. The repository holds the hardware in SystemVerilog (\<open>src/src\<close>), a UVM test
  bench (\<open>src/verif/l1\<close>) and 34 directed tests in C (\<open>src/verif/l3/<test>/<test>.c\<close>, \<open>params.h\<close>). The C
  code is the firmware side: each test programs the registers, issues commands, reads and writes
  memory, predicts what the cache does, and reports a verdict. This development models all 34 tests
  and the parts of the hardware whose behaviour the tests predict, and relates the two.

  \<^bold>\<open>The boundary.\<close> The tests call driver classes (\<open>SINC_DRIVER\<close>, \<open>DMB_DRIVER\<close>, \<open>CCS_DRIVER\<close>, ...) and a
  board library that are not in the repository. In \<open>Platform\<close> every such call is a constructor of
  the type \<open>call\<close>; what a call does is the parameter \<open>platform\<close> of every test, and the values of the
  constants of missing headers are the parameter \<open>config\<close>. A test is a computation of the state
  monad over the state of the platform, the log of calls and an execution status; \<open>return\<close> from
  \<open>RUN_TEST\<close>, the endless loop before a reset, undefined behaviour of C and the end of the fuel of a
  polling loop are values of the status. Results about all platforms need no assumption on the
  drivers; results about data name what they need of them as a locale (\<open>ram\<close>, \<open>cached_memory\<close>,
  \<open>register_file\<close>, \<open>reset_counter\<close>, \<open>attribute_pages\<close>), and each locale is interpreted on a platform built
  from the model of the memory, the tag store, the registers, the reset counter or the protection unit
  around an arbitrary rest. The memory macros of the hardware are not in the repository either: the
  locales \<open>sync_ram\<close>, \<open>tag_ram\<close> and \<open>ciu_memories\<close> name what the hardware needs of them, and each is
  interpreted on a plain synchronous memory. The locales \<open>fifo_set\<close>, \<open>linear_code\<close> and \<open>word_queue\<close> are
  contracts that two parts of the program share.

  \<^bold>\<open>Theories.\<close>
  \<^item> \<open>Prelude\<close>: machine integers, bit masks, the collections of facts.
  \<^item> \<open>Platform\<close>: constants, calls, programs, loops with fuel.
  \<^item> \<open>Verdict\<close>: honest verdicts, the judgement \<open>acct\<close> (the error counter equals the failures logged), the
    judgement \<open>triple\<close> (partial correctness with the status), the judgement \<open>runs\<close> (a contract with one
    postcondition for a run that goes on and one for a run that stops), the judgement \<open>safe\<close> (no undefined
    behaviour); one rule per statement form, applied by the collections of the prelude.
  \<^item> \<open>TestCommon\<close>: the blocks that are repeated in the tests, the choice of random blocks.
  \<^item> \<open>TestsMem\<close>: \<open>iram_mem_access\<close>, \<open>partial_word_mem_access_iram\<close>, the memory accesses in the disabled and
    the initialized state.
  \<^item> \<open>TestsState\<close>: the tests of the command state machine, of errors, keys and register access.
  \<^item> \<open>TestsReset\<close>: the tests that cross a reset, an erase or a gate; the reset count of successive boots.
  \<^item> \<open>FifoCache\<close>: the contract of one set of the cache, interpreted for the tables of the tests
    (\<open>Predictor\<close>, from \<open>check_hit\<close> of \<open>sinc_performance_counter_check.c\<close> and
    \<open>sinc_onoff_ret_check_active.c\<close>) and for the tag store of the hardware (\<open>Vtag\<close>, from
    \<open>sinc_ciu_vtag.sv\<close>, \<open>sinc_ciu_vtag_ret.sv\<close> and the read path of \<open>sinc_ciu_ctrl.sv\<close>); \<open>Agreement\<close> puts
    both side by side, including the decoding of addresses.
  \<^item> \<open>TestsPerf\<close>, \<open>TestsCache\<close>, \<open>TestsAes\<close>, \<open>TestsOnOff\<close>: the tests of the performance counters, of the
    working cache, of the AES test mode and of the retention.
  \<^item> \<open>CmuRegs\<close>: configuration registers, command filter and performance counters of the hardware
    (\<open>sinc_regs.sv\<close>, \<open>sinc_cmu_reg_ctrl.sv\<close>, \<open>sinc_cmu_reg_ctrl_ret.sv\<close>).
  \<^item> \<open>CmuCtrl\<close>: the controller (\<open>sinc_cmu_ctrl.sv\<close>, \<open>sinc_cmu_ctrl_ret.sv\<close>) with its encodings, one clock of
    the controller and of the path of a command into it, the reachable states and the specification of
    the states of the SInC.
  \<^item> \<open>Suite\<close>: the entry points of all tests, and the statement about the verdicts of all of them.
  \<^item> \<open>Mpu\<close>: the memory protection unit (\<open>hsp_mpu.sv\<close>, \<open>mpu_regs.sv\<close>, \<open>mpu_wrapper.sv\<close>).
  \<^item> \<open>RamEcc\<close>, \<open>RamWrapper\<close>: the error codes (\<open>secded_enc.sv\<close>, \<open>secded_dec.sv\<close>, \<open>edc_gen.sv\<close>) and the
    wrapper of the cache memory (\<open>ram_wrapper.sv\<close>, \<open>mem_rmw.sv\<close>, \<open>mem_erase.sv\<close>).
  \<^item> \<open>AesField\<close>, \<open>AesDatapath\<close>: the tower field and the data path of the AES core (\<open>src/src/aes/rtl\<close>).
  \<^item> \<open>CmuFifo\<close>: the two buffers of the crypto wrapper (\<open>sinc_cmu_fifo.sv\<close>).
  \<^item> \<open>Ciu\<close>: the controller of the cache interface unit (\<open>sinc_ciu_ctrl.sv\<close>).
  \<^item> \<open>CiuTop\<close>, \<open>CiuMemory\<close>, \<open>CiuCache\<close>: the unit (\<open>sinc_ciu.sv\<close>) composed of its controller, the tag store,
    the protection unit and the memory wrapper behind the clock gate; the unit as a memory of words, and
    as a cache.
  \<^item> this theory: what the retention tests expect, against the reset of the hardware's power domain.

  \<^bold>\<open>What is shown.\<close>
  \<^item> \<^emph>\<open>Prediction.\<close> The tables of the tests and the tag store both implement a four-entry first-in
    first-out set; on every sequence of reads they agree on hits and misses, so that the counter checks of
    the performance tests and of the retention test pass on a cached memory; the reads in
    the log of a round of \<open>sinc_auth_tag_mismatch\<close> evict the block they mean to evict. A single upset of an entry never makes
    another block hit, and an erase takes 128 clocks.
  \<^item> \<^emph>\<open>Verdicts.\<close> For every test and every platform, \<open>HW_TEST_FAIL\<close> is reported only after a failure
    and \<open>HW_TEST_PASS\<close> only when the failures counted modulo \<open>2 ^ 32\<close> are zero. Where a test drops
    results, the statement names the messages that are left out, and further theorems show, for all
    platforms of the kind they describe, that the test passes although its checks fail.
  \<^item> \<^emph>\<open>Termination and bounds.\<close> Sweeps, random choices and sequences of boots end; arrays and divisions
    are safe up to the stated sizes, and the size from which they are not is exhibited.
  \<^item> \<^emph>\<open>Protocols.\<close> The commands of the AES test mode are runs of the automaton of the documented sequence, up to
    the position of the mode parameters, in which the tests and the document differ; three tests leave the
    status unread.
  \<^item> \<^emph>\<open>State machine.\<close> The controller implements the specification of the states over all reachable
    states; a fault leads to the failed state in two clocks and erases the nonce; with the reset disabled
    a failure is final; a reset completes; upsets of the state registers are detected (a lemma); registers can be
    written exactly in the states in which the test expects it; counters saturate.
  \<^item> \<^emph>\<open>Cache interface unit.\<close> Its controller keeps a consistent set of registers under all inputs. While the
    cache is not active, the unit answers every sequence of requests as a protected memory of words with
    byte enables; with the cache active, it answers every sequence of reads as the external memory does,
    whether a read hits, misses or replaces a block, and its tag store goes through the states of
    \<open>cache_read\<close>, the function that \<open>Agreement\<close> compares with the tests. A read that was accepted
    while the previous access ended and then meets the failed state is not answered, although the
    comment of the source announces a violation.
  \<^item> \<^emph>\<open>Protection.\<close> The unit permits exactly what the table of pages permits; locked pages stay as they
    are until a reset; the tests of the pages read back what they wrote.
  \<^item> \<^emph>\<open>Memory.\<close> One flipped bit of a stored word is corrected and two are reported; the wrapper implements a
    memory with byte enables, does not write to a line that it cannot correct, and its erase ends.
  \<^item> \<^emph>\<open>AES and buffers.\<close> The data path computes the cipher and the inverse cipher of FIPS 197 over given
    round keys; the buffers deliver the words in the order in which they were pushed.

  \<^bold>\<open>Fuel and bounds.\<close> A loop of the tests that polls or draws again runs for at most \<open>fuel cfg\<close> rounds
  and then sets the status \<open>Out_of_fuel\<close>. Theorems that need such a loop to end state how much fuel is
  enough: the length of the sweep for \<open>iram_mem_access\<close>, the number of draws until a fresh or a
  different value for the random choices. The remainder by \<open>SSY_HSP_KSU_NUM_KEYS\<close>, the number of key slots of the
  build, is taken as it is written; a divisor that depends on the parameters of a test is checked for zero. The reachable states of \<open>CmuCtrl\<close> exclude a write of the command
  register in the clock that follows a write of it; this is assumed of the bus adapter (\<open>axi_sub.v\<close>),
  which is not modelled and takes single accesses only. The two results about the cache interface unit
  hold a request for one clock and look at the answer over the clocks of that request: four clocks
  without a fetch, and as many more as the environment needs for a fetch. That environment, \<open>serve\<close> of
  \<open>CiuCache\<close>, stands for the cache management unit: it is busy from the request on and answers a fetch with the 128 words of
  the block in order, one in three clocks, which leaves the memory wrapper the time of a read-modify-write.

  \<^bold>\<open>Not modelled.\<close> The drivers and the board library are outside the repository. Messages of the tests
  keep their arguments and lose their text; \<open>loop_count\<close> of \<open>params.h\<close> is not used by the tests. Of the
  hardware the following is left out: the bus adapters and the DMA, the sequencing of the crypto wrapper
  and the modes of AES (\<open>aes_mode.v\<close>, \<open>gp_aes\<close>), so that the decryption and the authentication of a block
  during a fetch are part of the environment; the key expansion (\<open>aes_keyexp.v\<close>); the registers of the AES
  test mode; the standard cells other than the clock gate; and the variants that \<open>sinc_ciu.sv\<close> does not
  instantiate (a protection unit of one cycle, a tag store of flops, the options of the memory wrapper that
  are off). The UVM test bench has no C code.

  \<^bold>\<open>Open.\<close> What would extend the development most: the crypto wrapper's sequencing of a block fetch, which
  would replace the environment of \<open>CiuCache\<close>; the key expansion; the registers of the AES test mode, to
  which the sequence of \<open>TestsAes\<close> could be compared.
\<close>

section \<open>Retention\<close>

text \<open>The part of the recorded registers that the model of the hardware holds: all up to the counters.\<close>

lemma recorded_16:
  "i < 16 \<Longrightarrow> i \<in> {0, 1, 2, 3, 4, 5, 6, 7, 8, 9, 10, 11, 12, 13, 14, 15 :: nat}"
  by (simp add: eval_nat_numeral less_Suc_eq)

lemma low_status:
  "(push_bit 10 x OR push_bit 9 (of_bool b) OR push_bit 8 (of_bool c) OR ucast (st :: u8)) AND (0x3ff :: u32) =
    push_bit 9 (of_bool b) OR push_bit 8 (of_bool c) OR ucast st"
proof -
  have m: "(0x3ff :: u32) = mask 10" by (simp add: mask_eq_exp_minus_1)
  show ?thesis
    unfolding m by (rule bit_eqI) (auto simp: bit_simps dest: bit_imp_le_length)
qed

text \<open>C13: the retention tests expect of the power gate what the hardware does. Whatever the registers
  hold, after the power gate each of the first sixteen recorded registers (the configuration, the
  status and the counters) reads as \<open>check_all_sinc_regs\<close> expects it from the values recorded before.\<close>

theorem power_gate_retains:
  assumes "i < 16"
  shows "csr_rdata (cmu_lp_reset w u) (recorded_regs ! i) =
    expected_after_gate (map (csr_rdata u) recorded_regs) i"
proof -
  have "csr_rdata (cmu_lp_reset w u) R_status = csr_rdata u R_status AND 0x3ff"
    by (simp add: csr_rdata_def status_read_def low_status)
      (simp add: cmu_lp_reset_def ctrl_lp_reset_def numeral_eq_Suc)
  with recorded_16 [OF assms] show ?thesis
    by (elim insertE emptyE) (simp_all add: recorded_regs_def expected_after_gate_def csr_rdata_def
      csr_offset_def conf_read_def cmu_lp_reset_def zero_cntrs_def)
qed

theorem power_gate_retains_witness:
  "csr_rdata (cmu_lp_reset True (cmu_reset False)) (recorded_regs ! 9) = 0 \<and>
   csr_rdata (cmu_lp_reset True ((cmu_reset False)\<lparr>conf := zero_conf\<lparr>aes_iv_nonce_0 := 0xdead\<rparr>\<rparr>))
     (recorded_regs ! 4) = 0xdead"
  using power_gate_retains [of 9 True "cmu_reset False"]
    power_gate_retains [of 4 True "(cmu_reset False)\<lparr>conf := zero_conf\<lparr>aes_iv_nonce_0 := 0xdead\<rparr>\<rparr>"]
  by (simp add: expected_after_gate_def recorded_regs_def csr_rdata_def csr_offset_def conf_read_def
    status_read_def cmu_reset_def zero_conf_def DISABLED_def numeral_eq_Suc)

end
